(* ===== verification/Prelude.thy ===== *)
theory Prelude
  imports Complex_Main "HOL-Library.Word" "HOL-Library.AList" "HOL-Library.Signed_Division"
begin

text \<open>
  Shared vocabulary of the development.

  \<^item> Exceptions: every \<^verbatim>\<open>FC_ASSERT\<close>, \<^verbatim>\<open>FC_THROW_EXCEPTION\<close> and overflow of the checked
    integers of the source is a value \<open>Inl e\<close> of a \<open>'a result\<close>; \<open>rbind\<close> is sequencing (the
    first exception wins) and \<open>ensure\<close> is \<^verbatim>\<open>FC_ASSERT\<close>.
  \<^item> Machine integers: \<open>int64\<close>, \<open>uint128\<close> and their kin name the ranges of the C++ types.
  \<^item> \<open>share_type\<close> is \<^verbatim>\<open>fc::safe<int64_t>\<close>.  The library \<^verbatim>\<open>fc\<close> is a submodule and not part of
    the repository, so its checked operators are a parameter: a record \<open>safe_ops\<close> which every
    definition that adds or subtracts amounts takes as an argument.  The locale \<open>fc_safe\<close>
    states what the code relies on: an operator returns the exact result when that result is a
    64-bit signed integer and throws otherwise.
\<close>

section \<open>Exceptions\<close>

datatype fc_exception =
    Assert_exception
  | Overflow_exception
  | Unlinkable_block_exception
  | Undo_database_exception
  | Not_found_exception
  | Tx_missing_active_auth
  | Tx_missing_owner_auth
  | Tx_missing_other_auth
  | Tx_irrelevant_sig
  | Insufficient_fee_exception
  | Bad_rational
  | Invalid_committee_approval
  | Tx_duplicate_sig
  | Undefined_behaviour
  | Transfer_from_account_not_whitelisted
  | Transfer_to_account_not_whitelisted
  | Transfer_restricted_transfer_asset
  | Override_transfer_not_permitted
  | Black_swan_exception
  | Insufficient_feeds
  | Call_order_update_unfilled_margin_call
  | Asset_reserve_invalid_on_mia
  | Max_auth_exceeded
  | Auth_account_not_found
  | Account_create_buyback_incorrect_issuer
  | Account_create_buyback_already_exists
  | Account_create_buyback_too_many_markets
  | Balance_claim_owner_mismatch
  | Balance_claim_invalid_claim_amount
  | Balance_claim_claimed_too_often

type_synonym 'a result = "fc_exception + 'a"

definition rbind :: "'a result \<Rightarrow> ('a \<Rightarrow> 'b result) \<Rightarrow> 'b result" where
  "rbind m f = (case m of Inl e \<Rightarrow> Inl e | Inr x \<Rightarrow> f x)"

definition ensure :: "bool \<Rightarrow> 'a result \<Rightarrow> 'a result" where
  "ensure b k = (if b then k else Inl Assert_exception)"

definition throw_unless :: "fc_exception \<Rightarrow> bool \<Rightarrow> 'a result \<Rightarrow> 'a result" where
  "throw_unless e b k = (if b then k else Inl e)"

fun rfold :: "('a \<Rightarrow> 's \<Rightarrow> 's result) \<Rightarrow> 'a list \<Rightarrow> 's \<Rightarrow> 's result" where
  "rfold f [] s = Inr s"
| "rfold f (x # xs) s = rbind (f x s) (rfold f xs)"

definition deref :: "'a option \<Rightarrow> 'a result" where
  "deref p = (case p of None \<Rightarrow> Inl Assert_exception | Some x \<Rightarrow> Inr x)"

section \<open>Integer ranges\<close>

definition int64 :: "int \<Rightarrow> bool" where
  "int64 x \<longleftrightarrow> - (2 ^ 63) \<le> x \<and> x < 2 ^ 63"

definition uint64 :: "int \<Rightarrow> bool" where
  "uint64 x \<longleftrightarrow> 0 \<le> x \<and> x < 2 ^ 64"

definition u128 :: "int \<Rightarrow> int" where
  "u128 x = x mod 2 ^ 128"

definition to_int64 :: "int \<Rightarrow> int" where
  "to_int64 x = signed_take_bit 63 x"

section \<open>Checked arithmetic of \<open>fc::safe<int64_t>\<close>\<close>

record safe_ops =
  safe_add :: "int \<Rightarrow> int \<Rightarrow> int result"
  safe_sub :: "int \<Rightarrow> int \<Rightarrow> int result"
  safe_mul :: "int \<Rightarrow> int \<Rightarrow> int result"
  safe_div :: "int \<Rightarrow> int \<Rightarrow> int result"
  safe_neg :: "int \<Rightarrow> int result"

definition checked64 :: "int \<Rightarrow> int result" where
  "checked64 x = (if int64 x then Inr x else Inl Overflow_exception)"

definition checked_ops :: safe_ops where
  "checked_ops = \<lparr> safe_add = (\<lambda>a b. checked64 (a + b)), safe_sub = (\<lambda>a b. checked64 (a - b)),
     safe_mul = (\<lambda>a b. checked64 (a * b)),
     safe_div = (\<lambda>a b. if b = 0 then Inl Overflow_exception else checked64 (a sdiv b)),
     safe_neg = (\<lambda>a. checked64 (- a)) \<rparr>"

named_theorems result_simps \<open>normal forms of computations that may throw\<close>

lemma rbind_Inr [simp, result_simps]: "rbind (Inr x) f = f x"
  by (simp add: rbind_def)

lemma rbind_Inl [simp, result_simps]: "rbind (Inl e) f = Inl e"
  by (simp add: rbind_def)

lemma rbind_eq_Inr [simp, result_simps]: "rbind m f = Inr y \<longleftrightarrow> (\<exists>x. m = Inr x \<and> f x = Inr y)"
  by (cases m) auto

lemma rbindE: "rbind m f = Inr y \<Longrightarrow> (\<And>x. m = Inr x \<Longrightarrow> f x = Inr y \<Longrightarrow> P) \<Longrightarrow> P"
  by auto

lemma rbind_assoc [result_simps]: "rbind (rbind m f) g = rbind m (\<lambda>x. rbind (f x) g)"
  by (cases m) auto

lemma ensure_True [simp, result_simps]: "ensure True k = k"
  by (simp add: ensure_def)

lemma ensure_False [simp, result_simps]: "ensure False k = Inl Assert_exception"
  by (simp add: ensure_def)

lemma ensure_eq_Inr [simp, result_simps]: "ensure b k = Inr y \<longleftrightarrow> b \<and> k = Inr y"
  by (simp add: ensure_def)

lemma throw_unless_eq_Inr [simp, result_simps]: "throw_unless e b k = Inr y \<longleftrightarrow> b \<and> k = Inr y"
  by (simp add: throw_unless_def)

lemma throw_unless_bool [simp, result_simps]:
  "throw_unless e True k = k" "throw_unless e False k = Inl e"
  by (simp_all add: throw_unless_def)

lemma deref_simps [simp, result_simps]: "deref (Some x) = Inr x" "deref None = Inl Assert_exception"
  by (simp_all add: deref_def)

lemma deref_eq_Inr [simp, result_simps]: "deref p = Inr x \<longleftrightarrow> p = Some x"
  by (cases p) auto

lemma rbind_cong [fundef_cong]:
  "m = m' \<Longrightarrow> (\<And>x. m' = Inr x \<Longrightarrow> f x = f' x) \<Longrightarrow> rbind m f = rbind m' f'"
  by (cases m') auto

lemma ensure_cong [fundef_cong]: "b = b' \<Longrightarrow> (b' \<Longrightarrow> k = k') \<Longrightarrow> ensure b k = ensure b' k'"
  by (simp add: ensure_def)

lemma rfold_append: "rfold f (xs @ ys) s = rbind (rfold f xs s) (rfold f ys)"
  by (induction xs arbitrary: s) (simp_all add: rbind_def split: sum.split)

text \<open>An invariant of the body of a throwing loop is an invariant of the loop.\<close>

lemma rfold_invariant:
  assumes "rfold f xs s = Inr t" and "I s"
    and step: "\<And>x s t. x \<in> set xs \<Longrightarrow> I s \<Longrightarrow> f x s = Inr t \<Longrightarrow> I t"
  shows "I t"
  using assms
proof (induction xs arbitrary: s)
  case Nil
  then show ?case by simp
next
  case (Cons x xs)
  from Cons.prems(1) obtain u where u: "f x s = Inr u" "rfold f xs u = Inr t" by auto
  have "I u" using Cons.prems(3) [of x s u] Cons.prems(2) u(1) by simp
  with Cons.IH [OF u(2)] Cons.prems(3) show ?case by (meson list.set_intros(2))
qed

section \<open>The contract of the checked operators\<close>

locale fc_safe =
  fixes S :: safe_ops
  assumes add_iff: "safe_add S a b = Inr c \<longleftrightarrow> c = a + b \<and> int64 (a + b)"
    and sub_iff: "safe_sub S a b = Inr c \<longleftrightarrow> c = a - b \<and> int64 (a - b)"
    and mul_iff: "safe_mul S a b = Inr c \<longleftrightarrow> c = a * b \<and> int64 (a * b)"
    and div_iff: "safe_div S a b = Inr c \<longleftrightarrow> b \<noteq> 0 \<and> c = a sdiv b \<and> int64 (a sdiv b)"
    and neg_iff: "safe_neg S a = Inr c \<longleftrightarrow> c = - a \<and> int64 (- a)"
begin

lemmas safe_iffs = add_iff sub_iff mul_iff div_iff neg_iff

lemma add_sub_cancel:
  "int64 a \<Longrightarrow> safe_add S a b = Inr c \<Longrightarrow> safe_sub S c b = Inr a"
  by (simp add: add_iff sub_iff)

lemma sub_add_cancel:
  "int64 a \<Longrightarrow> safe_sub S a b = Inr c \<Longrightarrow> safe_add S c b = Inr a"
  by (simp add: add_iff sub_iff)

end

lemma checked64_eq_Inr [simp]: "checked64 x = Inr y \<longleftrightarrow> y = x \<and> int64 x"
  by (auto simp: checked64_def)

interpretation checked: fc_safe checked_ops
  by unfold_locales (auto simp: checked_ops_def)

lemma fc_safe_checked_ops [simp, intro]: "fc_safe checked_ops"
  by (rule checked.fc_safe_axioms)

section \<open>Facts on ranges\<close>

lemma int64_0 [simp]: "int64 0" by (simp add: int64_def)

lemma int64_between: "0 \<le> x \<Longrightarrow> x \<le> y \<Longrightarrow> int64 y \<Longrightarrow> int64 x"
  by (simp add: int64_def)

lemma u128_id [simp]: "0 \<le> x \<Longrightarrow> x < 2 ^ 128 \<Longrightarrow> u128 x = x"
  by (simp add: u128_def)

lemma u128_bounds: "0 \<le> u128 x" "u128 x < 2 ^ 128"
  by (simp_all add: u128_def)

lemma to_int64_id [simp]: "int64 x \<Longrightarrow> to_int64 x = x"
  unfolding to_int64_def int64_def by (rule signed_take_bit_int_eq_self) simp_all

lemma div_times_le: "0 < d \<Longrightarrow> x div d * d \<le> (x :: int)"
  using div_mult_mod_eq [of x d] pos_mod_sign [of d x] by linarith

section \<open>Normalised fractions\<close>

lemma normalize_le:
  assumes "0 < d" and "Rat.normalize (n, d) = (p, q)"
  shows "0 < q" "q \<le> d" "p \<le> max n 0" "0 < n \<Longrightarrow> 0 < p" "p * d = n * q"
proof -
  define g where "g = gcd n d"
  have g: "0 < g" using assms(1) by (simp add: g_def)
  have pq: "p = n div g" "q = d div g"
    using assms by (simp_all add: Rat.normalize_def Let_def g_def)
  have mult: "n = p * g" "d = q * g"
    using pq by (simp_all add: g_def)
  show q: "0 < q" using assms(2) by (rule normalize_denom_pos)
  show "q \<le> d" using mult(2) g q by simp
  show "p \<le> max n 0"
  proof (cases "0 \<le> p")
    case True
    then have "p \<le> p * g" using g by (simp add: mult_le_cancel_left1)
    then show ?thesis using mult(1) by simp
  qed simp
  show "0 < n \<Longrightarrow> 0 < p" using mult(1) g by (simp add: zero_less_mult_iff)
  show "p * d = n * q" by (subst mult(1), subst mult(2)) simp
qed

section \<open>Maps and association lists\<close>

lemma map_add_map_of_Cons:
  "i \<notin> dom (map_of xs) \<Longrightarrow> m ++ map_of ((i, v) # xs) = m(i \<mapsto> v) ++ map_of xs"
  by (rule ext) (auto simp: map_add_def split: option.splits)

text \<open>A loop over distinct keys whose body touches one key at a time acts pointwise.\<close>

lemma fold_pointwise:
  assumes "\<And>k v p j. view (f (k, v) p) j = (if j = k then g v (view p j) else view p j)"
    and "distinct (map fst xs)"
  shows "view (fold f xs p) j = (case map_of xs j of None \<Rightarrow> view p j | Some v \<Rightarrow> g v (view p j))"
  using assms(2)
proof (induction xs arbitrary: p)
  case Nil
  then show ?case by simp
next
  case (Cons q xs)
  obtain k v where q: "q = (k, v)" by fastforce
  have "j = k \<Longrightarrow> map_of xs j = None"
    using Cons.prems by (auto simp: q map_of_eq_None_iff)
  then show ?case using Cons assms(1) by (auto simp: q split: option.splits)
qed

lemma fold_pointwise_set:
  assumes "\<And>k p j. view (f k p) j = (if j = k then g (view p j) else view p j)" and "distinct xs"
  shows "view (fold f xs p) j = (if j \<in> set xs then g (view p j) else view p j)"
  using assms(2) by (induction xs arbitrary: p) (auto simp: assms(1))

lemma fold_invariant: "I p \<Longrightarrow> (\<And>x p. I p \<Longrightarrow> I (f x p)) \<Longrightarrow> I (fold f xs p)"
  by (induction xs arbitrary: p) auto

lemma two_elements: "1 < length xs \<Longrightarrow> \<exists>x y zs. xs = x # y # zs"
  by (cases xs; cases "tl xs") auto

section \<open>Ordered association lists, for \<open>flat_map\<close>\<close>

fun fm_update :: "'k :: linorder \<Rightarrow> 'v \<Rightarrow> ('k \<times> 'v) list \<Rightarrow> ('k \<times> 'v) list" where
  "fm_update k v [] = [(k, v)]"
| "fm_update k v ((k', v') # xs) =
     (if k < k' then (k, v) # (k', v') # xs else if k = k' then (k, v) # xs else (k', v') # fm_update k v xs)"

lemma map_of_fm_update [simp]: "map_of (fm_update k v xs) = (map_of xs)(k \<mapsto> v)"
  by (induction k v xs rule: fm_update.induct) (auto simp: fun_eq_iff)

lemma keys_fm_update [simp]: "fst ` set (fm_update k v xs) = insert k (fst ` set xs)"
  by (induction k v xs rule: fm_update.induct) auto

lemma sorted_fm_update [simp]:
  "sorted_wrt (<) (map fst xs) \<Longrightarrow> sorted_wrt (<) (map fst (fm_update k v xs))"
proof (induction k v xs rule: fm_update.induct)
  case (2 k v k' v' xs)
  have "fst ` set (fm_update k v xs) = insert k (fst ` set xs)" by simp
  then have "\<forall>x\<in>set (fm_update k v xs). fst x \<in> insert k (fst ` set xs)" by blast
  with 2 show ?case by auto
qed simp

lemma sorted_wrt_less_map_of:
  "sorted_wrt (<) (map fst xs) \<Longrightarrow> map_of xs k = Some v \<longleftrightarrow> (k :: 'k :: linorder, v) \<in> set xs"
  by (rule map_of_eq_Some_iff) (use strict_sorted_iff in blast)

section \<open>Sorting by a comparison\<close>

text \<open>An ordered index, or \<^verbatim>\<open>std::nth_element\<close>, by a strict comparison; equivalent elements stay in order.\<close>

fun insert_by :: "('a \<Rightarrow> 'a \<Rightarrow> bool) \<Rightarrow> 'a \<Rightarrow> 'a list \<Rightarrow> 'a list" where
  "insert_by lt x [] = [x]"
| "insert_by lt x (y # ys) = (if lt x y then x # y # ys else y # insert_by lt x ys)"

definition sort_by :: "('a \<Rightarrow> 'a \<Rightarrow> bool) \<Rightarrow> 'a list \<Rightarrow> 'a list" where
  "sort_by lt xs = fold (insert_by lt) xs []"

lemma set_insert_by: "set (insert_by lt x xs) = insert x (set xs)"
  by (induction xs) auto

lemma set_sort_by: "set (sort_by lt xs) = set xs"
proof -
  have "set (fold (insert_by lt) xs ys) = set xs \<union> set ys" for ys
    by (induction xs arbitrary: ys) (auto simp: set_insert_by)
  then show ?thesis by (simp add: sort_by_def)
qed

lemma distinct_insert_by: "distinct (map fst (insert_by lt x xs)) \<longleftrightarrow> distinct (map fst (x # xs))"
  by (induction xs) (auto simp: set_insert_by)

lemma distinct_sort_by: "distinct (map fst xs) \<Longrightarrow> distinct (map fst (sort_by lt xs))"
proof -
  have "distinct (map fst (xs @ ys)) \<Longrightarrow> distinct (map fst (fold (insert_by lt) xs ys))" for ys
    by (induction xs arbitrary: ys) (auto simp: distinct_insert_by set_insert_by)
  then show "distinct (map fst xs) \<Longrightarrow> distinct (map fst (sort_by lt xs))" by (simp add: sort_by_def)
qed

text \<open>When the comparison is that of a key, the result is sorted by the key.\<close>

lemma sorted_insert_by:
  fixes key :: "'a \<Rightarrow> 'b :: linorder"
  assumes "\<And>y. y \<in> set ys \<Longrightarrow> lt x y \<longleftrightarrow> key x < key y" "sorted (map key ys)"
  shows "sorted (map key (insert_by lt x ys))"
  using assms by (induction ys) (fastforce simp: set_insert_by)+

lemma sorted_sort_by:
  fixes key :: "'a \<Rightarrow> 'b :: linorder"
  assumes "\<And>x y. x \<in> set xs \<Longrightarrow> y \<in> set xs \<Longrightarrow> lt x y \<longleftrightarrow> key x < key y"
  shows "sorted (map key (sort_by lt xs))"
proof -
  have "sorted (map key (fold (insert_by lt) xs ys))"
    if "\<forall>x\<in>set xs \<union> set ys. \<forall>y\<in>set xs \<union> set ys. lt x y \<longleftrightarrow> key x < key y" "sorted (map key ys)" for ys
    using that by (induction xs arbitrary: ys) (auto simp: set_insert_by sorted_insert_by)
  then show ?thesis using assms by (simp add: sort_by_def)
qed

lemma length_insert_by [simp]: "length (insert_by lt x xs) = Suc (length xs)"
  by (induction xs) auto

lemma length_filter_insert_by: "length (filter P (insert_by lt x xs)) = length (filter P (x # xs))"
  by (induction xs) auto

lemma length_filter_sort_by: "length (filter P (sort_by lt xs)) = length (filter P xs)"
proof -
  have "length (filter P (fold (insert_by lt) xs ys)) = length (filter P xs) + length (filter P ys)" for ys
    by (induction xs arbitrary: ys) (auto simp: length_filter_insert_by)
  then show ?thesis by (simp add: sort_by_def)
qed

lemma length_sort_by [simp]: "length (sort_by lt xs) = length xs"
  using length_filter_sort_by [of "\<lambda>_. True"] by simp

text \<open>The first element of an ordered index is minimal.\<close>

lemma insert_by_hd:
  assumes "\<And>x y z. lt x y \<Longrightarrow> lt y z \<Longrightarrow> lt x z" "\<And>x. \<not> lt x x" "ys \<noteq> [] \<Longrightarrow> \<forall>z\<in>set ys. \<not> lt z (hd ys)"
  shows "\<forall>z\<in>set (insert_by lt x ys). \<not> lt z (hd (insert_by lt x ys))"
proof (cases ys)
  case Nil
  then show ?thesis using assms(2) by simp
next
  case (Cons y zs)
  with assms(3) have y: "\<forall>z\<in>set (y # zs). \<not> lt z y" by simp
  show ?thesis
  proof (cases "lt x y")
    case True
    then have "\<not> lt z x" if "z \<in> set (y # zs)" for z using y that assms(1) by blast
    with True Cons assms(2) show ?thesis by auto
  next
    case False
    with y Cons show ?thesis by (auto simp: set_insert_by)
  qed
qed

lemma sort_by_hd:
  assumes "\<And>x y z. lt x y \<Longrightarrow> lt y z \<Longrightarrow> lt x z" "\<And>x. \<not> lt x x" "sort_by lt xs = p # ps"
  shows "p \<in> set xs" "\<forall>z\<in>set xs. \<not> lt z p"
proof -
  have "\<forall>z\<in>set (fold (insert_by lt) xs ys). \<not> lt z (hd (fold (insert_by lt) xs ys))"
    if "ys \<noteq> [] \<Longrightarrow> \<forall>z\<in>set ys. \<not> lt z (hd ys)" "xs \<noteq> [] \<or> ys \<noteq> []" for ys
    using that
  proof (induction xs arbitrary: ys)
    case (Cons x xs)
    show ?case using Cons.IH [of "insert_by lt x ys"] insert_by_hd [of lt ys x] Cons.prems(1) assms(1,2)
      by (cases ys) auto
  qed simp
  from this [of "[]"] have "xs \<noteq> [] \<Longrightarrow> \<forall>z\<in>set (sort_by lt xs). \<not> lt z (hd (sort_by lt xs))" by (simp add: sort_by_def)
  moreover have "xs \<noteq> []" using assms(3) by (auto simp: sort_by_def)
  ultimately show "p \<in> set xs" "\<forall>z\<in>set xs. \<not> lt z p" using assms(3) set_sort_by [of lt xs] by auto
qed

text \<open>No later element comes before an earlier one.\<close>

lemma insert_by_wrt:
  assumes "\<And>x y z. lt x y \<Longrightarrow> lt y z \<Longrightarrow> lt x z" "\<And>x. \<not> lt x x"
  shows "sorted_wrt (\<lambda>a b. \<not> lt b a) ys \<Longrightarrow> sorted_wrt (\<lambda>a b. \<not> lt b a) (insert_by lt x ys)"
proof (induction ys)
  case (Cons y ys)
  then show ?case using assms by (auto simp: set_insert_by)
qed simp

lemma sort_by_wrt:
  assumes "\<And>x y z. lt x y \<Longrightarrow> lt y z \<Longrightarrow> lt x z" "\<And>x. \<not> lt x x"
  shows "sorted_wrt (\<lambda>a b. \<not> lt b a) (sort_by lt xs)"
proof -
  have "sorted_wrt (\<lambda>a b. \<not> lt b a) ys \<Longrightarrow> sorted_wrt (\<lambda>a b. \<not> lt b a) (fold (insert_by lt) xs ys)" for ys
    by (induction xs arbitrary: ys) (simp_all add: insert_by_wrt [of lt, OF assms])
  then show ?thesis by (simp add: sort_by_def)
qed

end
