(* ===== verification/Object_Id.thy ===== *)
theory Object_Id
  imports Prelude
begin

text \<open>
  Object identifiers, \<^verbatim>\<open>db/object_id.hpp\<close>: a 64-bit number whose top byte is the space, the next
  byte the type, and the low 48 bits the instance.
\<close>

unbundle bit_operations_syntax

section \<open>Definitions\<close>

type_synonym object_id_type = "64 word"

definition GRAPHENE_DB_MAX_INSTANCE_ID :: "64 word" where
  "GRAPHENE_DB_MAX_INSTANCE_ID = drop_bit 16 (- 1)"

definition mk_object_id :: "8 word \<Rightarrow> 8 word \<Rightarrow> 64 word \<Rightarrow> object_id_type result" where
  "mk_object_id s t i = ensure (drop_bit 48 i = 0)
     (Inr (push_bit 56 (ucast s) OR push_bit 48 (ucast t) OR i))"

definition id_space :: "object_id_type \<Rightarrow> 8 word" where
  "id_space n = ucast (drop_bit 56 n)"

definition id_type :: "object_id_type \<Rightarrow> 8 word" where
  "id_type n = ucast (drop_bit 48 n AND 0x00ff)"

definition id_space_type :: "object_id_type \<Rightarrow> 16 word" where
  "id_space_type n = ucast (drop_bit 48 n)"

definition id_instance :: "object_id_type \<Rightarrow> 64 word" where
  "id_instance n = n AND GRAPHENE_DB_MAX_INSTANCE_ID"

definition id_is_null :: "object_id_type \<Rightarrow> bool" where
  "id_is_null n \<longleftrightarrow> n = 0"

definition id_succ :: "object_id_type \<Rightarrow> object_id_type" where
  "id_succ n = n + 1"

definition id_plus :: "object_id_type \<Rightarrow> 64 word \<Rightarrow> object_id_type result" where
  "id_plus a delta = mk_object_id (id_space a) (id_type a) (id_instance a + delta)"

definition id_is :: "8 word \<Rightarrow> 8 word \<Rightarrow> object_id_type \<Rightarrow> bool" where
  "id_is s t n \<longleftrightarrow> drop_bit 48 n = push_bit 8 (ucast s) OR ucast t"

text \<open>The identifier of the index an object lives in: \<^verbatim>\<open>object_id_type( id.space(), id.type(), 0 )\<close>.\<close>

definition index_id :: "object_id_type \<Rightarrow> object_id_type" where
  "index_id n = push_bit 56 (ucast (id_space n)) OR push_bit 48 (ucast (id_type n))"

section \<open>Lemmas\<close>

lemma max_instance_mask: "GRAPHENE_DB_MAX_INSTANCE_ID = mask 48"
  by (rule bit_word_eqI) (auto simp: GRAPHENE_DB_MAX_INSTANCE_ID_def bit_drop_bit_eq bit_mask_iff)

lemma id_instance_alt: "id_instance n = take_bit 48 n"
  by (simp only: id_instance_def max_instance_mask take_bit_eq_mask)

lemma id_type_alt: "id_type n = ucast (take_bit 8 (drop_bit 48 n))"
proof -
  have "(0x00ff :: 64 word) = mask 8" by (simp add: mask_eq_exp_minus_1)
  then show ?thesis by (simp only: id_type_def take_bit_eq_mask)
qed

lemma high_bits_clear: "drop_bit 48 (i :: 64 word) = 0 \<longleftrightarrow> (\<forall>k. bit i k \<longrightarrow> k < 48)"
proof
  assume *: "drop_bit 48 i = 0"
  show "\<forall>k. bit i k \<longrightarrow> k < 48"
  proof (intro allI impI, rule ccontr)
    fix k assume "bit i k" "\<not> k < 48"
    then have "bit (drop_bit 48 i) (k - 48)" by (simp add: bit_drop_bit_eq)
    with * show False by simp
  qed
next
  assume "\<forall>k. bit i k \<longrightarrow> k < 48"
  then show "drop_bit 48 i = 0" by (intro bit_word_eqI) (auto simp: bit_simps)
qed

lemmas id_defs = id_space_def id_type_alt id_instance_alt index_id_def

lemma bit_byte_high [simp]: "\<not> bit (w :: 8 word) (8 + k)"
  by (auto dest: bit_imp_le_length)

lemma mk_object_id_parts:
  assumes "mk_object_id s t i = Inr n"
  shows "id_space n = s" "id_type n = t" "id_instance n = i"
proof -
  from assms have n: "n = push_bit 56 (ucast s) OR push_bit 48 (ucast t) OR i"
    and "drop_bit 48 i = 0" by (auto simp: mk_object_id_def)
  then have i: "\<And>k. bit i k \<Longrightarrow> k < 48" by (simp add: high_bits_clear)
  then have [simp]: "\<not> bit i (56 + k)" "\<not> bit i (48 + k)" for k by fastforce+
  show "id_space n = s"
    by (rule bit_word_eqI) (auto simp: n id_defs bit_simps)
  show "id_type n = t"
    by (rule bit_word_eqI) (auto simp: n id_defs bit_simps)
  show "id_instance n = i"
    by (rule bit_word_eqI) (auto simp: n id_defs bit_simps dest: i)
qed

lemma id_parts_mk: "mk_object_id (id_space n) (id_type n) (id_instance n) = Inr n"
proof -
  have "drop_bit 48 (id_instance n) = 0"
    by (subst high_bits_clear) (auto simp: id_instance_alt bit_simps)
  moreover have "push_bit 56 (ucast (id_space n)) OR push_bit 48 (ucast (id_type n)) OR id_instance n = n"
  proof (rule bit_word_eqI)
    fix k assume "k < LENGTH(64)"
    then show "bit (push_bit 56 (ucast (id_space n)) OR push_bit 48 (ucast (id_type n)) OR id_instance n) k = bit n k"
      by (cases "56 \<le> k"; cases "48 \<le> k") (auto simp: id_defs bit_simps)
  qed
  ultimately show ?thesis by (simp add: mk_object_id_def)
qed

text \<open>Arithmetic reading of the layout.\<close>

lemma id_instance_mod: "unat (id_instance n) = unat n mod 2 ^ 48"
  unfolding id_instance_alt unsigned_take_bit_eq by (rule take_bit_eq_mod)

lemma index_id_eq: "unat (index_id n) = unat n div 2 ^ 48 * 2 ^ 48"
proof -
  have "index_id n = push_bit 48 (drop_bit 48 n)"
  proof (rule bit_word_eqI)
    fix k assume "k < LENGTH(64)"
    then show "bit (index_id n) k = bit (push_bit 48 (drop_bit 48 n)) k"
      by (cases "56 \<le> k") (auto simp: id_defs bit_simps)
  qed
  moreover have "unat n div 2 ^ 48 * 2 ^ 48 < 2 ^ 64"
    using unsigned_less [of n, where ?'a = nat] by (simp add: div_mult_mod_eq [of "unat n" "2 ^ 48"] less_mult_imp_div_less)
  ultimately show ?thesis
    by (simp add: push_bit_eq_mult drop_bit_eq_div unat_word_ariths unat_div)
qed

lemma unat_id_split: "unat n = unat (index_id n) + unat (id_instance n)"
  by (simp add: index_id_eq id_instance_mod div_mult_mod_eq)

lemma id_space_type_div: "unat (id_space n) = unat n div 2 ^ 56" "unat (id_type n) = unat n div 2 ^ 48 mod 2 ^ 8"
proof -
  show "unat (id_type n) = unat n div 2 ^ 48 mod 2 ^ 8"
    unfolding id_type_alt unsigned_ucast_eq unsigned_take_bit_eq unsigned_drop_bit_eq drop_bit_eq_div
    by (simp add: take_bit_eq_mod unat_div)
  have "unat n div 2 ^ 56 < 2 ^ 8" using unsigned_less [of n, where ?'a = nat] by (simp add: less_mult_imp_div_less)
  then show "unat (id_space n) = unat n div 2 ^ 56"
    by (simp add: id_space_def unsigned_ucast_eq drop_bit_eq_div take_bit_eq_mod unat_div)
qed

lemma unat_id_succ: "unat (id_succ n) = (unat n + 1) mod 2 ^ 64"
  by (simp add: id_succ_def unat_word_ariths)

lemma instance_max_iff:
  "id_instance n = GRAPHENE_DB_MAX_INSTANCE_ID \<longleftrightarrow> unat n mod 2 ^ 48 = 2 ^ 48 - 1"
proof -
  have "unat GRAPHENE_DB_MAX_INSTANCE_ID = 2 ^ 48 - 1"
    by (simp add: max_instance_mask mask_eq_exp_minus_1)
  then show ?thesis by (simp only: word_unat_eq_iff id_instance_mod)
qed

lemma id_succ_same_index:
  assumes "id_instance n \<noteq> GRAPHENE_DB_MAX_INSTANCE_ID"
  shows "index_id (id_succ n) = index_id n" "n < id_succ n" "unat (id_succ n) = Suc (unat n)"
proof -
  have ne: "unat n mod 2 ^ 48 \<noteq> 2 ^ 48 - 1" using assms by (simp only: instance_max_iff not_False_eq_True)
  have "Suc (unat n) \<noteq> 2 ^ 64"
  proof
    assume "Suc (unat n) = 2 ^ 64"
    then have "unat n = 2 ^ 64 - 1" by simp
    with ne show False by simp
  qed
  then have "Suc (unat n) < 2 ^ 64" using unsigned_less [of n, where ?'a = nat] by simp
  then show s: "unat (id_succ n) = Suc (unat n)" by (simp add: unat_id_succ)
  from ne have "Suc (unat n) div 2 ^ 48 = unat n div 2 ^ 48" by (simp add: div_Suc mod_Suc)
  with s have "unat (index_id (id_succ n)) = unat (index_id n)" by (simp only: index_id_eq)
  then show "index_id (id_succ n) = index_id n" by (simp add: word_unat_eq_iff)
  from s show "n < id_succ n" by (simp add: word_less_nat_alt)
qed

lemma id_succ_overflow:
  assumes "id_instance n = GRAPHENE_DB_MAX_INSTANCE_ID"
  shows "index_id (id_succ n) \<noteq> index_id n" "id_instance (id_succ n) = 0"
proof -
  have m: "unat n mod 2 ^ 48 = 2 ^ 48 - 1" using assms by (simp only: instance_max_iff)
  have lt: "unat n < 2 ^ 64" using unsigned_less [of n, where ?'a = nat] by simp
  have "unat (id_instance (id_succ n)) = (unat n + 1) mod 2 ^ 48"
    by (simp add: id_instance_mod unat_id_succ mod_mod_cancel)
  also have "\<dots> = 0" using m by (simp add: mod_Suc)
  finally show "id_instance (id_succ n) = 0" by (simp add: word_unat_eq_iff)
  define q where "q = unat n div 2 ^ 48"
  have "unat n = q * 2 ^ 48 + (2 ^ 48 - 1)"
    unfolding q_def m [symmetric] by (simp only: div_mult_mod_eq)
  then have "unat n + 1 = (q + 1) * 2 ^ 48" by simp
  moreover have "q < 2 ^ 16" using lt by (simp add: q_def less_mult_imp_div_less)
  ultimately have "(unat n + 1) mod 2 ^ 64 div 2 ^ 48 \<noteq> q"
    by (cases "q + 1 = 2 ^ 16") simp_all
  then have "(unat n + 1) mod 2 ^ 64 div 2 ^ 48 \<noteq> unat n div 2 ^ 48" by (simp only: q_def not_False_eq_True)
  then show "index_id (id_succ n) \<noteq> index_id n"
    by (simp add: word_unat_eq_iff index_id_eq unat_id_succ)
qed

lemma id_instance_succ:
  assumes "id_instance n \<noteq> GRAPHENE_DB_MAX_INSTANCE_ID"
  shows "id_instance (id_succ n) = id_instance n + 1" "id_space (id_succ n) = id_space n"
    "id_type (id_succ n) = id_type n"
proof -
  note s = id_succ_same_index [OF assms]
  have e: "unat (id_instance (id_succ n)) = Suc (unat (id_instance n))"
    using s(3) unat_id_split [of n] unat_id_split [of "id_succ n"] s(1) by simp
  have "Suc (unat (id_instance n)) < 2 ^ 64"
    unfolding e [symmetric] using unsigned_less [of "id_instance (id_succ n)", where ?'a = nat] by simp
  with e show "id_instance (id_succ n) = id_instance n + 1"
    by (simp add: word_unat_eq_iff unat_word_ariths)
  have d: "unat (id_succ n) div 2 ^ 48 = unat n div 2 ^ 48"
    using arg_cong [OF s(1), of unat] by (simp add: index_id_eq)
  then have "unat (id_succ n) div 2 ^ 48 div 2 ^ 8 = unat n div 2 ^ 48 div 2 ^ 8" by simp
  then have "unat (id_succ n) div 2 ^ 56 = unat n div 2 ^ 56" by (simp flip: div_mult2_eq)
  then show "id_space (id_succ n) = id_space n" by (simp add: word_unat_eq_iff id_space_type_div)
  from d show "id_type (id_succ n) = id_type n" by (simp add: word_unat_eq_iff id_space_type_div)
qed

text \<open>The three fields, read as numbers, are the digits of the identifier.\<close>

lemma id_less_iff:
  "n < m \<longleftrightarrow>
     id_space n < id_space m \<or> id_space n = id_space m \<and>
     (id_type n < id_type m \<or> id_type n = id_type m \<and> id_instance n < id_instance m)"
proof -
  have d: "unat x = unat (id_space x) * 2 ^ 56 + unat (id_type x) * 2 ^ 48 + unat (id_instance x)" for x
  proof -
    have "unat x div 2 ^ 56 = unat x div 2 ^ 48 div 2 ^ 8" by (simp flip: div_mult2_eq)
    then have "unat x div 2 ^ 48 = unat x div 2 ^ 56 * 2 ^ 8 + unat x div 2 ^ 48 mod 2 ^ 8"
      by (simp only: div_mult_mod_eq)
    moreover have "unat x = unat x div 2 ^ 48 * 2 ^ 48 + unat x mod 2 ^ 48" by (simp add: div_mult_mod_eq)
    ultimately have "unat x = (unat x div 2 ^ 56 * 2 ^ 8 + unat x div 2 ^ 48 mod 2 ^ 8) * 2 ^ 48 + unat x mod 2 ^ 48"
      by simp
    then show ?thesis unfolding id_space_type_div id_instance_mod by (simp add: algebra_simps)
  qed
  have b: "unat (id_type x) < 2 ^ 8" "unat (id_instance x) < 2 ^ 48" for x
    by (simp_all add: id_space_type_div id_instance_mod)
  show ?thesis
    using d [of n] d [of m] b [of n] b [of m]
    by (simp add: word_less_nat_alt word_unat_eq_iff) linarith
qed

section \<open>Properties\<close>

text \<open>Packing space, type and instance into 64 bits and unpacking them are inverse: the
  constructor accepts exactly the instances below \<open>2 ^ 48\<close>, unpacking returns what was packed,
  every 64-bit number is the packing of its parts, and the numeric order of identifiers is the
  lexicographic order of (space, type, instance).\<close>

theorem object_id_layout:
  "((\<exists>n. mk_object_id s t i = Inr n) \<longleftrightarrow> unat i < 2 ^ 48) \<and>
   (mk_object_id s t i = Inr n \<longleftrightarrow> id_space n = s \<and> id_type n = t \<and> id_instance n = i) \<and>
   (n < m \<longleftrightarrow> id_space n < id_space m \<or> id_space n = id_space m \<and>
     (id_type n < id_type m \<or> id_type n = id_type m \<and> id_instance n < id_instance m))"
proof (intro conjI)
  have "drop_bit 48 i = 0 \<longleftrightarrow> unat i div 2 ^ 48 = 0"
    by (simp add: word_unat_eq_iff drop_bit_eq_div unat_div)
  also have "\<dots> \<longleftrightarrow> unat i < 2 ^ 48" by (simp add: div_eq_0_iff)
  finally show "(\<exists>n. mk_object_id s t i = Inr n) \<longleftrightarrow> unat i < 2 ^ 48"
    by (simp add: mk_object_id_def)
  show "mk_object_id s t i = Inr n \<longleftrightarrow> id_space n = s \<and> id_type n = t \<and> id_instance n = i"
    using mk_object_id_parts [of s t i n] id_parts_mk [of n] by auto
  show "n < m \<longleftrightarrow> id_space n < id_space m \<or> id_space n = id_space m \<and>
     (id_type n < id_type m \<or> id_type n = id_type m \<and> id_instance n < id_instance m)"
    by (rule id_less_iff)
qed

text \<open>Incrementing the raw number, as \<^verbatim>\<open>use_next_id\<close> does, gives the next instance of the same
  space and type, except after the last of the \<open>2 ^ 48\<close> instances, where it moves on into the
  next type and restarts at instance 0.  The checked \<^verbatim>\<open>operator +\<close> throws there instead.\<close>

theorem id_succ_next_instance:
  "(id_instance n \<noteq> GRAPHENE_DB_MAX_INSTANCE_ID \<longrightarrow>
      index_id (id_succ n) = index_id n \<and> id_plus n 1 = Inr (id_succ n)) \<and>
   (id_instance n = GRAPHENE_DB_MAX_INSTANCE_ID \<longrightarrow>
      index_id (id_succ n) \<noteq> index_id n \<and> id_instance (id_succ n) = 0 \<and> id_plus n 1 = Inl Assert_exception)"
proof (intro conjI impI)
  assume a: "id_instance n \<noteq> GRAPHENE_DB_MAX_INSTANCE_ID"
  show "index_id (id_succ n) = index_id n" by (rule id_succ_same_index [OF a])
  show "id_plus n 1 = Inr (id_succ n)"
    using id_parts_mk [of "id_succ n"] by (simp add: id_plus_def id_instance_succ [OF a])
next
  assume a: "id_instance n = GRAPHENE_DB_MAX_INSTANCE_ID"
  show "index_id (id_succ n) \<noteq> index_id n" "id_instance (id_succ n) = 0"
    by (rule id_succ_overflow [OF a])+
  show "id_plus n 1 = Inl Assert_exception"
    by (simp add: id_plus_def mk_object_id_def a max_instance_mask mask_eq_exp_minus_1)
qed

theorem id_succ_next_instance_witness:
  "index_id (id_succ 0x0102000000000005) = index_id 0x0102000000000005 \<and>
   id_plus 0x0102000000000005 1 = Inr (id_succ 0x0102000000000005) \<and>
   id_instance (id_succ 0x0102ffffffffffff) = 0"
proof -
  have "id_instance 0x0102000000000005 \<noteq> GRAPHENE_DB_MAX_INSTANCE_ID"
    "id_instance 0x0102ffffffffffff = GRAPHENE_DB_MAX_INSTANCE_ID"
    by (simp_all add: instance_max_iff)
  then show ?thesis
    using id_succ_next_instance [of "0x0102000000000005"] id_succ_next_instance [of "0x0102ffffffffffff"]
    by simp
qed

end
