(* ===== verification/Undo_Database.thy ===== *)
theory Undo_Database
  imports Object_Id
begin

text \<open>
  The object database and its undo history: \<^verbatim>\<open>db/object_database.{hpp,cpp}\<close>,
  \<^verbatim>\<open>db/undo_database.{hpp,cpp}\<close>, \<^verbatim>\<open>primary_index\<close> of \<^verbatim>\<open>db/index.hpp\<close> and \<^verbatim>\<open>db/generic_index.hpp\<close>.

  The objects of all indexes are one map from identifiers (which name their index) to values;
  \<open>next_ids\<close> gives the next identifier of every registered index.  A \<^verbatim>\<open>std::unordered_map\<close> or
  \<^verbatim>\<open>unordered_set\<close> of an undo state is an association list or a list: its order is the iteration
  order, on which no lemma depends.  The deque \<^verbatim>\<open>_stack\<close> is a list with its back first.
  Observers and secondary indexes are notified only and hold no state here.

  The container under a \<^verbatim>\<open>generic_index\<close> is \<^verbatim>\<open>boost::multi_index\<close>, which refuses an element that
  collides with another in a unique key.  That is the parameter \<open>accept m i x\<close>: the container
  \<open>m\<close> admits the object \<open>x\<close> under identifier \<open>i\<close>.  The locale \<open>unique_container\<close> says what is
  relied on.
\<close>

section \<open>Definitions\<close>

type_synonym 'o container = "(object_id_type \<rightharpoonup> 'o) \<Rightarrow> object_id_type \<Rightarrow> 'o \<Rightarrow> bool"

record 'o undo_state =
  old_values :: "(object_id_type \<times> 'o) list"
  old_index_next_ids :: "(object_id_type \<times> object_id_type) list"
  new_ids :: "object_id_type list"
  removed :: "(object_id_type \<times> 'o) list"

record 'o object_database =
  objects :: "object_id_type \<rightharpoonup> 'o"
  next_ids :: "object_id_type \<rightharpoonup> object_id_type"
  active_sessions :: nat
  disabled :: bool
  stack :: "'o undo_state list"
  max_size :: nat

record session =
  apply_undo :: bool
  disable_on_exit :: bool

definition empty_undo_state :: "'o undo_state" where
  "empty_undo_state = \<lparr> old_values = [], old_index_next_ids = [], new_ids = [], removed = [] \<rparr>"

definition undo_enable :: "'o object_database \<Rightarrow> 'o object_database" where
  "undo_enable d = d\<lparr> disabled := False \<rparr>"

definition undo_disable :: "'o object_database \<Rightarrow> 'o object_database" where
  "undo_disable d = d\<lparr> disabled := True \<rparr>"

subsection \<open>Sessions and recording\<close>

function trim_stack :: "nat \<Rightarrow> 'a list \<Rightarrow> 'a list" where
  "trim_stack m s = (if length s > m then trim_stack m (butlast s) else s)"
  by pat_completeness auto
termination
  by (relation "measure (\<lambda>(m, s). length s)") auto

declare trim_stack.simps [simp del]

definition start_undo_session :: "bool \<Rightarrow> 'o object_database \<Rightarrow> 'o object_database \<times> session" where
  "start_undo_session force_enable d =
     (if disabled d \<and> \<not> force_enable then (d, \<lparr> apply_undo = True, disable_on_exit = False \<rparr>)
      else
        (let dis = disabled d \<and> force_enable;
             d1 = (if force_enable then d\<lparr> disabled := False \<rparr> else d)
         in (d1\<lparr> stack := empty_undo_state # trim_stack (max_size d1) (stack d1),
                  active_sessions := active_sessions d1 + 1 \<rparr>,
             \<lparr> apply_undo = True, disable_on_exit = dis \<rparr>)))"

definition with_back :: "('o undo_state \<Rightarrow> 'o undo_state) \<Rightarrow> 'o object_database \<Rightarrow> 'o object_database" where
  "with_back f d = d\<lparr> stack := (case stack d of [] \<Rightarrow> [f empty_undo_state] | s # ss \<Rightarrow> f s # ss) \<rparr>"

definition record_create :: "object_id_type \<Rightarrow> 'o undo_state \<Rightarrow> 'o undo_state" where
  "record_create i s =
     s\<lparr> old_index_next_ids := (case map_of (old_index_next_ids s) (index_id i) of
            None \<Rightarrow> AList.update (index_id i) i (old_index_next_ids s)
          | Some _ \<Rightarrow> old_index_next_ids s),
        new_ids := List.insert i (new_ids s) \<rparr>"

definition record_modify :: "object_id_type \<Rightarrow> 'o \<Rightarrow> 'o undo_state \<Rightarrow> 'o undo_state" where
  "record_modify i x s =
     (if i \<in> set (new_ids s) then s
      else if map_of (old_values s) i \<noteq> None then s
      else s\<lparr> old_values := AList.update i x (old_values s) \<rparr>)"

definition record_remove :: "object_id_type \<Rightarrow> 'o \<Rightarrow> 'o undo_state \<Rightarrow> 'o undo_state" where
  "record_remove i x s =
     (if i \<in> set (new_ids s) then s\<lparr> new_ids := removeAll i (new_ids s) \<rparr>
      else case map_of (old_values s) i of
        Some v \<Rightarrow> s\<lparr> removed := AList.update i v (removed s), old_values := AList.delete i (old_values s) \<rparr>
      | None \<Rightarrow>
          (if map_of (removed s) i \<noteq> None then s
           else s\<lparr> removed := AList.update i x (removed s) \<rparr>))"

definition on_create :: "object_id_type \<Rightarrow> 'o object_database \<Rightarrow> 'o object_database" where
  "on_create i d = (if disabled d then d else with_back (record_create i) d)"

definition on_modify :: "object_id_type \<Rightarrow> 'o \<Rightarrow> 'o object_database \<Rightarrow> 'o object_database" where
  "on_modify i x d = (if disabled d then d else with_back (record_modify i x) d)"

definition on_remove :: "object_id_type \<Rightarrow> 'o \<Rightarrow> 'o object_database \<Rightarrow> 'o object_database" where
  "on_remove i x d = (if disabled d then d else with_back (record_remove i x) d)"

subsection \<open>Mutators of the object database\<close>

definition get_object :: "object_id_type \<Rightarrow> 'o object_database \<Rightarrow> 'o result" where
  "get_object i d = ensure (next_ids d (index_id i) \<noteq> None) (deref (objects d i))"

definition db_create :: "'o container \<Rightarrow> object_id_type \<Rightarrow> (object_id_type \<Rightarrow> 'o) \<Rightarrow>
    'o object_database \<Rightarrow> 'o object_database result" where
  "db_create accept idx constr d =
     (case next_ids d idx of
        None \<Rightarrow> Inl Assert_exception
      | Some i \<Rightarrow>
          ensure (objects d i = None \<and> accept (objects d) i (constr i))
            (Inr (on_create i (d\<lparr> objects := (objects d)(i \<mapsto> constr i),
                                  next_ids := (next_ids d)(idx \<mapsto> id_succ i) \<rparr>))))"

definition db_modify :: "'o container \<Rightarrow> object_id_type \<Rightarrow> ('o \<Rightarrow> 'o) \<Rightarrow>
    'o object_database \<Rightarrow> 'o object_database result" where
  "db_modify accept i f d =
     rbind (get_object i d) (\<lambda>x.
       let d1 = on_modify i x d in
       ensure (accept ((objects d1)(i := None)) i (f x))
         (Inr (d1\<lparr> objects := (objects d1)(i \<mapsto> f x) \<rparr>)))"

definition db_remove :: "object_id_type \<Rightarrow> 'o object_database \<Rightarrow> 'o object_database result" where
  "db_remove i d =
     rbind (get_object i d) (\<lambda>x.
       let d1 = on_remove i x d in Inr (d1\<lparr> objects := (objects d1)(i := None) \<rparr>))"

definition db_insert :: "'o container \<Rightarrow> object_id_type \<Rightarrow> 'o \<Rightarrow>
    'o object_database \<Rightarrow> 'o object_database result" where
  "db_insert accept i x d =
     ensure (next_ids d (index_id i) \<noteq> None)
       (ensure (objects d i = None \<and> accept (objects d) i x)
         (Inr (d\<lparr> objects := (objects d)(i \<mapsto> x) \<rparr>)))"

definition set_next_id :: "object_id_type \<Rightarrow> object_id_type \<Rightarrow> 'o object_database \<Rightarrow> 'o object_database result" where
  "set_next_id idx i d = ensure (next_ids d idx \<noteq> None) (Inr (d\<lparr> next_ids := (next_ids d)(idx \<mapsto> i) \<rparr>))"

subsection \<open>Undo, merge, commit\<close>

definition restore_state :: "'o container \<Rightarrow> 'o undo_state \<Rightarrow> 'o object_database \<Rightarrow> 'o object_database result" where
  "restore_state accept s d =
     rbind (rfold (\<lambda>(i, x). db_modify accept i (\<lambda>_. x)) (old_values s) d) (\<lambda>d.
     rbind (rfold db_remove (new_ids s) d) (\<lambda>d.
     rbind (rfold (\<lambda>(idx, i). set_next_id idx i) (old_index_next_ids s) d) (\<lambda>d.
     rfold (\<lambda>(i, x). db_insert accept i x) (removed s) d)))"

definition undo :: "'o container \<Rightarrow> 'o object_database \<Rightarrow> 'o object_database result" where
  "undo accept d =
     ensure (\<not> disabled d)
    (ensure (active_sessions d > 0)
    (case stack d of
       [] \<Rightarrow> Inl Undo_database_exception
     | s # ss \<Rightarrow>
         rbind (restore_state accept s (undo_disable d)) (\<lambda>d1.
           Inr (undo_enable (d1\<lparr> stack := (if ss = [] then [empty_undo_state] else ss),
                                 active_sessions := active_sessions d1 - 1 \<rparr>)))))"

definition merge_upd :: "object_id_type \<times> 'o \<Rightarrow> 'o undo_state \<Rightarrow> 'o undo_state" where
  "merge_upd item p =
     (if fst item \<in> set (new_ids p) then p
      else if map_of (old_values p) (fst item) \<noteq> None then p
      else p\<lparr> old_values := AList.update (fst item) (snd item) (old_values p) \<rparr>)"

definition merge_new :: "object_id_type \<Rightarrow> 'o undo_state \<Rightarrow> 'o undo_state" where
  "merge_new i p = p\<lparr> new_ids := List.insert i (new_ids p) \<rparr>"

definition merge_next :: "object_id_type \<times> object_id_type \<Rightarrow> 'o undo_state \<Rightarrow> 'o undo_state" where
  "merge_next item p =
     (if map_of (old_index_next_ids p) (fst item) = None
      then p\<lparr> old_index_next_ids := AList.update (fst item) (snd item) (old_index_next_ids p) \<rparr>
      else p)"

definition merge_del :: "object_id_type \<times> 'o \<Rightarrow> 'o undo_state \<Rightarrow> 'o undo_state" where
  "merge_del item p =
     (if fst item \<in> set (new_ids p) then p\<lparr> new_ids := removeAll (fst item) (new_ids p) \<rparr>
      else case map_of (old_values p) (fst item) of
        Some x \<Rightarrow> p\<lparr> removed := AList.update (fst item) x (removed p),
                     old_values := AList.delete (fst item) (old_values p) \<rparr>
      | None \<Rightarrow> p\<lparr> removed := AList.update (fst item) (snd item) (removed p) \<rparr>)"

definition merge_states :: "'o undo_state \<Rightarrow> 'o undo_state \<Rightarrow> 'o undo_state" where
  "merge_states prev s =
     fold merge_del (removed s)
       (fold merge_next (old_index_next_ids s)
         (fold merge_new (new_ids s)
           (fold merge_upd (old_values s) prev)))"

definition merge :: "'o object_database \<Rightarrow> 'o object_database result" where
  "merge d =
     ensure (active_sessions d > 0)
    (ensure (length (stack d) \<ge> 2)
    (case stack d of
       s # prev # ss \<Rightarrow>
         Inr (d\<lparr> stack := merge_states prev s # ss, active_sessions := active_sessions d - 1 \<rparr>)
     | _ \<Rightarrow> Inl Undo_database_exception))"

definition commit :: "'o object_database \<Rightarrow> 'o object_database result" where
  "commit d = ensure (active_sessions d > 0) (Inr (d\<lparr> active_sessions := active_sessions d - 1 \<rparr>))"

definition pop_commit :: "'o container \<Rightarrow> 'o object_database \<Rightarrow> 'o object_database result" where
  "pop_commit accept d =
     ensure (active_sessions d = 0)
    (case stack d of
       [] \<Rightarrow> Inl Assert_exception
     | s # ss \<Rightarrow>
         rbind (restore_state accept s (undo_disable d)) (\<lambda>d1.
           Inr (undo_enable (d1\<lparr> stack := ss \<rparr>))))"

definition undo_head :: "'o object_database \<Rightarrow> 'o undo_state result" where
  "undo_head d = (case stack d of [] \<Rightarrow> Inl Assert_exception | s # _ \<Rightarrow> Inr s)"

subsection \<open>The session object\<close>

definition session_commit :: "session \<Rightarrow> 'o object_database \<Rightarrow> (session \<times> 'o object_database) result" where
  "session_commit s d = rbind (commit d) (\<lambda>d1. Inr (s\<lparr> apply_undo := False \<rparr>, d1))"

definition session_undo :: "'o container \<Rightarrow> session \<Rightarrow> 'o object_database \<Rightarrow> (session \<times> 'o object_database) result" where
  "session_undo accept s d =
     rbind (if apply_undo s then undo accept d else Inr d) (\<lambda>d1. Inr (s\<lparr> apply_undo := False \<rparr>, d1))"

definition session_merge :: "session \<Rightarrow> 'o object_database \<Rightarrow> (session \<times> 'o object_database) result" where
  "session_merge s d =
     rbind (if apply_undo s then merge d else Inr d) (\<lambda>d1. Inr (s\<lparr> apply_undo := False \<rparr>, d1))"

definition session_destroy :: "'o container \<Rightarrow> session \<Rightarrow> 'o object_database \<Rightarrow> 'o object_database result" where
  "session_destroy accept s d =
     rbind (if apply_undo s then undo accept d else Inr d) (\<lambda>d1.
       Inr (if disable_on_exit s then undo_disable d1 else d1))"

text \<open>The move constructor copies \<^verbatim>\<open>_apply_undo\<close> and leaves \<^verbatim>\<open>_disable_on_exit\<close> at its default.\<close>

definition session_move :: "session \<Rightarrow> session \<times> session" where
  "session_move mv = (\<lparr> apply_undo = apply_undo mv, disable_on_exit = False \<rparr>, mv\<lparr> apply_undo := False \<rparr>)"

section \<open>Runs of a session\<close>

definition has_room :: "object_id_type \<Rightarrow> 'o object_database \<Rightarrow> bool" where
  "has_room idx d = (case next_ids d idx of None \<Rightarrow> True
     | Some i \<Rightarrow> id_instance i \<noteq> GRAPHENE_DB_MAX_INSTANCE_ID)"

text \<open>
  \<open>runs accept clash n d d'\<close>: inside an open session the client takes the database from \<open>d\<close> to
  \<open>d'\<close> by creating, modifying and removing objects and by opening inner sessions, nested at most
  \<open>n\<close> deep, that end in an undo or a merge.  The instance counter of an index is assumed not to
  pass \<open>2 ^ 48\<close> (\<open>has_room\<close>), and a modification is assumed to keep the unique keys of the object.
\<close>

inductive runs :: "'o container \<Rightarrow> ('o \<Rightarrow> 'o \<Rightarrow> bool) \<Rightarrow> nat \<Rightarrow> 'o object_database \<Rightarrow> 'o object_database \<Rightarrow> bool"
  for accept clash where
  run_refl: "runs accept clash n d d"
| run_create: "runs accept clash n d d1 \<Longrightarrow> has_room idx d1 \<Longrightarrow>
    db_create accept idx f d1 = Inr d2 \<Longrightarrow> runs accept clash n d d2"
| run_modify: "runs accept clash n d d1 \<Longrightarrow> (\<And>x. objects d1 i = Some x \<Longrightarrow> clash (f x) = clash x) \<Longrightarrow>
    db_modify accept i f d1 = Inr d2 \<Longrightarrow> runs accept clash n d d2"
| run_remove: "runs accept clash n d d1 \<Longrightarrow> db_remove i d1 = Inr d2 \<Longrightarrow> runs accept clash n d d2"
| run_inner_undo: "runs accept clash (Suc n) d d1 \<Longrightarrow> start_undo_session False d1 = (d2, s) \<Longrightarrow>
    runs accept clash n d2 d3 \<Longrightarrow> undo accept d3 = Inr d4 \<Longrightarrow> runs accept clash (Suc n) d d4"
| run_inner_merge: "runs accept clash (Suc n) d d1 \<Longrightarrow> start_undo_session False d1 = (d2, s) \<Longrightarrow>
    runs accept clash n d2 d3 \<Longrightarrow> merge d3 = Inr d4 \<Longrightarrow> runs accept clash (Suc n) d d4"

section \<open>Invariants\<close>

definition consistent :: "('o \<Rightarrow> 'o \<Rightarrow> bool) \<Rightarrow> (object_id_type \<rightharpoonup> 'o) \<Rightarrow> bool" where
  "consistent clash m \<longleftrightarrow> (\<forall>i x j y. m i = Some x \<longrightarrow> m j = Some y \<longrightarrow> i \<noteq> j \<longrightarrow> \<not> clash x y)"

definition ids_wf :: "(object_id_type \<rightharpoonup> 'o) \<Rightarrow> (object_id_type \<rightharpoonup> object_id_type) \<Rightarrow> bool" where
  "ids_wf m n \<longleftrightarrow> (\<forall>i x. m i = Some x \<longrightarrow> (\<exists>k. n (index_id i) = Some k \<and> i < k)) \<and>
     (\<forall>idx k. n idx = Some k \<longrightarrow> index_id k = idx)"

definition db_wf :: "('o \<Rightarrow> 'o \<Rightarrow> bool) \<Rightarrow> 'o object_database \<Rightarrow> bool" where
  "db_wf clash d \<longleftrightarrow> consistent clash (objects d) \<and> ids_wf (objects d) (next_ids d)"

definition undo_state_wf :: "'o undo_state \<Rightarrow> bool" where
  "undo_state_wf s \<longleftrightarrow> distinct (map fst (old_values s)) \<and> distinct (map fst (old_index_next_ids s)) \<and>
     distinct (new_ids s) \<and> distinct (map fst (removed s))"

definition entry :: "'o undo_state \<Rightarrow> object_id_type \<Rightarrow> bool \<times> 'o option \<times> 'o option" where
  "entry s i = (i \<in> set (new_ids s), map_of (old_values s) i, map_of (removed s) i)"

text \<open>What one entry of an undo state says of an object's value before (\<open>o0\<close>) and now (\<open>o1\<close>):
  the four rows new, upd, del and nop of the table in \<^verbatim>\<open>undo_database::merge\<close>.\<close>

fun entry_tracks :: "('o \<Rightarrow> 'o \<Rightarrow> bool) \<Rightarrow> bool \<times> 'o option \<times> 'o option \<Rightarrow> 'o option \<Rightarrow> 'o option \<Rightarrow> bool" where
  "entry_tracks clash (new, old, del) o0 o1 =
    ((new \<longrightarrow> o0 = None \<and> o1 \<noteq> None) \<and>
     (\<forall>v. old = Some v \<longrightarrow> o0 = Some v \<and> (\<exists>x. o1 = Some x \<and> clash v = clash x)) \<and>
     (\<forall>v. del = Some v \<longrightarrow> o0 = Some v \<and> o1 = None) \<and>
     (\<not> new \<and> old = None \<and> del = None \<longrightarrow> o1 = o0))"

definition next_tracks :: "object_id_type option \<Rightarrow> object_id_type option \<Rightarrow> object_id_type option \<Rightarrow> bool" where
  "next_tracks r n0 n1 \<longleftrightarrow> (case r of None \<Rightarrow> n1 = n0 | Some k \<Rightarrow> n0 = Some k \<and> n1 \<noteq> None) \<and>
     (\<forall>k0. n0 = Some k0 \<longrightarrow> (\<exists>k1. n1 = Some k1 \<and> k0 \<le> k1))"

definition tracks :: "('o \<Rightarrow> 'o \<Rightarrow> bool) \<Rightarrow> 'o undo_state \<Rightarrow> 'o object_database \<Rightarrow> 'o object_database \<Rightarrow> bool" where
  "tracks clash s d0 d1 \<longleftrightarrow> undo_state_wf s \<and>
     (\<forall>i. entry_tracks clash (entry s i) (objects d0 i) (objects d1 i)) \<and>
     (\<forall>idx. next_tracks (map_of (old_index_next_ids s) idx) (next_ids d0 idx) (next_ids d1 idx)) \<and>
     (\<forall>i \<in> set (new_ids s). \<exists>k. next_ids d0 (index_id i) = Some k \<and> k \<le> i)"

section \<open>The contract of the container\<close>

locale unique_container =
  fixes accept :: "'o container" and clash :: "'o \<Rightarrow> 'o \<Rightarrow> bool"
  assumes accept_iff: "accept m i x \<longleftrightarrow> (\<forall>j y. j \<noteq> i \<longrightarrow> m j = Some y \<longrightarrow> \<not> clash x y)"
    and clash_sym: "clash x y \<longleftrightarrow> clash y x"
begin

lemma consistent_upd:
  "consistent clash m \<Longrightarrow> accept (m(i := None)) i x \<Longrightarrow> consistent clash (m(i \<mapsto> x))"
  unfolding consistent_def accept_iff using clash_sym by (auto split: if_splits)

lemma accept_same_key:
  "consistent clash m \<Longrightarrow> m i = Some x \<Longrightarrow> clash v = clash x \<Longrightarrow> accept (m(i := None)) i v"
  unfolding consistent_def accept_iff by auto

lemma accept_sub:
  "consistent clash m' \<Longrightarrow> m' i = Some x \<Longrightarrow> m \<subseteq>\<^sub>m m' \<Longrightarrow> accept m i x"
  unfolding consistent_def accept_iff map_le_def by (metis domI)

text \<open>The four loops of \<^verbatim>\<open>undo\<close>, run while recording is disabled.\<close>

lemma restore_old_values:
  assumes "disabled d" "consistent clash (objects d)" "distinct (map fst xs)"
    and "\<And>i v. map_of xs i = Some v \<Longrightarrow>
      next_ids d (index_id i) \<noteq> None \<and> (\<exists>x. objects d i = Some x \<and> clash v = clash x)"
  shows "rfold (\<lambda>(i, x). db_modify accept i (\<lambda>_. x)) xs d = Inr (d\<lparr> objects := objects d ++ map_of xs \<rparr>)"
  using assms
proof (induction xs arbitrary: d)
  case Nil
  then show ?case by simp
next
  case (Cons p xs)
  obtain i v where p: "p = (i, v)" by fastforce
  obtain x where x: "objects d i = Some x" "clash v = clash x" "next_ids d (index_id i) \<noteq> None"
    using Cons.prems(4) [of i v] by (auto simp: p)
  let ?d = "d\<lparr> objects := (objects d)(i \<mapsto> v) \<rparr>"
  have acc: "accept ((objects d)(i := None)) i v"
    by (rule accept_same_key [OF Cons.prems(2) x(1,2)])
  have step: "db_modify accept i (\<lambda>_. v) d = Inr ?d"
    using x acc Cons.prems(1) by (auto simp: db_modify_def get_object_def on_modify_def)
  have ni: "i \<notin> dom (map_of xs)" using Cons.prems(3) by (simp add: p dom_map_of_conv_image_fst)
  have "rfold (\<lambda>(i, x). db_modify accept i (\<lambda>_. x)) xs ?d = Inr (?d\<lparr> objects := objects ?d ++ map_of xs \<rparr>)"
  proof (rule Cons.IH)
    show "consistent clash (objects ?d)" using consistent_upd [OF Cons.prems(2) acc] by simp
    show "next_ids ?d (index_id j) \<noteq> None \<and> (\<exists>y. objects ?d j = Some y \<and> clash w = clash y)"
      if "map_of xs j = Some w" for j w
      using that ni Cons.prems(4) [of j w] by (auto simp: p domI)
  qed (use Cons.prems in \<open>simp_all add: p\<close>)
  then show ?case unfolding p map_add_map_of_Cons [OF ni] by (simp add: step)
qed

lemma restore_new_ids:
  assumes "disabled d" "distinct xs"
    and "\<And>i. i \<in> set xs \<Longrightarrow> next_ids d (index_id i) \<noteq> None \<and> objects d i \<noteq> None"
  shows "rfold db_remove xs d = Inr (d\<lparr> objects := objects d |` (- set xs) \<rparr>)"
  using assms
proof (induction xs arbitrary: d)
  case Nil
  then show ?case by (simp add: restrict_map_def)
next
  case (Cons i xs)
  let ?d = "d\<lparr> objects := (objects d)(i := None) \<rparr>"
  obtain x where x: "objects d i = Some x" "next_ids d (index_id i) \<noteq> None"
    using Cons.prems(3) [of i] by auto
  have step: "db_remove i d = Inr ?d"
    using x Cons.prems(1) by (auto simp: db_remove_def get_object_def on_remove_def)
  have "rfold db_remove xs ?d = Inr (?d\<lparr> objects := objects ?d |` (- set xs) \<rparr>)"
    by (rule Cons.IH) (use Cons.prems in auto)
  moreover have "(objects d)(i := None) |` (- set xs) = objects d |` (- insert i (set xs))"
    by (auto simp: restrict_map_def fun_eq_iff)
  ultimately show ?case by (simp add: step)
qed

lemma restore_next_ids:
  assumes "distinct (map fst xs)" "\<And>idx. idx \<in> fst ` set xs \<Longrightarrow> next_ids d idx \<noteq> None"
  shows "rfold (\<lambda>(idx, i). set_next_id idx i) xs d = Inr (d\<lparr> next_ids := next_ids d ++ map_of xs \<rparr>)"
  using assms
proof (induction xs arbitrary: d)
  case Nil
  then show ?case by simp
next
  case (Cons p xs)
  obtain idx i where p: "p = (idx, i)" by fastforce
  have ni: "idx \<notin> dom (map_of xs)" using Cons.prems(1) by (simp add: p dom_map_of_conv_image_fst)
  have "rfold (\<lambda>(idx, i). set_next_id idx i) xs (d\<lparr> next_ids := (next_ids d)(idx \<mapsto> i) \<rparr>) =
      Inr (d\<lparr> next_ids := (next_ids d)(idx \<mapsto> i) ++ map_of xs \<rparr>)"
    by (subst Cons.IH) (use Cons.prems in \<open>auto simp: p\<close>)
  moreover have "set_next_id idx i d = Inr (d\<lparr> next_ids := (next_ids d)(idx \<mapsto> i) \<rparr>)"
    using Cons.prems(2) [of idx] by (auto simp: p set_next_id_def)
  ultimately show ?case unfolding p map_add_map_of_Cons [OF ni] by simp
qed

lemma restore_removed:
  assumes "distinct (map fst xs)" "consistent clash (objects d ++ map_of xs)"
    and "\<And>i v. map_of xs i = Some v \<Longrightarrow> next_ids d (index_id i) \<noteq> None \<and> objects d i = None"
  shows "rfold (\<lambda>(i, x). db_insert accept i x) xs d = Inr (d\<lparr> objects := objects d ++ map_of xs \<rparr>)"
  using assms
proof (induction xs arbitrary: d)
  case Nil
  then show ?case by simp
next
  case (Cons p xs)
  obtain i v where p: "p = (i, v)" by fastforce
  have ni: "i \<notin> dom (map_of xs)" using Cons.prems(1) by (simp add: p dom_map_of_conv_image_fst)
  have i: "objects d i = None" "next_ids d (index_id i) \<noteq> None"
    using Cons.prems(3) [of i v] by (auto simp: p)
  have cons: "consistent clash ((objects d)(i \<mapsto> v) ++ map_of xs)"
    using Cons.prems(2) unfolding p map_add_map_of_Cons [OF ni] .
  have none: "objects d j = None" if "map_of xs j = Some w" for j w
    using Cons.prems(3) [of j w] that ni by (cases "j = i") (auto simp: p)
  have "objects d \<subseteq>\<^sub>m (objects d)(i \<mapsto> v) ++ map_of xs"
    using i(1) none by (fastforce simp: map_le_def map_add_def split: option.splits)
  then have "accept (objects d) i v"
    by (rule accept_sub [OF cons, rotated]) (use ni in \<open>simp add: map_add_dom_app_simps\<close>)
  then have step: "db_insert accept i v d = Inr (d\<lparr> objects := (objects d)(i \<mapsto> v) \<rparr>)"
    using i by (auto simp: db_insert_def)
  have "rfold (\<lambda>(i, x). db_insert accept i x) xs (d\<lparr> objects := (objects d)(i \<mapsto> v) \<rparr>) =
      Inr (d\<lparr> objects := (objects d)(i \<mapsto> v) ++ map_of xs \<rparr>)"
    by (subst Cons.IH) (use Cons.prems ni cons in \<open>auto simp: p domI\<close>)
  then show ?case unfolding p map_add_map_of_Cons [OF ni] by (simp add: step)
qed

text \<open>Restoring a state that tracks the changes from \<open>d0\<close> gives back the contents of \<open>d0\<close>.\<close>

lemma restore_tracked:
  assumes t: "tracks clash s d0 d1" and w0: "db_wf clash d0" and w1: "db_wf clash d1" and "disabled d1"
  shows "restore_state accept s d1 = Inr (d1\<lparr> objects := objects d0, next_ids := next_ids d0 \<rparr>)"
proof -
  have wf: "distinct (map fst (old_values s))" "distinct (map fst (old_index_next_ids s))"
    "distinct (new_ids s)" "distinct (map fst (removed s))"
    using t by (auto simp: tracks_def undo_state_wf_def)
  have e: "entry_tracks clash (i \<in> set (new_ids s), map_of (old_values s) i, map_of (removed s) i)
      (objects d0 i) (objects d1 i)" for i
    using t by (simp add: tracks_def entry_def del: entry_tracks.simps)
  have n: "next_tracks (map_of (old_index_next_ids s) k) (next_ids d0 k) (next_ids d1 k)" for k
    using t by (simp add: tracks_def)
  have i0: "objects d0 i \<noteq> None \<Longrightarrow> next_ids d0 (index_id i) \<noteq> None"
    and i1: "objects d1 i \<noteq> None \<Longrightarrow> next_ids d1 (index_id i) \<noteq> None" for i
    using w0 w1 by (fastforce simp: db_wf_def ids_wf_def)+
  let ?A = "objects d1 ++ map_of (old_values s)"
  let ?B = "?A |` (- set (new_ids s))"
  have s1: "rfold (\<lambda>(i, x). db_modify accept i (\<lambda>_. x)) (old_values s) d1 = Inr (d1\<lparr> objects := ?A \<rparr>)"
  proof (rule restore_old_values)
    show "next_ids d1 (index_id i) \<noteq> None \<and> (\<exists>x. objects d1 i = Some x \<and> clash v = clash x)"
      if "map_of (old_values s) i = Some v" for i v
      using e [of i] that i1 [of i] by auto
  qed (use wf w1 assms(4) in \<open>auto simp: db_wf_def\<close>)
  have s2: "rfold db_remove (new_ids s) (d1\<lparr> objects := ?A \<rparr>) = Inr (d1\<lparr> objects := ?B \<rparr>)"
  proof (subst restore_new_ids)
    show "next_ids (d1\<lparr> objects := ?A \<rparr>) (index_id i) \<noteq> None \<and> objects (d1\<lparr> objects := ?A \<rparr>) i \<noteq> None"
      if "i \<in> set (new_ids s)" for i
      using e [of i] that i1 [of i] by (auto simp: map_add_def split: option.splits)
  qed (use wf assms(4) in auto)
  have n0: "next_ids d1 ++ map_of (old_index_next_ids s) = next_ids d0"
  proof (rule ext)
    fix k show "(next_ids d1 ++ map_of (old_index_next_ids s)) k = next_ids d0 k"
      using n [of k] by (auto simp: next_tracks_def map_add_def split: option.splits)
  qed
  have "k \<in> fst ` set (old_index_next_ids s) \<Longrightarrow> next_ids d1 k \<noteq> None" for k
    using n [of k] by (auto simp: next_tracks_def dom_map_of_conv_image_fst [symmetric])
  then have s3: "rfold (\<lambda>(idx, i). set_next_id idx i) (old_index_next_ids s) (d1\<lparr> objects := ?B \<rparr>) =
      Inr (d1\<lparr> objects := ?B, next_ids := next_ids d0 \<rparr>)"
    by (subst restore_next_ids) (use wf n0 in auto)
  have b: "?B ++ map_of (removed s) = objects d0"
  proof (rule ext)
    fix i
    show "(?B ++ map_of (removed s)) i = objects d0 i"
      using e [of i] by (auto simp: map_add_def restrict_map_def split: option.splits)
  qed
  have "rfold (\<lambda>(i, x). db_insert accept i x) (removed s) (d1\<lparr> objects := ?B, next_ids := next_ids d0 \<rparr>) =
      Inr (d1\<lparr> objects := ?B, next_ids := next_ids d0, objects := ?B ++ map_of (removed s) \<rparr>)"
  proof (subst restore_removed)
    show "consistent clash (objects (d1\<lparr> objects := ?B, next_ids := next_ids d0 \<rparr>) ++ map_of (removed s))"
      using w0 by (simp add: b db_wf_def)
    show "next_ids (d1\<lparr> objects := ?B, next_ids := next_ids d0 \<rparr>) (index_id i) \<noteq> None \<and>
        objects (d1\<lparr> objects := ?B, next_ids := next_ids d0 \<rparr>) i = None"
      if "map_of (removed s) i = Some v" for i v
      using e [of i] that i0 [of i] by (auto simp: map_add_def restrict_map_def split: option.splits)
  qed (use wf in simp_all)
  then show ?thesis by (simp add: restore_state_def s1 s2 s3 b)
qed

end

section \<open>Recording keeps the tracking relation\<close>

lemma entry_record_create [simp]:
  "entry (record_create i s) j = (if j = i then (True, snd (entry s j)) else entry s j)"
  by (auto simp: entry_def record_create_def)

lemma entry_record_modify [simp]:
  "entry (record_modify i x s) j =
     (if j = i \<and> \<not> fst (entry s j) \<and> fst (snd (entry s j)) = None
      then (False, Some x, snd (snd (entry s j))) else entry s j)"
  by (auto simp: entry_def record_modify_def update_conv')

lemma entry_record_remove [simp]:
  "entry (record_remove i x s) j =
     (if j = i then
        (if fst (entry s j) then (False, snd (entry s j))
         else case fst (snd (entry s j)) of
           Some v \<Rightarrow> (False, None, Some v)
         | None \<Rightarrow> (False, None, Some (case snd (snd (entry s j)) of None \<Rightarrow> x | Some y \<Rightarrow> y)))
      else entry s j)"
  by (auto simp: entry_def record_remove_def update_conv' delete_conv' split: option.splits)

lemma record_next_ids [simp]:
  "old_index_next_ids (record_modify i x s) = old_index_next_ids s"
  "old_index_next_ids (record_remove i x s) = old_index_next_ids s"
  by (auto simp: record_modify_def record_remove_def split: option.splits)

lemma record_create_next:
  "map_of (old_index_next_ids (record_create i s)) k =
     (if k = index_id i \<and> map_of (old_index_next_ids s) k = None then Some i
      else map_of (old_index_next_ids s) k)"
  by (auto simp: record_create_def update_conv' split: option.splits)

lemma record_wf [simp]:
  assumes "undo_state_wf s"
  shows "undo_state_wf (record_create i s)" "undo_state_wf (record_modify i x s)"
    "undo_state_wf (record_remove i x s)"
  using assms
  by (auto simp: undo_state_wf_def record_create_def record_modify_def record_remove_def
      distinct_update distinct_delete distinct_removeAll split: option.splits)

lemma tracksD:
  assumes "tracks clash s d0 d1"
  shows "undo_state_wf s" "entry_tracks clash (entry s i) (objects d0 i) (objects d1 i)"
    "next_tracks (map_of (old_index_next_ids s) k) (next_ids d0 k) (next_ids d1 k)"
    "fst (entry s i) \<Longrightarrow> \<exists>k. next_ids d0 (index_id i) = Some k \<and> k \<le> i"
  using assms by (auto simp: tracks_def entry_def simp del: entry_tracks.simps)

lemma tracksI:
  assumes "undo_state_wf s" "\<And>i. entry_tracks clash (entry s i) (objects d0 i) (objects d1 i)"
    "\<And>k. next_tracks (map_of (old_index_next_ids s) k) (next_ids d0 k) (next_ids d1 k)"
    "\<And>i. fst (entry s i) \<Longrightarrow> \<exists>k. next_ids d0 (index_id i) = Some k \<and> k \<le> i"
  shows "tracks clash s d0 d1"
  using assms by (auto simp: tracks_def entry_def simp del: entry_tracks.simps)

lemma next_tracks_ge: "next_tracks r n0 (Some i) \<Longrightarrow> \<exists>k. n0 = Some k \<and> k \<le> i"
  by (cases r; cases n0) (auto simp: next_tracks_def)

lemma tracks_create:
  assumes t: "tracks clash s d0 d1" and w0: "db_wf clash d0" and w1: "db_wf clash d1"
    and i: "next_ids d1 idx = Some i" "objects d1 i = None" and lt: "i < id_succ i"
    and d2: "objects d2 = (objects d1)(i \<mapsto> x)" "next_ids d2 = (next_ids d1)(idx \<mapsto> id_succ i)"
  shows "tracks clash (record_create i s) d0 d2"
proof -
  have idx: "index_id i = idx" using w1 i(1) by (auto simp: db_wf_def ids_wf_def)
  note n = tracksD(3) [OF t]
  obtain k where k: "next_ids d0 idx = Some k" "k \<le> i"
    using next_tracks_ge n [of idx] unfolding i(1) by blast
  have o0: "objects d0 i = None"
  proof (rule ccontr)
    assume "objects d0 i \<noteq> None"
    then have "i < k" using w0 idx k(1) by (fastforce simp: db_wf_def ids_wf_def)
    with k(2) show False by simp
  qed
  show ?thesis
  proof (rule tracksI)
    show "entry_tracks clash (entry (record_create i s) j) (objects d0 j) (objects d2 j)" for j
      using tracksD(2) [OF t, of j] o0 i(2) by (cases "entry s j") (auto simp: d2)
    show "next_tracks (map_of (old_index_next_ids (record_create i s)) k) (next_ids d0 k) (next_ids d2 k)" for k
      using n [of k] i(1) lt idx
      by (auto simp: record_create_next next_tracks_def d2 split: option.splits if_splits
          intro: order.trans less_imp_le)
    show "\<exists>k. next_ids d0 (index_id j) = Some k \<and> k \<le> j" if "fst (entry (record_create i s) j)" for j
      using that k idx tracksD(4) [OF t, of j] by (auto split: if_splits)
  qed (simp add: tracksD(1) [OF t])
qed

lemma tracks_modify:
  assumes t: "tracks clash s d0 d1" and i: "objects d1 i = Some x" "clash y = clash x"
    and d2: "objects d2 = (objects d1)(i \<mapsto> y)" "next_ids d2 = next_ids d1"
  shows "tracks clash (record_modify i x s) d0 d2"
proof (rule tracksI)
  show "entry_tracks clash (entry (record_modify i x s) j) (objects d0 j) (objects d2 j)" for j
    using tracksD(2) [OF t, of j] i by (cases "entry s j") (auto simp: d2)
  show "\<exists>k. next_ids d0 (index_id j) = Some k \<and> k \<le> j" if "fst (entry (record_modify i x s) j)" for j
    using that tracksD(4) [OF t, of j] by (auto split: if_splits)
qed (use tracksD(1,3) [OF t] d2 in auto)

lemma tracks_remove:
  assumes t: "tracks clash s d0 d1" and i: "objects d1 i = Some x"
    and d2: "objects d2 = (objects d1)(i := None)" "next_ids d2 = next_ids d1"
  shows "tracks clash (record_remove i x s) d0 d2"
proof (rule tracksI)
  show "entry_tracks clash (entry (record_remove i x s) j) (objects d0 j) (objects d2 j)" for j
    using tracksD(2) [OF t, of j] i by (cases "entry s j") (auto simp: d2 split: option.splits)
  show "\<exists>k. next_ids d0 (index_id j) = Some k \<and> k \<le> j" if "fst (entry (record_remove i x s) j)" for j
    using that tracksD(4) [OF t, of j] by (auto split: if_splits option.splits)
qed (use tracksD(1,3) [OF t] d2 in auto)

section \<open>Merging composes the tracking relation\<close>

lemma entry_merge_steps:
  "entry (merge_upd (k, v) p) j =
     (if j = k then (case entry p j of (new, old, del) \<Rightarrow>
        (new, if new then old else (case old of None \<Rightarrow> Some v | Some x \<Rightarrow> Some x), del)) else entry p j)"
  "entry (merge_new k p) j = (if j = k then (True, snd (entry p j)) else entry p j)"
  "entry (merge_next (m, n) p) j = entry p j"
  "entry (merge_del (k, v) p) j =
     (if j = k then (case entry p j of (new, old, del) \<Rightarrow>
        if new then (False, old, del)
        else (False, None, Some (case old of None \<Rightarrow> v | Some x \<Rightarrow> x))) else entry p j)"
  by (auto simp: entry_def merge_upd_def merge_new_def merge_next_def merge_del_def update_conv'
      delete_conv' split: option.splits)

lemma next_merge_steps:
  "old_index_next_ids (merge_upd i p) = old_index_next_ids p"
  "old_index_next_ids (merge_new j p) = old_index_next_ids p"
  "old_index_next_ids (merge_del i p) = old_index_next_ids p"
  "map_of (old_index_next_ids (merge_next (m, n) p)) k =
     (if k = m then Some (case map_of (old_index_next_ids p) k of None \<Rightarrow> n | Some x \<Rightarrow> x)
      else map_of (old_index_next_ids p) k)"
  by (auto simp: merge_upd_def merge_new_def merge_next_def merge_del_def update_conv'
      split: option.splits)

lemma merge_steps_wf:
  assumes "undo_state_wf p"
  shows "undo_state_wf (merge_upd x p)" "undo_state_wf (merge_new j p)"
    "undo_state_wf (merge_next y p)" "undo_state_wf (merge_del x p)"
proof -
  show "undo_state_wf (merge_upd x p)"
    using assms by (simp add: merge_upd_def undo_state_wf_def distinct_update)
  show "undo_state_wf (merge_new j p)"
    using assms by (simp add: merge_new_def undo_state_wf_def)
  show "undo_state_wf (merge_next y p)"
    using assms by (simp add: merge_next_def undo_state_wf_def distinct_update)
  show "undo_state_wf (merge_del x p)"
    using assms
    by (simp add: merge_del_def undo_state_wf_def distinct_update distinct_delete distinct_removeAll
        split: option.split)
qed

lemma merge_states_wf: "undo_state_wf p \<Longrightarrow> undo_state_wf (merge_states p s)"
  unfolding merge_states_def by (auto intro!: fold_invariant [where I = undo_state_wf] merge_steps_wf)

definition merge_entry :: "bool \<times> 'o option \<times> 'o option \<Rightarrow> bool \<times> 'o option \<times> 'o option \<Rightarrow> bool \<times> 'o option \<times> 'o option" where
  "merge_entry e f =
     (let (new, old, del) = e; (new', old', del') = f;
          old1 = (case old' of None \<Rightarrow> old | Some v \<Rightarrow> if new then old else Some (case old of None \<Rightarrow> v | Some x \<Rightarrow> x));
          new1 = (new \<or> new')
      in (case del' of None \<Rightarrow> (new1, old1, del)
          | Some v \<Rightarrow> (if new1 then (False, old1, del)
                       else (False, None, Some (case old1 of None \<Rightarrow> v | Some x \<Rightarrow> x)))))"

lemma entry_merge_states:
  assumes "undo_state_wf s"
  shows "entry (merge_states p s) j = merge_entry (entry p j) (entry s j)"
proof -
  have d: "distinct (map fst (old_values s))" "distinct (new_ids s)" "distinct (map fst (removed s))"
    using assms by (auto simp: undo_state_wf_def)
  define p1 where "p1 = fold merge_upd (old_values s) p"
  define p2 where "p2 = fold merge_new (new_ids s) p1"
  define p3 where "p3 = fold merge_next (old_index_next_ids s) p2"
  have 3: "entry p3 j = entry p2 j"
    unfolding p3_def by (rule fold_invariant) (auto simp: entry_merge_steps)
  have "entry p1 j = (case map_of (old_values s) j of None \<Rightarrow> entry p j
      | Some v \<Rightarrow> (case entry p j of (new, old, del) \<Rightarrow>
        (new, if new then old else (case old of None \<Rightarrow> Some v | Some x \<Rightarrow> Some x), del)))"
    unfolding p1_def by (rule fold_pointwise [OF _ d(1)]) (simp add: entry_merge_steps)
  moreover have "entry p2 j = (if j \<in> set (new_ids s) then (True, snd (entry p1 j)) else entry p1 j)"
    unfolding p2_def by (rule fold_pointwise_set [OF _ d(2)]) (simp add: entry_merge_steps)
  moreover have "entry (fold merge_del (removed s) p3) j = (case map_of (removed s) j of None \<Rightarrow> entry p3 j
      | Some v \<Rightarrow> (case entry p3 j of (new, old, del) \<Rightarrow>
        if new then (False, old, del) else (False, None, Some (case old of None \<Rightarrow> v | Some x \<Rightarrow> x))))"
    by (rule fold_pointwise [OF _ d(3)]) (simp add: entry_merge_steps)
  ultimately show ?thesis
    unfolding merge_states_def p1_def [symmetric] p2_def [symmetric] p3_def [symmetric] 3
    by (cases "entry p j") (auto simp: merge_entry_def entry_def [of s] Let_def split: option.splits)
qed

lemma next_merge_states:
  assumes "undo_state_wf s"
  shows "map_of (old_index_next_ids (merge_states p s)) k =
    (case map_of (old_index_next_ids p) k of None \<Rightarrow> map_of (old_index_next_ids s) k | Some x \<Rightarrow> Some x)"
proof -
  have d: "distinct (map fst (old_index_next_ids s))" using assms by (auto simp: undo_state_wf_def)
  define p2 where "p2 = fold merge_new (new_ids s) (fold merge_upd (old_values s) p)"
  have 2: "old_index_next_ids p2 = old_index_next_ids p"
    unfolding p2_def
    by (rule fold_invariant, rule fold_invariant) (auto simp: next_merge_steps)
  have "old_index_next_ids (merge_states p s) = old_index_next_ids (fold merge_next (old_index_next_ids s) p2)"
    unfolding merge_states_def p2_def by (rule fold_invariant) (auto simp: next_merge_steps)
  moreover have "map_of (old_index_next_ids (fold merge_next (old_index_next_ids s) p2)) k =
      (case map_of (old_index_next_ids s) k of None \<Rightarrow> map_of (old_index_next_ids p2) k
       | Some v \<Rightarrow> Some (case map_of (old_index_next_ids p2) k of None \<Rightarrow> v | Some x \<Rightarrow> x))"
    by (rule fold_pointwise [OF _ d, where view = "\<lambda>p. map_of (old_index_next_ids p)"])
      (simp add: next_merge_steps)
  ultimately show ?thesis by (simp add: 2 split: option.splits)
qed

text \<open>The sixteen cases of the table in \<^verbatim>\<open>undo_database::merge\<close>: with the causally impossible
  ones excluded, the merged entry relates the first value to the last.\<close>

lemma merge_entry_tracks:
  assumes "entry_tracks clash e o0 o1" "entry_tracks clash f o1 o2" "fst f \<Longrightarrow> o0 = None"
  shows "entry_tracks clash (merge_entry e f) o0 o2"
proof -
  obtain n od dl where e: "e = (n, od, dl)" by (cases e) auto
  obtain n' od' dl' where f: "f = (n', od', dl')" by (cases f) auto
  show ?thesis
    using assms unfolding e f
    by (cases n; cases od; cases dl; cases n'; cases od'; cases dl') (auto simp: merge_entry_def)
qed

lemma tracks_merge:
  assumes p: "tracks clash p d0 d1" and s: "tracks clash s d1 d2" and w0: "db_wf clash d0"
  shows "tracks clash (merge_states p s) d0 d2"
proof (rule tracksI)
  note e = entry_merge_states [OF tracksD(1) [OF s]]
  have k: "\<exists>k. next_ids d0 (index_id i) = Some k \<and> k \<le> i" if new: "fst (entry s i)" for i
  proof -
    obtain k1 where k1: "next_ids d1 (index_id i) = Some k1" "k1 \<le> i"
      using tracksD(4) [OF s, of i] new by auto
    have "\<exists>k. next_ids d0 (index_id i) = Some k \<and> k \<le> k1"
      using tracksD(3) [OF p, of "index_id i"] unfolding k1(1) by (rule next_tracks_ge)
    with k1(2) show ?thesis by (auto intro: order.trans)
  qed
  show "undo_state_wf (merge_states p s)" by (rule merge_states_wf [OF tracksD(1) [OF p]])
  show "entry_tracks clash (entry (merge_states p s) i) (objects d0 i) (objects d2 i)" for i
    unfolding e
  proof (rule merge_entry_tracks [OF tracksD(2) [OF p] tracksD(2) [OF s]])
    assume "fst (entry s i)"
    then obtain k where k: "next_ids d0 (index_id i) = Some k" "k \<le> i" using k by blast
    show "objects d0 i = None"
    proof (rule ccontr)
      assume "objects d0 i \<noteq> None"
      then have "i < k" using w0 k(1) by (fastforce simp: db_wf_def ids_wf_def)
      with k(2) show False by simp
    qed
  qed
  show "next_tracks (map_of (old_index_next_ids (merge_states p s)) k) (next_ids d0 k) (next_ids d2 k)" for k
    using tracksD(3) [OF p, of k] tracksD(3) [OF s, of k]
    by (auto simp: next_merge_states [OF tracksD(1) [OF s]] next_tracks_def split: option.splits
        intro: order.trans)
  show "\<exists>k. next_ids d0 (index_id i) = Some k \<and> k \<le> i" if "fst (entry (merge_states p s) i)" for i
  proof (cases "fst (entry s i)")
    case True
    then show ?thesis by (rule k)
  next
    case False
    then have "fst (entry p i)"
      using that unfolding e by (cases "entry p i"; cases "entry s i") (auto simp: merge_entry_def Let_def split: option.splits if_splits)
    then show ?thesis using tracksD(4) [OF p, of i] by blast
  qed
qed

section \<open>A session as a whole\<close>

lemma trim_stack_take: "trim_stack m s = take m s"
proof (induction m s rule: trim_stack.induct)
  case (1 m s)
  show ?case
    using 1 by (subst trim_stack.simps) (auto simp: butlast_conv_take min_def)
qed

lemma tracks_cong:
  "objects d0 = objects d0' \<Longrightarrow> next_ids d0 = next_ids d0' \<Longrightarrow> objects d1 = objects d1' \<Longrightarrow>
   next_ids d1 = next_ids d1' \<Longrightarrow> tracks clash s d0 d1 \<longleftrightarrow> tracks clash s d0' d1'"
  by (simp add: tracks_def)

lemma db_wf_cong:
  "objects d = objects d' \<Longrightarrow> next_ids d = next_ids d' \<Longrightarrow> db_wf clash d \<longleftrightarrow> db_wf clash d'"
  by (simp add: db_wf_def)

lemma tracks_empty: "tracks clash empty_undo_state d d"
  by (rule tracksI) (simp_all add: empty_undo_state_def undo_state_wf_def entry_def next_tracks_def)

lemma start_session_enabled:
  "\<not> disabled d \<Longrightarrow> start_undo_session False d =
     (d\<lparr> stack := empty_undo_state # take (max_size d) (stack d), active_sessions := active_sessions d + 1 \<rparr>,
      \<lparr> apply_undo = True, disable_on_exit = False \<rparr>)"
  by (simp add: start_undo_session_def trim_stack_take)

definition same_control :: "'o object_database \<Rightarrow> 'o object_database \<Rightarrow> bool" where
  "same_control d d' \<longleftrightarrow> disabled d' = disabled d \<and> max_size d' = max_size d \<and>
     active_sessions d' = active_sessions d"

definition session_kept :: "('o \<Rightarrow> 'o \<Rightarrow> bool) \<Rightarrow> nat \<Rightarrow> 'o object_database \<Rightarrow> 'o object_database \<Rightarrow> bool" where
  "session_kept clash n d d' \<longleftrightarrow> (\<forall>s ss d0. \<not> disabled d \<longrightarrow> db_wf clash d \<longrightarrow> stack d = s # ss \<longrightarrow>
     n \<le> max_size d \<longrightarrow> tracks clash s d0 d \<longrightarrow> db_wf clash d0 \<longrightarrow>
     (\<exists>s' m. stack d' = s' # take m ss \<and> max_size d - n \<le> m \<and> tracks clash s' d0 d' \<and>
        db_wf clash d' \<and> same_control d d'))"

lemma same_control_trans: "same_control a b \<Longrightarrow> same_control b c \<Longrightarrow> same_control a c"
  by (simp add: same_control_def)

lemma ids_wf_create:
  assumes "ids_wf m n" "n idx = Some i" "index_id i = idx" "index_id (id_succ i) = index_id i" "i < id_succ i"
  shows "ids_wf (m(i \<mapsto> x)) (n(idx \<mapsto> id_succ i))"
proof -
  have "\<exists>k. (n(idx \<mapsto> id_succ i)) (index_id j) = Some k \<and> j < k" if "(m(i \<mapsto> x)) j = Some y" for j y
  proof (cases "j = i")
    case True
    then show ?thesis using assms by simp
  next
    case False
    with that assms(1) obtain k where "n (index_id j) = Some k" "j < k" by (auto simp: ids_wf_def)
    then show ?thesis using assms(2,5) by (cases "index_id j = idx") auto
  qed
  then show ?thesis using assms by (auto simp: ids_wf_def)
qed

context unique_container
begin

lemma create_tracks:
  assumes c: "db_create accept idx f d1 = Inr d2" and r: "has_room idx d1" and e: "\<not> disabled d1"
    and st: "stack d1 = s # ss" and t: "tracks clash s d0 d1" and w0: "db_wf clash d0" and w1: "db_wf clash d1"
  shows "\<exists>s'. stack d2 = s' # ss \<and> tracks clash s' d0 d2 \<and> db_wf clash d2 \<and> same_control d1 d2"
proof -
  obtain i where i: "next_ids d1 idx = Some i" "objects d1 i = None" "accept (objects d1) i (f i)"
    and d2: "d2 = on_create i (d1\<lparr> objects := (objects d1)(i \<mapsto> f i), next_ids := (next_ids d1)(idx \<mapsto> id_succ i) \<rparr>)"
    using c by (auto simp: db_create_def split: option.splits)
  have idx: "index_id i = idx" using w1 i(1) by (auto simp: db_wf_def ids_wf_def)
  have room: "id_instance i \<noteq> GRAPHENE_DB_MAX_INSTANCE_ID" using r i(1) by (simp add: has_room_def)
  note succ = id_succ_same_index [OF room]
  have o2: "objects d2 = (objects d1)(i \<mapsto> f i)" "next_ids d2 = (next_ids d1)(idx \<mapsto> id_succ i)"
    "stack d2 = record_create i s # ss" "same_control d1 d2"
    using e st by (auto simp: d2 on_create_def with_back_def same_control_def)
  have "(objects d1)(i := None) = objects d1" using i(2) by auto
  then have "consistent clash (objects d2)"
    using consistent_upd [of "objects d1" i "f i"] w1 i(3) by (simp add: o2 db_wf_def)
  moreover have "ids_wf (objects d2) (next_ids d2)"
    using ids_wf_create [of "objects d1" "next_ids d1" idx i "f i"] w1 idx i(1) succ by (simp add: o2 db_wf_def)
  moreover have "tracks clash (record_create i s) d0 d2"
    by (rule tracks_create [OF t w0 w1 i(1,2) succ(2) o2(1,2)])
  ultimately show ?thesis using o2 by (auto simp: db_wf_def)
qed

lemma modify_tracks:
  assumes c: "db_modify accept i f d1 = Inr d2" and k: "\<And>x. objects d1 i = Some x \<Longrightarrow> clash (f x) = clash x"
    and e: "\<not> disabled d1" and st: "stack d1 = s # ss" and t: "tracks clash s d0 d1" and w1: "db_wf clash d1"
  shows "\<exists>s'. stack d2 = s' # ss \<and> tracks clash s' d0 d2 \<and> db_wf clash d2 \<and> same_control d1 d2"
proof -
  obtain x where x: "objects d1 i = Some x" "accept ((objects d1)(i := None)) i (f x)"
    and d2: "d2 = (on_modify i x d1)\<lparr> objects := (objects d1)(i \<mapsto> f x) \<rparr>"
    using c e by (auto simp: db_modify_def get_object_def Let_def on_modify_def with_back_def)
  have o2: "objects d2 = (objects d1)(i \<mapsto> f x)" "next_ids d2 = next_ids d1"
    "stack d2 = record_modify i x s # ss" "same_control d1 d2"
    using e st by (auto simp: d2 on_modify_def with_back_def same_control_def)
  have "consistent clash (objects d2)"
    using consistent_upd [OF _ x(2)] w1 by (simp add: o2 db_wf_def)
  moreover have "ids_wf (objects d2) (next_ids d2)" using w1 x(1) by (auto simp: o2 db_wf_def ids_wf_def)
  ultimately show ?thesis
    using o2 tracks_modify [OF t x(1) k [OF x(1)] o2(1,2)] by (auto simp: db_wf_def)
qed

lemma remove_tracks:
  assumes c: "db_remove i d1 = Inr d2"
    and e: "\<not> disabled d1" and st: "stack d1 = s # ss" and t: "tracks clash s d0 d1" and w1: "db_wf clash d1"
  shows "\<exists>s'. stack d2 = s' # ss \<and> tracks clash s' d0 d2 \<and> db_wf clash d2 \<and> same_control d1 d2"
proof -
  obtain x where x: "objects d1 i = Some x"
    and d2: "d2 = (on_remove i x d1)\<lparr> objects := (objects d1)(i := None) \<rparr>"
    using c e by (auto simp: db_remove_def get_object_def Let_def on_remove_def with_back_def)
  have o2: "objects d2 = (objects d1)(i := None)" "next_ids d2 = next_ids d1"
    "stack d2 = record_remove i x s # ss" "same_control d1 d2"
    using e st by (auto simp: d2 on_remove_def with_back_def same_control_def)
  have "db_wf clash d2" using w1 by (auto simp: o2 db_wf_def consistent_def ids_wf_def)
  with o2 show ?thesis using tracks_remove [OF t x o2(1,2)] by auto
qed

lemma undo_tracked:
  assumes "stack d = s # ss" "tracks clash s d0 d" "db_wf clash d0" "db_wf clash d" "\<not> disabled d"
    "active_sessions d > 0"
  shows "undo accept d = Inr (d\<lparr> objects := objects d0, next_ids := next_ids d0,
    stack := (if ss = [] then [empty_undo_state] else ss), active_sessions := active_sessions d - 1 \<rparr>)"
proof -
  have "restore_state accept s (undo_disable d) =
      Inr ((undo_disable d)\<lparr> objects := objects d0, next_ids := next_ids d0 \<rparr>)"
    by (rule restore_tracked) (use assms in \<open>auto simp: undo_disable_def tracks_def db_wf_def\<close>)
  with assms show ?thesis by (simp add: undo_def undo_disable_def undo_enable_def)
qed

text \<open>One inner session, given what the run inside it does (\<open>IH\<close>): the outer states survive
  the trimming of the stack as long as the nesting depth stays within \<^verbatim>\<open>max_size\<close>.\<close>

lemma inner_session:
  assumes start: "start_undo_session False d1 = (d2, ses)"
    and IH: "session_kept clash n d2 d3"
    and A: "stack d1 = s1 # take m1 ss" "max_size d - Suc n \<le> m1" "tracks clash s1 d0 d1"
      "db_wf clash d1" "same_control d d1"
    and e: "\<not> disabled d" "Suc n \<le> max_size d"
  shows "\<exists>s3 m. stack d3 = s3 # s1 # take m ss \<and> max_size d - Suc n \<le> m \<and> tracks clash s3 d1 d3 \<and>
    db_wf clash d3 \<and> \<not> disabled d3 \<and> max_size d3 = max_size d \<and> active_sessions d3 = active_sessions d + 1"
proof -
  obtain M where M: "max_size d = Suc M" using e(2) by (cases "max_size d") auto
  have c: "\<not> disabled d1" "max_size d1 = Suc M" "active_sessions d1 = active_sessions d"
    using A(5) e(1) M by (simp_all add: same_control_def)
  have d2: "d2 = d1\<lparr> stack := empty_undo_state # s1 # take (min M m1) ss, active_sessions := active_sessions d + 1 \<rparr>"
    using start start_session_enabled [OF c(1)] c A(1) by (simp add: min.commute)
  have t: "tracks clash empty_undo_state d1 d2" "db_wf clash d2"
    using tracks_empty [of clash d1] tracks_cong [of d1 d1 d2 d1] db_wf_cong [of d2 d1] A(4) by (simp_all add: d2)
  obtain s3 m where B: "stack d3 = s3 # take m (s1 # take (min M m1) ss)" "Suc M - n \<le> m"
    "tracks clash s3 d1 d3" "db_wf clash d3" "same_control d2 d3"
    using IH [unfolded session_kept_def, rule_format, of empty_undo_state "s1 # take (min M m1) ss" d1]
      t A(4) c e(2) M by (auto simp: d2)
  have "0 < m" using B(2) e(2) M by simp
  then obtain k where k: "m = Suc k" by (cases m) auto
  have "stack d3 = s3 # s1 # take (min k (min M m1)) ss" using B(1) by (simp add: k min.commute)
  moreover have "max_size d - Suc n \<le> min k (min M m1)" using A(2) B(2) M k by simp
  ultimately show ?thesis using B c M by (auto simp: same_control_def d2)
qed

lemma inner_undo_kept:
  assumes IH1: "session_kept clash (Suc n) d d1" and start: "start_undo_session False d1 = (d2, ses)"
    and IH2: "session_kept clash n d2 d3" and u: "undo accept d3 = Inr d4"
  shows "session_kept clash (Suc n) d d4"
  unfolding session_kept_def
proof (intro allI impI)
  fix s ss d0
  assume P: "\<not> disabled d" "db_wf clash d" "stack d = s # ss" "Suc n \<le> max_size d" "tracks clash s d0 d" "db_wf clash d0"
  then obtain s1 m1 where A: "stack d1 = s1 # take m1 ss" "max_size d - Suc n \<le> m1" "tracks clash s1 d0 d1"
    "db_wf clash d1" "same_control d d1" using IH1 unfolding session_kept_def by blast
  obtain s3 m where B: "stack d3 = s3 # s1 # take m ss" "max_size d - Suc n \<le> m" "tracks clash s3 d1 d3"
    "db_wf clash d3" "\<not> disabled d3" "max_size d3 = max_size d" "active_sessions d3 = active_sessions d + 1"
    using inner_session [OF start IH2 A P(1,4)] by blast
  have d4: "d4 = d3\<lparr> objects := objects d1, next_ids := next_ids d1, stack := s1 # take m ss,
      active_sessions := active_sessions d3 - 1 \<rparr>"
    using undo_tracked [OF B(1,3) A(4) B(4,5)] B(7) u by simp
  then have "tracks clash s1 d0 d4" "db_wf clash d4"
    using A(3,4) tracks_cong [of d0 d0 d4 d1] db_wf_cong [of d4 d1] by simp_all
  then show "\<exists>s' m. stack d4 = s' # take m ss \<and> max_size d - Suc n \<le> m \<and> tracks clash s' d0 d4 \<and>
        db_wf clash d4 \<and> same_control d d4"
    using B P(1) by (auto simp: same_control_def d4)
qed

lemma inner_merge_kept:
  assumes IH1: "session_kept clash (Suc n) d d1" and start: "start_undo_session False d1 = (d2, ses)"
    and IH2: "session_kept clash n d2 d3" and u: "merge d3 = Inr d4"
  shows "session_kept clash (Suc n) d d4"
  unfolding session_kept_def
proof (intro allI impI)
  fix s ss d0
  assume P: "\<not> disabled d" "db_wf clash d" "stack d = s # ss" "Suc n \<le> max_size d" "tracks clash s d0 d" "db_wf clash d0"
  then obtain s1 m1 where A: "stack d1 = s1 # take m1 ss" "max_size d - Suc n \<le> m1" "tracks clash s1 d0 d1"
    "db_wf clash d1" "same_control d d1" using IH1 unfolding session_kept_def by blast
  obtain s3 m where B: "stack d3 = s3 # s1 # take m ss" "max_size d - Suc n \<le> m" "tracks clash s3 d1 d3"
    "db_wf clash d3" "\<not> disabled d3" "max_size d3 = max_size d" "active_sessions d3 = active_sessions d + 1"
    using inner_session [OF start IH2 A P(1,4)] by blast
  have d4: "d4 = d3\<lparr> stack := merge_states s1 s3 # take m ss, active_sessions := active_sessions d3 - 1 \<rparr>"
    using u B(1,7) by (simp add: merge_def)
  have "tracks clash (merge_states s1 s3) d0 d3" by (rule tracks_merge [OF A(3) B(3) P(6)])
  then have "tracks clash (merge_states s1 s3) d0 d4" "db_wf clash d4"
    using B(4) tracks_cong [of d0 d0 d4 d3] db_wf_cong [of d4 d3] by (simp_all add: d4)
  then show "\<exists>s' m. stack d4 = s' # take m ss \<and> max_size d - Suc n \<le> m \<and> tracks clash s' d0 d4 \<and>
        db_wf clash d4 \<and> same_control d d4"
    using B P(1) by (auto simp: same_control_def d4)
qed

lemma runs_kept: "runs accept clash n d d' \<Longrightarrow> session_kept clash n d d'"
proof (induction rule: runs.induct)
  case (run_refl n d)
  have "\<exists>m. s # ss = s # take m ss \<and> max_size d - n \<le> m" for s :: "'o undo_state" and ss
    by (rule exI [of _ "length ss + max_size d"]) simp
  then show ?case by (fastforce simp: session_kept_def same_control_def)
next
  case (run_create n d d1 idx f d2)
  show ?case unfolding session_kept_def
  proof (intro allI impI)
    fix s ss d0
    assume P: "\<not> disabled d" "db_wf clash d" "stack d = s # ss" "n \<le> max_size d" "tracks clash s d0 d" "db_wf clash d0"
    then obtain s1 m where A: "stack d1 = s1 # take m ss" "max_size d - n \<le> m" "tracks clash s1 d0 d1"
      "db_wf clash d1" "same_control d d1" using run_create.IH unfolding session_kept_def by blast
    then have en: "\<not> disabled d1" using P(1) by (simp add: same_control_def)
    show "\<exists>s' m. stack d2 = s' # take m ss \<and> max_size d - n \<le> m \<and> tracks clash s' d0 d2 \<and>
        db_wf clash d2 \<and> same_control d d2"
      using create_tracks [OF run_create.hyps(3,2) en A(1,3) P(6) A(4)] A(2,5) same_control_trans by blast
  qed
next
  case (run_modify n d d1 i f d2)
  show ?case unfolding session_kept_def
  proof (intro allI impI)
    fix s ss d0
    assume P: "\<not> disabled d" "db_wf clash d" "stack d = s # ss" "n \<le> max_size d" "tracks clash s d0 d" "db_wf clash d0"
    then obtain s1 m where A: "stack d1 = s1 # take m ss" "max_size d - n \<le> m" "tracks clash s1 d0 d1"
      "db_wf clash d1" "same_control d d1" using run_modify.IH unfolding session_kept_def by blast
    then have en: "\<not> disabled d1" using P(1) by (simp add: same_control_def)
    show "\<exists>s' m. stack d2 = s' # take m ss \<and> max_size d - n \<le> m \<and> tracks clash s' d0 d2 \<and>
        db_wf clash d2 \<and> same_control d d2"
      using modify_tracks [OF run_modify.hyps(3,2) en A(1,3,4)] A(2,5) same_control_trans by blast
  qed
next
  case (run_remove n d d1 i d2)
  show ?case unfolding session_kept_def
  proof (intro allI impI)
    fix s ss d0
    assume P: "\<not> disabled d" "db_wf clash d" "stack d = s # ss" "n \<le> max_size d" "tracks clash s d0 d" "db_wf clash d0"
    then obtain s1 m where A: "stack d1 = s1 # take m ss" "max_size d - n \<le> m" "tracks clash s1 d0 d1"
      "db_wf clash d1" "same_control d d1" using run_remove.IH unfolding session_kept_def by blast
    then have en: "\<not> disabled d1" using P(1) by (simp add: same_control_def)
    show "\<exists>s' m. stack d2 = s' # take m ss \<and> max_size d - n \<le> m \<and> tracks clash s' d0 d2 \<and>
        db_wf clash d2 \<and> same_control d d2"
      using remove_tracks [OF run_remove.hyps(2) en A(1,3,4)] A(2,5) same_control_trans by blast
  qed
next
  case (run_inner_undo n d d1 d2 s' d3 d4)
  show ?case by (rule inner_undo_kept [OF run_inner_undo.IH(1) run_inner_undo.hyps(2) run_inner_undo.IH(2) run_inner_undo.hyps(4)])
next
  case (run_inner_merge n d d1 d2 s' d3 d4)
  show ?case by (rule inner_merge_kept [OF run_inner_merge.IH(1) run_inner_merge.hyps(2) run_inner_merge.IH(2) run_inner_merge.hyps(4)])
qed

lemma session_tracked:
  assumes "\<not> disabled d" "db_wf clash d" "start_undo_session False d = (d1, ses)"
    "runs accept clash n d1 d2" "n \<le> max_size d"
  shows "\<exists>s m. stack d2 = s # take m (take (max_size d) (stack d)) \<and> max_size d - n \<le> m \<and>
    tracks clash s d d2 \<and> db_wf clash d2 \<and> \<not> disabled d2 \<and> max_size d2 = max_size d \<and>
    active_sessions d2 = active_sessions d + 1"
proof -
  have d1: "d1 = d\<lparr> stack := empty_undo_state # take (max_size d) (stack d), active_sessions := active_sessions d + 1 \<rparr>"
    using assms(3) start_session_enabled [OF assms(1)] by simp
  have t: "tracks clash empty_undo_state d d1" "db_wf clash d1"
    using tracks_empty [of clash d] tracks_cong [of d d d1 d] db_wf_cong [of d1 d] assms(2) by (simp_all add: d1)
  show ?thesis
    using runs_kept [OF assms(4), unfolded session_kept_def, rule_format,
        of empty_undo_state "take (max_size d) (stack d)" d] t assms(1,2,5)
    by (auto simp: d1 same_control_def)
qed

lemma undo_session:
  assumes "\<not> disabled d" "db_wf clash d" "start_undo_session False d = (d1, ses)"
    "runs accept clash n d1 d2" "n \<le> max_size d"
  shows "\<exists>d3. undo accept d2 = Inr d3 \<and> objects d3 = objects d \<and> next_ids d3 = next_ids d \<and>
    active_sessions d3 = active_sessions d \<and> \<not> disabled d3"
proof -
  obtain s ss where B: "stack d2 = s # ss" "tracks clash s d d2" "db_wf clash d2" "\<not> disabled d2"
    "active_sessions d2 = active_sessions d + 1"
    using session_tracked [OF assms] by blast
  with undo_tracked [OF B(1,2) assms(2) B(3,4)] show ?thesis by simp
qed

lemma pop_commit_session:
  assumes "\<not> disabled d" "db_wf clash d" "start_undo_session False d = (d1, ses)"
    "runs accept clash n d1 d2" "n \<le> max_size d" "commit d2 = Inr d3" "active_sessions d = 0"
  shows "\<exists>d4. pop_commit accept d3 = Inr d4 \<and> objects d4 = objects d \<and> next_ids d4 = next_ids d \<and> \<not> disabled d4"
proof -
  obtain s ss where B: "stack d2 = s # ss" "tracks clash s d d2" "db_wf clash d2" "\<not> disabled d2"
    "active_sessions d2 = active_sessions d + 1"
    using session_tracked [OF assms(1-5)] by blast
  have d3: "d3 = d2\<lparr> active_sessions := 0 \<rparr>" using assms(6,7) B(5) by (simp add: commit_def)
  have "restore_state accept s (undo_disable d3) =
      Inr ((undo_disable d3)\<lparr> objects := objects d, next_ids := next_ids d \<rparr>)"
    by (rule restore_tracked [of s d]) (use B(2,3) assms(2) in \<open>auto simp: undo_disable_def d3 tracks_def db_wf_def\<close>)
  then show ?thesis using B(1) by (simp add: pop_commit_def d3 undo_disable_def undo_enable_def)
qed

end

section \<open>The containers of the repository\<close>

text \<open>A \<^verbatim>\<open>sparse_index\<close> has the identifier as its only key; an index with a further
  \<^verbatim>\<open>ordered_unique\<close> key refuses two objects that agree in it.\<close>

definition sparse_accept :: "'o container" where
  "sparse_accept m i x = True"

definition unique_accept :: "('o \<Rightarrow> 'k) \<Rightarrow> 'o container" where
  "unique_accept key m i x \<longleftrightarrow> (\<forall>j y. j \<noteq> i \<longrightarrow> m j = Some y \<longrightarrow> key y \<noteq> key x)"

interpretation sparse: unique_container sparse_accept "\<lambda>_ _. False"
  by unfold_locales (simp_all add: sparse_accept_def)

interpretation unique_key: unique_container "unique_accept key" "\<lambda>x y. key x = key y" for key
  by unfold_locales (auto simp: unique_accept_def)

section \<open>Properties\<close>


definition demo_db :: "nat object_database" where
  "demo_db = \<lparr> objects = [0 \<mapsto> 7], next_ids = [0 \<mapsto> 1], active_sessions = 0, disabled = False,
     stack = [], max_size = 256 \<rparr>"

lemma index_id_small [simp]: "index_id 0 = 0" "index_id 1 = 0"
  by (simp_all add: index_id_def id_space_def id_type_def)

lemma demo_db_wf: "db_wf (\<lambda>x y. key x = key y) demo_db"
  by (auto simp: db_wf_def consistent_def ids_wf_def demo_db_def split: if_splits)




text \<open>C14: Merging composes undo states, the table in \<^verbatim>\<open>undo_database::merge\<close>: if one state records
  the way from \<open>d0\<close> to \<open>d1\<close> and the next the way from \<open>d1\<close> to \<open>d2\<close>, then restoring the merged state in
  \<open>d2\<close> gives the contents of \<open>d0\<close>.\<close>

theorem merge_composes_undo_states:
  assumes "unique_container accept clash" "tracks clash p d0 d1" "tracks clash s d1 d2"
    "db_wf clash d0" "db_wf clash d2" "disabled d2"
  shows "restore_state accept (merge_states p s) d2 =
    Inr (d2\<lparr> objects := objects d0, next_ids := next_ids d0 \<rparr>)"
  by (rule unique_container.restore_tracked [OF assms(1) tracks_merge [OF assms(2-4)] assms(4-6)])

theorem merge_composes_undo_states_witness:
  "restore_state sparse_accept
     (merge_states \<lparr> old_values = [(0, 7)], old_index_next_ids = [], new_ids = [], removed = [] \<rparr>
        \<lparr> old_values = [], old_index_next_ids = [], new_ids = [], removed = [(0, 8)] \<rparr>)
     (demo_db\<lparr> objects := Map.empty, disabled := True \<rparr>) = Inr (demo_db\<lparr> disabled := True \<rparr>)"
proof -
  let ?p = "\<lparr> old_values = [(0, 7)], old_index_next_ids = [], new_ids = [], removed = [] \<rparr> :: nat undo_state"
  let ?s = "\<lparr> old_values = [], old_index_next_ids = [], new_ids = [], removed = [(0, 8)] \<rparr> :: nat undo_state"
  let ?d1 = "demo_db\<lparr> objects := [0 \<mapsto> 8] \<rparr>" and ?d2 = "demo_db\<lparr> objects := Map.empty, disabled := True \<rparr>"
  have u: "unique_container sparse_accept (\<lambda>_ _. False)" by (rule sparse.unique_container_axioms)
  have p: "tracks (\<lambda>_ _. False) ?p demo_db ?d1"
    by (rule tracksI) (auto simp: undo_state_wf_def entry_def next_tracks_def demo_db_def)
  have s: "tracks (\<lambda>_ _. False) ?s ?d1 ?d2"
    by (rule tracksI) (auto simp: undo_state_wf_def entry_def next_tracks_def demo_db_def)
  have w: "db_wf (\<lambda>_ _. False) demo_db" "db_wf (\<lambda>_ _. False) ?d2" "disabled ?d2"
    by (auto simp: db_wf_def consistent_def ids_wf_def demo_db_def split: if_splits)
  show ?thesis using merge_composes_undo_states [OF u p s w] by (simp add: demo_db_def)
qed

text \<open>The condition on unique keys is needed: \<^verbatim>\<open>undo\<close> writes old values back before it removes
  the new objects.  In an index with a unique key, a session that moves an object away from its key
  and gives that key to a new object cannot be undone: the first write-back violates the key and
  throws.\<close>

theorem undo_fails_on_reused_key:
  "\<exists>d1 ses d2 d3. start_undo_session False demo_db = (d1, ses) \<and>
     db_modify (unique_accept id) 0 (\<lambda>_. 8) d1 = Inr d2 \<and>
     db_create (unique_accept id) 0 (\<lambda>_. 7) d2 = Inr d3 \<and>
     undo (unique_accept id) d3 = Inl Assert_exception"
proof -
  have e: "\<not> disabled demo_db" by (simp add: demo_db_def)
  show ?thesis
    unfolding start_session_enabled [OF e]
    by (simp add: demo_db_def db_modify_def get_object_def on_modify_def with_back_def Let_def
        db_create_def on_create_def unique_accept_def record_modify_def record_create_def
        empty_undo_state_def undo_def restore_state_def undo_disable_def) 
qed

end
