(* ===== verification/Block.thy ===== *)
theory Block
  imports Prelude
begin

text \<open>
  Block headers and the transaction Merkle root: \<^verbatim>\<open>protocol/block.{hpp,cpp}\<close>.

  A \<^verbatim>\<open>block_id_type\<close> is a 160-bit digest whose first 32 bits are overwritten with the block number;
  it is the pair of that number and the remaining bits.  The hash functions of \<^verbatim>\<open>fc\<close> are
  parameters: \<open>sha224\<close> gives the remaining bits of a block's id, \<open>hash_pair\<close> and \<open>hash_one\<close> the
  digests of a pair and of one digest, \<open>merkle_digest\<close> the digest of a transaction.
\<close>

section \<open>Definitions\<close>

type_synonym block_id_type = "32 word \<times> nat"

record 'tx signed_block =
  previous :: block_id_type
  timestamp :: nat
  blk_witness :: nat
  transaction_merkle_root :: nat
  witness_signature :: nat
  transactions :: "'tx list"

definition num_from_id :: "block_id_type \<Rightarrow> 32 word" where
  "num_from_id i = fst i"

definition block_num :: "'tx signed_block \<Rightarrow> 32 word" where
  "block_num b = num_from_id (previous b) + 1"

definition block_id :: "('tx signed_block \<Rightarrow> nat) \<Rightarrow> 'tx signed_block \<Rightarrow> block_id_type" where
  "block_id sha224 b = (block_num b, sha224 b)"

subsection \<open>The Merkle root, computed in place\<close>

fun hash_pairs :: "('d \<Rightarrow> 'd \<Rightarrow> 'd) \<Rightarrow> nat \<Rightarrow> nat \<Rightarrow> nat \<Rightarrow> 'd list \<Rightarrow> 'd list \<times> nat" where
  "hash_pairs h 0 i k ids = (ids, k)"
| "hash_pairs h (Suc n) i k ids = hash_pairs h n (i + 2) (k + 1) (ids[k := h (ids ! i) (ids ! (i + 1))])"

function merkle_loop :: "('d \<Rightarrow> 'd \<Rightarrow> 'd) \<Rightarrow> nat \<Rightarrow> 'd list \<Rightarrow> 'd list" where
  "merkle_loop h current_number_of_hashes ids =
     (if current_number_of_hashes > 1 then
        (let i_max = current_number_of_hashes - current_number_of_hashes mod 2;
             (ids1, k) = hash_pairs h (i_max div 2) 0 0 ids;
             (ids2, k2) = (if current_number_of_hashes mod 2 = 1 then (ids1[k := ids1 ! i_max], k + 1) else (ids1, k))
         in merkle_loop h k2 ids2)
      else ids)"
  by pat_completeness auto

text \<open>The inner loop advances \<open>k\<close> once per pair, so a level ends with about half the hashes.\<close>

lemma hash_pairs_count: "snd (hash_pairs h n i k ids) = k + n"
  by (induction h n i k ids rule: hash_pairs.induct) auto

termination merkle_loop
proof (relation "measure (\<lambda>(h, n, ids). n)", goal_cases)
  case (2 h n ids i_max x ids1 k y ids2 k2)
  then have "k = i_max div 2" using hash_pairs_count [of h "i_max div 2" 0 0 ids] by (metis add_0 snd_conv)
  moreover have "k2 = (if n mod 2 = 1 then k + 1 else k)" using 2 by (metis snd_conv)
  ultimately show ?case using 2(1,2) by (auto simp: mod2_eq_if elim!: oddE split: if_splits)
qed simp

declare merkle_loop.simps [simp del]

definition calculate_merkle_root ::
  "('d \<Rightarrow> 'd \<Rightarrow> 'd) \<Rightarrow> ('d \<Rightarrow> 'c) \<Rightarrow> 'c \<Rightarrow> ('tx \<Rightarrow> 'd) \<Rightarrow> 'tx signed_block \<Rightarrow> 'c" where
  "calculate_merkle_root hash_pair hash_one null_checksum merkle_digest b =
     (if transactions b = [] then null_checksum
      else hash_one (merkle_loop hash_pair (length (transactions b)) (map merkle_digest (transactions b)) ! 0))"

section \<open>Reference: the binary tree of digests\<close>

fun merkle_level :: "('d \<Rightarrow> 'd \<Rightarrow> 'd) \<Rightarrow> 'd list \<Rightarrow> 'd list" where
  "merkle_level h (x # y # zs) = h x y # merkle_level h zs"
| "merkle_level h xs = xs"

lemma length_merkle_level: "length (merkle_level h xs) = length xs div 2 + length xs mod 2"
  by (induction h xs rule: merkle_level.induct) auto

function merkle_root :: "('d \<Rightarrow> 'd \<Rightarrow> 'd) \<Rightarrow> 'd list \<Rightarrow> 'd option" where
  "merkle_root h [] = None"
| "merkle_root h [x] = Some x"
| "merkle_root h (x # y # zs) = merkle_root h (merkle_level h (x # y # zs))"
  by pat_completeness auto
termination
proof (relation "measure (\<lambda>(h, xs). length xs)", goal_cases)
  case (2 h x y zs)
  have "Suc (length zs div 2 + length zs mod 2) < Suc (Suc (length zs))" by presburger
  then show ?case by (simp add: length_merkle_level)
qed simp

declare merkle_root.simps(3) [simp del]

section \<open>Lemmas\<close>

text \<open>The write position never passes the read position, so the in-place loop reads every digest
  before it is overwritten.\<close>

lemma hash_pairs_correct:
  assumes "2 * k \<le> i \<or> k \<le> i" "i + 2 * n \<le> length ids" "k \<le> i"
  shows "\<exists>ids'. hash_pairs h n i k ids = (ids', k + n) \<and> length ids' = length ids \<and>
    take (k + n) ids' = take k ids @ merkle_level h (take (2 * n) (drop i ids)) \<and>
    drop (i + 2 * n) ids' = drop (i + 2 * n) ids"
  using assms
proof (induction n arbitrary: i k ids)
  case 0
  then show ?case by simp
next
  case (Suc n)
  let ?ids = "ids[k := h (ids ! i) (ids ! (i + 1))]"
  have "\<exists>ids'. hash_pairs h n (i + 2) (k + 1) ?ids = (ids', k + 1 + n) \<and> length ids' = length ?ids \<and>
    take (k + 1 + n) ids' = take (k + 1) ?ids @ merkle_level h (take (2 * n) (drop (i + 2) ?ids)) \<and>
    drop (i + 2 + 2 * n) ids' = drop (i + 2 + 2 * n) ?ids"
    by (rule Suc.IH) (use Suc.prems in auto)
  then obtain ids' where r: "hash_pairs h n (i + 2) (k + 1) ?ids = (ids', k + 1 + n)" "length ids' = length ids"
    "take (k + 1 + n) ids' = take (k + 1) ?ids @ merkle_level h (take (2 * n) (drop (i + 2) ?ids))"
    "drop (i + 2 + 2 * n) ids' = drop (i + 2 + 2 * n) ?ids" by auto
  have k: "k < length ids" "Suc i < length ids" using Suc.prems by auto
  have "take (k + 1) ?ids = take k ids @ [h (ids ! i) (ids ! (i + 1))]"
    using k(1) by (simp add: take_Suc_conv_app_nth)
  moreover have "drop (i + 2) ?ids = drop (i + 2) ids" "drop (i + 2 + 2 * n) ?ids = drop (i + 2 + 2 * n) ids"
    using Suc.prems(3) by (simp_all add: drop_update_cancel)
  moreover have "take (2 * Suc n) (drop i ids) = ids ! i # ids ! (i + 1) # take (2 * n) (drop (i + 2) ids)"
    using k by (simp add: Cons_nth_drop_Suc [symmetric])
  ultimately show ?case using r by (simp add: add.commute add.left_commute)
qed

lemma hash_pairs_start:
  assumes "2 * n \<le> length ids"
  shows "\<exists>ids'. hash_pairs h n 0 0 ids = (ids', n) \<and> length ids' = length ids \<and>
    take n ids' = merkle_level h (take (2 * n) ids) \<and> drop (2 * n) ids' = drop (2 * n) ids"
  using hash_pairs_correct [of 0 0 n ids h] assms by auto

lemma merkle_level_odd:
  "even (length xs) \<Longrightarrow> merkle_level h (xs @ [x]) = merkle_level h xs @ [x]"
  by (induction h xs rule: merkle_level.induct) auto

text \<open>One round of the loop on the first \<open>n\<close> digests is one level of the tree.\<close>

lemma merkle_loop_step:
  assumes "n > 1" "n \<le> length ids"
  shows "\<exists>ids'. merkle_loop h n ids = merkle_loop h (n div 2 + n mod 2) ids' \<and> length ids' = length ids \<and>
    take (n div 2 + n mod 2) ids' = merkle_level h (take n ids)"
proof -
  let ?m = "n div 2"
  have m: "n - n mod 2 = 2 * ?m" by (simp add: minus_mod_eq_mult_div)
  have le: "2 * ?m \<le> length ids" using assms(2) by linarith
  obtain ids1 where r: "hash_pairs h ?m 0 0 ids = (ids1, ?m)" "length ids1 = length ids"
    "take ?m ids1 = merkle_level h (take (2 * ?m) ids)" "drop (2 * ?m) ids1 = drop (2 * ?m) ids"
    using hash_pairs_start [of ?m ids h] le by blast
  show ?thesis
  proof (cases "n mod 2 = 1")
    case False
    then have n: "n = 2 * ?m" by presburger
    have "merkle_loop h n ids = merkle_loop h ?m ids1"
      using assms(1) False r(1) by (subst merkle_loop.simps) (simp add: m Let_def)
    with False r n show ?thesis by (intro exI [of _ ids1]) auto
  next
    case True
    then have n: "n = Suc (2 * ?m)" by presburger
    let ?x = "ids ! (2 * ?m)"
    have x: "ids1 ! (2 * ?m) = ?x"
      using r(2,4) assms(2) n by (metis Cons_nth_drop_Suc Suc_le_eq list.inject)
    have "merkle_loop h n ids = merkle_loop h (Suc ?m) (ids1[?m := ?x])"
    proof -
      have m': "n - 1 = 2 * ?m" using n by simp
      have "merkle_loop h n ids = (let (ids1, k) = hash_pairs h ((n - 1) div 2) 0 0 ids
          in merkle_loop h (k + 1) (ids1[k := ids1 ! (n - 1)]))"
        using assms(1) True by (subst merkle_loop.simps) (simp add: Let_def split: prod.split)
      then show ?thesis unfolding m' using r(1) x by simp
    qed
    moreover have "take (Suc ?m) (ids1[?m := ?x]) = merkle_level h (take n ids)"
    proof -
      have lt: "?m < length ids1" "2 * ?m < length ids" using r(2) assms(2) n by simp_all
      have "take (Suc ?m) (ids1[?m := ?x]) = merkle_level h (take (2 * ?m) ids) @ [?x]"
        using lt r(3) by (simp add: take_Suc_conv_app_nth)
      also have "\<dots> = merkle_level h (take (2 * ?m) ids @ [?x])"
        using lt by (subst merkle_level_odd) auto
      also have "take (2 * ?m) ids @ [?x] = take n ids"
        by (subst n) (use lt(2) in \<open>simp add: take_Suc_conv_app_nth\<close>)
      finally show ?thesis .
    qed
    ultimately show ?thesis using True r(2) by (intro exI [of _ "ids1[?m := ?x]"]) auto
  qed
qed

lemma merkle_loop_root:
  assumes "0 < n" "n \<le> length ids"
  shows "merkle_root h (take n ids) = Some (merkle_loop h n ids ! 0)"
  using assms
proof (induction n arbitrary: ids rule: less_induct)
  case (less n)
  show ?case
  proof (cases "n = 1")
    case True
    then show ?thesis using less.prems(2) by (cases ids) (simp_all add: merkle_loop.simps)
  next
    case False
    with less.prems obtain x y zs where xs: "take n ids = x # y # zs"
      using two_elements [of "take n ids"] by auto
    obtain ids' where r: "merkle_loop h n ids = merkle_loop h (n div 2 + n mod 2) ids'" "length ids' = length ids"
      "take (n div 2 + n mod 2) ids' = merkle_level h (take n ids)"
      using merkle_loop_step [of n ids h] less.prems False by auto
    have "n div 2 + n mod 2 < n" "0 < n div 2 + n mod 2" using less.prems(1) False by presburger+
    then have "merkle_root h (take (n div 2 + n mod 2) ids') = Some (merkle_loop h (n div 2 + n mod 2) ids' ! 0)"
      using less.prems(2) r(2) by (intro less.IH) auto
    then show ?thesis by (simp only: r(1,3) xs merkle_root.simps(3))
  qed
qed

lemma merkle_level_inj:
  assumes "\<And>a b c d. h a b = h c d \<Longrightarrow> a = c \<and> b = d" "length xs = length ys"
    "merkle_level h xs = merkle_level h ys"
  shows "xs = ys"
  using assms(2,3)
proof (induction xs arbitrary: ys rule: induct_list012)
  case (3 x y zs)
  then obtain u v ws where ys: "ys = u # v # ws" by (metis Suc_length_conv length_Cons)
  have "x = u \<and> y = v" using 3(4) assms(1) [of x y u v] by (simp add: ys)
  moreover have "zs = ws" by (rule "3.IH"(1)) (use 3 in \<open>simp_all add: ys\<close>)
  ultimately show ?case by (simp add: ys)
next
  case (2 x)
  then show ?case by (cases ys) auto
qed simp

lemma merkle_root_inj:
  assumes "\<And>a b c d. h a b = h c d \<Longrightarrow> a = c \<and> b = d" "length xs = length ys"
    "merkle_root h xs = merkle_root h ys"
  shows "xs = ys"
  using assms(2,3)
proof (induction "length xs" arbitrary: xs ys rule: less_induct)
  case less
  show ?case
  proof (cases "length xs > 1")
    case True
    then obtain x y zs where x: "xs = x # y # zs" using two_elements by blast
    moreover obtain u v ws where y: "ys = u # v # ws" using less.prems(1) x by (metis Suc_length_conv)
    ultimately have "merkle_root h (merkle_level h xs) = merkle_root h (merkle_level h ys)"
      using less.prems(2) by (simp only: merkle_root.simps(3))
    moreover have "length (merkle_level h xs) < length xs"
      using True unfolding length_merkle_level by presburger
    ultimately have "merkle_level h xs = merkle_level h ys"
      using less.hyps less.prems(1) by (metis length_merkle_level)
    then show ?thesis by (rule merkle_level_inj [OF assms(1) less.prems(1), rotated]) simp
  next
    case False
    then show ?thesis using less.prems by (cases xs; cases ys) auto
  qed
qed

section \<open>Properties\<close>

text \<open>C40: The Merkle root that is computed in place, halving the array of digests level by level, is
  the root of the binary tree of the transaction digests in which an odd last node moves up
  unchanged.\<close>

theorem merkle_root_in_place_correct:
  "calculate_merkle_root hash_pair hash_one null_checksum merkle_digest b =
     (case merkle_root hash_pair (map merkle_digest (transactions b)) of
        None \<Rightarrow> null_checksum | Some r \<Rightarrow> hash_one r)"
proof (cases "transactions b = []")
  case False
  then show ?thesis
    using merkle_loop_root [of "length (transactions b)" "map merkle_digest (transactions b)" hash_pair]
    by (simp add: calculate_merkle_root_def)
qed (simp add: calculate_merkle_root_def)

text \<open>If the hash functions have no collisions, two blocks with the same number of transactions
  and the same Merkle root have the same transaction digests in the same order.\<close>

theorem merkle_root_binding:
  assumes "\<And>x y. hash_one x = hash_one y \<Longrightarrow> x = y"
    and "\<And>a b c d. hash_pair a b = hash_pair c d \<Longrightarrow> a = c \<and> b = d"
    and "length (transactions b) = length (transactions c)"
    and "calculate_merkle_root hash_pair hash_one null_checksum merkle_digest b =
         calculate_merkle_root hash_pair hash_one null_checksum merkle_digest c"
  shows "map merkle_digest (transactions b) = map merkle_digest (transactions c)"
proof (cases "transactions b = []")
  case True
  then show ?thesis using assms(3) by simp
next
  case False
  moreover from this have "transactions c \<noteq> []" using assms(3) by auto
  ultimately have "merkle_root hash_pair (map merkle_digest (transactions b)) =
      merkle_root hash_pair (map merkle_digest (transactions c))"
    using merkle_loop_root [of "length (transactions b)" "map merkle_digest (transactions b)" hash_pair]
      merkle_loop_root [of "length (transactions c)" "map merkle_digest (transactions c)" hash_pair]
      assms(3,4)
    by (simp add: calculate_merkle_root_def) (metis assms(1))
  then show ?thesis using assms(3) by (intro merkle_root_inj [OF assms(2)]) simp_all
qed

text \<open>A collision-free pairing of digests: binary trees.\<close>

datatype digest_tree = Leaf nat | Node digest_tree digest_tree

theorem merkle_root_binding_witness:
  "map Leaf (transactions \<lparr> previous = (0, 0), timestamp = 0, blk_witness = 0, transaction_merkle_root = 0,
     witness_signature = 0, transactions = [1, 2, 3] \<rparr>) =
   map Leaf (transactions \<lparr> previous = (1, 0), timestamp = 5, blk_witness = 0, transaction_merkle_root = 0,
     witness_signature = 0, transactions = [1, 2, 3 :: nat] \<rparr>)"
  by (rule merkle_root_binding [where hash_one = id and hash_pair = Node and null_checksum = "Leaf 0"])
    (simp_all add: calculate_merkle_root_def)

end
