(* ===== verification/Fork_Database.thy ===== *)
theory Fork_Database
  imports Block
begin

text \<open>
  The fork database: \<^verbatim>\<open>fork_database.{hpp,cpp}\<close>.

  A \<^verbatim>\<open>shared_ptr<fork_item>\<close> is an address into a store of items; addresses are handed out in
  order and never reused.  The two \<^verbatim>\<open>multi_index\<close> containers are lists of addresses, unique by
  block id.  An item is alive while a container or the head owns it: locking a \<^verbatim>\<open>weak_ptr\<close> to any
  other item gives null.  Walks along \<^verbatim>\<open>prev\<close> take fuel; the address of an item bounds the
  length of the walk, which the lemma \<open>fetch_branch_fuel\<close> states.
\<close>

section \<open>Definitions\<close>

record 'tx fork_item =
  prev :: "nat option"
  num :: nat
  invalid :: bool
  fork_id :: block_id_type
  data :: "'tx signed_block"

record 'tx fork_database =
  heap :: "nat \<rightharpoonup> 'tx fork_item"
  next_addr :: nat
  fmax_size :: nat
  unlinked_index :: "nat list"
  fork_index :: "nat list"
  fork_head :: "nat option"

definition fork_item_of :: "('tx signed_block \<Rightarrow> nat) \<Rightarrow> 'tx signed_block \<Rightarrow> 'tx fork_item" where
  "fork_item_of sha224 b = \<lparr> prev = None, num = unat (block_num b), invalid = False,
     fork_id = block_id sha224 b, data = b \<rparr>"

definition alive :: "'tx fork_database \<Rightarrow> nat \<Rightarrow> bool" where
  "alive f a \<longleftrightarrow> a \<in> set (fork_index f) \<or> a \<in> set (unlinked_index f) \<or> fork_head f = Some a"

definition lock :: "'tx fork_database \<Rightarrow> nat option \<Rightarrow> nat option" where
  "lock f w = (case w of None \<Rightarrow> None | Some a \<Rightarrow> if alive f a then Some a else None)"

definition item_at :: "'tx fork_database \<Rightarrow> nat \<Rightarrow> 'tx fork_item result" where
  "item_at f a = deref (heap f a)"

definition has_id :: "'tx fork_database \<Rightarrow> block_id_type \<Rightarrow> nat \<Rightarrow> bool" where
  "has_id f i a = (case heap f a of None \<Rightarrow> False | Some x \<Rightarrow> fork_id x = i)"

definition num_of :: "'tx fork_database \<Rightarrow> nat \<Rightarrow> nat" where
  "num_of f a = (case heap f a of None \<Rightarrow> 0 | Some x \<Rightarrow> num x)"

definition find_id :: "'tx fork_database \<Rightarrow> nat list \<Rightarrow> block_id_type \<Rightarrow> nat option" where
  "find_id f xs i = find (has_id f i) xs"

definition insert_item :: "'tx fork_database \<Rightarrow> nat \<Rightarrow> nat list \<Rightarrow> nat list" where
  "insert_item f a xs = (case heap f a of None \<Rightarrow> xs
     | Some x \<Rightarrow> if find_id f xs (fork_id x) = None then xs @ [a] else xs)"

definition make_shared :: "'tx fork_item \<Rightarrow> 'tx fork_database \<Rightarrow> nat \<times> 'tx fork_database" where
  "make_shared x f = (next_addr f, f\<lparr> heap := (heap f)(next_addr f \<mapsto> x), next_addr := Suc (next_addr f) \<rparr>)"

definition empty_fork_database :: "'tx fork_database" where
  "empty_fork_database = \<lparr> heap = Map.empty, next_addr = 0, fmax_size = 1024, unlinked_index = [],
     fork_index = [], fork_head = None \<rparr>"

definition fork_reset :: "'tx fork_database \<Rightarrow> 'tx fork_database" where
  "fork_reset f = f\<lparr> fork_head := None, fork_index := [] \<rparr>"

definition fork_pop_block :: "'tx fork_database \<Rightarrow> 'tx fork_database result" where
  "fork_pop_block f =
     rbind (deref (fork_head f)) (\<lambda>h.
     rbind (item_at f h) (\<lambda>x.
     rbind (deref (lock f (prev x))) (\<lambda>p. Inr (f\<lparr> fork_head := Some p \<rparr>))))"

definition start_block :: "('tx signed_block \<Rightarrow> nat) \<Rightarrow> 'tx signed_block \<Rightarrow> 'tx fork_database \<Rightarrow> 'tx fork_database" where
  "start_block sha224 b f =
     (let (a, f1) = make_shared (fork_item_of sha224 b) f
      in f1\<lparr> fork_index := insert_item f1 a (fork_index f1), fork_head := Some a \<rparr>)"

definition in_cached_range :: "'tx fork_database \<Rightarrow> 'tx fork_item \<Rightarrow> bool" where
  "in_cached_range f item = (case fork_head f of None \<Rightarrow> True
     | Some h \<Rightarrow> int (num item) > max 0 (int (num_of f h) - int (fmax_size f)))"

definition link_item :: "nat \<Rightarrow> 'tx fork_item \<Rightarrow> 'tx fork_database \<Rightarrow> 'tx fork_database result" where
  "link_item a item f =
     (if fork_head f \<noteq> None \<and> previous (data item) \<noteq> (0, 0)
      then (case find_id f (fork_index f) (previous (data item)) of
              None \<Rightarrow> Inl Unlinkable_block_exception
            | Some p \<Rightarrow> rbind (item_at f p) (\<lambda>px.
                ensure (\<not> invalid px) (Inr (f\<lparr> heap := (heap f)(a \<mapsto> item\<lparr> prev := Some p \<rparr>) \<rparr>))))
      else Inr f)"

definition place_item :: "nat \<Rightarrow> 'tx fork_item \<Rightarrow> 'tx fork_database \<Rightarrow> 'tx fork_database" where
  "place_item a item f1 =
     (let f2 = f1\<lparr> fork_index := insert_item f1 a (fork_index f1) \<rparr> in
     (case fork_head f2 of
        None \<Rightarrow> f2\<lparr> fork_head := Some a \<rparr>
      | Some h \<Rightarrow>
          if num item > num_of f2 h then
            (let min_num = num item - min (fmax_size f2) (num item);
                 key = (num item + 2 ^ 32 - fmax_size f2) mod 2 ^ 32
             in f2\<lparr> fork_head := Some a,
                    fork_index := filter (\<lambda>x. \<not> num_of f2 x < min_num) (fork_index f2),
                    unlinked_index := filter (\<lambda>x. num_of f2 x \<noteq> key) (unlinked_index f2) \<rparr>)
          else f2))"

definition push_item :: "nat \<Rightarrow> 'tx fork_database \<Rightarrow> 'tx fork_database result" where
  "push_item a f =
     rbind (item_at f a) (\<lambda>item.
     ensure (in_cached_range f item) (
     rbind (link_item a item f) (\<lambda>f1. Inr (place_item a item f1))))"

definition fork_push_block :: "('tx signed_block \<Rightarrow> nat) \<Rightarrow> 'tx signed_block \<Rightarrow> 'tx fork_database \<Rightarrow>
    (nat option \<times> 'tx fork_database) result" where
  "fork_push_block sha224 b f =
     (let (a, f1) = make_shared (fork_item_of sha224 b) f
      in rbind (push_item a f1) (\<lambda>f2. Inr (fork_head f2, f2)))"

definition set_fork_max_size :: "nat \<Rightarrow> 'tx fork_database \<Rightarrow> 'tx fork_database" where
  "set_fork_max_size s f =
     (let f1 = f\<lparr> fmax_size := s \<rparr> in
      case fork_head f1 of None \<Rightarrow> f1
      | Some h \<Rightarrow>
          (let keep = (\<lambda>x. \<not> int (num_of f1 x) < max 0 (int (num_of f1 h) - int s))
           in f1\<lparr> fork_index := filter keep (fork_index f1), unlinked_index := filter keep (unlinked_index f1) \<rparr>))"

definition is_known_block :: "block_id_type \<Rightarrow> 'tx fork_database \<Rightarrow> bool" where
  "is_known_block i f =
     (if find_id f (fork_index f) i \<noteq> None then True else find_id f (unlinked_index f) i \<noteq> None)"

definition fork_fetch_block :: "block_id_type \<Rightarrow> 'tx fork_database \<Rightarrow> nat option" where
  "fork_fetch_block i f =
     (case find_id f (fork_index f) i of Some a \<Rightarrow> Some a | None \<Rightarrow> find_id f (unlinked_index f) i)"

definition fork_fetch_block_by_number :: "nat \<Rightarrow> 'tx fork_database \<Rightarrow> nat list" where
  "fork_fetch_block_by_number n f = filter (\<lambda>a. num_of f a = n) (fork_index f)"

definition set_head :: "nat \<Rightarrow> 'tx fork_database \<Rightarrow> 'tx fork_database" where
  "set_head h f = f\<lparr> fork_head := Some h \<rparr>"

definition fork_remove :: "block_id_type \<Rightarrow> 'tx fork_database \<Rightarrow> 'tx fork_database" where
  "fork_remove i f = f\<lparr> fork_index := filter (\<lambda>a. \<not> has_id f i a) (fork_index f) \<rparr>"

subsection \<open>Branches\<close>

definition step_back :: "'tx fork_database \<Rightarrow> nat \<Rightarrow> nat result" where
  "step_back f a = rbind (item_at f a) (\<lambda>x. deref (lock f (prev x)))"

definition data_num :: "'tx fork_database \<Rightarrow> nat \<Rightarrow> nat" where
  "data_num f a = (case heap f a of None \<Rightarrow> 0 | Some x \<Rightarrow> unat (block_num (data x)))"

definition data_previous :: "'tx fork_database \<Rightarrow> nat \<Rightarrow> block_id_type" where
  "data_previous f a = (case heap f a of None \<Rightarrow> (0, 0) | Some x \<Rightarrow> previous (data x))"

text \<open>\<^verbatim>\<open>while( a->data.block_num() > n ) { branch.push_back(a); a = a->prev.lock(); FC_ASSERT(a); }\<close>\<close>

fun walk_down :: "nat \<Rightarrow> 'tx fork_database \<Rightarrow> nat \<Rightarrow> nat \<Rightarrow> nat list \<Rightarrow> (nat \<times> nat list) result option" where
  "walk_down 0 f n a acc = None"
| "walk_down (Suc fuel) f n a acc =
     (if data_num f a > n then
        (case step_back f a of Inl e \<Rightarrow> Some (Inl e) | Inr p \<Rightarrow> walk_down fuel f n p (acc @ [a]))
      else Some (Inr (a, acc)))"

fun walk_both :: "nat \<Rightarrow> 'tx fork_database \<Rightarrow> nat \<Rightarrow> nat \<Rightarrow> nat list \<Rightarrow> nat list \<Rightarrow>
    (nat list \<times> nat list) result option" where
  "walk_both 0 f a b r1 r2 = None"
| "walk_both (Suc fuel) f a b r1 r2 =
     (if data_previous f a \<noteq> data_previous f b then
        (case step_back f a of Inl e \<Rightarrow> Some (Inl e)
         | Inr a' \<Rightarrow> (case step_back f b of Inl e \<Rightarrow> Some (Inl e)
             | Inr b' \<Rightarrow> walk_both fuel f a' b' (r1 @ [a]) (r2 @ [b])))
      else Some (Inr (r1 @ [a], r2 @ [b])))"

definition fetch_branch_fuel :: "nat \<Rightarrow> block_id_type \<Rightarrow> block_id_type \<Rightarrow> 'tx fork_database \<Rightarrow>
    (nat list \<times> nat list) result option" where
  "fetch_branch_fuel fuel first second f =
     (case find_id f (fork_index f) first of None \<Rightarrow> Some (Inl Assert_exception)
      | Some a \<Rightarrow>
     (case find_id f (fork_index f) second of None \<Rightarrow> Some (Inl Assert_exception)
      | Some b \<Rightarrow>
     (case walk_down fuel f (data_num f b) a [] of None \<Rightarrow> None | Some (Inl e) \<Rightarrow> Some (Inl e)
      | Some (Inr (a1, r1)) \<Rightarrow>
     (case walk_down fuel f (data_num f a1) b [] of None \<Rightarrow> None | Some (Inl e) \<Rightarrow> Some (Inl e)
      | Some (Inr (b1, r2)) \<Rightarrow> walk_both fuel f a1 b1 r1 r2))))"

definition fetch_branch_from :: "block_id_type \<Rightarrow> block_id_type \<Rightarrow> 'tx fork_database \<Rightarrow>
    (nat list \<times> nat list) result option" where
  "fetch_branch_from first second f = fetch_branch_fuel (Suc (next_addr f)) first second f"

section \<open>Reachable states\<close>

inductive fork_reachable :: "('tx signed_block \<Rightarrow> nat) \<Rightarrow> 'tx fork_database \<Rightarrow> bool" for sha224 where
  fr_init: "fork_reachable sha224 empty_fork_database"
| fr_reset: "fork_reachable sha224 f \<Longrightarrow> fork_reachable sha224 (fork_reset f)"
| fr_start: "fork_reachable sha224 f \<Longrightarrow> fork_reachable sha224 (start_block sha224 b f)"
| fr_push: "fork_reachable sha224 f \<Longrightarrow> fork_push_block sha224 b f = Inr (h, f') \<Longrightarrow> fork_reachable sha224 f'"
| fr_pop: "fork_reachable sha224 f \<Longrightarrow> fork_pop_block f = Inr f' \<Longrightarrow> fork_reachable sha224 f'"
| fr_max: "fork_reachable sha224 f \<Longrightarrow> fork_reachable sha224 (set_fork_max_size s f)"
| fr_head: "fork_reachable sha224 f \<Longrightarrow> h < next_addr f \<Longrightarrow> fork_reachable sha224 (set_head h f)"
| fr_remove: "fork_reachable sha224 f \<Longrightarrow> fork_reachable sha224 (fork_remove i f)"

definition item_ok :: "('tx signed_block \<Rightarrow> nat) \<Rightarrow> (nat \<rightharpoonup> 'tx fork_item) \<Rightarrow> nat \<Rightarrow> 'tx fork_item \<Rightarrow> bool" where
  "item_ok sha224 H a x \<longleftrightarrow>
     num x = unat (block_num (data x)) \<and> fork_id x = block_id sha224 (data x) \<and>
     (\<forall>p. prev x = Some p \<longrightarrow> p < a \<and> (\<exists>y. H p = Some y \<and> fork_id y = previous (data x)))"

definition unique_ids :: "(nat \<rightharpoonup> 'tx fork_item) \<Rightarrow> nat list \<Rightarrow> bool" where
  "unique_ids H xs \<longleftrightarrow> (\<forall>a\<in>set xs. \<forall>b\<in>set xs. map_option fork_id (H a) = map_option fork_id (H b) \<longrightarrow> a = b)"

definition fork_ok :: "('tx signed_block \<Rightarrow> nat) \<Rightarrow> 'tx fork_database \<Rightarrow> bool" where
  "fork_ok sha224 f \<longleftrightarrow>
     unlinked_index f = [] \<and> (\<forall>a. heap f a = None \<longleftrightarrow> next_addr f \<le> a) \<and>
     (\<forall>a\<in>set (fork_index f). a < next_addr f) \<and> (\<forall>h. fork_head f = Some h \<longrightarrow> h < next_addr f) \<and>
     unique_ids (heap f) (fork_index f) \<and> (\<forall>a x. heap f a = Some x \<longrightarrow> item_ok sha224 (heap f) a x)"

definition linked :: "'tx fork_database \<Rightarrow> nat \<Rightarrow> nat \<Rightarrow> bool" where
  "linked f a p \<longleftrightarrow> (\<exists>x. heap f a = Some x \<and> prev x = Some p)"

section \<open>The invariant\<close>

lemma fork_okD:
  assumes "fork_ok sha224 f"
  shows "unlinked_index f = []" "heap f a = None \<longleftrightarrow> next_addr f \<le> a"
    "a \<in> set (fork_index f) \<Longrightarrow> a < next_addr f" "fork_head f = Some h \<Longrightarrow> h < next_addr f"
    "unique_ids (heap f) (fork_index f)" "heap f a = Some x \<Longrightarrow> item_ok sha224 (heap f) a x"
    "a < next_addr f \<Longrightarrow> \<exists>x. heap f a = Some x"
  using assms unfolding fork_ok_def by auto (metis not_None_eq not_less)

lemma fork_ok_head:
  "fork_ok sha224 f \<Longrightarrow> a < next_addr f \<Longrightarrow> fork_ok sha224 (f\<lparr> fork_head := Some a \<rparr>)"
  unfolding fork_ok_def by simp

lemma fork_ok_index:
  assumes "fork_ok sha224 f" "set xs \<subseteq> set (fork_index f)"
  shows "fork_ok sha224 (f\<lparr> fork_index := xs \<rparr>)"
  using assms unfolding fork_ok_def unique_ids_def by (auto simp: subset_iff)

lemma fork_ok_max: "fork_ok sha224 f \<Longrightarrow> fork_ok sha224 (f\<lparr> fmax_size := s \<rparr>)"
  unfolding fork_ok_def by simp

lemma find_id_Some:
  "find_id f xs i = Some a \<Longrightarrow> a \<in> set xs \<and> (\<exists>x. heap f a = Some x \<and> fork_id x = i)"
  unfolding find_id_def has_id_def by (auto simp: find_Some_iff split: option.splits)

lemma find_id_None:
  "find_id f xs i = None \<Longrightarrow> a \<in> set xs \<Longrightarrow> map_option fork_id (heap f a) \<noteq> Some i"
  unfolding find_id_def has_id_def by (auto simp: find_None_iff split: option.splits)

lemma fork_ok_insert:
  assumes ok: "fork_ok sha224 f" and a: "a < next_addr f"
  shows "fork_ok sha224 (f\<lparr> fork_index := insert_item f a (fork_index f) \<rparr>)"
proof -
  from fork_okD(7) [OF ok a] obtain x where x: "heap f a = Some x" ..
  show ?thesis
  proof (cases "find_id f (fork_index f) (fork_id x)")
    case None
    with x have i: "insert_item f a (fork_index f) = fork_index f @ [a]" by (simp add: insert_item_def)
    have "unique_ids (heap f) (fork_index f @ [a])"
      using fork_okD(5) [OF ok] find_id_None [OF None] x unfolding unique_ids_def by (auto; metis option.simps(9))
    with ok a show ?thesis unfolding i fork_ok_def by auto
  next
    case (Some p)
    with x have "insert_item f a (fork_index f) = fork_index f" by (simp add: insert_item_def)
    with ok show ?thesis by simp
  qed
qed

lemma unique_ids_cong:
  "(\<And>a. a \<in> set xs \<Longrightarrow> map_option fork_id (H a) = map_option fork_id (G a)) \<Longrightarrow> unique_ids H xs = unique_ids G xs"
  unfolding unique_ids_def by simp

lemma item_ok_mono:
  assumes "item_ok sha224 H a x" "\<And>p y. p < a \<Longrightarrow> H p = Some y \<Longrightarrow> \<exists>z. G p = Some z \<and> fork_id z = fork_id y"
  shows "item_ok sha224 G a x"
  using assms unfolding item_ok_def by metis

lemma fork_ok_alloc:
  assumes ok: "fork_ok sha224 f"
  shows "fork_ok sha224 (f\<lparr> heap := (heap f)(next_addr f \<mapsto> fork_item_of sha224 b), next_addr := Suc (next_addr f) \<rparr>)"
proof -
  note d = fork_okD [OF ok]
  let ?H = "(heap f)(next_addr f \<mapsto> fork_item_of sha224 b)"
  have u: "unique_ids ?H (fork_index f)"
    using d(5) d(3) by (subst unique_ids_cong [where G = "heap f"]) auto
  have i: "item_ok sha224 ?H a x" if h: "?H a = Some x" for a x
  proof (cases "a = next_addr f")
    case True
    with h show ?thesis by (auto simp: item_ok_def fork_item_of_def)
  next
    case False
    with h d(2) [of a] have "a < next_addr f" "heap f a = Some x" by (auto simp: not_le [symmetric])
    then show ?thesis by (intro item_ok_mono [OF d(6)]) auto
  qed
  show ?thesis using ok u i unfolding fork_ok_def by (auto simp: less_Suc_eq)
qed

text \<open>Setting the weak pointer of an item to an earlier item with the right id.\<close>

lemma fork_ok_set_prev:
  assumes ok: "fork_ok sha224 f" and a: "heap f a = Some x" and p: "heap f p = Some y" "p < a"
    and i: "fork_id y = previous (data x)"
  shows "fork_ok sha224 (f\<lparr> heap := (heap f)(a \<mapsto> x\<lparr> prev := Some p \<rparr>) \<rparr>)"
proof -
  note d = fork_okD [OF ok]
  let ?H = "(heap f)(a \<mapsto> x\<lparr> prev := Some p \<rparr>)"
  have u: "unique_ids ?H (fork_index f)"
    using d(5) a by (subst unique_ids_cong [where G = "heap f"]) auto
  have k: "item_ok sha224 ?H c z" if h: "?H c = Some z" for c z
  proof -
    have m: "item_ok sha224 (heap f) c w \<Longrightarrow> item_ok sha224 ?H c w" for w
      using a by (erule_tac item_ok_mono) auto
    show ?thesis
    proof (cases "c = a")
      case True
      with h d(6) [OF a] p i show ?thesis by (auto simp: item_ok_def)
    next
      case False
      with h d(6) m show ?thesis by simp
    qed
  qed
  show ?thesis using ok u k a d(2) [of a] unfolding fork_ok_def by auto
qed

lemma fork_ok_filter: "fork_ok sha224 f \<Longrightarrow> fork_ok sha224 (f\<lparr> fork_index := filter P (fork_index f) \<rparr>)"
  by (rule fork_ok_index) auto

lemma num_of_cong [simp]:
  "num_of (f\<lparr> fork_index := xs \<rparr>) = num_of f" "num_of (f\<lparr> fork_head := h \<rparr>) = num_of f"
  "num_of (f\<lparr> unlinked_index := ys \<rparr>) = num_of f" "num_of (f\<lparr> fmax_size := s \<rparr>) = num_of f"
  by (simp_all add: num_of_def fun_eq_iff)

lemma fork_ok_unlinked: "fork_ok sha224 f \<Longrightarrow> fork_ok sha224 (f\<lparr> unlinked_index := [] \<rparr>)"
  unfolding fork_ok_def by simp

lemma link_item_cases:
  assumes "link_item a item f = Inr f1"
  shows "f1 = f \<or> (\<exists>p px. p \<in> set (fork_index f) \<and> heap f p = Some px \<and> fork_id px = previous (data item) \<and>
    f1 = f\<lparr> heap := (heap f)(a \<mapsto> item\<lparr> prev := Some p \<rparr>) \<rparr>)"
  using assms unfolding link_item_def
  by (auto simp: item_at_def split: if_splits option.splits dest!: find_id_Some)

lemma fork_ok_place_item:
  assumes ok: "fork_ok sha224 f" and a: "a < next_addr f"
  shows "fork_ok sha224 (place_item a item f)"
proof -
  define f2 where "f2 = f\<lparr> fork_index := insert_item f a (fork_index f) \<rparr>"
  have ok2: "fork_ok sha224 f2" "a < next_addr f2" using fork_ok_insert [OF ok a] a by (simp_all add: f2_def)
  have "fork_ok sha224 (f2\<lparr> fork_head := Some a, fork_index := filter P (fork_index f2), unlinked_index := [] \<rparr>)" for P
    using fork_ok_unlinked [OF fork_ok_filter [OF fork_ok_head [OF ok2], of P]] by simp
  with ok2 fork_ok_head [OF ok2] fork_okD(1) [OF ok2(1)] show ?thesis
    unfolding place_item_def f2_def [symmetric] Let_def by (auto split: option.splits)
qed

lemma fork_ok_push_item:
  assumes ok: "fork_ok sha224 f" and a: "a < next_addr f" "\<And>p. p \<in> set (fork_index f) \<Longrightarrow> p < a"
    and push: "push_item a f = Inr f'"
  shows "fork_ok sha224 f'"
proof -
  from push obtain item f1 where it: "heap f a = Some item" and l: "link_item a item f = Inr f1"
    and f': "f' = place_item a item f1" by (auto simp: push_item_def item_at_def)
  from link_item_cases [OF l] have "fork_ok sha224 f1 \<and> next_addr f1 = next_addr f"
    using ok it a(2) by (auto intro: fork_ok_set_prev)
  with a(1) f' show ?thesis by (simp add: fork_ok_place_item)
qed

lemma fork_ok_alloc_eq:
  assumes "fork_ok sha224 f" "make_shared (fork_item_of sha224 b) f = (a, f1)"
  shows "fork_ok sha224 f1 \<and> a < next_addr f1 \<and> (\<forall>p\<in>set (fork_index f1). p < a) \<and>
    heap f1 = (heap f)(a \<mapsto> fork_item_of sha224 b) \<and> fork_index f1 = fork_index f \<and> fork_head f1 = fork_head f \<and>
    fmax_size f1 = fmax_size f \<and> a = next_addr f"
  using fork_ok_alloc [OF assms(1), of b] assms(2) fork_okD(3) [OF assms(1)] by (auto simp: make_shared_def)

lemma fork_reachable_ok: "fork_reachable sha224 f \<Longrightarrow> fork_ok sha224 f"
proof (induction rule: fork_reachable.induct)
  case fr_init
  show ?case by (simp add: fork_ok_def empty_fork_database_def unique_ids_def)
next
  case (fr_reset f)
  then show ?case by (simp add: fork_ok_def fork_reset_def unique_ids_def)
next
  case (fr_start f b)
  obtain a f1 where m: "make_shared (fork_item_of sha224 b) f = (a, f1)" by force
  note k = fork_ok_alloc_eq [OF fr_start.IH m]
  from k have "fork_ok sha224 (f1\<lparr> fork_index := insert_item f1 a (fork_index f1) \<rparr>)"
    using fork_ok_insert [of sha224 f1 a] by blast
  with k show ?case using fork_ok_head [of sha224 "f1\<lparr> fork_index := insert_item f1 a (fork_index f1) \<rparr>" a]
    by (simp add: start_block_def m)
next
  case (fr_push f b h f')
  obtain a f1 where m: "make_shared (fork_item_of sha224 b) f = (a, f1)" by force
  note k = fork_ok_alloc_eq [OF fr_push.IH m]
  from fr_push.hyps(2) m have "push_item a f1 = Inr f'" by (auto simp: fork_push_block_def)
  with k show ?case using fork_ok_push_item by blast
next
  case (fr_pop f f')
  then obtain h x p where h: "fork_head f = Some h" "heap f h = Some x" "lock f (prev x) = Some p" "f' = f\<lparr> fork_head := Some p \<rparr>"
    by (auto simp: fork_pop_block_def item_at_def)
  then have "prev x = Some p" by (auto simp: lock_def split: option.splits if_splits)
  with fork_okD(6) [OF fr_pop.IH h(2)] have "p < h" by (simp add: item_ok_def)
  with fork_okD(4) [OF fr_pop.IH h(1)] h(4) show ?case using fork_ok_head [OF fr_pop.IH, of p] by simp
next
  case (fr_max f s)
  have "fork_ok sha224 (f\<lparr> fmax_size := s, fork_index := filter P (fork_index f), unlinked_index := [] \<rparr>)" for P
    using fork_ok_unlinked [OF fork_ok_filter [OF fork_ok_max [OF fr_max.IH, of s], of P]] by simp
  then show ?case using fork_ok_max [OF fr_max.IH, of s] fork_okD(1) [OF fr_max.IH]
    by (simp add: set_fork_max_size_def Let_def split: option.split)
next
  case (fr_head f h)
  then show ?case by (simp add: set_head_def fork_ok_head)
next
  case (fr_remove f i)
  then show ?case by (simp add: fork_remove_def fork_ok_filter)
qed

section \<open>Branches\<close>

lemma step_back_linked: "step_back f a = Inr p \<Longrightarrow> linked f a p"
  by (auto simp: step_back_def item_at_def linked_def lock_def split: option.splits if_splits)

lemma linked_less: "fork_ok sha224 f \<Longrightarrow> linked f a p \<Longrightarrow> p < a"
  by (auto simp: linked_def item_ok_def dest: fork_okD(6))

lemma linked_num:
  assumes ok: "fork_ok sha224 f" and l: "linked f a p"
  obtains x y where "heap f a = Some x" "heap f p = Some y" "prev x = Some p" "fork_id y = previous (data x)"
    "block_num (data x) = block_num (data y) + 1"
proof -
  from l obtain x where x: "heap f a = Some x" "prev x = Some p" by (auto simp: linked_def)
  from fork_okD(6) [OF ok x(1)] x(2) obtain y where y: "heap f p = Some y" "fork_id y = previous (data x)"
    by (auto simp: item_ok_def)
  from fork_okD(6) [OF ok y(1)] have "fork_id y = block_id sha224 (data y)" by (simp add: item_ok_def)
  with y(2) have "block_num (data x) = block_num (data y) + 1"
    unfolding block_num_def [of "data x"] by (metis block_id_def fst_conv num_from_id_def)
  with x y that show thesis by blast
qed

text \<open>A block above a number has its parent at that number or above: the 32-bit numbers do not
  wrap on the way down.\<close>

lemma linked_data_num:
  assumes ok: "fork_ok sha224 f" and l: "linked f a p" and n: "n < data_num f a"
  shows "data_num f a = Suc (data_num f p)"
proof -
  from ok l obtain x y where x: "heap f a = Some x" "heap f p = Some y"
    and b: "block_num (data x) = block_num (data y) + 1" by (rule linked_num)
  have "block_num (data x) \<noteq> 0" using n x by (auto simp: data_num_def)
  then have "unat (block_num (data x)) = Suc (unat (block_num (data y)))"
    unfolding b by (subst unatSuc [symmetric]) (simp_all add: add.commute)
  with x show ?thesis by (simp add: data_num_def)
qed

lemma successively_Cons_hd:
  "xs \<noteq> [] \<Longrightarrow> P a (hd xs) \<Longrightarrow> successively P xs \<Longrightarrow> successively P (a # xs)"
  by (cases xs) auto

lemma walk_down_returns:
  assumes ok: "fork_ok sha224 f" and "a < fuel"
  shows "\<exists>r. walk_down fuel f n a acc = Some r \<and>
    (\<forall>a1 r1. r = Inr (a1, r1) \<longrightarrow>
       (\<exists>ys. r1 = acc @ ys \<and> successively (linked f) (ys @ [a1]) \<and> hd (ys @ [a1]) = a \<and>
         data_num f a1 = min n (data_num f a) \<and> (data_num f a \<le> n \<longrightarrow> ys = []) \<and> a1 \<le> a))"
  using assms(2)
proof (induction fuel arbitrary: a acc)
  case 0
  then show ?case by simp
next
  case (Suc fuel)
  show ?case
  proof (cases "data_num f a > n \<and> (\<exists>p. step_back f a = Inr p)")
    case True
    then obtain p where p: "data_num f a > n" "step_back f a = Inr p" by blast
    then have l: "linked f a p" by (simp add: step_back_linked)
    have "p < fuel" using linked_less [OF ok l] Suc.prems by simp
    from Suc.IH [OF this, of "acc @ [a]"] obtain r where r: "walk_down fuel f n p (acc @ [a]) = Some r"
      and R: "\<And>a1 r1. r = Inr (a1, r1) \<Longrightarrow> \<exists>ys. r1 = (acc @ [a]) @ ys \<and> successively (linked f) (ys @ [a1]) \<and>
        hd (ys @ [a1]) = p \<and> data_num f a1 = min n (data_num f p) \<and> (data_num f p \<le> n \<longrightarrow> ys = []) \<and> a1 \<le> p"
      by blast
    have "\<exists>ys. r1 = acc @ ys \<and> successively (linked f) (ys @ [a1]) \<and> hd (ys @ [a1]) = a \<and>
        data_num f a1 = min n (data_num f a) \<and> (data_num f a \<le> n \<longrightarrow> ys = []) \<and> a1 \<le> a"
      if e: "r = Inr (a1, r1)" for a1 r1
    proof -
      from R [OF e] obtain ys where ys: "r1 = (acc @ [a]) @ ys" "successively (linked f) (ys @ [a1])"
        "hd (ys @ [a1]) = p" "data_num f a1 = min n (data_num f p)" "a1 \<le> p" by blast
      have "successively (linked f) (a # ys @ [a1])" using ys l by (intro successively_Cons_hd) auto
      then show ?thesis using ys p linked_data_num [OF ok l p(1)] linked_less [OF ok l] by (intro exI [of _ "a # ys"]) auto
    qed
    then show ?thesis using r p by auto
  next
    case False
    then show ?thesis by (auto split: sum.split)
  qed
qed

lemma walk_both_returns:
  assumes ok: "fork_ok sha224 f" and "a < fuel"
  shows "\<exists>r. walk_both fuel f a b r1 r2 = Some r \<and>
    (\<forall>s1 s2. r = Inr (s1, s2) \<longrightarrow>
       (\<exists>xs ys. s1 = r1 @ xs \<and> s2 = r2 @ ys \<and> length xs = length ys \<and> xs \<noteq> [] \<and>
         successively (linked f) xs \<and> successively (linked f) ys \<and> hd xs = a \<and> hd ys = b \<and>
         (\<forall>k<length xs. (data_previous f (xs ! k) = data_previous f (ys ! k)) = (Suc k = length xs))))"
  using assms(2)
proof (induction fuel arbitrary: a b r1 r2)
  case 0
  then show ?case by simp
next
  case (Suc fuel)
  consider (eq) "data_previous f a = data_previous f b"
    | (err) e where "data_previous f a \<noteq> data_previous f b" "walk_both (Suc fuel) f a b r1 r2 = Some (Inl e)"
    | (step) a' b' where "data_previous f a \<noteq> data_previous f b" "step_back f a = Inr a'" "step_back f b = Inr b'"
    by (cases "step_back f a"; cases "step_back f b") auto
  then show ?case
  proof cases
    case eq
    then show ?thesis by (auto intro!: exI [of _ "[a]"] exI [of _ "[b]"])
  next
    case err
    then show ?thesis by (metis Inl_Inr_False)
  next
    case (step a' b')
    then have l: "linked f a a'" "linked f b b'" by (simp_all add: step_back_linked)
    have "a' < fuel" using linked_less [OF ok l(1)] Suc.prems by simp
    from Suc.IH [OF this, of b' "r1 @ [a]" "r2 @ [b]"] obtain r where
      r: "walk_both fuel f a' b' (r1 @ [a]) (r2 @ [b]) = Some r" and
      R: "\<And>s1 s2. r = Inr (s1, s2) \<Longrightarrow> \<exists>xs ys. s1 = (r1 @ [a]) @ xs \<and> s2 = (r2 @ [b]) @ ys \<and> length xs = length ys \<and>
         xs \<noteq> [] \<and> successively (linked f) xs \<and> successively (linked f) ys \<and> hd xs = a' \<and> hd ys = b' \<and>
         (\<forall>k<length xs. (data_previous f (xs ! k) = data_previous f (ys ! k)) = (Suc k = length xs))"
      by blast
    have "\<exists>xs ys. s1 = r1 @ xs \<and> s2 = r2 @ ys \<and> length xs = length ys \<and> xs \<noteq> [] \<and>
         successively (linked f) xs \<and> successively (linked f) ys \<and> hd xs = a \<and> hd ys = b \<and>
         (\<forall>k<length xs. (data_previous f (xs ! k) = data_previous f (ys ! k)) = (Suc k = length xs))"
      if e: "r = Inr (s1, s2)" for s1 s2
    proof -
      from R [OF e] obtain xs ys where xy: "s1 = (r1 @ [a]) @ xs" "s2 = (r2 @ [b]) @ ys" "length xs = length ys"
        "xs \<noteq> []" "successively (linked f) xs" "successively (linked f) ys" "hd xs = a'" "hd ys = b'"
        "\<And>k. k < length xs \<Longrightarrow> (data_previous f (xs ! k) = data_previous f (ys ! k)) = (Suc k = length xs)" by blast
      have "successively (linked f) (a # xs)" "successively (linked f) (b # ys)"
        using xy l by (auto intro!: successively_Cons_hd)
      moreover have "(data_previous f ((a # xs) ! k) = data_previous f ((b # ys) ! k)) = (Suc k = length (a # xs))"
        if "k < length (a # xs)" for k using that xy(4,9) step(1) by (cases k) auto
      ultimately show ?thesis using xy by (intro exI [of _ "a # xs"] exI [of _ "b # ys"]) auto
    qed
    then show ?thesis using r step by auto
  qed
qed

lemma successively_join:
  assumes "successively P (ys @ [a])" "successively P xs" "xs \<noteq> []" "hd xs = a"
  shows "successively P (ys @ xs)"
  using assms by (auto simp: successively_append_iff)

lemma rev_nth_append:
  assumes "length xs = length ys" "k < length xs"
  shows "rev (us @ xs) ! k = xs ! (length xs - Suc k)" "rev (vs @ ys) ! k = ys ! (length xs - Suc k)"
  using assms by (simp_all add: rev_nth nth_append)

text \<open>Two walks that meet at a common height, of which at most one had to descend to it.\<close>

lemma join_branches:
  assumes w: "successively (linked f) (r1 @ [a1])" "successively (linked f) (r2 @ [b1])" "r1 = [] \<or> r2 = []"
    and xy: "s1 = r1 @ xs" "s2 = r2 @ ys" "length xs = length ys" "xs \<noteq> []"
      "successively (linked f) xs" "successively (linked f) ys" "hd xs = a1" "hd ys = b1"
    and c: "\<And>k. k < length xs \<Longrightarrow> (data_previous f (xs ! k) = data_previous f (ys ! k)) = (Suc k = length xs)"
  shows "s1 \<noteq> [] \<and> s2 \<noteq> [] \<and> hd s1 = hd (r1 @ [a1]) \<and> hd s2 = hd (r2 @ [b1]) \<and>
     successively (linked f) s1 \<and> successively (linked f) s2 \<and>
     (\<forall>k<min (length s1) (length s2). (data_previous f (rev s1 ! k) = data_previous f (rev s2 ! k)) = (k = 0))"
proof -
  have ys: "ys \<noteq> []" using xy(3,4) by auto
  have s: "successively (linked f) s1" "successively (linked f) s2"
    using successively_join [of "linked f" r1 a1 xs] successively_join [of "linked f" r2 b1 ys] w xy ys by auto
  have h: "hd s1 = hd (r1 @ [a1])" "hd s2 = hd (r2 @ [b1])" using xy ys by (auto simp: hd_append)
  have m: "min (length s1) (length s2) = length xs" using w(3) xy(1-3) by auto
  have "(data_previous f (rev s1 ! k) = data_previous f (rev s2 ! k)) = (k = 0)" if "k < length xs" for k
    unfolding xy(1,2) rev_nth_append [OF xy(3) that] using c [of "length xs - Suc k"] that by auto
  with s h m xy(1,2,4) ys show ?thesis by simp
qed

text \<open>The head rule of \<open>push_item\<close>: the head is replaced exactly by a higher block.\<close>

lemma place_item_head:
  assumes "fork_head f = Some h"
  shows "fork_head (place_item a item f) = Some (if num item > num_of f h then a else h)"
    "heap (place_item a item f) = heap f" "fmax_size (place_item a item f) = fmax_size f"
    "x \<in> set (fork_index (place_item a item f)) \<Longrightarrow> (x = a \<or> x \<in> set (fork_index f)) \<and>
       (num item > num_of f h \<longrightarrow> num item \<le> num_of f x + fmax_size f)"
  using assms by (auto simp: place_item_def Let_def insert_item_def split: option.splits if_splits)

lemma link_item_nums:
  assumes "link_item a item f = Inr f1" "heap f a = Some item"
  shows "num_of f1 = num_of f" "fork_head f1 = fork_head f" "fork_index f1 = fork_index f" "fmax_size f1 = fmax_size f"
  using link_item_cases [OF assms(1)] assms(2) by (auto simp: num_of_def fun_eq_iff)

lemma num_of_same_heap: "heap f = heap g \<Longrightarrow> num_of f = num_of g"
  by (simp add: num_of_def fun_eq_iff)

lemma push_item_head:
  assumes push: "push_item a f = Inr f'" and it: "heap f a = Some item" and h: "fork_head f = Some h"
  shows "fork_head f' = Some (if num item > num_of f h then a else h) \<and> num_of f' = num_of f \<and> fmax_size f' = fmax_size f \<and>
    num_of f h < num item + fmax_size f \<and>
    (\<forall>x\<in>set (fork_index f'). (x = a \<or> x \<in> set (fork_index f)) \<and> (num item > num_of f h \<longrightarrow> num item \<le> num_of f x + fmax_size f))"
proof -
  from push it obtain f1 where g: "in_cached_range f item" and l: "link_item a item f = Inr f1"
    and f': "f' = place_item a item f1" by (auto simp: push_item_def item_at_def)
  note n = link_item_nums [OF l it]
  have "fork_head f1 = Some h" using n h by simp
  note pl = place_item_head [OF this, where a = a and item = item]
  have "num_of f' = num_of f" using num_of_same_heap [OF pl(2)] n(1) f' by simp
  with g h pl n show ?thesis unfolding f' in_cached_range_def by auto
qed

section \<open>A small fork, for the examples\<close>

definition demo_block :: "block_id_type \<Rightarrow> nat \<Rightarrow> unit signed_block" where
  "demo_block p s = \<lparr> previous = p, timestamp = 0, blk_witness = 0, transaction_merkle_root = 0, witness_signature = s, transactions = [] \<rparr>"

definition demo_item :: "nat option \<Rightarrow> nat \<Rightarrow> block_id_type \<Rightarrow> nat \<Rightarrow> unit fork_item" where
  "demo_item p n i s = \<lparr> prev = p, num = n, invalid = False, fork_id = (of_nat n, s), data = demo_block i s \<rparr>"

definition demo_state :: "unit fork_item list \<Rightarrow> nat \<Rightarrow> unit fork_database" where
  "demo_state xs h = \<lparr> heap = (\<lambda>a. if a < length xs then Some (xs ! a) else None), next_addr = length xs, fmax_size = 1024,
     unlinked_index = [], fork_index = [0..<length xs], fork_head = Some h \<rparr>"

definition demo_items :: "unit fork_item list" where
  "demo_items = [demo_item None 1 (0, 0) 1, demo_item (Some 0) 2 (1, 1) 2, demo_item (Some 0) 2 (1, 1) 3, demo_item (Some 1) 3 (2, 2) 4]"

definition demo_fork :: "unit fork_database" where
  "demo_fork = demo_state demo_items 3"

lemmas demo_simps = demo_block_def demo_item_def demo_state_def demo_items_def fork_push_block_def start_block_def make_shared_def
  push_item_def link_item_def place_item_def in_cached_range_def item_at_def num_of_def find_id_def has_id_def insert_item_def
  fork_item_of_def block_id_def block_num_def num_from_id_def empty_fork_database_def Let_def nth_Cons' upt_rec

lemma demo_start: "start_block witness_signature (demo_block (0, 0) 1) empty_fork_database = demo_state (take 1 demo_items) 0"
  by (simp add: demo_simps fun_eq_iff)

lemma demo_push1: "fork_push_block witness_signature (demo_block (1, 1) 2) (demo_state (take 1 demo_items) 0) =
    Inr (Some 1, demo_state (take 2 demo_items) 1)"
  by (simp add: demo_simps fun_eq_iff)

lemma demo_push2: "fork_push_block witness_signature (demo_block (1, 1) 3) (demo_state (take 2 demo_items) 1) =
    Inr (Some 1, demo_state (take 3 demo_items) 1)"
  by (simp add: demo_simps fun_eq_iff)

lemma demo_push3: "fork_push_block witness_signature (demo_block (2, 2) 4) (demo_state (take 3 demo_items) 1) = Inr (Some 3, demo_fork)"
  by (simp add: demo_simps demo_fork_def fun_eq_iff)

lemma demo_fork_reachable: "fork_reachable witness_signature demo_fork"
  using fr_push [OF fr_push [OF fr_push [OF _ demo_push1] demo_push2] demo_push3]
    fr_start [OF fr_init, of witness_signature "demo_block (0, 0) 1"] unfolding demo_start .

section \<open>Properties\<close>

text \<open>C17: In every state the fork database can reach, the unlinked cache is empty, the index holds
  at most one item per block id, and the weak pointer of an item leads to the item whose id is the
  block's \<open>previous\<close> field and whose number is one less (modulo the 32 bits).\<close>

theorem fork_links_consistent:
  assumes "fork_reachable sha224 f"
  shows "unlinked_index f = [] \<and> unique_ids (heap f) (fork_index f) \<and>
    (\<forall>a p. linked f a p \<longrightarrow> p < a \<and>
      (\<exists>x y. heap f a = Some x \<and> heap f p = Some y \<and> fork_id y = previous (data x) \<and>
             fork_id y = block_id sha224 (data y) \<and> block_num (data x) = block_num (data y) + 1))"
proof -
  note ok = fork_reachable_ok [OF assms]
  have "\<exists>x y. heap f a = Some x \<and> heap f p = Some y \<and> fork_id y = previous (data x) \<and>
     fork_id y = block_id sha224 (data y) \<and> block_num (data x) = block_num (data y) + 1" if "linked f a p" for a p
    using ok that by (rule linked_num) (use fork_okD(6) [OF ok] in \<open>auto simp: item_ok_def\<close>)
  then show ?thesis using fork_okD(1,5) [OF ok] linked_less [OF ok] by blast
qed

theorem fork_links_consistent_witness:
  "linked demo_fork 3 1 \<and> block_num (demo_block (2, 2) 4) = block_num (demo_block (1, 1) 2) + 1 \<and>
   unique_ids (heap demo_fork) (fork_index demo_fork)"
proof -
  have "linked demo_fork 3 1" by (simp add: linked_def demo_simps demo_fork_def)
  moreover have "block_num (demo_block (2, 2) 4) = block_num (demo_block (1, 1) 2) + 1" by (simp add: demo_simps)
  ultimately show ?thesis using fork_links_consistent [OF demo_fork_reachable] by blast
qed

text \<open>C18: \<open>fetch_branch_from\<close> always returns; when it does not throw, the two branches start at the
  two requested blocks, each follows the weak pointers, and, counted from the end, the two branches
  hang off the same parent exactly at the last block: the parent is the most recent common ancestor.\<close>

theorem fetch_branch_from_correct:
  assumes "fork_reachable sha224 f"
  shows "\<exists>r. fetch_branch_from first second f = Some r \<and>
    (\<forall>s1 s2. r = Inr (s1, s2) \<longrightarrow> s1 \<noteq> [] \<and> s2 \<noteq> [] \<and>
       find_id f (fork_index f) first = Some (hd s1) \<and> find_id f (fork_index f) second = Some (hd s2) \<and>
       successively (linked f) s1 \<and> successively (linked f) s2 \<and>
       (\<forall>k<min (length s1) (length s2). (data_previous f (rev s1 ! k) = data_previous f (rev s2 ! k)) = (k = 0)))"
proof (cases "\<exists>a b. find_id f (fork_index f) first = Some a \<and> find_id f (fork_index f) second = Some b")
  case False
  then show ?thesis by (auto simp: fetch_branch_from_def fetch_branch_fuel_def split: option.split)
next
  case True
  note ok = fork_reachable_ok [OF assms]
  from True obtain a b where ab: "find_id f (fork_index f) first = Some a" "find_id f (fork_index f) second = Some b" by blast
  let ?n = "Suc (next_addr f)"
  have lt: "a < ?n" "b < ?n" using find_id_Some [OF ab(1)] find_id_Some [OF ab(2)] fork_okD(3) [OF ok] less_Suc_eq by blast+
  from walk_down_returns [OF ok lt(1), of "data_num f b" "[]"] obtain w1 where w1: "walk_down ?n f (data_num f b) a [] = Some w1"
    and W1: "\<And>a1 r1. w1 = Inr (a1, r1) \<Longrightarrow> successively (linked f) (r1 @ [a1]) \<and> hd (r1 @ [a1]) = a \<and>
      data_num f a1 = min (data_num f b) (data_num f a) \<and> (data_num f a \<le> data_num f b \<longrightarrow> r1 = []) \<and> a1 \<le> a" by fastforce
  show ?thesis
  proof (cases w1)
    case (Inl e)
    with ab w1 show ?thesis by (simp add: fetch_branch_from_def fetch_branch_fuel_def)
  next
    case (Inr p1)
    then obtain a1 r1 where e1: "w1 = Inr (a1, r1)" by (cases p1) auto
    from walk_down_returns [OF ok lt(2), of "data_num f a1" "[]"] obtain w2 where w2: "walk_down ?n f (data_num f a1) b [] = Some w2"
      and W2: "\<And>b1 r2. w2 = Inr (b1, r2) \<Longrightarrow> successively (linked f) (r2 @ [b1]) \<and> hd (r2 @ [b1]) = b \<and>
        (data_num f b \<le> data_num f a1 \<longrightarrow> r2 = [])" by fastforce
    show ?thesis
    proof (cases w2)
      case (Inl e)
      with ab w1 w2 e1 show ?thesis by (simp add: fetch_branch_from_def fetch_branch_fuel_def)
    next
      case (Inr p2)
      then obtain b1 r2 where e2: "w2 = Inr (b1, r2)" by (cases p2) auto
      have one: "r1 = [] \<or> r2 = []" using W1 [OF e1] W2 [OF e2] by linarith
      have "a1 < ?n" using W1 [OF e1] lt(1) by linarith
      from walk_both_returns [OF ok this, of b1 r1 r2] obtain r where r: "walk_both ?n f a1 b1 r1 r2 = Some r"
        and R: "\<And>s1 s2. r = Inr (s1, s2) \<Longrightarrow> \<exists>xs ys. s1 = r1 @ xs \<and> s2 = r2 @ ys \<and> length xs = length ys \<and> xs \<noteq> [] \<and>
          successively (linked f) xs \<and> successively (linked f) ys \<and> hd xs = a1 \<and> hd ys = b1 \<and>
          (\<forall>k<length xs. (data_previous f (xs ! k) = data_previous f (ys ! k)) = (Suc k = length xs))" by blast
      have "s1 \<noteq> [] \<and> s2 \<noteq> [] \<and> Some a = Some (hd s1) \<and> Some b = Some (hd s2) \<and>
         successively (linked f) s1 \<and> successively (linked f) s2 \<and>
         (\<forall>k<min (length s1) (length s2). (data_previous f (rev s1 ! k) = data_previous f (rev s2 ! k)) = (k = 0))"
        if e: "r = Inr (s1, s2)" for s1 s2
      proof -
        from R [OF e] obtain xs ys where xy: "s1 = r1 @ xs" "s2 = r2 @ ys" "length xs = length ys" "xs \<noteq> []"
          "successively (linked f) xs" "successively (linked f) ys" "hd xs = a1" "hd ys = b1"
          "\<And>k. k < length xs \<Longrightarrow> (data_previous f (xs ! k) = data_previous f (ys ! k)) = (Suc k = length xs)" by blast
        from W1 [OF e1] W2 [OF e2] join_branches [OF _ _ one xy] show ?thesis by simp
      qed
      then show ?thesis using ab w1 w2 e1 e2 r by (simp add: fetch_branch_from_def fetch_branch_fuel_def)
    qed
  qed
qed

theorem fetch_branch_from_correct_witness:
  "fetch_branch_from (3, 4) (2, 3) demo_fork = Some (Inr ([3, 1], [2])) \<and>
   successively (linked demo_fork) [3, 1] \<and> data_previous demo_fork 1 = data_previous demo_fork 2"
proof -
  have r: "fetch_branch_from (3, 4) (2, 3) demo_fork = Some (Inr ([3, 1], [2]))"
    by (simp add: demo_simps demo_fork_def fetch_branch_from_def fetch_branch_fuel_def data_num_def data_previous_def
      step_back_def lock_def alive_def)
  from fetch_branch_from_correct [OF demo_fork_reachable, of "(3, 4)" "(2, 3)"] r
  show ?thesis by auto
qed

text \<open>C11: Pushing a block keeps the head the highest block of the index and keeps every indexed block
  within \<open>max_size\<close> of it; the new head is the higher of the old head and the pushed block, the
  first one pushed at a tie.\<close>

theorem push_block_keeps_longest_chain:
  assumes reach: "fork_reachable sha224 f" and h: "fork_head f = Some h"
    and range: "\<forall>a\<in>set (fork_index f). num_of f a \<le> num_of f h \<and> num_of f h \<le> num_of f a + fmax_size f"
    and push: "fork_push_block sha224 b f = Inr (r, f')"
  shows "\<exists>h'. r = Some h' \<and> fork_head f' = Some h' \<and>
    num_of f' h' = max (num_of f h) (unat (block_num b)) \<and> (unat (block_num b) \<le> num_of f h \<longrightarrow> h' = h) \<and>
    (\<forall>a\<in>set (fork_index f'). num_of f' a \<le> num_of f' h' \<and> num_of f' h' \<le> num_of f' a + fmax_size f')"
proof -
  note ok = fork_reachable_ok [OF reach]
  obtain a f1 where m: "make_shared (fork_item_of sha224 b) f = (a, f1)" by force
  note k = fork_ok_alloc_eq [OF ok m]
  from push m have p: "push_item a f1 = Inr f'" "r = fork_head f'" by (auto simp: fork_push_block_def)
  have old: "num_of f1 x = num_of f x" if "x < a" for x using k that by (simp add: num_of_def)
  have new: "num_of f1 a = unat (block_num b)" using k by (simp add: num_of_def fork_item_of_def)
  have ha: "h < a" "num_of f1 h = num_of f h" using k fork_okD(4) [OF ok h] old by auto
  have heap1: "heap f1 a = Some (fork_item_of sha224 b)" "fork_head f1 = Some h" using k h by simp_all
  note q = push_item_head [OF p(1) heap1]
  define h' where "h' = (if unat (block_num b) > num_of f h then a else h)"
  have n: "num (fork_item_of sha224 b) = unat (block_num b)" by (simp add: fork_item_of_def)
  have e: "fork_head f' = Some h'" "num_of f' = num_of f1" "fmax_size f' = fmax_size f"
    "num_of f' h' = max (num_of f h) (unat (block_num b))"
    using q ha n k new by (auto simp: h'_def max_def)
  have "num_of f' x \<le> num_of f' h' \<and> num_of f' h' \<le> num_of f' x + fmax_size f'" if "x \<in> set (fork_index f')" for x
  proof -
    from q that have x: "x = a \<or> x \<in> set (fork_index f1)" by blast
    show ?thesis
    proof (cases "x = a")
      case True
      then show ?thesis using q that e new n ha k by (auto simp: max_def)
    next
      case False
      with x k have "x \<in> set (fork_index f)" "num_of f1 x = num_of f x" using old by auto
      then show ?thesis using q that e range n ha k by (auto simp: max_def)
    qed
  qed
  then show ?thesis using e p(2) by (auto simp: h'_def)
qed

theorem push_block_keeps_longest_chain_witness:
  "\<exists>f'. fork_push_block witness_signature (demo_block (2, 3) 5) demo_fork = Inr (Some 3, f') \<and>
     fork_head demo_fork = Some 3 \<and> num_of f' 3 = 3 \<and> (\<forall>a\<in>set (fork_index f'). num_of f' a \<le> 3)"
proof -
  have h: "fork_head demo_fork = Some 3" and n: "num_of demo_fork 3 = 3" "unat (block_num (demo_block (2, 3) 5)) = 3"
    and c: "\<forall>a\<in>set (fork_index demo_fork). num_of demo_fork a \<le> num_of demo_fork 3 \<and>
      num_of demo_fork 3 \<le> num_of demo_fork a + fmax_size demo_fork"
    by (auto simp: demo_simps demo_fork_def)
  have "\<not> isl (fork_push_block witness_signature (demo_block (2, 3) 5) demo_fork)"
    by (simp add: demo_simps demo_fork_def)
  then obtain r f' where p: "fork_push_block witness_signature (demo_block (2, 3) 5) demo_fork = Inr (r, f')"
    by (metis isl_def old.prod.exhaust sum.exhaust)
  from push_block_keeps_longest_chain [OF demo_fork_reachable h c p] n p h show ?thesis by auto
qed

end
