(* ===== verification/Asset.thy ===== *)
theory Asset
  imports Prelude
begin

text \<open>
  Amounts, prices and price feeds: \<^verbatim>\<open>protocol/asset.hpp\<close> and \<^verbatim>\<open>protocol/asset.cpp\<close>.
  An amount is a \<open>share_type\<close> read as \<^typ>\<open>int\<close>; an \<^verbatim>\<open>asset_id_type\<close> is compared by its
  instance number, a \<^typ>\<open>nat\<close>.  The products of the price operators are taken in
  \<^verbatim>\<open>uint128_t\<close>, modelled as \<^typ>\<open>int\<close> modulo \<open>2 ^ 128\<close> (\<open>u128\<close>).  A
  \<^verbatim>\<open>boost::rational<int128_t>\<close> is its normalised numerator and denominator; constructing one
  with denominator 0 throws.  Both rounding loops of the source are total functions.
\<close>

section \<open>Definitions\<close>

type_synonym share_type = int
type_synonym asset_id_type = nat

record asset =
  amount :: share_type
  asset_id :: asset_id_type

record price =
  base :: asset
  quote :: asset

record price_feed =
  settlement_price :: price
  core_exchange_rate :: price
  maintenance_collateral_ratio :: int
  maximum_short_squeeze_ratio :: int

definition GRAPHENE_MAX_SHARE_SUPPLY :: int where
  "GRAPHENE_MAX_SHARE_SUPPLY = 1000000000000000"

definition GRAPHENE_COLLATERAL_RATIO_DENOM :: int where
  "GRAPHENE_COLLATERAL_RATIO_DENOM = 1000"

definition GRAPHENE_MIN_COLLATERAL_RATIO :: int where
  "GRAPHENE_MIN_COLLATERAL_RATIO = 1001"

definition GRAPHENE_MAX_COLLATERAL_RATIO :: int where
  "GRAPHENE_MAX_COLLATERAL_RATIO = 32000"

definition mk_asset :: "share_type \<Rightarrow> asset_id_type \<Rightarrow> asset" where
  "mk_asset a i = \<lparr> amount = a, asset_id = i \<rparr>"

definition mk_price :: "asset \<Rightarrow> asset \<Rightarrow> price" where
  "mk_price b q = \<lparr> base = b, quote = q \<rparr>"

subsection \<open>Operators of \<open>asset\<close>\<close>

definition asset_plus :: "safe_ops \<Rightarrow> asset \<Rightarrow> asset \<Rightarrow> asset result" where
  "asset_plus S a b = ensure (asset_id a = asset_id b)
     (rbind (safe_add S (amount a) (amount b)) (\<lambda>x. Inr (mk_asset x (asset_id a))))"

definition asset_minus :: "safe_ops \<Rightarrow> asset \<Rightarrow> asset \<Rightarrow> asset result" where
  "asset_minus S a b = ensure (asset_id a = asset_id b)
     (rbind (safe_sub S (amount a) (amount b)) (\<lambda>x. Inr (mk_asset x (asset_id a))))"

definition asset_neg :: "safe_ops \<Rightarrow> asset \<Rightarrow> asset result" where
  "asset_neg S a = rbind (safe_neg S (amount a)) (\<lambda>x. Inr (mk_asset x (asset_id a)))"

definition asset_eq :: "asset \<Rightarrow> asset \<Rightarrow> bool" where
  "asset_eq a b \<longleftrightarrow> asset_id a = asset_id b \<and> amount a = amount b"

definition asset_less :: "asset \<Rightarrow> asset \<Rightarrow> bool result" where
  "asset_less a b = ensure (asset_id a = asset_id b) (Inr (amount a < amount b))"

definition asset_le :: "asset \<Rightarrow> asset \<Rightarrow> bool result" where
  "asset_le a b = (if asset_eq a b then Inr True else asset_less a b)"

definition asset_greater :: "asset \<Rightarrow> asset \<Rightarrow> bool result" where
  "asset_greater a b = rbind (asset_le a b) (\<lambda>r. Inr (\<not> r))"

definition asset_ge :: "asset \<Rightarrow> asset \<Rightarrow> bool result" where
  "asset_ge a b = rbind (asset_less a b) (\<lambda>r. Inr (\<not> r))"

primrec p10 :: "nat \<Rightarrow> int" where
  "p10 0 = 1"
| "p10 (Suc n) = 10 * p10 n"

definition scaled_precision_lut :: "int list" where
  "scaled_precision_lut = map p10 [0..<19]"

definition scaled_precision :: "nat \<Rightarrow> share_type result" where
  "scaled_precision precision = ensure (precision < 19) (Inr (scaled_precision_lut ! precision))"

subsection \<open>Operators of \<open>price\<close>\<close>

definition price_eq :: "price \<Rightarrow> price \<Rightarrow> bool" where
  "price_eq a b =
     (if (asset_id (base a), asset_id (quote a)) \<noteq> (asset_id (base b), asset_id (quote b)) then False
      else
        (let amult = u128 (u128 (amount (quote b)) * amount (base a));
             bmult = u128 (u128 (amount (quote a)) * amount (base b))
         in amult = bmult))"

definition price_less :: "price \<Rightarrow> price \<Rightarrow> bool" where
  "price_less a b =
     (if asset_id (base a) < asset_id (base b) then True
      else if asset_id (base a) > asset_id (base b) then False
      else if asset_id (quote a) < asset_id (quote b) then True
      else if asset_id (quote a) > asset_id (quote b) then False
      else
        (let amult = u128 (u128 (amount (quote b)) * amount (base a));
             bmult = u128 (u128 (amount (quote a)) * amount (base b))
         in amult < bmult))"

definition price_le :: "price \<Rightarrow> price \<Rightarrow> bool" where
  "price_le a b \<longleftrightarrow> price_eq a b \<or> price_less a b"

definition price_greater :: "price \<Rightarrow> price \<Rightarrow> bool" where
  "price_greater a b \<longleftrightarrow> \<not> price_le a b"

definition price_ge :: "price \<Rightarrow> price \<Rightarrow> bool" where
  "price_ge a b \<longleftrightarrow> \<not> price_less a b"

definition asset_times_price :: "asset \<Rightarrow> price \<Rightarrow> asset result" where
  "asset_times_price a b =
     (if asset_id a = asset_id (base b) then
        ensure (amount (base b) > 0)
          (let r = u128 (u128 (amount a) * amount (quote b)) div amount (base b) in
           ensure (r \<le> GRAPHENE_MAX_SHARE_SUPPLY) (Inr (mk_asset (to_int64 r) (asset_id (quote b)))))
      else if asset_id a = asset_id (quote b) then
        ensure (amount (quote b) > 0)
          (let r = u128 (u128 (amount a) * amount (base b)) div amount (quote b) in
           ensure (r \<le> GRAPHENE_MAX_SHARE_SUPPLY) (Inr (mk_asset (to_int64 r) (asset_id (base b)))))
      else Inl Assert_exception)"

definition asset_div :: "asset \<Rightarrow> asset \<Rightarrow> price result" where
  "asset_div b q = ensure (asset_id b \<noteq> asset_id q) (Inr (mk_price b q))"

definition price_inv :: "price \<Rightarrow> price" where
  "price_inv p = mk_price (quote p) (base p)"

definition price_max :: "asset_id_type \<Rightarrow> asset_id_type \<Rightarrow> price result" where
  "price_max b q = asset_div (mk_asset GRAPHENE_MAX_SHARE_SUPPLY b) (mk_asset 1 q)"

definition price_min :: "asset_id_type \<Rightarrow> asset_id_type \<Rightarrow> price result" where
  "price_min b q = asset_div (mk_asset 1 b) (mk_asset GRAPHENE_MAX_SHARE_SUPPLY q)"

definition unit_price :: "asset_id_type \<Rightarrow> price" where
  "unit_price a = mk_price (mk_asset 1 a) (mk_asset 1 a)"

definition default_price :: price where
  "default_price = mk_price (mk_asset 0 0) (mk_asset 0 0)"

definition price_is_null :: "price \<Rightarrow> bool" where
  "price_is_null p \<longleftrightarrow> price_eq p default_price"

definition price_validate :: "price \<Rightarrow> unit result" where
  "price_validate p =
     ensure (amount (base p) > 0)
    (ensure (amount (quote p) > 0)
    (ensure (asset_id (base p) \<noteq> asset_id (quote p)) (Inr ())))"

subsection \<open>Call price and short squeeze price\<close>

definition rational :: "int \<Rightarrow> int \<Rightarrow> (int \<times> int) result" where
  "rational n d = (if d = 0 then Inl Bad_rational else Inr (Rat.normalize (n, d)))"

definition rational_mult :: "int \<times> int \<Rightarrow> int \<times> int \<Rightarrow> int \<times> int" where
  "rational_mult a b = Rat.normalize (fst a * fst b, snd a * snd b)"

text \<open>
  The loop \<^verbatim>\<open>while( cp.numerator() > MAX || cp.denominator() > MAX )\<close>, which both
  \<^verbatim>\<open>call_price\<close> and \<^verbatim>\<open>max_short_squeeze_price\<close> run: they differ in how a half is rounded,
  \<^verbatim>\<open>(x >> 1)+1\<close> and \<^verbatim>\<open>(x >> 1)+(x & 1)\<close>.  A normalised denominator is positive, which the
  guard states for the sake of totality.
\<close>

datatype rounding = Round_call | Round_squeeze

fun halve :: "rounding \<Rightarrow> int \<Rightarrow> int" where
  "halve Round_call x = x div 2 + 1"
| "halve Round_squeeze x = x div 2 + x mod 2"

lemma halve_le: "halve r x \<le> x div 2 + 1"
  by (cases r) auto

lemma halve_pos: "0 < x \<Longrightarrow> 0 < halve r x"
  by (cases r; simp; presburger)

function scale_down :: "rounding \<Rightarrow> int \<times> int \<Rightarrow> int \<times> int" where
  "scale_down r (n, d) =
     (if 0 < d \<and> (n > GRAPHENE_MAX_SHARE_SUPPLY \<or> d > GRAPHENE_MAX_SHARE_SUPPLY)
      then scale_down r (Rat.normalize (halve r n, halve r d)) else (n, d))"
  by pat_completeness auto
termination
proof (relation "measure (\<lambda>(r, n, d). nat (max n d))", goal_cases)
  case (2 r n d)
  obtain p q where pq: "Rat.normalize (halve r n, halve r d) = (p, q)" by fastforce
  have "q \<le> halve r d" "p \<le> max (halve r n) 0"
    using 2 normalize_le [OF halve_pos pq] by simp_all
  with 2 halve_le [of r n] halve_le [of r d] have "nat (max p q) < nat (max n d)"
    by (simp add: GRAPHENE_MAX_SHARE_SUPPLY_def max_def split: if_splits; linarith)
  then show ?case by (simp add: pq)
qed simp

definition call_price :: "asset \<Rightarrow> asset \<Rightarrow> int \<Rightarrow> price result" where
  "call_price debt collateral collateral_ratio =
     rbind (rational (amount debt) (amount collateral)) (\<lambda>swan.
     rbind (rational collateral_ratio GRAPHENE_COLLATERAL_RATIO_DENOM) (\<lambda>ratio.
     let cp = scale_down Round_call (rational_mult swan ratio) in
     rbind (asset_div (mk_asset (to_int64 (fst cp)) (asset_id debt))
                      (mk_asset (to_int64 (snd cp)) (asset_id collateral)))
       (\<lambda>p. Inr (price_inv p))))"

definition max_short_squeeze_price :: "price_feed \<Rightarrow> price result" where
  "max_short_squeeze_price f =
     rbind (rational (amount (base (settlement_price f))) (amount (quote (settlement_price f)))) (\<lambda>sp.
     rbind (rational GRAPHENE_COLLATERAL_RATIO_DENOM (maximum_short_squeeze_ratio f)) (\<lambda>ratio.
     let cp = scale_down Round_squeeze (rational_mult sp ratio) in
     asset_div (mk_asset (to_int64 (fst cp)) (asset_id (base (settlement_price f))))
               (mk_asset (to_int64 (snd cp)) (asset_id (quote (settlement_price f))))))"

definition price_feed_validate :: "price_feed \<Rightarrow> unit result" where
  "price_feed_validate f =
     rbind (if \<not> price_is_null (settlement_price f) then price_validate (settlement_price f) else Inr ()) (\<lambda>_.
     ensure (maximum_short_squeeze_ratio f \<ge> GRAPHENE_MIN_COLLATERAL_RATIO)
    (ensure (maximum_short_squeeze_ratio f \<le> GRAPHENE_MAX_COLLATERAL_RATIO)
    (ensure (maintenance_collateral_ratio f \<ge> GRAPHENE_MIN_COLLATERAL_RATIO)
    (ensure (maintenance_collateral_ratio f \<le> GRAPHENE_MAX_COLLATERAL_RATIO)
    (rbind (max_short_squeeze_price f) (\<lambda>_. Inr ()))))))"

definition price_feed_is_for :: "price_feed \<Rightarrow> asset_id_type \<Rightarrow> bool" where
  "price_feed_is_for f i =
     (if \<not> price_is_null (settlement_price f) then asset_id (base (settlement_price f)) = i
      else if \<not> price_is_null (core_exchange_rate f) then asset_id (base (core_exchange_rate f)) = i
      else True)"

section \<open>Type invariants\<close>

definition asset_ok :: "asset \<Rightarrow> bool" where
  "asset_ok a \<longleftrightarrow> int64 (amount a)"

definition valid_price :: "price \<Rightarrow> bool" where
  "valid_price p \<longleftrightarrow> asset_ok (base p) \<and> asset_ok (quote p) \<and> price_validate p = Inr ()"

definition price_ratio :: "price \<Rightarrow> rat" where
  "price_ratio p = of_int (amount (base p)) / of_int (amount (quote p))"

section \<open>Lemmas\<close>

lemma mk_asset_simps [simp]:
  "amount (mk_asset a i) = a" "asset_id (mk_asset a i) = i"
  "base (mk_price x y) = x" "quote (mk_price x y) = y"
  "base (price_inv p) = quote p" "quote (price_inv p) = base p"
  by (simp_all add: mk_asset_def mk_price_def price_inv_def)

lemma mk_asset_eta [simp]: "mk_asset (amount a) (asset_id a) = a"
  by (simp add: mk_asset_def)

lemma asset_eq_iff [simp]: "asset_eq a b \<longleftrightarrow> a = b"
  by (auto simp: asset_eq_def)

lemma valid_priceD:
  assumes "valid_price p"
  shows "0 < amount (base p)" "0 < amount (quote p)" "amount (base p) < 2 ^ 63"
    "amount (quote p) < 2 ^ 63" "asset_id (base p) \<noteq> asset_id (quote p)"
  using assms by (auto simp: valid_price_def price_validate_def asset_ok_def int64_def)

lemma valid_price_inv: "valid_price p \<Longrightarrow> valid_price (price_inv p)"
  by (auto simp: valid_price_def price_validate_def)

text \<open>The product of two non-negative 64-bit amounts is exact in 128 bits.\<close>

lemma u128_product:
  assumes "0 \<le> a" "0 \<le> b" "a < 2 ^ 63" "b < 2 ^ 63"
  shows "u128 (u128 a * b) = a * b"
proof -
  have "a * b \<le> 2 ^ 63 * 2 ^ 63"
    using assms by (intro mult_mono) auto
  with assms show ?thesis by simp
qed

lemma price_mults:
  assumes "valid_price a" "valid_price b"
  shows "u128 (u128 (amount (quote b)) * amount (base a)) = amount (quote b) * amount (base a)"
  using valid_priceD [OF assms(1)] valid_priceD [OF assms(2)] by (intro u128_product) auto

lemma price_ratio_less_iff:
  assumes "valid_price a" "valid_price b"
  shows "price_ratio a < price_ratio b \<longleftrightarrow>
    amount (quote b) * amount (base a) < amount (quote a) * amount (base b)"
proof -
  have "price_ratio a < price_ratio b \<longleftrightarrow>
    (of_int (amount (quote b) * amount (base a)) :: rat) < of_int (amount (quote a) * amount (base b))"
    using valid_priceD [OF assms(1)] valid_priceD [OF assms(2)]
    by (simp add: price_ratio_def divide_simps mult.commute)
  then show ?thesis by (simp only: of_int_less_iff)
qed

lemma price_ratio_eq_iff:
  assumes "valid_price a" "valid_price b"
  shows "price_ratio a = price_ratio b \<longleftrightarrow>
    amount (quote b) * amount (base a) = amount (quote a) * amount (base b)"
  using price_ratio_less_iff [OF assms] price_ratio_less_iff [OF assms(2,1)]
  by (metis antisym_conv3 less_irrefl)

lemma asset_times_price_base:
  assumes "valid_price p" "asset_ok a" "0 \<le> amount a" "asset_id a = asset_id (base p)"
  shows "asset_times_price a p =
    ensure (amount a * amount (quote p) div amount (base p) \<le> GRAPHENE_MAX_SHARE_SUPPLY)
      (Inr (mk_asset (amount a * amount (quote p) div amount (base p)) (asset_id (quote p))))"
proof -
  define r where "r = amount a * amount (quote p) div amount (base p)"
  have "u128 (u128 (amount a) * amount (quote p)) = amount a * amount (quote p)"
    using assms valid_priceD [OF assms(1)] by (intro u128_product) (auto simp: asset_ok_def int64_def)
  moreover have "0 \<le> r"
    using assms valid_priceD [OF assms(1)] by (simp add: r_def pos_imp_zdiv_nonneg_iff)
  ultimately show ?thesis
    using assms valid_priceD [OF assms(1)]
    by (auto simp: asset_times_price_def Let_def ensure_def r_def [symmetric]
        int64_def GRAPHENE_MAX_SHARE_SUPPLY_def)
qed

lemma asset_times_price_quote:
  assumes "valid_price p" "asset_ok a" "0 \<le> amount a" "asset_id a = asset_id (quote p)"
  shows "asset_times_price a p = asset_times_price a (price_inv p)"
  using assms valid_priceD [OF assms(1)] by (auto simp: asset_times_price_def Let_def)

lemma scale_down_id:
  "n \<le> GRAPHENE_MAX_SHARE_SUPPLY \<Longrightarrow> d \<le> GRAPHENE_MAX_SHARE_SUPPLY \<Longrightarrow> scale_down r (n, d) = (n, d)"
  by simp

lemma scale_down_bounds:
  assumes "0 < fst x" "0 < snd x" "scale_down r x = (p, q)"
  shows "0 < p \<and> p \<le> GRAPHENE_MAX_SHARE_SUPPLY \<and> 0 < q \<and> q \<le> GRAPHENE_MAX_SHARE_SUPPLY"
  using assms
proof (induction r x rule: scale_down.induct)
  case (1 r n d)
  obtain n' d' where nd: "Rat.normalize (halve r n, halve r d) = (n', d')" by fastforce
  have pos: "0 < n'" "0 < d'"
    using normalize_le [OF halve_pos nd] 1(2,3) halve_pos [of n r] by auto
  show ?case
  proof (cases "n > GRAPHENE_MAX_SHARE_SUPPLY \<or> d > GRAPHENE_MAX_SHARE_SUPPLY")
    case True
    then have "scale_down r (n', d') = (p, q)" using 1(3,4) nd by simp
    with 1(1) True 1(3) pos nd show ?thesis by simp
  next
    case False
    with 1(2,3,4) show ?thesis by simp
  qed
qed

lemma rational_mult_pos:
  assumes "rational a b = Inr x" "rational c d = Inr y" "0 < a" "0 < b" "0 < c" "0 < d"
  shows "0 < fst (rational_mult x y)" "0 < snd (rational_mult x y)"
    "fst (rational_mult x y) * (b * d) = (a * c) * snd (rational_mult x y)"
proof -
  obtain p q where x: "x = (p, q)" by fastforce
  obtain u v where y: "y = (u, v)" by fastforce
  have 1: "Rat.normalize (a, b) = (p, q)" and 2: "Rat.normalize (c, d) = (u, v)"
    using assms by (auto simp: rational_def x y split: if_splits)
  note f = normalize_le [OF assms(4) 1] normalize_le [OF assms(6) 2]
  obtain m w where mw: "Rat.normalize (p * u, q * v) = (m, w)" by fastforce
  have qv: "0 < q * v" and pu: "0 < p * u" using f assms by auto
  note g = normalize_le [OF qv mw]
  show "0 < fst (rational_mult x y)" "0 < snd (rational_mult x y)"
    using g pu by (simp_all add: rational_mult_def x y mw)
  have "m * (b * d) * (q * v) = (m * (q * v)) * (b * d)" by (simp only: ac_simps)
  also have "\<dots> = (p * b) * (u * d) * w" using g(5) by (simp add: ac_simps)
  also have "\<dots> = (a * c) * w * (q * v)" using f(5) f(10) by (simp add: ac_simps)
  finally show "fst (rational_mult x y) * (b * d) = (a * c) * snd (rational_mult x y)"
    using qv by (auto simp: rational_mult_def x y mw)
qed

lemma scaled_down_price:
  assumes "rational a b = Inr x" "rational c d = Inr y" "0 < a" "0 < b" "0 < c" "0 < d"
    and "i \<noteq> j" "scale_down r (rational_mult x y) = (p, q)"
  shows "asset_div (mk_asset (to_int64 p) i) (mk_asset (to_int64 q) j) =
      Inr (mk_price (mk_asset p i) (mk_asset q j))"
    and "0 < p \<and> p \<le> GRAPHENE_MAX_SHARE_SUPPLY \<and> 0 < q \<and> q \<le> GRAPHENE_MAX_SHARE_SUPPLY"
    and "fst (rational_mult x y) \<le> GRAPHENE_MAX_SHARE_SUPPLY \<Longrightarrow>
         snd (rational_mult x y) \<le> GRAPHENE_MAX_SHARE_SUPPLY \<Longrightarrow> p * (b * d) = (a * c) * q"
proof -
  note pos = rational_mult_pos [OF assms(1-6)]
  show b: "0 < p \<and> p \<le> GRAPHENE_MAX_SHARE_SUPPLY \<and> 0 < q \<and> q \<le> GRAPHENE_MAX_SHARE_SUPPLY"
    by (rule scale_down_bounds [OF pos(1,2) assms(8)])
  then have "to_int64 p = p" "to_int64 q = q"
    by (auto simp: int64_def GRAPHENE_MAX_SHARE_SUPPLY_def)
  then show "asset_div (mk_asset (to_int64 p) i) (mk_asset (to_int64 q) j) =
      Inr (mk_price (mk_asset p i) (mk_asset q j))"
    using assms(7) by (simp add: asset_div_def)
  assume le: "fst (rational_mult x y) \<le> GRAPHENE_MAX_SHARE_SUPPLY"
    "snd (rational_mult x y) \<le> GRAPHENE_MAX_SHARE_SUPPLY"
  have "(p, q) = rational_mult x y"
    using scale_down_id [OF le, of r] assms(8) by simp
  then show "p * (b * d) = (a * c) * q" using pos(3) by (metis fst_conv snd_conv)
qed

lemma rational_mult_le:
  assumes "rational a b = Inr x" "rational c d = Inr y" "0 < a" "0 < b" "0 < c" "0 < d"
  shows "fst (rational_mult x y) \<le> a * c \<and> snd (rational_mult x y) \<le> b * d"
proof -
  obtain p q where x: "x = (p, q)" by fastforce
  obtain u v where y: "y = (u, v)" by fastforce
  have 1: "Rat.normalize (a, b) = (p, q)" and 2: "Rat.normalize (c, d) = (u, v)"
    using assms by (auto simp: rational_def x y split: if_splits)
  note f = normalize_le [OF assms(4) 1] normalize_le [OF assms(6) 2]
  obtain m w where mw: "Rat.normalize (p * u, q * v) = (m, w)" by fastforce
  have "m \<le> p * u" "w \<le> q * v"
    using normalize_le [OF _ mw] f assms by (auto simp: zero_less_mult_iff max_def split: if_splits)
  moreover have "p * u \<le> a * c" "q * v \<le> b * d"
    using f assms by (auto intro!: mult_mono)
  ultimately show ?thesis by (simp add: rational_mult_def x y mw)
qed

lemma null_price_ids:
  "price_is_null p \<longleftrightarrow> asset_id (base p) = 0 \<and> asset_id (quote p) = 0"
  by (auto simp: price_is_null_def price_eq_def default_price_def u128_def Let_def)

lemma max_short_squeeze_price_total:
  assumes "0 < amount (base (settlement_price f))" "0 < amount (quote (settlement_price f))"
    "0 < maximum_short_squeeze_ratio f"
    "asset_id (base (settlement_price f)) \<noteq> asset_id (quote (settlement_price f))"
  shows "\<exists>p. max_short_squeeze_price f = Inr p \<and>
    0 < amount (base p) \<and> amount (base p) \<le> GRAPHENE_MAX_SHARE_SUPPLY \<and>
    0 < amount (quote p) \<and> amount (quote p) \<le> GRAPHENE_MAX_SHARE_SUPPLY"
proof -
  obtain x where x: "rational (amount (base (settlement_price f))) (amount (quote (settlement_price f))) = Inr x"
    using assms by (simp add: rational_def)
  obtain y where y: "rational GRAPHENE_COLLATERAL_RATIO_DENOM (maximum_short_squeeze_ratio f) = Inr y"
    using assms by (simp add: rational_def)
  obtain p q where pq: "scale_down Round_squeeze (rational_mult x y) = (p, q)" by fastforce
  have d: "0 < GRAPHENE_COLLATERAL_RATIO_DENOM" by (simp add: GRAPHENE_COLLATERAL_RATIO_DENOM_def)
  note s = scaled_down_price [OF x y assms(1,2) d assms(3,4) pq]
  then show ?thesis by (simp add: max_short_squeeze_price_def x y pq)
qed

section \<open>Properties\<close>

text \<open>C38: On valid prices the 128-bit cross multiplication never overflows: \<^verbatim>\<open>operator <\<close> is the
  lexicographic order of base asset, quote asset and exact ratio, and \<^verbatim>\<open>operator ==\<close> is equality
  of that key.  So the comparison is a strict weak order, as the ordered indexes need.\<close>

theorem price_order_is_ratio_order:
  assumes "valid_price a" "valid_price b"
  shows "(price_less a b \<longleftrightarrow>
      asset_id (base a) < asset_id (base b) \<or> asset_id (base a) = asset_id (base b) \<and>
      (asset_id (quote a) < asset_id (quote b) \<or> asset_id (quote a) = asset_id (quote b) \<and>
       price_ratio a < price_ratio b)) \<and>
     (price_eq a b \<longleftrightarrow> asset_id (base a) = asset_id (base b) \<and>
      asset_id (quote a) = asset_id (quote b) \<and> price_ratio a = price_ratio b) \<and>
     (price_ge a b \<longleftrightarrow> price_le b a)"
proof (intro conjI)
  note m = price_mults [OF assms] price_mults [OF assms(2,1)]
  show "price_less a b \<longleftrightarrow>
      asset_id (base a) < asset_id (base b) \<or> asset_id (base a) = asset_id (base b) \<and>
      (asset_id (quote a) < asset_id (quote b) \<or> asset_id (quote a) = asset_id (quote b) \<and>
       price_ratio a < price_ratio b)"
    by (auto simp: price_less_def Let_def m price_ratio_less_iff [OF assms])
  show "price_eq a b \<longleftrightarrow> asset_id (base a) = asset_id (base b) \<and>
      asset_id (quote a) = asset_id (quote b) \<and> price_ratio a = price_ratio b"
    by (auto simp: price_eq_def Let_def m price_ratio_eq_iff [OF assms])
  show "price_ge a b \<longleftrightarrow> price_le b a"
    by (auto simp: price_ge_def price_le_def price_less_def price_eq_def Let_def m)
qed

theorem price_order_is_ratio_order_witness:
  "valid_price (mk_price (mk_asset 1 0) (mk_asset 2 1)) \<and>
   valid_price (mk_price (mk_asset 3 0) (mk_asset 4 1)) \<and>
   price_less (mk_price (mk_asset 1 0) (mk_asset 2 1)) (mk_price (mk_asset 3 0) (mk_asset 4 1))"
proof -
  have v: "valid_price (mk_price (mk_asset 1 0) (mk_asset 2 1))"
    "valid_price (mk_price (mk_asset 3 0) (mk_asset 4 1))"
    by (simp_all add: valid_price_def price_validate_def asset_ok_def int64_def)
  show ?thesis using v price_order_is_ratio_order [OF v] by (simp add: price_ratio_def)
qed

text \<open>C39: Multiplying an amount by a valid price gives exactly the floor of the rational product,
  in the other asset of the market, and throws exactly when that floor exceeds
  \<^verbatim>\<open>GRAPHENE_MAX_SHARE_SUPPLY\<close>; an amount of a third asset throws.\<close>

theorem asset_times_price_exact:
  assumes "valid_price p" "asset_ok a" "0 \<le> amount a"
  shows "asset_times_price a p = Inr b \<longleftrightarrow>
      (\<exists>x y. (asset_id a = asset_id (base p) \<and> x = base p \<and> y = quote p \<or>
              asset_id a = asset_id (quote p) \<and> x = quote p \<and> y = base p) \<and>
        asset_id b = asset_id y \<and>
        amount b = \<lfloor>(of_int (amount a) :: rat) * of_int (amount y) / of_int (amount x)\<rfloor> \<and>
        amount b \<le> GRAPHENE_MAX_SHARE_SUPPLY)"
proof -
  have fl: "\<lfloor>(of_int u :: rat) * of_int v / of_int w\<rfloor> = u * v div w" for u v w
    by (metis floor_divide_of_int_eq of_int_mult)
  consider (b) "asset_id a = asset_id (base p)" | (q) "asset_id a = asset_id (quote p)"
    | (n) "asset_id a \<noteq> asset_id (base p)" "asset_id a \<noteq> asset_id (quote p)" by blast
  then show ?thesis
  proof cases
    case b
    with valid_priceD(5) [OF assms(1)] show ?thesis
      by (auto simp: asset_times_price_base [OF assms b] fl)
  next
    case q
    with valid_priceD(5) [OF assms(1)] show ?thesis
      using asset_times_price_base [OF valid_price_inv [OF assms(1)] assms(2,3)]
      by (auto simp: asset_times_price_quote [OF assms q] fl)
  next
    case n
    then show ?thesis by (auto simp: asset_times_price_def)
  qed
qed

theorem asset_times_price_exact_witness:
  "asset_times_price (mk_asset 10 0) (mk_price (mk_asset 3 0) (mk_asset 2 1)) = Inr (mk_asset 6 1)"
proof -
  have v: "valid_price (mk_price (mk_asset 3 0) (mk_asset 2 1))" "asset_ok (mk_asset 10 0)"
    "0 \<le> amount (mk_asset 10 0)"
    by (simp_all add: valid_price_def price_validate_def asset_ok_def int64_def)
  have "\<lfloor>(20 :: rat) / 3\<rfloor> = 6" by (rule floor_unique) simp_all
  then show ?thesis
    by (subst asset_times_price_exact [OF v]) (auto simp: GRAPHENE_MAX_SHARE_SUPPLY_def)
qed

text \<open>Converting an amount at a valid price and converting the proceeds back at the same price
  never yields more than was put in: rounding is never in favour of the converter.\<close>

theorem conversion_round_trip_no_gain:
  assumes "valid_price p" "asset_ok a" "0 \<le> amount a"
    and "asset_times_price a p = Inr b" "asset_times_price b p = Inr c"
  shows "asset_id c = asset_id a \<and> 0 \<le> amount c \<and> amount c \<le> amount a"
proof -
  have main: "asset_id c = asset_id a \<and> 0 \<le> amount c \<and> amount c \<le> amount a"
    if v: "valid_price p" and b: "asset_times_price a p = Inr b" and c: "asset_times_price b p = Inr c"
      and i: "asset_id a = asset_id (base p)" for p
  proof -
    note d = valid_priceD [OF v]
    have b': "amount b = amount a * amount (quote p) div amount (base p)"
      "asset_id b = asset_id (quote p)" "amount b \<le> GRAPHENE_MAX_SHARE_SUPPLY"
      using b by (auto simp: asset_times_price_base [OF v assms(2,3) i])
    have b0: "0 \<le> amount b" using b'(1) assms(3) d by (simp add: pos_imp_zdiv_nonneg_iff)
    have ok: "asset_ok b"
      using b0 b'(3) by (simp add: asset_ok_def int64_def GRAPHENE_MAX_SHARE_SUPPLY_def)
    have c': "amount c = amount b * amount (base p) div amount (quote p)" "asset_id c = asset_id (base p)"
      using c asset_times_price_base [OF valid_price_inv [OF v] ok b0] b'(2)
      by (auto simp: asset_times_price_quote [OF v ok b0 b'(2)])
    have "amount b * amount (base p) \<le> amount a * amount (quote p)"
      unfolding b'(1) using d by (intro div_times_le) simp
    then have "amount c \<le> amount a * amount (quote p) div amount (quote p)"
      unfolding c'(1) using d by (intro zdiv_mono1) auto
    with c' i b0 d show ?thesis by (simp add: pos_imp_zdiv_nonneg_iff)
  qed
  show ?thesis
  proof (cases "asset_id a = asset_id (base p)")
    case True
    with main assms show ?thesis by blast
  next
    case False
    with assms(4) have q: "asset_id a = asset_id (quote p)"
      by (auto simp: asset_times_price_def split: if_splits)
    have "asset_times_price b (price_inv p) = Inr c"
      using assms(4,5) q valid_priceD [OF assms(1)]
      by (auto simp: asset_times_price_def Let_def split: if_splits)
    with main [OF valid_price_inv [OF assms(1)]] assms q show ?thesis
      by (simp add: asset_times_price_quote [OF assms(1-3) q])
  qed
qed

theorem conversion_round_trip_no_gain_witness:
  "asset_times_price (mk_asset 10 0) (mk_price (mk_asset 3 0) (mk_asset 2 1)) = Inr (mk_asset 6 1) \<and>
   asset_times_price (mk_asset 6 1) (mk_price (mk_asset 3 0) (mk_asset 2 1)) = Inr (mk_asset 9 0) \<and>
   amount (mk_asset 9 0) \<le> amount (mk_asset 10 0)"
proof -
  have v: "valid_price (mk_price (mk_asset 3 0) (mk_asset 2 1))" "asset_ok (mk_asset 10 0)"
    "0 \<le> amount (mk_asset 10 0)"
    by (simp_all add: valid_price_def price_validate_def asset_ok_def int64_def)
  have m: "asset_times_price (mk_asset 10 0) (mk_price (mk_asset 3 0) (mk_asset 2 1)) = Inr (mk_asset 6 1)"
    "asset_times_price (mk_asset 6 1) (mk_price (mk_asset 3 0) (mk_asset 2 1)) = Inr (mk_asset 9 0)"
    by (simp_all add: asset_times_price_def Let_def GRAPHENE_MAX_SHARE_SUPPLY_def int64_def)
  show ?thesis using m conversion_round_trip_no_gain [OF v m] by simp
qed

text \<open>For positive debt and collateral of different assets the call price exists, its rounding
  loop ends, and both sides stay between 1 and \<^verbatim>\<open>GRAPHENE_MAX_SHARE_SUPPLY\<close>.  The price is
  collateral over debt, and when the reduced fraction needs no rounding it equals
  debt times ratio over collateral exactly.\<close>

theorem call_price_total:
  assumes "0 < amount debt" "0 < amount collateral" "0 < ratio" "asset_id debt \<noteq> asset_id collateral"
  shows "\<exists>p. call_price debt collateral ratio = Inr p \<and>
      asset_id (base p) = asset_id collateral \<and> asset_id (quote p) = asset_id debt \<and>
      0 < amount (base p) \<and> amount (base p) \<le> GRAPHENE_MAX_SHARE_SUPPLY \<and>
      0 < amount (quote p) \<and> amount (quote p) \<le> GRAPHENE_MAX_SHARE_SUPPLY \<and>
      (amount debt * ratio \<le> GRAPHENE_MAX_SHARE_SUPPLY \<longrightarrow>
       amount collateral * 1000 \<le> GRAPHENE_MAX_SHARE_SUPPLY \<longrightarrow>
       amount (quote p) * (amount collateral * 1000) = amount debt * ratio * amount (base p))"
proof -
  obtain x where x: "rational (amount debt) (amount collateral) = Inr x"
    using assms by (simp add: rational_def)
  obtain y where y: "rational ratio GRAPHENE_COLLATERAL_RATIO_DENOM = Inr y"
    by (simp add: rational_def GRAPHENE_COLLATERAL_RATIO_DENOM_def)
  obtain p q where pq: "scale_down Round_call (rational_mult x y) = (p, q)" by fastforce
  have d: "0 < GRAPHENE_COLLATERAL_RATIO_DENOM" by (simp add: GRAPHENE_COLLATERAL_RATIO_DENOM_def)
  note s = scaled_down_price [OF x y assms(1,2,3) d assms(4) pq]
  have "fst (rational_mult x y) \<le> amount debt * ratio \<and> snd (rational_mult x y) \<le> amount collateral * 1000"
    using rational_mult_le [OF x y assms(1,2,3) d] by (simp add: GRAPHENE_COLLATERAL_RATIO_DENOM_def)
  with s(3) have ex: "amount debt * ratio \<le> GRAPHENE_MAX_SHARE_SUPPLY \<Longrightarrow>
       amount collateral * 1000 \<le> GRAPHENE_MAX_SHARE_SUPPLY \<Longrightarrow>
       p * (amount collateral * 1000) = amount debt * ratio * q"
    by (simp add: GRAPHENE_COLLATERAL_RATIO_DENOM_def)
  have "call_price debt collateral ratio =
      Inr (price_inv (mk_price (mk_asset p (asset_id debt)) (mk_asset q (asset_id collateral))))"
    using s(1) by (simp add: call_price_def x y pq)
  with s(2) ex show ?thesis by simp
qed

theorem call_price_total_witness:
  "\<exists>p. call_price (mk_asset 100 1) (mk_asset 300 0) 1750 = Inr p \<and> asset_id (base p) = 0 \<and>
     amount (quote p) * (300 * 1000) = 100 * 1750 * amount (base p)"
proof -
  have h: "0 < amount (mk_asset 100 1)" "0 < amount (mk_asset 300 0)" "(0 :: int) < 1750"
    "asset_id (mk_asset 100 1) \<noteq> asset_id (mk_asset 300 0)" by simp_all
  show ?thesis using call_price_total [OF h] by (auto simp: GRAPHENE_MAX_SHARE_SUPPLY_def)
qed

text \<open>\<^verbatim>\<open>price::is_null\<close> looks at the asset ids only: because the default price has amounts 0,
  the cross products always agree, so a price is null exactly when both of its assets are the
  core asset, whatever the amounts; in particular \<^verbatim>\<open>unit_price()\<close> is null.\<close>

theorem price_is_null_iff:
  "price_is_null p \<longleftrightarrow> asset_id (base p) = 0 \<and> asset_id (quote p) = 0"
  by (rule null_price_ids)

text \<open>\<^verbatim>\<open>price_feed::validate\<close> accepts a feed exactly when its ratios are in range and its
  settlement price is well formed; a feed with the default (null) settlement price is rejected,
  because \<^verbatim>\<open>max_short_squeeze_price\<close> builds a fraction with denominator 0.\<close>

theorem price_feed_validate_iff:
  "price_feed_validate f = Inr () \<longleftrightarrow>
     GRAPHENE_MIN_COLLATERAL_RATIO \<le> maximum_short_squeeze_ratio f \<and>
     maximum_short_squeeze_ratio f \<le> GRAPHENE_MAX_COLLATERAL_RATIO \<and>
     GRAPHENE_MIN_COLLATERAL_RATIO \<le> maintenance_collateral_ratio f \<and>
     maintenance_collateral_ratio f \<le> GRAPHENE_MAX_COLLATERAL_RATIO \<and>
     price_validate (settlement_price f) = Inr ()"
proof (cases "price_is_null (settlement_price f)")
  case True
  then have "asset_id (base (settlement_price f)) = asset_id (quote (settlement_price f))"
    by (simp add: null_price_ids)
  then show ?thesis
    by (auto simp: price_feed_validate_def max_short_squeeze_price_def asset_div_def
        price_validate_def Let_def)
next
  case False
  show ?thesis
  proof (cases "price_validate (settlement_price f)")
    case (Inl e)
    with False show ?thesis by (simp add: price_feed_validate_def)
  next
    case (Inr u)
    have "\<exists>p. max_short_squeeze_price f = Inr p"
      if "GRAPHENE_MIN_COLLATERAL_RATIO \<le> maximum_short_squeeze_ratio f"
      using max_short_squeeze_price_total [of f] Inr that
      by (auto simp: price_validate_def GRAPHENE_MIN_COLLATERAL_RATIO_def)
    with Inr False show ?thesis by (auto simp: price_feed_validate_def)
  qed
qed

end
