(* ===== verification/Vesting.thy ===== *)
theory Vesting
  imports Asset
begin

text \<open>
  Vesting balances: \<^verbatim>\<open>vesting_balance_object.{hpp,cpp}\<close>.

  Times are seconds (\<^verbatim>\<open>time_point_sec\<close>, 32 bits).  Coin seconds are \<^verbatim>\<open>uint128_t\<close>.  The
  \<^verbatim>\<open>static_variant\<close> of the two policies is a datatype and each \<^verbatim>\<open>VESTING_VISITOR\<close> a case
  distinction.  The plain \<^verbatim>\<open>assert\<close>s of the source are not part of the operations: that they
  never fire is proved.  A signed 64-bit overflow, undefined in C++, is the exception
  \<open>Undefined_behaviour\<close>.
\<close>

section \<open>Definitions\<close>

record linear_vesting_policy =
  begin_timestamp :: nat
  vesting_cliff_seconds :: nat
  vesting_duration_seconds :: nat
  begin_balance :: share_type

record cdd_vesting_policy =
  vesting_seconds :: nat
  coin_seconds_earned :: int
  start_claim :: nat
  coin_seconds_earned_last_update :: nat

datatype vesting_policy = Linear_policy linear_vesting_policy | Cdd_policy cdd_vesting_policy

record vesting_policy_context =
  ctx_balance :: asset
  ctx_now :: nat
  ctx_amount :: asset

record vesting_balance_object =
  vb_owner :: nat
  vb_balance :: asset
  vb_policy :: vesting_policy

definition to_uint64 :: "int \<Rightarrow> int result" where
  "to_uint64 x = ensure (x < 2 ^ 64) (Inr x)"

definition sum_below_max_shares :: "safe_ops \<Rightarrow> asset \<Rightarrow> asset \<Rightarrow> bool result" where
  "sum_below_max_shares S a b =
     (if \<not> amount a \<le> GRAPHENE_MAX_SHARE_SUPPLY then Inr False
      else if \<not> amount b \<le> GRAPHENE_MAX_SHARE_SUPPLY then Inr False
      else rbind (safe_add S (amount a) (amount b)) (\<lambda>s. Inr (s \<le> GRAPHENE_MAX_SHARE_SUPPLY)))"

subsection \<open>The linear policy\<close>

definition linear_get_allowed_withdraw :: "safe_ops \<Rightarrow> linear_vesting_policy \<Rightarrow> vesting_policy_context \<Rightarrow> asset result" where
  "linear_get_allowed_withdraw S p ctx =
     (if ctx_now ctx > begin_timestamp p then
        (let elapsed_seconds = ctx_now ctx - begin_timestamp p in
         if elapsed_seconds \<ge> vesting_cliff_seconds p then
           rbind (if elapsed_seconds < vesting_duration_seconds p
                  then to_uint64 (u128 (u128 (begin_balance p) * int elapsed_seconds) div int (vesting_duration_seconds p))
                  else Inr (begin_balance p)) (\<lambda>total_vested.
           rbind (safe_sub S (begin_balance p) (amount (ctx_balance ctx))) (\<lambda>withdrawn_already.
           rbind (safe_sub S (to_int64 total_vested) withdrawn_already) (\<lambda>allowed_withdraw.
           Inr (mk_asset allowed_withdraw (asset_id (ctx_amount ctx))))))
         else Inr (mk_asset 0 (asset_id (ctx_amount ctx))))
      else Inr (mk_asset 0 (asset_id (ctx_amount ctx))))"

definition linear_is_deposit_allowed :: "safe_ops \<Rightarrow> linear_vesting_policy \<Rightarrow> vesting_policy_context \<Rightarrow> bool result" where
  "linear_is_deposit_allowed S p ctx =
     (if asset_id (ctx_amount ctx) = asset_id (ctx_balance ctx)
      then sum_below_max_shares S (ctx_amount ctx) (ctx_balance ctx) else Inr False)"

definition linear_is_withdraw_allowed :: "safe_ops \<Rightarrow> linear_vesting_policy \<Rightarrow> vesting_policy_context \<Rightarrow> bool result" where
  "linear_is_withdraw_allowed S p ctx =
     (if asset_id (ctx_amount ctx) = asset_id (ctx_balance ctx)
      then rbind (linear_get_allowed_withdraw S p ctx) (asset_le (ctx_amount ctx)) else Inr False)"

subsection \<open>The coin-days-destroyed policy\<close>

definition vest_period :: "cdd_vesting_policy \<Rightarrow> int" where
  "vest_period p = int (max (vesting_seconds p) 1)"

definition compute_coin_seconds_earned :: "cdd_vesting_policy \<Rightarrow> vesting_policy_context \<Rightarrow> int" where
  "compute_coin_seconds_earned p ctx =
     (let delta_seconds = int (ctx_now ctx) - int (coin_seconds_earned_last_update p);
          delta_coin_seconds = u128 (u128 (amount (ctx_balance ctx)) * u128 delta_seconds);
          coin_seconds_earned_cap = u128 (u128 (amount (ctx_balance ctx)) * vest_period p)
      in min (u128 (coin_seconds_earned p + delta_coin_seconds)) coin_seconds_earned_cap)"

definition update_coin_seconds_earned :: "vesting_policy_context \<Rightarrow> cdd_vesting_policy \<Rightarrow> cdd_vesting_policy" where
  "update_coin_seconds_earned ctx p =
     p\<lparr> coin_seconds_earned := compute_coin_seconds_earned p ctx, coin_seconds_earned_last_update := ctx_now ctx \<rparr>"

definition cdd_get_allowed_withdraw :: "cdd_vesting_policy \<Rightarrow> vesting_policy_context \<Rightarrow> asset result" where
  "cdd_get_allowed_withdraw p ctx =
     (if ctx_now ctx \<le> start_claim p then Inr (mk_asset 0 (asset_id (ctx_balance ctx)))
      else rbind (to_uint64 (compute_coin_seconds_earned p ctx div vest_period p)) (\<lambda>w.
           Inr (mk_asset (to_int64 w) (asset_id (ctx_balance ctx)))))"

definition cdd_on_deposit :: "vesting_policy_context \<Rightarrow> cdd_vesting_policy \<Rightarrow> cdd_vesting_policy" where
  "cdd_on_deposit ctx p = update_coin_seconds_earned ctx p"

definition cdd_on_deposit_vested :: "vesting_policy_context \<Rightarrow> cdd_vesting_policy \<Rightarrow> cdd_vesting_policy result" where
  "cdd_on_deposit_vested ctx p =
     (let p1 = cdd_on_deposit ctx p; added = amount (ctx_amount ctx) * vest_period p1
      in throw_unless Undefined_behaviour (int64 added)
           (Inr (p1\<lparr> coin_seconds_earned := u128 (coin_seconds_earned p1 + u128 added) \<rparr>)))"

definition cdd_on_withdraw :: "vesting_policy_context \<Rightarrow> cdd_vesting_policy \<Rightarrow> cdd_vesting_policy" where
  "cdd_on_withdraw ctx p =
     (let p1 = update_coin_seconds_earned ctx p;
          coin_seconds_needed = u128 (u128 (amount (ctx_amount ctx)) * vest_period p1)
      in p1\<lparr> coin_seconds_earned := u128 (coin_seconds_earned p1 - coin_seconds_needed) \<rparr>)"

definition cdd_is_deposit_allowed :: "safe_ops \<Rightarrow> cdd_vesting_policy \<Rightarrow> vesting_policy_context \<Rightarrow> bool result" where
  "cdd_is_deposit_allowed S p ctx =
     (if asset_id (ctx_amount ctx) = asset_id (ctx_balance ctx)
      then sum_below_max_shares S (ctx_amount ctx) (ctx_balance ctx) else Inr False)"

definition cdd_is_withdraw_allowed :: "cdd_vesting_policy \<Rightarrow> vesting_policy_context \<Rightarrow> bool result" where
  "cdd_is_withdraw_allowed p ctx = rbind (cdd_get_allowed_withdraw p ctx) (asset_le (ctx_amount ctx))"

subsection \<open>The balance object\<close>

definition vb_ctx :: "vesting_balance_object \<Rightarrow> nat \<Rightarrow> asset \<Rightarrow> vesting_policy_context" where
  "vb_ctx v now a = \<lparr> ctx_balance = vb_balance v, ctx_now = now, ctx_amount = a \<rparr>"

definition vb_is_deposit_allowed :: "safe_ops \<Rightarrow> vesting_balance_object \<Rightarrow> nat \<Rightarrow> asset \<Rightarrow> bool result" where
  "vb_is_deposit_allowed S v now a = (case vb_policy v of
     Linear_policy p \<Rightarrow> linear_is_deposit_allowed S p (vb_ctx v now a)
   | Cdd_policy p \<Rightarrow> cdd_is_deposit_allowed S p (vb_ctx v now a))"

definition vb_is_deposit_vested_allowed :: "safe_ops \<Rightarrow> vesting_balance_object \<Rightarrow> nat \<Rightarrow> asset \<Rightarrow> bool result" where
  "vb_is_deposit_vested_allowed S v now a = (case vb_policy v of
     Linear_policy p \<Rightarrow> Inr False
   | Cdd_policy p \<Rightarrow> cdd_is_deposit_allowed S p (vb_ctx v now a))"

definition vb_is_withdraw_allowed :: "safe_ops \<Rightarrow> vesting_balance_object \<Rightarrow> nat \<Rightarrow> asset \<Rightarrow> bool result" where
  "vb_is_withdraw_allowed S v now a = (case vb_policy v of
     Linear_policy p \<Rightarrow> linear_is_withdraw_allowed S p (vb_ctx v now a)
   | Cdd_policy p \<Rightarrow> cdd_is_withdraw_allowed p (vb_ctx v now a))"

definition vb_get_allowed_withdraw :: "safe_ops \<Rightarrow> vesting_balance_object \<Rightarrow> nat \<Rightarrow> asset result" where
  "vb_get_allowed_withdraw S v now = (case vb_policy v of
     Linear_policy p \<Rightarrow> linear_get_allowed_withdraw S p (vb_ctx v now (mk_asset 0 0))
   | Cdd_policy p \<Rightarrow> cdd_get_allowed_withdraw p (vb_ctx v now (mk_asset 0 0)))"

definition vb_deposit :: "safe_ops \<Rightarrow> nat \<Rightarrow> asset \<Rightarrow> vesting_balance_object \<Rightarrow> vesting_balance_object result" where
  "vb_deposit S now a v =
     (let pol = (case vb_policy v of Linear_policy p \<Rightarrow> Linear_policy p
                 | Cdd_policy p \<Rightarrow> Cdd_policy (cdd_on_deposit (vb_ctx v now a) p))
      in rbind (asset_plus S (vb_balance v) a) (\<lambda>b. Inr (v\<lparr> vb_policy := pol, vb_balance := b \<rparr>)))"

definition vb_deposit_vested :: "safe_ops \<Rightarrow> nat \<Rightarrow> asset \<Rightarrow> vesting_balance_object \<Rightarrow> vesting_balance_object result" where
  "vb_deposit_vested S now a v =
     rbind (case vb_policy v of Linear_policy p \<Rightarrow> Inl Assert_exception
            | Cdd_policy p \<Rightarrow> rbind (cdd_on_deposit_vested (vb_ctx v now a) p) (\<lambda>q. Inr (Cdd_policy q))) (\<lambda>pol.
     rbind (asset_plus S (vb_balance v) a) (\<lambda>b. Inr (v\<lparr> vb_policy := pol, vb_balance := b \<rparr>)))"

definition vb_withdraw :: "safe_ops \<Rightarrow> nat \<Rightarrow> asset \<Rightarrow> vesting_balance_object \<Rightarrow> vesting_balance_object result" where
  "vb_withdraw S now a v =
     (let pol = (case vb_policy v of Linear_policy p \<Rightarrow> Linear_policy p
                 | Cdd_policy p \<Rightarrow> Cdd_policy (cdd_on_withdraw (vb_ctx v now a) p))
      in rbind (asset_minus S (vb_balance v) a) (\<lambda>b. Inr (v\<lparr> vb_policy := pol, vb_balance := b \<rparr>)))"

section \<open>Specification\<close>

text \<open>What has vested of a linear balance at a time, and what a coin-days balance has earned.\<close>

definition linear_vested :: "linear_vesting_policy \<Rightarrow> nat \<Rightarrow> int" where
  "linear_vested p t =
     (if t > begin_timestamp p \<and> t - begin_timestamp p \<ge> vesting_cliff_seconds p then
        (if t - begin_timestamp p < vesting_duration_seconds p
         then begin_balance p * int (t - begin_timestamp p) div int (vesting_duration_seconds p)
         else begin_balance p)
      else 0)"

definition cdd_earned :: "cdd_vesting_policy \<Rightarrow> int \<Rightarrow> nat \<Rightarrow> int" where
  "cdd_earned p b t =
     min (coin_seconds_earned p + b * int (t - coin_seconds_earned_last_update p)) (b * vest_period p)"

definition allowed_at :: "vesting_balance_object \<Rightarrow> nat \<Rightarrow> int" where
  "allowed_at v t = (case vb_policy v of
     Linear_policy p \<Rightarrow> if t > begin_timestamp p \<and> t - begin_timestamp p \<ge> vesting_cliff_seconds p
        then linear_vested p t - (begin_balance p - amount (vb_balance v)) else 0
   | Cdd_policy p \<Rightarrow> if t \<le> start_claim p then 0 else cdd_earned p (amount (vb_balance v)) t div vest_period p)"

text \<open>The invariant of a balance last touched at time \<open>t\<close>.\<close>

definition vb_ok :: "nat \<Rightarrow> vesting_balance_object \<Rightarrow> bool" where
  "vb_ok t v \<longleftrightarrow> 0 \<le> amount (vb_balance v) \<and> amount (vb_balance v) \<le> GRAPHENE_MAX_SHARE_SUPPLY \<and>
     (case vb_policy v of
        Linear_policy p \<Rightarrow> vesting_duration_seconds p < 2 ^ 32 \<and> begin_balance p \<le> GRAPHENE_MAX_SHARE_SUPPLY \<and> 0 \<le> begin_balance p - amount (vb_balance v) \<and>
          begin_balance p - amount (vb_balance v) \<le> linear_vested p t
      | Cdd_policy p \<Rightarrow> vesting_seconds p < 2 ^ 32 \<and> coin_seconds_earned_last_update p \<le> t \<and>
          0 \<le> coin_seconds_earned p \<and> coin_seconds_earned p \<le> amount (vb_balance v) * vest_period p)"

section \<open>Lemmas\<close>

lemma vb_ctx_simps [simp]:
  "ctx_balance (vb_ctx v now a) = vb_balance v" "ctx_now (vb_ctx v now a) = now" "ctx_amount (vb_ctx v now a) = a"
  by (simp_all add: vb_ctx_def)

lemma asset_le_mk:
  "asset_le a (mk_asset x i) = (if asset_id a = i then Inr (amount a \<le> x) else Inl Assert_exception)"
  by (cases a) (auto simp: asset_le_def asset_less_def mk_asset_def)

lemma vest_period_pos [simp]: "0 < vest_period p"
  by (simp add: vest_period_def)

lemma vest_period_nonzero [simp]: "vest_period p \<noteq> 0"
  using vest_period_pos [of p] by linarith

lemma linear_vested_mono:
  assumes "t \<le> u" "0 \<le> begin_balance p"
  shows "linear_vested p t \<le> linear_vested p u"
proof -
  have m: "begin_balance p * int (t - begin_timestamp p) \<le> begin_balance p * int (u - begin_timestamp p)"
    using assms by (intro mult_left_mono) auto
  have c: "begin_balance p * int (u - begin_timestamp p) div int (vesting_duration_seconds p) \<le> begin_balance p"
    if "u - begin_timestamp p < vesting_duration_seconds p" for u
  proof -
    have "begin_balance p * int (u - begin_timestamp p) \<le> begin_balance p * int (vesting_duration_seconds p)"
      using that assms by (intro mult_left_mono) auto
    then have "begin_balance p * int (u - begin_timestamp p) div int (vesting_duration_seconds p) \<le>
        begin_balance p * int (vesting_duration_seconds p) div int (vesting_duration_seconds p)"
      by (rule zdiv_mono1) (use that in simp)
    then show ?thesis using that by simp
  qed
  have n: "0 \<le> begin_balance p * int x div int (vesting_duration_seconds p)" for x
    using assms by (simp add: div_int_pos_iff)
  show ?thesis unfolding linear_vested_def using assms c [of t] n zdiv_mono1 [OF m] by (auto simp: not_less simp del: of_nat_diff)
qed

lemma linear_vested_bounds:
  assumes "0 \<le> begin_balance p"
  shows "0 \<le> linear_vested p t" "linear_vested p t \<le> begin_balance p"
proof -
  have "linear_vested p 0 = 0" by (simp add: linear_vested_def)
  with linear_vested_mono [OF _ assms, of 0 t] show "0 \<le> linear_vested p t" by simp
  have "begin_balance p * int (t - begin_timestamp p) \<le> begin_balance p * int (vesting_duration_seconds p)"
    if "t - begin_timestamp p < vesting_duration_seconds p" using that assms by (intro mult_left_mono) auto
  from zdiv_mono1 [OF this, of "int (vesting_duration_seconds p)"] assms
  show "linear_vested p t \<le> begin_balance p" by (auto simp: linear_vested_def)
qed

lemma small_product:
  assumes "0 \<le> a" "a \<le> GRAPHENE_MAX_SHARE_SUPPLY" "0 \<le> x" "x < 2 ^ 32"
  shows "0 \<le> a * x" "a * x < 2 ^ 100" "int64 a"
proof -
  show "0 \<le> a * x" using assms by simp
  have "a * x \<le> GRAPHENE_MAX_SHARE_SUPPLY * 2 ^ 32" using assms by (intro mult_mono) auto
  then show "a * x < 2 ^ 100" by (simp add: GRAPHENE_MAX_SHARE_SUPPLY_def)
  show "int64 a" using assms by (simp add: int64_def GRAPHENE_MAX_SHARE_SUPPLY_def)
qed

lemma cdd_compute_eq:
  assumes "0 \<le> amount b" "amount b \<le> GRAPHENE_MAX_SHARE_SUPPLY" "vesting_seconds p < 2 ^ 32"
    "coin_seconds_earned_last_update p \<le> t" "t < 2 ^ 32" "0 \<le> coin_seconds_earned p" "coin_seconds_earned p \<le> amount b * vest_period p"
  shows "compute_coin_seconds_earned p \<lparr> ctx_balance = b, ctx_now = t, ctx_amount = a \<rparr> = cdd_earned p (amount b) t"
    "0 \<le> cdd_earned p (amount b) t" "cdd_earned p (amount b) t \<le> amount b * vest_period p" "amount b * vest_period p < 2 ^ 100"
proof -
  let ?d = "int t - int (coin_seconds_earned_last_update p)"
  have d: "0 \<le> ?d" "?d < 2 ^ 32" "?d = int (t - coin_seconds_earned_last_update p)" using assms by auto
  have v: "0 \<le> vest_period p" "vest_period p < 2 ^ 32" using assms by (auto simp: vest_period_def)
  note s1 = small_product [OF assms(1,2) d(1,2)] and s2 = small_product [OF assms(1,2) v]
  have b: "u128 (amount b) = amount b" using assms by (simp add: GRAPHENE_MAX_SHARE_SUPPLY_def)
  have e: "coin_seconds_earned p < 2 ^ 100" using assms(7) s2(2) by linarith
  have c1: "u128 (amount b * ?d) = amount b * ?d" using s1 by (intro u128_id) auto
  have c2: "u128 (amount b * vest_period p) = amount b * vest_period p" using s2 by (intro u128_id) auto
  have c3: "u128 (coin_seconds_earned p + amount b * ?d) = coin_seconds_earned p + amount b * ?d"
    using s1 e assms(6) by (intro u128_id) auto
  have c4: "u128 ?d = ?d" using d(1,2) by (intro u128_id) auto
  show "compute_coin_seconds_earned p \<lparr> ctx_balance = b, ctx_now = t, ctx_amount = a \<rparr> = cdd_earned p (amount b) t"
    unfolding compute_coin_seconds_earned_def Let_def vesting_policy_context.simps b c4 c1 c2 c3
    by (simp only: cdd_earned_def d(3))
  show "0 \<le> cdd_earned p (amount b) t" using s1 s2 assms(6) by (simp add: cdd_earned_def d(3) [symmetric] del: of_nat_diff)
  show "cdd_earned p (amount b) t \<le> amount b * vest_period p" by (simp add: cdd_earned_def)
  show "amount b * vest_period p < 2 ^ 100" by (rule s2(2))
qed

lemma cdd_earned_div_bounds:
  assumes "0 \<le> e" "e \<le> b * vest_period p"
  shows "0 \<le> e div vest_period p" "e div vest_period p \<le> b" "e div vest_period p * vest_period p \<le> e"
proof -
  show "0 \<le> e div vest_period p" using assms(1) by (simp add: div_int_pos_iff less_imp_le)
  have "e div vest_period p \<le> b * vest_period p div vest_period p" using assms(2) by (rule zdiv_mono1) simp
  also have "\<dots> = b" using vest_period_pos [of p] by (intro nonzero_mult_div_cancel_right) linarith
  finally show "e div vest_period p \<le> b" .
  show "e div vest_period p * vest_period p \<le> e" by (rule div_times_le) simp
qed

context fc_safe
begin

lemma linear_allowed_eq:
  assumes ok: "vb_ok t v" "t \<le> now" and pol: "vb_policy v = Linear_policy p"
  shows "linear_get_allowed_withdraw S p (vb_ctx v now a) = Inr (mk_asset (allowed_at v now) (asset_id a))"
    "0 \<le> allowed_at v now" "allowed_at v now \<le> amount (vb_balance v)"
proof -
  let ?b = "amount (vb_balance v)" and ?B = "begin_balance p"
  from ok pol have f: "0 \<le> ?b" "?b \<le> GRAPHENE_MAX_SHARE_SUPPLY" "?B \<le> GRAPHENE_MAX_SHARE_SUPPLY" "0 \<le> ?B - ?b" "?B - ?b \<le> linear_vested p t"
      "vesting_duration_seconds p < 2 ^ 32"
    by (simp_all add: vb_ok_def)
  then have B: "0 \<le> ?B" by linarith
  have le: "?B - ?b \<le> linear_vested p now" using f(5) linear_vested_mono [OF ok(2) B] by linarith
  note lv = linear_vested_bounds [OF B, of now]
  show "0 \<le> allowed_at v now" "allowed_at v now \<le> ?b" using le lv f by (auto simp: allowed_at_def pol)
  have i: "int64 ?b" "int64 ?B" "int64 (?B - ?b)" "int64 (linear_vested p now)" "int64 (linear_vested p now - (?B - ?b))"
    using f B lv le by (auto simp: int64_def GRAPHENE_MAX_SHARE_SUPPLY_def)
  have e: "u128 (u128 ?B * int x) = ?B * int x" if "x < 2 ^ 32" for x
    using small_product [OF B f(3), of "int x"] that B f(3) by (simp add: GRAPHENE_MAX_SHARE_SUPPLY_def)
  show "linear_get_allowed_withdraw S p (vb_ctx v now a) = Inr (mk_asset (allowed_at v now) (asset_id a))"
  proof (cases "now > begin_timestamp p \<and> now - begin_timestamp p \<ge> vesting_cliff_seconds p")
    case False
    then show ?thesis by (auto simp: linear_get_allowed_withdraw_def allowed_at_def pol vb_ctx_def Let_def)
  next
    case True
    let ?el = "now - begin_timestamp p"
    have "(if ?el < vesting_duration_seconds p then to_uint64 (u128 (u128 ?B * int ?el) div int (vesting_duration_seconds p))
           else Inr ?B) = Inr (linear_vested p now)"
    proof (cases "?el < vesting_duration_seconds p")
      case elapsed: True
      then have "?el < 2 ^ 32" using f(6) by linarith
      with True elapsed i(4) show ?thesis unfolding e [OF \<open>?el < 2 ^ 32\<close>]
        by (simp add: to_uint64_def linear_vested_def int64_def)
    qed (use True in \<open>simp add: linear_vested_def\<close>)
    then show ?thesis using True i by (simp add: linear_get_allowed_withdraw_def allowed_at_def pol vb_ctx_def sub_iff)
  qed
qed

end

lemma cdd_allowed_eq:
  assumes ok: "vb_ok t v" "t \<le> now" "now < 2 ^ 32" and pol: "vb_policy v = Cdd_policy p"
  shows "cdd_get_allowed_withdraw p (vb_ctx v now a) = Inr (mk_asset (allowed_at v now) (asset_id (vb_balance v)))"
    "0 \<le> allowed_at v now" "allowed_at v now \<le> amount (vb_balance v)"
    "now > start_claim p \<Longrightarrow> allowed_at v now * vest_period p \<le> cdd_earned p (amount (vb_balance v)) now"
proof -
  let ?b = "vb_balance v"
  from ok pol have f: "0 \<le> amount ?b" "amount ?b \<le> GRAPHENE_MAX_SHARE_SUPPLY" "vesting_seconds p < 2 ^ 32"
    "coin_seconds_earned_last_update p \<le> now" "now < 2 ^ 32" "0 \<le> coin_seconds_earned p" "coin_seconds_earned p \<le> amount ?b * vest_period p"
    by (simp_all add: vb_ok_def)
  note c = cdd_compute_eq [OF f]
  note d = cdd_earned_div_bounds [OF c(2,3)]
  show "0 \<le> allowed_at v now" "allowed_at v now \<le> amount ?b" using d f by (auto simp: allowed_at_def pol)
  show "now > start_claim p \<Longrightarrow> allowed_at v now * vest_period p \<le> cdd_earned p (amount ?b) now"
    using d by (simp add: allowed_at_def pol)
  have "cdd_earned p (amount ?b) now div vest_period p \<le> GRAPHENE_MAX_SHARE_SUPPLY" using d(2) f(2) by linarith
  then have i: "cdd_earned p (amount ?b) now div vest_period p < 2 ^ 64" "int64 (cdd_earned p (amount ?b) now div vest_period p)"
    using d(1) by (simp_all add: GRAPHENE_MAX_SHARE_SUPPLY_def int64_def)
  show "cdd_get_allowed_withdraw p (vb_ctx v now a) = Inr (mk_asset (allowed_at v now) (asset_id ?b))"
    using i unfolding cdd_get_allowed_withdraw_def vb_ctx_def c(1) by (simp add: to_uint64_def allowed_at_def pol)
qed

lemma cdd_on_withdraw_eq:
  assumes ok: "vb_ok t v" "t \<le> now" "now < 2 ^ 32" and pol: "vb_policy v = Cdd_policy p"
    and a: "0 \<le> amount a" "amount a \<le> allowed_at v now"
  shows "coin_seconds_earned (cdd_on_withdraw (vb_ctx v now a) p) = cdd_earned p (amount (vb_balance v)) now - amount a * vest_period p"
    "amount a * vest_period p \<le> cdd_earned p (amount (vb_balance v)) now"
proof -
  let ?b = "vb_balance v"
  from ok pol have f: "0 \<le> amount ?b" "amount ?b \<le> GRAPHENE_MAX_SHARE_SUPPLY" "vesting_seconds p < 2 ^ 32"
    "coin_seconds_earned_last_update p \<le> now" "now < 2 ^ 32" "0 \<le> coin_seconds_earned p" "coin_seconds_earned p \<le> amount ?b * vest_period p"
    by (simp_all add: vb_ok_def)
  note c = cdd_compute_eq [OF f] and al = cdd_allowed_eq [OF ok pol]
  have n: "amount a * vest_period p \<le> cdd_earned p (amount ?b) now"
  proof (cases "now > start_claim p")
    case True
    have "amount a * vest_period p \<le> allowed_at v now * vest_period p" using a by (intro mult_right_mono) (simp_all add: less_imp_le)
    with al(4) [OF True] show ?thesis by linarith
  next
    case False
    then have "amount a = 0" using a by (simp add: allowed_at_def pol)
    with c(2) show ?thesis by simp
  qed
  then show "amount a * vest_period p \<le> cdd_earned p (amount ?b) now" .
  have z: "0 \<le> amount a * vest_period p" using a(1) by (simp add: less_imp_le)
  have s: "amount a * vest_period p < 2 ^ 128" "cdd_earned p (amount ?b) now < 2 ^ 128" using n c(3,4) by simp_all
  have "amount a \<le> GRAPHENE_MAX_SHARE_SUPPLY" using a(2) al(3) f(2) by linarith
  then have u: "u128 (amount a) = amount a" using a(1) by (simp add: GRAPHENE_MAX_SHARE_SUPPLY_def)
  have vp: "vest_period (update_coin_seconds_earned (vb_ctx v now a) p) = vest_period p"
    by (simp add: update_coin_seconds_earned_def vest_period_def)
  have up: "coin_seconds_earned (update_coin_seconds_earned (vb_ctx v now a) p) = cdd_earned p (amount ?b) now"
    using c(1) [of a] by (simp add: update_coin_seconds_earned_def vb_ctx_def)
  show "coin_seconds_earned (cdd_on_withdraw (vb_ctx v now a) p) = cdd_earned p (amount ?b) now - amount a * vest_period p"
    using n z s u by (simp add: cdd_on_withdraw_def Let_def vp up)
qed

lemma allowed_withdraw_exact_aux:
  assumes S: "fc_safe S" and ok: "vb_ok t v" "t \<le> now" "now < 2 ^ 32"
  shows "(\<exists>i. vb_get_allowed_withdraw S v now = Inr (mk_asset (allowed_at v now) i)) \<and>
    0 \<le> allowed_at v now \<and> allowed_at v now \<le> amount (vb_balance v) \<and>
    (asset_id a = asset_id (vb_balance v) \<longrightarrow> vb_is_withdraw_allowed S v now a = Inr (amount a \<le> allowed_at v now)) \<and>
    (asset_id a \<noteq> asset_id (vb_balance v) \<longrightarrow> vb_is_withdraw_allowed S v now a \<noteq> Inr True)"
proof (cases "vb_policy v")
  case (Linear_policy p)
  note l = fc_safe.linear_allowed_eq [OF S ok(1,2) Linear_policy]
  then show ?thesis
    by (auto simp: vb_get_allowed_withdraw_def vb_is_withdraw_allowed_def Linear_policy linear_is_withdraw_allowed_def l
        asset_le_mk)
next
  case (Cdd_policy p)
  note l = cdd_allowed_eq [OF ok Cdd_policy]
  then show ?thesis
    by (auto simp: vb_get_allowed_withdraw_def vb_is_withdraw_allowed_def Cdd_policy cdd_is_withdraw_allowed_def l
        asset_le_mk)
qed

lemma vb_withdraw_ok:
  assumes S: "fc_safe S" and ok: "vb_ok t v" "t \<le> now" "now < 2 ^ 32"
    and al: "vb_is_withdraw_allowed S v now a = Inr True" and a: "0 \<le> amount a"
  shows "\<exists>v'. vb_withdraw S now a v = Inr v' \<and> vb_balance v' = mk_asset (amount (vb_balance v) - amount a) (asset_id a) \<and>
    amount a \<le> amount (vb_balance v) \<and> vb_owner v' = vb_owner v \<and> vb_ok now v' \<and> asset_id a = asset_id (vb_balance v)"
proof -
  from allowed_withdraw_exact_aux [OF S ok, of a] al have e: "asset_id a = asset_id (vb_balance v)" "amount a \<le> allowed_at v now"
    "0 \<le> allowed_at v now" "allowed_at v now \<le> amount (vb_balance v)" by auto
  let ?b = "amount (vb_balance v)" and ?a = "amount a"
  have ab: "?a \<le> ?b" using e by linarith
  have b: "0 \<le> ?b" "?b \<le> GRAPHENE_MAX_SHARE_SUPPLY" using ok(1) by (simp_all add: vb_ok_def)
  have "int64 (?b - ?a)" using ab a b by (simp add: int64_def GRAPHENE_MAX_SHARE_SUPPLY_def)
  then have m: "asset_minus S (vb_balance v) a = Inr (mk_asset (?b - ?a) (asset_id a))"
    using e(1) by (simp add: asset_minus_def fc_safe.sub_iff [OF S])
  show ?thesis
  proof (cases "vb_policy v")
    case (Linear_policy p)
    from ok(1) Linear_policy have f: "0 \<le> begin_balance p - ?b" "begin_balance p - ?b \<le> linear_vested p t"
      "begin_balance p \<le> GRAPHENE_MAX_SHARE_SUPPLY" "vesting_duration_seconds p < 2 ^ 32" by (simp_all add: vb_ok_def)
    have "linear_vested p t \<le> linear_vested p now" using f b by (intro linear_vested_mono ok) linarith
    then have "begin_balance p - (?b - ?a) \<le> linear_vested p now"
      using e f a by (auto simp: allowed_at_def Linear_policy split: if_splits)
    then show ?thesis using m ab a b f by (simp add: vb_withdraw_def Linear_policy vb_ok_def e(1))
  next
    case (Cdd_policy p)
    note w = cdd_on_withdraw_eq [OF ok Cdd_policy a e(2)]
    let ?q = "cdd_on_withdraw (vb_ctx v now a) p"
    have q: "vesting_seconds ?q = vesting_seconds p" "coin_seconds_earned_last_update ?q = now"
      by (simp_all add: cdd_on_withdraw_def update_coin_seconds_earned_def Let_def)
    have "cdd_earned p ?b now \<le> ?b * vest_period p" by (simp add: cdd_earned_def)
    then have "coin_seconds_earned ?q \<le> (?b - ?a) * vest_period ?q"
      using w by (simp add: left_diff_distrib vest_period_def q)
    then show ?thesis using m ab a b w q ok(1) by (simp add: vb_withdraw_def Cdd_policy vb_ok_def e(1))
  qed
qed

section \<open>Two balances, for the examples\<close>

definition demo_linear :: vesting_balance_object where
  "demo_linear = \<lparr> vb_owner = 1, vb_balance = mk_asset 100 0,
     vb_policy = Linear_policy \<lparr> begin_timestamp = 100, vesting_cliff_seconds = 10, vesting_duration_seconds = 100, begin_balance = 100 \<rparr> \<rparr>"

definition demo_cdd :: vesting_balance_object where
  "demo_cdd = \<lparr> vb_owner = 1, vb_balance = mk_asset 100 0,
     vb_policy = Cdd_policy \<lparr> vesting_seconds = 100, coin_seconds_earned = 0, start_claim = 0, coin_seconds_earned_last_update = 0 \<rparr> \<rparr>"

lemmas demo_vest_simps = demo_linear_def demo_cdd_def

section \<open>Properties\<close>

text \<open>In every state of the invariant the amount \<open>get_allowed_withdraw\<close> computes is exactly what the
  policy promises (vested minus withdrawn, or whole coin periods earned), it lies between zero and the
  balance, and a withdrawal is allowed exactly when it asks for the balance's asset and for no more.\<close>

theorem allowed_withdraw_exact:
  assumes S: "fc_safe S" and ok: "vb_ok t v" "t \<le> now" "now < 2 ^ 32"
  shows "(\<exists>i. vb_get_allowed_withdraw S v now = Inr (mk_asset (allowed_at v now) i)) \<and>
    0 \<le> allowed_at v now \<and> allowed_at v now \<le> amount (vb_balance v) \<and>
    (asset_id a = asset_id (vb_balance v) \<longrightarrow> vb_is_withdraw_allowed S v now a = Inr (amount a \<le> allowed_at v now)) \<and>
    (asset_id a \<noteq> asset_id (vb_balance v) \<longrightarrow> vb_is_withdraw_allowed S v now a \<noteq> Inr True)"
  by (rule allowed_withdraw_exact_aux [OF assms])

theorem allowed_withdraw_exact_witness:
  "vb_get_allowed_withdraw checked_ops demo_cdd 50 = Inr (mk_asset 50 0) \<and>
   vb_is_withdraw_allowed checked_ops demo_cdd 50 (mk_asset 51 0) = Inr False"
proof -
  have ok: "vb_ok 0 demo_cdd" by (simp add: demo_vest_simps vb_ok_def vest_period_def GRAPHENE_MAX_SHARE_SUPPLY_def)
  have "vb_get_allowed_withdraw checked_ops demo_cdd 50 = Inr (mk_asset 50 0)"
    by (simp add: demo_vest_simps vb_get_allowed_withdraw_def cdd_get_allowed_withdraw_def compute_coin_seconds_earned_def vest_period_def
      to_uint64_def int64_def vb_ctx_def)
  moreover have "allowed_at demo_cdd 50 = 50" by (simp add: demo_vest_simps allowed_at_def cdd_earned_def vest_period_def)
  ultimately show ?thesis
    using allowed_withdraw_exact [OF fc_safe_checked_ops ok, of 50 "mk_asset 51 0"] by (simp add: demo_vest_simps)
qed

text \<open>C36: Any allowed withdrawal succeeds, takes exactly the amount, never overdraws the balance or the
  coin seconds (the \<open>assert\<close>s of the source hold) and re-establishes the invariant; so over any sequence of
  withdrawals no more leaves a linear balance than has vested.\<close>

theorem withdraw_keeps_invariant:
  assumes S: "fc_safe S" and ok: "vb_ok t v" "t \<le> now" "now < 2 ^ 32"
    and al: "vb_is_withdraw_allowed S v now a = Inr True" and a: "0 \<le> amount a"
  shows "\<exists>v'. vb_withdraw S now a v = Inr v' \<and> vb_balance v' = mk_asset (amount (vb_balance v) - amount a) (asset_id a) \<and>
    amount a \<le> amount (vb_balance v) \<and> vb_owner v' = vb_owner v \<and> vb_ok now v'"
  using vb_withdraw_ok [OF assms] by blast

theorem withdraw_keeps_invariant_witness:
  "\<exists>v'. vb_withdraw checked_ops 150 (mk_asset 50 0) demo_linear = Inr v' \<and> vb_balance v' = mk_asset 50 0 \<and> vb_ok 150 v'"
proof -
  have ok: "vb_ok 0 demo_linear" by (simp add: demo_vest_simps vb_ok_def linear_vested_def GRAPHENE_MAX_SHARE_SUPPLY_def)
  have al: "vb_is_withdraw_allowed checked_ops demo_linear 150 (mk_asset 50 0) = Inr True"
    using allowed_withdraw_exact_aux [OF fc_safe_checked_ops ok, of 150 "mk_asset 50 0"]
    by (simp add: demo_vest_simps allowed_at_def linear_vested_def)
  from withdraw_keeps_invariant [OF fc_safe_checked_ops ok _ _ al] show ?thesis by (auto simp: demo_vest_simps)
qed

text \<open>A deposit into a coin-days balance keeps the invariant and adds the amount; ordinarily what may be
  withdrawn at once does not change, while a vested deposit makes exactly the new amount available.\<close>

theorem deposit_availability:
  assumes S: "fc_safe S" and ok: "vb_ok t v" "t \<le> now" "now < 2 ^ 32" and pol: "vb_policy v = Cdd_policy p"
    and a: "asset_id a = asset_id (vb_balance v)" "0 \<le> amount a" "amount a + amount (vb_balance v) \<le> GRAPHENE_MAX_SHARE_SUPPLY"
    and c: "start_claim p < now" and fits: "int64 (amount a * vest_period p)"
  shows "\<exists>v1 v2. vb_deposit S now a v = Inr v1 \<and> vb_deposit_vested S now a v = Inr v2 \<and>
    vb_balance v1 = mk_asset (amount (vb_balance v) + amount a) (asset_id a) \<and> vb_balance v2 = vb_balance v1 \<and>
    vb_ok now v1 \<and> vb_ok now v2 \<and>
    allowed_at v1 now = allowed_at v now \<and> allowed_at v2 now = allowed_at v now + amount a"
proof -
  let ?b = "amount (vb_balance v)" and ?a = "amount a"
  from ok pol have f: "0 \<le> ?b" "?b \<le> GRAPHENE_MAX_SHARE_SUPPLY" "vesting_seconds p < 2 ^ 32" "coin_seconds_earned_last_update p \<le> now"
    "now < 2 ^ 32" "0 \<le> coin_seconds_earned p" "coin_seconds_earned p \<le> ?b * vest_period p" by (simp_all add: vb_ok_def)
  note e = cdd_compute_eq [OF f]
  let ?e = "cdd_earned p ?b now" and ?vp = "vest_period p"
  define p1 where "p1 = p\<lparr> coin_seconds_earned := ?e, coin_seconds_earned_last_update := now \<rparr>"
  define p2 where "p2 = p1\<lparr> coin_seconds_earned := ?e + ?a * ?vp \<rparr>"
  have on: "cdd_on_deposit (vb_ctx v now a) p = p1"
    using e(1) [of a] by (simp add: cdd_on_deposit_def update_coin_seconds_earned_def p1_def vb_ctx_def)
  have vp: "vest_period p1 = ?vp" "vest_period p2 = ?vp" by (simp_all add: p1_def p2_def vest_period_def)
  have z: "0 \<le> ?a * ?vp" using a(2) by (simp add: less_imp_le)
  have u: "u128 (?a * ?vp) = ?a * ?vp" "u128 (?e + ?a * ?vp) = ?e + ?a * ?vp"
    using z fits e(2-4) by (auto simp: int64_def)
  have onv: "cdd_on_deposit_vested (vb_ctx v now a) p = Inr p2"
    using fits u by (simp add: cdd_on_deposit_vested_def on Let_def vp) (simp add: p1_def p2_def)
  have "int64 (?b + ?a)" using f a by (simp add: int64_def GRAPHENE_MAX_SHARE_SUPPLY_def)
  then have pl: "asset_plus S (vb_balance v) a = Inr (mk_asset (?b + ?a) (asset_id a))"
    using a(1) by (simp add: asset_plus_def fc_safe.add_iff [OF S])
  let ?v1 = "v\<lparr> vb_policy := Cdd_policy p1, vb_balance := mk_asset (?b + ?a) (asset_id a) \<rparr>"
  let ?v2 = "v\<lparr> vb_policy := Cdd_policy p2, vb_balance := mk_asset (?b + ?a) (asset_id a) \<rparr>"
  have d: "vb_deposit S now a v = Inr ?v1" "vb_deposit_vested S now a v = Inr ?v2"
    by (simp_all add: vb_deposit_def vb_deposit_vested_def pol on onv pl)
  have s: "(?b + ?a) * ?vp = ?b * ?vp + ?a * ?vp" by (simp add: distrib_right)
  have k: "cdd_earned p1 (?b + ?a) now = ?e" "cdd_earned p2 (?b + ?a) now = ?e + ?a * ?vp"
    using e(3) z s unfolding cdd_earned_def [of p1] cdd_earned_def [of p2] vp by (simp_all add: p1_def p2_def)
  have "vb_ok now ?v1" "vb_ok now ?v2" using f a e s z vp by (simp_all add: vb_ok_def p1_def p2_def)
  moreover have "start_claim p1 = start_claim p" "start_claim p2 = start_claim p" by (simp_all add: p1_def p2_def)
  then have "allowed_at ?v1 now = allowed_at v now" "allowed_at ?v2 now = allowed_at v now + ?a"
    using c k vp vest_period_pos [of p] by (simp_all add: allowed_at_def pol)
  ultimately show ?thesis using d by simp
qed

theorem deposit_availability_witness:
  "\<exists>v1 v2. vb_deposit checked_ops 50 (mk_asset 10 0) demo_cdd = Inr v1 \<and> vb_deposit_vested checked_ops 50 (mk_asset 10 0) demo_cdd = Inr v2 \<and>
     allowed_at v1 50 = 50 \<and> allowed_at v2 50 = 60"
proof -
  have ok: "vb_ok 0 demo_cdd" by (simp add: demo_vest_simps vb_ok_def vest_period_def GRAPHENE_MAX_SHARE_SUPPLY_def)
  have "vb_policy demo_cdd = Cdd_policy \<lparr> vesting_seconds = 100, coin_seconds_earned = 0, start_claim = 0, coin_seconds_earned_last_update = 0 \<rparr>"
    by (simp add: demo_vest_simps)
  from deposit_availability [OF fc_safe_checked_ops ok _ _ this, of 50 "mk_asset 10 0"] show ?thesis
    by (auto simp: demo_vest_simps allowed_at_def cdd_earned_def vest_period_def int64_def GRAPHENE_MAX_SHARE_SUPPLY_def)
qed

text \<open>Once the vesting period is over the whole balance may be withdrawn, and before the cliff or the
  first claim date nothing may.\<close>

theorem vesting_schedule_ends:
  assumes ok: "vb_ok t v" "t \<le> now" "now < 2 ^ 32"
  shows "case vb_policy v of
      Linear_policy p \<Rightarrow>
        (now \<le> begin_timestamp p \<or> now < begin_timestamp p + vesting_cliff_seconds p \<longrightarrow> allowed_at v now = 0) \<and>
        (now > begin_timestamp p \<and> now \<ge> begin_timestamp p + vesting_cliff_seconds p \<and>
         now \<ge> begin_timestamp p + vesting_duration_seconds p \<longrightarrow> allowed_at v now = amount (vb_balance v))
    | Cdd_policy p \<Rightarrow>
        (now \<le> start_claim p \<longrightarrow> allowed_at v now = 0) \<and>
        (now > start_claim p \<and> now \<ge> coin_seconds_earned_last_update p + max (vesting_seconds p) 1 \<longrightarrow>
         allowed_at v now = amount (vb_balance v))"
proof (cases "vb_policy v")
  case (Linear_policy p)
  then show ?thesis by (auto simp: allowed_at_def linear_vested_def)
next
  case (Cdd_policy p)
  let ?b = "amount (vb_balance v)"
  have "cdd_earned p ?b now div vest_period p = ?b" if "now \<ge> coin_seconds_earned_last_update p + max (vesting_seconds p) 1"
  proof -
    have "vest_period p \<le> int (now - coin_seconds_earned_last_update p)" using that by (auto simp: vest_period_def)
    then have "?b * vest_period p \<le> ?b * int (now - coin_seconds_earned_last_update p)"
      using ok(1) by (intro mult_left_mono) (auto simp: vb_ok_def)
    then have "cdd_earned p ?b now = ?b * vest_period p" using ok(1) Cdd_policy by (simp add: cdd_earned_def vb_ok_def)
    then show ?thesis using vest_period_pos [of p] by simp
  qed
  then show ?thesis by (simp add: Cdd_policy allowed_at_def)
qed

theorem vesting_schedule_ends_witness: "allowed_at demo_cdd 100 = 100 \<and> allowed_at demo_linear 200 = 100"
proof -
  have ok: "vb_ok 0 demo_cdd" "vb_ok 0 demo_linear"
    by (simp_all add: demo_vest_simps vb_ok_def vest_period_def linear_vested_def GRAPHENE_MAX_SHARE_SUPPLY_def)
  from vesting_schedule_ends [OF ok(1), of 100] vesting_schedule_ends [OF ok(2), of 200]
  show ?thesis by (simp add: demo_vest_simps)
qed

text \<open>\<open>get_allowed_withdraw\<close> of a linear balance names the core asset whatever asset the balance holds.\<close>

theorem linear_allowed_withdraw_wrong_asset:
  assumes S: "fc_safe S" and ok: "vb_ok t v" "t \<le> now" "now < 2 ^ 32" and "vb_policy v = Linear_policy p"
  shows "vb_get_allowed_withdraw S v now = Inr (mk_asset (allowed_at v now) 0)"
  using fc_safe.linear_allowed_eq(1) [OF S ok(1,2) assms(5)] by (simp add: vb_get_allowed_withdraw_def assms(5))

theorem linear_allowed_withdraw_wrong_asset_witness:
  "vb_get_allowed_withdraw checked_ops (demo_linear\<lparr> vb_balance := mk_asset 100 7 \<rparr>) 150 = Inr (mk_asset 50 0)"
proof -
  let ?v = "demo_linear\<lparr> vb_balance := mk_asset 100 7 \<rparr>"
  have ok: "vb_ok 0 ?v" by (simp add: demo_vest_simps vb_ok_def linear_vested_def GRAPHENE_MAX_SHARE_SUPPLY_def)
  from linear_allowed_withdraw_wrong_asset [OF fc_safe_checked_ops ok, of 150] show ?thesis
    by (simp add: demo_vest_simps allowed_at_def linear_vested_def)
qed

end
