(* ===== verification/Authority.thy ===== *)
theory Authority
  imports Prelude
begin

text \<open>
  Authorities and the signature check of a transaction: \<^verbatim>\<open>protocol/authority.{hpp,cpp}\<close>,
  \<^verbatim>\<open>protocol/transaction.cpp\<close>, \<^verbatim>\<open>protocol/operations.cpp\<close> and \<^verbatim>\<open>proposal_object.cpp\<close>.

  Accounts, public keys and addresses are numbers.  A \<^verbatim>\<open>flat_map\<close> is an association list in key
  order and a \<^verbatim>\<open>flat_set\<close> a sorted list.  The five addresses of a key (\<^verbatim>\<open>address\<close> and four
  \<^verbatim>\<open>pts_address\<close> forms, all of them hashes) are the parameter \<open>key_addresses\<close>; the recovery of a
  public key from a signature is the parameter \<open>recover\<close>.  The recursion of \<^verbatim>\<open>check_authority\<close> over the
  depth is structural on the number of levels left, \<^verbatim>\<open>max_recursion - depth\<close>.
\<close>

section \<open>Authorities\<close>

record authority =
  weight_threshold :: "32 word"
  account_auths :: "(nat \<times> 16 word) list"
  key_auths :: "(nat \<times> 16 word) list"
  address_auths :: "(nat \<times> 16 word) list"

definition add_account_authority :: "nat \<Rightarrow> 16 word \<Rightarrow> authority \<Rightarrow> authority" where
  "add_account_authority k w au = au\<lparr> account_auths := fm_update k w (account_auths au) \<rparr>"

definition add_key_authority :: "nat \<Rightarrow> 16 word \<Rightarrow> authority \<Rightarrow> authority" where
  "add_key_authority k w au = au\<lparr> key_auths := fm_update k w (key_auths au) \<rparr>"

definition add_address_authority :: "nat \<Rightarrow> 16 word \<Rightarrow> authority \<Rightarrow> authority" where
  "add_address_authority k w au = au\<lparr> address_auths := fm_update k w (address_auths au) \<rparr>"

definition weights :: "(nat \<times> 16 word) list \<Rightarrow> 64 word" where
  "weights xs = fold (\<lambda>x s. s + ucast (snd x)) xs 0"

definition is_impossible :: "authority \<Rightarrow> bool" where
  "is_impossible au \<longleftrightarrow>
     weights (account_auths au) + weights (key_auths au) + weights (address_auths au) < ucast (weight_threshold au)"

definition get_keys :: "authority \<Rightarrow> nat list" where
  "get_keys au = map fst (key_auths au)"

definition get_addresses :: "authority \<Rightarrow> nat list" where
  "get_addresses au = map fst (address_auths au)"

definition num_auths :: "authority \<Rightarrow> nat" where
  "num_auths au = length (account_auths au) + length (key_auths au) + length (address_auths au)"

definition authority_clear :: "authority \<Rightarrow> authority" where
  "authority_clear au = au\<lparr> account_auths := [], key_auths := [] \<rparr>"

definition GRAPHENE_COMMITTEE_ACCOUNT :: nat where "GRAPHENE_COMMITTEE_ACCOUNT = 0"
definition GRAPHENE_NULL_ACCOUNT :: nat where "GRAPHENE_NULL_ACCOUNT = 3"
definition GRAPHENE_TEMP_ACCOUNT :: nat where "GRAPHENE_TEMP_ACCOUNT = 4"
definition GRAPHENE_MAX_SIG_CHECK_DEPTH :: nat where "GRAPHENE_MAX_SIG_CHECK_DEPTH = 2"

definition null_authority :: authority where
  "null_authority = \<lparr> weight_threshold = 1, account_auths = [(GRAPHENE_NULL_ACCOUNT, 1)], key_auths = [], address_auths = [] \<rparr>"

definition add_authority_accounts :: "authority \<Rightarrow> nat list \<Rightarrow> nat list" where
  "add_authority_accounts au r = fold (\<lambda>x. insort_insert (fst x)) (account_auths au) r"

section \<open>The signature state\<close>

record sign_env =
  get_active :: "nat \<Rightarrow> authority option"
  available_keys :: "nat list"
  key_addresses :: "nat \<Rightarrow> nat list"

record sign_state =
  provided_signatures :: "(nat \<times> bool) list"
  approved_by :: "nat list"
  address_sigs :: "((nat \<times> nat) list \<times> (nat \<times> nat) list) option"

definition sign_state_init :: "nat list \<Rightarrow> sign_state" where
  "sign_state_init sigs = \<lparr> provided_signatures = fold (\<lambda>k. fm_update k False) sigs [],
     approved_by = [GRAPHENE_TEMP_ACCOUNT], address_sigs = None \<rparr>"

definition mark_signed :: "nat \<Rightarrow> sign_state \<Rightarrow> sign_state" where
  "mark_signed k s = s\<lparr> provided_signatures := fm_update k True (provided_signatures s) \<rparr>"

definition signed_by :: "sign_env \<Rightarrow> nat \<Rightarrow> sign_state \<Rightarrow> bool \<times> sign_state" where
  "signed_by c k s =
     (case map_of (provided_signatures s) k of
        None \<Rightarrow> if k \<in> set (available_keys c) then (True, mark_signed k s) else (False, s)
      | Some _ \<Rightarrow> (True, mark_signed k s))"

definition index_addresses :: "sign_env \<Rightarrow> nat list \<Rightarrow> (nat \<times> nat) list" where
  "index_addresses c ks = fold (\<lambda>k m. fold (\<lambda>a. fm_update a k) (key_addresses c k) m) ks []"

definition fill_address_sigs :: "sign_env \<Rightarrow> sign_state \<Rightarrow> (nat \<times> nat) list \<times> (nat \<times> nat) list" where
  "fill_address_sigs c s = (case address_sigs s of Some p \<Rightarrow> p
     | None \<Rightarrow> (index_addresses c (available_keys c), index_addresses c (map fst (provided_signatures s))))"

definition signed_by_address :: "sign_env \<Rightarrow> nat \<Rightarrow> sign_state \<Rightarrow> (bool \<times> sign_state) result" where
  "signed_by_address c a s =
     (let (available, provided) = fill_address_sigs c s;
          s1 = s\<lparr> address_sigs := Some (available, provided) \<rparr>
      in case map_of provided a of
           Some k \<Rightarrow> Inr (True, mark_signed k s1)
         | None \<Rightarrow>
             (case map_of available a of
                Some k \<Rightarrow> if k \<in> set (available_keys c) then Inr (True, mark_signed k s1) else Inr (False, s1)
              | None \<Rightarrow> Inl Undefined_behaviour))"

subsection \<open>The three loops of \<open>check_authority\<close>\<close>

fun key_loop :: "sign_env \<Rightarrow> 32 word \<Rightarrow> (nat \<times> 16 word) list \<Rightarrow> 32 word \<Rightarrow> sign_state \<Rightarrow> bool \<times> 32 word \<times> sign_state" where
  "key_loop c thr [] t s = (False, t, s)"
| "key_loop c thr ((k, w) # ks) t s =
     (let (b, s1) = signed_by c k s in
      if b then (let t1 = t + ucast w in if thr \<le> t1 then (True, t1, s1) else key_loop c thr ks t1 s1)
      else key_loop c thr ks t s1)"

fun address_loop :: "sign_env \<Rightarrow> 32 word \<Rightarrow> (nat \<times> 16 word) list \<Rightarrow> 32 word \<Rightarrow> sign_state \<Rightarrow>
    (bool \<times> 32 word \<times> sign_state) result" where
  "address_loop c thr [] t s = Inr (False, t, s)"
| "address_loop c thr ((a, w) # xs) t s =
     rbind (signed_by_address c a s) (\<lambda>(b, s1).
      if b then (let t1 = t + ucast w in if thr \<le> t1 then Inr (True, t1, s1) else address_loop c thr xs t1 s1)
      else address_loop c thr xs t s1)"

fun account_loop :: "(authority option \<Rightarrow> sign_state \<Rightarrow> (bool \<times> sign_state) result) option \<Rightarrow> sign_env \<Rightarrow> 32 word \<Rightarrow>
    (nat \<times> 16 word) list \<Rightarrow> 32 word \<Rightarrow> sign_state \<Rightarrow> (bool \<times> sign_state) result" where
  "account_loop chk c thr [] t s = Inr (thr \<le> t, s)"
| "account_loop chk c thr ((a, w) # xs) t s =
     (if a \<notin> set (approved_by s) then
        (case chk of None \<Rightarrow> Inr (False, s)
         | Some f \<Rightarrow> rbind (f (get_active c a) s) (\<lambda>(b, s1).
             if b then
               (let s2 = s1\<lparr> approved_by := List.insert a (approved_by s1) \<rparr>; t1 = t + ucast w in
                if thr \<le> t1 then Inr (True, s2) else account_loop chk c thr xs t1 s2)
             else account_loop chk c thr xs t s1))
      else (let t1 = t + ucast w in
            if thr \<le> t1 then Inr (True, s) else account_loop chk c thr xs t1 s))"

definition check_levels :: "(authority option \<Rightarrow> sign_state \<Rightarrow> (bool \<times> sign_state) result) option \<Rightarrow> sign_env \<Rightarrow>
    authority option \<Rightarrow> sign_state \<Rightarrow> (bool \<times> sign_state) result" where
  "check_levels chk c au s =
     (case au of None \<Rightarrow> Inr (False, s)
      | Some auth \<Rightarrow>
         (let thr = weight_threshold auth; (b, t, s1) = key_loop c thr (key_auths auth) 0 s in
          if b then Inr (True, s1)
          else rbind (address_loop c thr (address_auths auth) t s1) (\<lambda>(b, t, s2).
            if b then Inr (True, s2) else account_loop chk c thr (account_auths auth) t s2)))"

text \<open>The first argument is \<^verbatim>\<open>max_recursion - depth\<close>.\<close>

primrec check_authority :: "nat \<Rightarrow> sign_env \<Rightarrow> authority option \<Rightarrow> sign_state \<Rightarrow> (bool \<times> sign_state) result" where
  "check_authority 0 c = check_levels None c"
| "check_authority (Suc n) c = check_levels (Some (check_authority n c)) c"

definition check_account :: "nat \<Rightarrow> sign_env \<Rightarrow> nat \<Rightarrow> sign_state \<Rightarrow> (bool \<times> sign_state) result" where
  "check_account n c i s = (if i \<in> set (approved_by s) then Inr (True, s) else check_authority n c (get_active c i) s)"

definition remove_unused_signatures :: "sign_state \<Rightarrow> bool \<times> sign_state" where
  "remove_unused_signatures s =
     (let remove_sigs = map fst (filter (\<lambda>p. \<not> snd p) (provided_signatures s))
      in (length remove_sigs \<noteq> 0, s\<lparr> provided_signatures := fold AList.delete remove_sigs (provided_signatures s) \<rparr>))"

section \<open>Verifying a transaction\<close>

record required_auths =
  req_active :: "nat list"
  req_owner :: "nat list"
  req_other :: "authority list"

text \<open>What an operation type contributes: its \<^verbatim>\<open>fee_payer()\<close> and its three \<^verbatim>\<open>get_required_*\<close> methods.\<close>

record 'op op_auths =
  op_fee_payer :: "'op \<Rightarrow> nat"
  op_active :: "'op \<Rightarrow> nat list"
  op_owner :: "'op \<Rightarrow> nat list"
  op_other :: "'op \<Rightarrow> authority list"

definition operation_get_required_authorities :: "'op op_auths \<Rightarrow> 'op \<Rightarrow> required_auths \<Rightarrow> required_auths" where
  "operation_get_required_authorities v op r =
     \<lparr> req_active = fold insort_insert (op_active v op) (insort_insert (op_fee_payer v op) (req_active r)),
       req_owner = fold insort_insert (op_owner v op) (req_owner r),
       req_other = req_other r @ op_other v op \<rparr>"

definition get_required_authorities :: "'op op_auths \<Rightarrow> 'op list \<Rightarrow> required_auths" where
  "get_required_authorities v ops =
     fold (operation_get_required_authorities v) ops \<lparr> req_active = [], req_owner = [], req_other = [] \<rparr>"

definition transaction_validate :: "('op \<Rightarrow> unit result) \<Rightarrow> 'op list \<Rightarrow> unit result" where
  "transaction_validate operation_validate ops =
     ensure (length ops > 0) (rfold (\<lambda>op _. operation_validate op) ops ())"

definition check_other :: "nat \<Rightarrow> sign_env \<Rightarrow> authority \<Rightarrow> sign_state \<Rightarrow> sign_state result" where
  "check_other n c au s = rbind (check_authority n c (Some au) s) (\<lambda>(b, s1). throw_unless Tx_missing_other_auth b (Inr s1))"

definition check_active :: "nat \<Rightarrow> sign_env \<Rightarrow> (nat \<Rightarrow> authority option) \<Rightarrow> nat \<Rightarrow> sign_state \<Rightarrow> sign_state result" where
  "check_active n c get_owner i s =
     rbind (check_account n c i s) (\<lambda>(b, s1).
       if b then Inr s1
       else rbind (check_authority n c (get_owner i) s1) (\<lambda>(b2, s2). throw_unless Tx_missing_active_auth b2 (Inr s2)))"

definition check_owner :: "nat \<Rightarrow> sign_env \<Rightarrow> (nat \<Rightarrow> authority option) \<Rightarrow> nat list \<Rightarrow> nat \<Rightarrow> sign_state \<Rightarrow> sign_state result" where
  "check_owner n c get_owner owner_approvals i s =
     (if i \<in> set owner_approvals then Inr s
      else rbind (check_authority n c (get_owner i) s) (\<lambda>(b, s1). throw_unless Tx_missing_owner_auth b (Inr s1)))"

definition approve :: "nat list \<Rightarrow> sign_state \<Rightarrow> sign_state" where
  "approve ids s = s\<lparr> approved_by := fold List.insert ids (approved_by s) \<rparr>"

text \<open>The sign state that \<^verbatim>\<open>verify_authority\<close> holds when it reaches its last assertion.\<close>

definition verify_state :: "'op op_auths \<Rightarrow> (nat \<Rightarrow> nat list) \<Rightarrow> 'op list \<Rightarrow> nat list \<Rightarrow> (nat \<Rightarrow> authority option) \<Rightarrow>
    (nat \<Rightarrow> authority option) \<Rightarrow> nat \<Rightarrow> bool \<Rightarrow> nat list \<Rightarrow> nat list \<Rightarrow> sign_state result" where
  "verify_state v addrs ops sigs get_act get_own max_recursion allow_committee active_approvals owner_approvals =
     (let r = get_required_authorities v ops;
          c = \<lparr> get_active = get_act, available_keys = [], key_addresses = addrs \<rparr>
      in throw_unless Invalid_committee_approval (allow_committee \<or> GRAPHENE_COMMITTEE_ACCOUNT \<notin> set (req_active r)) (
         rbind (rfold (check_other max_recursion c) (req_other r)
           (approve owner_approvals (approve active_approvals (sign_state_init sigs)))) (\<lambda>s1.
         rbind (rfold (check_active max_recursion c get_own) (req_active r) s1) (\<lambda>s2.
         rfold (check_owner max_recursion c get_own owner_approvals) (req_owner r) s2))))"

definition verify_authority :: "'op op_auths \<Rightarrow> (nat \<Rightarrow> nat list) \<Rightarrow> 'op list \<Rightarrow> nat list \<Rightarrow> (nat \<Rightarrow> authority option) \<Rightarrow>
    (nat \<Rightarrow> authority option) \<Rightarrow> nat \<Rightarrow> bool \<Rightarrow> nat list \<Rightarrow> nat list \<Rightarrow> unit result" where
  "verify_authority v addrs ops sigs get_act get_own max_recursion allow_committee active_approvals owner_approvals =
     rbind (verify_state v addrs ops sigs get_act get_own max_recursion allow_committee active_approvals owner_approvals)
       (\<lambda>s. throw_unless Tx_irrelevant_sig (\<not> fst (remove_unused_signatures s)) (Inr ()))"

definition get_signature_keys :: "('sig \<Rightarrow> nat) \<Rightarrow> 'sig list \<Rightarrow> nat list result" where
  "get_signature_keys recover sigs =
     rfold (\<lambda>sig r. throw_unless Tx_duplicate_sig (recover sig \<notin> set r) (Inr (insort_insert (recover sig) r))) sigs []"

definition signed_transaction_verify_authority where
  "signed_transaction_verify_authority v addrs recover ops sigs get_act get_own max_recursion =
     rbind (get_signature_keys recover sigs) (\<lambda>ks. verify_authority v addrs ops ks get_act get_own max_recursion False [] [])"

definition get_required_signatures :: "'op op_auths \<Rightarrow> (nat \<Rightarrow> nat list) \<Rightarrow> ('sig \<Rightarrow> nat) \<Rightarrow> 'op list \<Rightarrow> 'sig list \<Rightarrow>
    nat list \<Rightarrow> (nat \<Rightarrow> authority option) \<Rightarrow> (nat \<Rightarrow> authority option) \<Rightarrow> nat \<Rightarrow> nat list result" where
  "get_required_signatures v addrs recover ops sigs available get_act get_own max_recursion =
     (let r = get_required_authorities v ops;
          c = \<lparr> get_active = get_act, available_keys = available, key_addresses = addrs \<rparr>
      in rbind (get_signature_keys recover sigs) (\<lambda>ks.
         rbind (rfold (\<lambda>au s. rbind (check_authority max_recursion c (Some au) s) (\<lambda>p. Inr (snd p))) (req_other r) (sign_state_init ks)) (\<lambda>s1.
         rbind (rfold (\<lambda>i s. rbind (check_authority max_recursion c (get_own i) s) (\<lambda>p. Inr (snd p))) (req_owner r) s1) (\<lambda>s2.
         rbind (rfold (\<lambda>i s. rbind (check_account max_recursion c i s) (\<lambda>p. Inr (snd p))) (req_active r) s2) (\<lambda>s3.
         let s4 = snd (remove_unused_signatures s3) in
         Inr (fold insort_insert (filter (\<lambda>k. k \<in> set available) (map fst (provided_signatures s4))) []))))))"

definition drop_key :: "(nat list \<Rightarrow> unit result) \<Rightarrow> nat \<Rightarrow> nat list \<Rightarrow> nat list result" where
  "drop_key verify k r =
     (let smaller = remove1 k r in
      case verify smaller of
        Inr _ \<Rightarrow> Inr smaller
      | Inl e \<Rightarrow> if e \<in> {Tx_missing_owner_auth, Tx_missing_active_auth, Tx_missing_other_auth}
                then Inr (insort_insert k smaller) else Inl e)"

definition minimize_required_signatures where
  "minimize_required_signatures v addrs recover ops sigs available get_act get_own max_recursion =
     rbind (get_required_signatures v addrs recover ops sigs available get_act get_own max_recursion) (\<lambda>s.
       rfold (drop_key (\<lambda>ks. verify_authority v addrs ops ks get_act get_own max_recursion False [] [])) s s)"

section \<open>Specification\<close>

definition weight_of :: "(nat \<Rightarrow> bool) \<Rightarrow> (nat \<times> 16 word) list \<Rightarrow> nat" where
  "weight_of R xs = sum_list (map (\<lambda>x. if R (fst x) then unat (snd x) else 0) xs)"

text \<open>An authority is satisfied by a set \<open>K\<close> of keys and a set \<open>A\<close> of approving accounts when the
  weights of its keys and addresses in \<open>K\<close> and of its accounts that are in \<open>A\<close> or whose own active
  authority is satisfied reach the threshold.\<close>

inductive authorized :: "sign_env \<Rightarrow> nat set \<Rightarrow> nat set \<Rightarrow> authority \<Rightarrow> bool" for c K A where
  authorizedI: "\<lbrakk> \<And>a. R a \<Longrightarrow> a \<in> A \<or> (\<exists>au'. get_active c a = Some au' \<and> authorized c K A au');
     unat (weight_threshold au) \<le> weight_of (\<lambda>k. k \<in> K) (key_auths au) +
       weight_of (\<lambda>a. \<exists>k\<in>K. a \<in> set (key_addresses c k)) (address_auths au) + weight_of R (account_auths au) \<rbrakk>
     \<Longrightarrow> authorized c K A au"

text \<open>The authorities that can be asked when the root authorities \<open>B\<close> are checked.\<close>

inductive relevant :: "sign_env \<Rightarrow> authority set \<Rightarrow> authority \<Rightarrow> bool" for c B where
  rel_root: "au \<in> B \<Longrightarrow> relevant c B au"
| rel_member: "relevant c B au \<Longrightarrow> (a, w) \<in> set (account_auths au) \<Longrightarrow> get_active c a = Some au' \<Longrightarrow> relevant c B au'"

definition names_key :: "sign_env \<Rightarrow> authority \<Rightarrow> nat \<Rightarrow> bool" where
  "names_key c au k \<longleftrightarrow> k \<in> set (get_keys au) \<or> (\<exists>a\<in>set (get_addresses au). a \<in> set (key_addresses c k))"

text \<open>What the signature state means: provided keys are keys of \<open>K\<close>, remembered approvals are
  justified, the address tables are right and every key marked used is named by a relevant authority.\<close>

definition ss_ok :: "sign_env \<Rightarrow> nat set \<Rightarrow> nat set \<Rightarrow> authority set \<Rightarrow> sign_state \<Rightarrow> bool" where
  "ss_ok c K A B s \<longleftrightarrow>
     fst ` set (provided_signatures s) \<union> set (available_keys c) = K \<and>
     (\<forall>a\<in>set (approved_by s). a \<in> A \<or> (\<exists>au'. get_active c a = Some au' \<and> authorized c K A au')) \<and>
     (\<forall>av pr a k. address_sigs s = Some (av, pr) \<longrightarrow> map_of av a = Some k \<or> map_of pr a = Some k \<longrightarrow>
        k \<in> K \<and> a \<in> set (key_addresses c k)) \<and>
     (\<forall>k. map_of (provided_signatures s) k = Some True \<longrightarrow> (\<exists>au. relevant c B au \<and> names_key c au k)) \<and>
     sorted_wrt (<) (map fst (provided_signatures s))"

section \<open>The check is sound\<close>

lemma weight_of_Cons: "weight_of R ((a, w) # xs) = (if R a then unat w else 0) + weight_of R xs"
  by (simp add: weight_of_def)

lemma weight_of_Nil [simp]: "weight_of R [] = 0"
  by (simp add: weight_of_def)

lemma unat_ucast16: "unat (ucast (w :: 16 word) :: 32 word) = unat w"
  using unsigned_less [of w, where ?'a = nat] by (simp add: unsigned_ucast_eq take_bit_nat_eq_self_iff)

lemma unat_add_ucast_le: "unat ((t :: 32 word) + ucast (w :: 16 word)) \<le> unat t + unat w"
  by (simp add: unat_word_ariths unat_ucast16)

lemma ss_ok_mark:
  assumes "ss_ok c K A B s" "k \<in> K" "relevant c B au" "names_key c au k"
  shows "ss_ok c K A B (mark_signed k s)"
  using assms unfolding ss_ok_def mark_signed_def by auto

lemma signed_by_ok:
  assumes "signed_by c k s = (b, s')" "ss_ok c K A B s" "relevant c B au" "k \<in> set (get_keys au)"
  shows "ss_ok c K A B s' \<and> (b \<longrightarrow> k \<in> K)"
proof -
  have n: "names_key c au k" using assms(4) by (simp add: names_key_def)
  have m: "k \<in> K \<Longrightarrow> ss_ok c K A B (mark_signed k s)" using ss_ok_mark [OF assms(2) _ assms(3) n] .
  have "k \<in> K" if "map_of (provided_signatures s) k = Some x" for x
    using that assms(2) unfolding ss_ok_def by (metis (no_types, lifting) UnI1 domI dom_map_of_conv_image_fst)
  moreover have "k \<in> set (available_keys c) \<Longrightarrow> k \<in> K" using assms(2) by (auto simp: ss_ok_def)
  ultimately show ?thesis using assms(1,2) m by (auto simp: signed_by_def split: option.splits if_splits)
qed

lemma index_addresses_ok:
  "map_of (index_addresses c ks) a = Some k \<Longrightarrow> k \<in> set ks \<and> a \<in> set (key_addresses c k)"
proof -
  have inner: "map_of (fold (\<lambda>a. fm_update a k) as m) b = Some k' \<Longrightarrow> (k' = k \<and> b \<in> set as) \<or> map_of m b = Some k'" for as m b k' k
    by (induction as arbitrary: m) (force split: if_splits)+
  have "map_of (fold (\<lambda>k m. fold (\<lambda>a. fm_update a k) (key_addresses c k) m) ks m) a = Some k \<Longrightarrow>
      (k \<in> set ks \<and> a \<in> set (key_addresses c k)) \<or> map_of m a = Some k" for m
    by (induction ks arbitrary: m) (auto dest: inner)
  from this [of "[]"] show "map_of (index_addresses c ks) a = Some k \<Longrightarrow> k \<in> set ks \<and> a \<in> set (key_addresses c k)"
    by (simp add: index_addresses_def)
qed

lemma fill_address_sigs_ok:
  assumes "ss_ok c K A B s" "fill_address_sigs c s = (av, pr)"
  shows "ss_ok c K A B (s\<lparr> address_sigs := Some (av, pr) \<rparr>)"
proof (cases "address_sigs s")
  case None
  with assms have "av = index_addresses c (available_keys c)" "pr = index_addresses c (map fst (provided_signatures s))"
    by (auto simp: fill_address_sigs_def)
  then show ?thesis using assms(1) by (auto simp: ss_ok_def dest!: index_addresses_ok)
next
  case (Some p)
  with assms show ?thesis by (auto simp: fill_address_sigs_def ss_ok_def)
qed

lemma signed_by_address_ok:
  assumes "signed_by_address c a s = Inr (b, s')" "ss_ok c K A B s" "relevant c B au" "a \<in> set (get_addresses au)"
  shows "ss_ok c K A B s' \<and> (b \<longrightarrow> (\<exists>k\<in>K. a \<in> set (key_addresses c k)))"
proof -
  obtain av pr where f: "fill_address_sigs c s = (av, pr)" by force
  let ?s = "s\<lparr> address_sigs := Some (av, pr) \<rparr>"
  note ok = fill_address_sigs_ok [OF assms(2) f]
  have k: "k \<in> K \<and> a \<in> set (key_addresses c k)" if "map_of av a = Some k \<or> map_of pr a = Some k" for k
    using that ok by (auto simp: ss_ok_def)
  have "ss_ok c K A B (mark_signed k ?s)" if "map_of av a = Some k \<or> map_of pr a = Some k" for k
    using k [OF that] assms(4) by (intro ss_ok_mark [OF ok _ assms(3)]) (auto simp: names_key_def)
  with k ok assms(1) f show ?thesis by (auto simp: signed_by_address_def Let_def split: option.splits if_splits)
qed

lemma key_loop_ok:
  assumes "key_loop c thr ks t s = (b, t', s')" "ss_ok c K A B s" "relevant c B au" "fst ` set ks \<subseteq> set (get_keys au)"
  shows "ss_ok c K A B s' \<and> unat t' \<le> unat t + weight_of (\<lambda>k. k \<in> K) ks \<and> (b \<longrightarrow> thr \<le> t')"
  using assms(1,2,4)
proof (induction ks arbitrary: t s)
  case Nil
  then show ?case by simp
next
  case (Cons x ks)
  obtain k w where x: "x = (k, w)" by force
  obtain b1 s1 where s1: "signed_by c k s = (b1, s1)" by force
  from Cons.prems x have k: "k \<in> set (get_keys au)" by simp
  note ok = signed_by_ok [OF s1 Cons.prems(2) assms(3) k]
  have le: "unat (t + ucast w) \<le> unat t + unat w" by (rule unat_add_ucast_le)
  show ?case
  proof (cases "b1 \<and> thr \<le> t + ucast w")
    case True
    with Cons.prems(1) x s1 ok le show ?thesis by (auto simp: weight_of_Cons)
  next
    case False
    let ?t = "if b1 then t + ucast w else t"
    from False Cons.prems(1) x s1 have "key_loop c thr ks ?t s1 = (b, t', s')" by (auto simp: Let_def split: if_splits)
    from Cons.IH [OF this] ok Cons.prems(3) le show ?thesis by (auto simp: weight_of_Cons x split: if_splits)
  qed
qed

lemma address_loop_ok:
  assumes "address_loop c thr xs t s = Inr (b, t', s')" "ss_ok c K A B s" "relevant c B au" "fst ` set xs \<subseteq> set (get_addresses au)"
  shows "ss_ok c K A B s' \<and> unat t' \<le> unat t + weight_of (\<lambda>a. \<exists>k\<in>K. a \<in> set (key_addresses c k)) xs \<and> (b \<longrightarrow> thr \<le> t')"
  using assms(1,2,4)
proof (induction xs arbitrary: t s)
  case Nil
  then show ?case by simp
next
  case (Cons x xs)
  obtain a w where x: "x = (a, w)" by force
  from Cons.prems(1) x obtain b1 s1 where s1: "signed_by_address c a s = Inr (b1, s1)" by fastforce
  from Cons.prems x have k: "a \<in> set (get_addresses au)" by simp
  note ok = signed_by_address_ok [OF s1 Cons.prems(2) assms(3) k]
  have le: "unat (t + ucast w) \<le> unat t + unat w" by (rule unat_add_ucast_le)
  show ?case
  proof (cases "b1 \<and> thr \<le> t + ucast w")
    case True
    with Cons.prems(1) x s1 ok le show ?thesis by (auto simp: weight_of_Cons)
  next
    case False
    let ?t = "if b1 then t + ucast w else t"
    from False Cons.prems(1) x s1 have "address_loop c thr xs ?t s1 = Inr (b, t', s')" by (auto simp: Let_def split: if_splits)
    from Cons.IH [OF this] ok Cons.prems(3) le show ?thesis by (auto simp: weight_of_Cons x split: if_splits)
  qed
qed

definition approves :: "sign_env \<Rightarrow> nat set \<Rightarrow> nat set \<Rightarrow> nat \<Rightarrow> bool" where
  "approves c K A a \<longleftrightarrow> a \<in> A \<or> (\<exists>au'. get_active c a = Some au' \<and> authorized c K A au')"

text \<open>What a caller may assume of a nested check.\<close>

definition sound_check :: "sign_env \<Rightarrow> nat set \<Rightarrow> nat set \<Rightarrow> authority set \<Rightarrow>
    (authority option \<Rightarrow> sign_state \<Rightarrow> (bool \<times> sign_state) result) \<Rightarrow> bool" where
  "sound_check c K A B f \<longleftrightarrow> (\<forall>au s b s'. f au s = Inr (b, s') \<longrightarrow> ss_ok c K A B s \<longrightarrow> (\<forall>x. au = Some x \<longrightarrow> relevant c B x) \<longrightarrow>
     ss_ok c K A B s' \<and> (b \<longrightarrow> (\<exists>x. au = Some x \<and> authorized c K A x)))"

lemma ss_ok_approve:
  "ss_ok c K A B s \<Longrightarrow> approves c K A a \<Longrightarrow> ss_ok c K A B (s\<lparr> approved_by := List.insert a (approved_by s) \<rparr>)"
  unfolding ss_ok_def approves_def by auto

lemma account_loop_ok:
  assumes "account_loop chk c thr xs t s = Inr (b, s')" "ss_ok c K A B s" "relevant c B au" "set xs \<subseteq> set (account_auths au)"
    and chk: "\<And>f. chk = Some f \<Longrightarrow> sound_check c K A B f"
  shows "ss_ok c K A B s' \<and> (b \<longrightarrow> unat thr \<le> unat t + weight_of (approves c K A) xs)"
  using assms(1,2,4)
proof (induction xs arbitrary: t s)
  case Nil
  then show ?case by (simp add: word_le_nat_alt)
next
  case (Cons x xs)
  obtain a w where x: "x = (a, w)" by force
  have le: "unat (t + ucast w) \<le> unat t + unat w" by (rule unat_add_ucast_le)
  have count: "ss_ok c K A B s' \<and> (b \<longrightarrow> unat thr \<le> unat t + weight_of (approves c K A) (x # xs))"
    if ap: "approves c K A a" and ok: "ss_ok c K A B s2"
      and run: "(if thr \<le> t + ucast w then Inr (True, s2) else account_loop chk c thr xs (t + ucast w) s2) = Inr (b, s')" for s2
  proof (cases "thr \<le> t + ucast w")
    case True
    then have "unat thr \<le> unat (t + ucast w)" by (simp add: word_le_nat_alt)
    with True ap ok run le show ?thesis by (auto simp: x weight_of_Cons)
  next
    case False
    with run have "account_loop chk c thr xs (t + ucast w) s2 = Inr (b, s')" by simp
    from Cons.IH [OF this ok] Cons.prems(3) ap le show ?thesis by (auto simp: x weight_of_Cons)
  qed
  show ?case
  proof (cases "a \<in> set (approved_by s)")
    case True
    then have "approves c K A a" using Cons.prems(2) by (auto simp: ss_ok_def approves_def)
    then show ?thesis using count [of s] Cons.prems(1,2) True by (simp add: x Let_def)
  next
    case False
    show ?thesis
    proof (cases chk)
      case None
      with False Cons.prems(1,2) show ?thesis by (simp add: x)
    next
      case (Some f)
      with False Cons.prems(1) x obtain b1 s1 where f: "f (get_active c a) s = Inr (b1, s1)" by fastforce
      have "\<forall>y. get_active c a = Some y \<longrightarrow> relevant c B y" using rel_member [OF assms(3)] Cons.prems(3) x by auto
      with chk [OF Some] f Cons.prems(2) have ok: "ss_ok c K A B s1" "b1 \<Longrightarrow> approves c K A a"
        by (auto simp: sound_check_def approves_def)
      show ?thesis
      proof (cases b1)
        case True
        let ?s = "s1\<lparr> approved_by := List.insert a (approved_by s1) \<rparr>"
        have "(if thr \<le> t + ucast w then Inr (True, ?s) else account_loop chk c thr xs (t + ucast w) ?s) = Inr (b, s')"
          using f False Cons.prems(1) True unfolding Some x by (simp add: Let_def)
        with count [OF ok(2) ss_ok_approve [OF ok(1) ok(2)]] True show ?thesis by blast
      next
        case f1: False
        with f False Some Cons.prems(1) have "account_loop chk c thr xs t s1 = Inr (b, s')" by (simp add: x)
        from Cons.IH [OF this ok(1)] Cons.prems(3) show ?thesis by (auto simp: x weight_of_Cons)
      qed
    qed
  qed
qed

lemma check_levels_ok:
  assumes chk: "\<And>f. chk = Some f \<Longrightarrow> sound_check c K A B f"
  shows "sound_check c K A B (check_levels chk c)"
  unfolding sound_check_def
proof (intro allI impI)
  fix au s b s'
  assume run: "check_levels chk c au s = Inr (b, s')" and ok: "ss_ok c K A B s" and rel: "\<forall>x. au = Some x \<longrightarrow> relevant c B x"
  show "ss_ok c K A B s' \<and> (b \<longrightarrow> (\<exists>x. au = Some x \<and> authorized c K A x))"
  proof (cases au)
    case None
    with run ok show ?thesis by (simp add: check_levels_def)
  next
    case (Some x)
    let ?thr = "weight_threshold x"
    obtain b1 t1 s1 where k: "key_loop c ?thr (key_auths x) 0 s = (b1, t1, s1)" by (metis prod_cases3)
    have kx: "fst ` set (key_auths x) \<subseteq> set (get_keys x)" by (simp add: get_keys_def)
    from Some rel have rx: "relevant c B x" by simp
    note kok = key_loop_ok [OF k ok rx kx]
    have auth: "authorized c K A x" if "unat ?thr \<le> weight_of (\<lambda>k. k \<in> K) (key_auths x) +
       weight_of (\<lambda>a. \<exists>k\<in>K. a \<in> set (key_addresses c k)) (address_auths x) + weight_of R (account_auths x)"
       "\<And>a. R a \<Longrightarrow> approves c K A a" for R
      using that by (intro authorizedI [where R = R]) (auto simp: approves_def)
    show ?thesis
    proof (cases b1)
      case True
      then have "unat ?thr \<le> weight_of (\<lambda>k. k \<in> K) (key_auths x)" using kok by (auto simp: word_le_nat_alt)
      then show ?thesis using auth [of "\<lambda>_. False"] True k run Some kok by (simp add: check_levels_def)
    next
      case False
      with run Some k obtain b2 t2 s2 where a: "address_loop c ?thr (address_auths x) t1 s1 = Inr (b2, t2, s2)"
        by (auto simp: check_levels_def Let_def)
      have ax: "fst ` set (address_auths x) \<subseteq> set (get_addresses x)" by (simp add: get_addresses_def)
      from kok address_loop_ok [OF a conjunct1 [OF kok] rx ax] have aok: "ss_ok c K A B s2" "b2 \<Longrightarrow> ?thr \<le> t2"
        "unat t2 \<le> weight_of (\<lambda>k. k \<in> K) (key_auths x) + weight_of (\<lambda>a. \<exists>k\<in>K. a \<in> set (key_addresses c k)) (address_auths x)"
        by auto
      show ?thesis
      proof (cases b2)
        case True
        with aok have "unat ?thr \<le> unat t2" by (simp add: word_le_nat_alt)
        then show ?thesis using auth [of "\<lambda>_. False"] aok True False k a run Some by (simp add: check_levels_def)
      next
        case f2: False
        with False k a run Some have "account_loop chk c ?thr (account_auths x) t2 s2 = Inr (b, s')" by (simp add: check_levels_def)
        from account_loop_ok [OF this aok(1) rx order_refl chk] aok(3) show ?thesis
          using auth [of "approves c K A"] Some by auto
      qed
    qed
  qed
qed

lemma check_authority_sound: "sound_check c K A B (check_authority n c)"
  by (induction n) (auto intro!: check_levels_ok)

lemma check_authority_ok:
  assumes "check_authority n c au s = Inr (b, s')" "ss_ok c K A B s" "\<And>x. au = Some x \<Longrightarrow> x \<in> B"
  shows "ss_ok c K A B s'" "b \<Longrightarrow> \<exists>x. au = Some x \<and> authorized c K A x"
  using check_authority_sound [of c K A B n] assms rel_root unfolding sound_check_def by metis+

lemma check_account_ok:
  assumes "check_account n c i s = Inr (b, s')" "ss_ok c K A B s" "\<And>x. get_active c i = Some x \<Longrightarrow> x \<in> B"
  shows "ss_ok c K A B s'" "b \<Longrightarrow> approves c K A i"
  using assms check_authority_ok [of n c "get_active c i" s b s' K A B] unfolding check_account_def approves_def ss_ok_def
  by (auto split: if_splits)

text \<open>A loop of checks that keeps a state invariant establishes for each element what its check
  establishes.\<close>

lemma rfold_checks:
  assumes "rfold f xs s = Inr s'" "I s"
    and step: "\<And>x s s'. x \<in> set xs \<Longrightarrow> I s \<Longrightarrow> f x s = Inr s' \<Longrightarrow> I s' \<and> P x"
  shows "I s' \<and> (\<forall>x\<in>set xs. P x)"
  using assms
proof (induction xs arbitrary: s)
  case (Cons x xs)
  from Cons.prems(1) obtain u where u: "f x s = Inr u" "rfold f xs u = Inr s'" by auto
  have "I u \<and> P x" using Cons.prems(3) [of x s u] Cons.prems(2) u(1) by simp
  with Cons.IH [OF u(2)] Cons.prems(3) show ?case by (metis list.set_intros(2) set_ConsD)
qed simp

lemma ss_ok_init:
  assumes "available_keys c = []"
  shows "ss_ok c (set sigs) (set aa \<union> set oa \<union> {GRAPHENE_TEMP_ACCOUNT}) B (approve oa (approve aa (sign_state_init sigs)))"
proof -
  let ?m = "fold (\<lambda>k. fm_update k False) sigs []"
  have fold_ins: "set (fold List.insert xs ys) = set xs \<union> set ys" for xs ys :: "nat list"
    by (induction xs arbitrary: ys) auto
  have k: "fst ` set (fold (\<lambda>k. fm_update k False) xs m) = set xs \<union> fst ` set m" for xs :: "nat list" and m
    by (induction xs arbitrary: m) auto
  have f: "map_of (fold (\<lambda>k. fm_update k False) xs m) k = Some True \<Longrightarrow> map_of m k = Some True" for xs k and m :: "(nat \<times> bool) list"
    by (induction xs arbitrary: m) (force split: if_splits)+
  have s: "sorted_wrt (<) (map fst m) \<Longrightarrow> sorted_wrt (<) (map fst (fold (\<lambda>k. fm_update k False) xs m))" for xs and m :: "(nat \<times> bool) list"
    by (induction xs arbitrary: m) auto
  show ?thesis using assms k [of sigs "[]"] s [of "[]" sigs] f [of sigs "[]"]
    by (auto simp: ss_ok_def approve_def sign_state_init_def fold_ins)
qed

section \<open>The check is complete within the depth limit\<close>




lemma weight_of_mono: "(\<And>a. R a \<Longrightarrow> Q a) \<Longrightarrow> weight_of R xs \<le> weight_of Q xs"
  unfolding weight_of_def by (rule sum_list_mono) auto










section \<open>A small set of authorities, for the examples\<close>

definition demo_authority :: "32 word \<Rightarrow> (nat \<times> 16 word) list \<Rightarrow> (nat \<times> 16 word) list \<Rightarrow> authority" where
  "demo_authority t as ks = \<lparr> weight_threshold = t, account_auths = as, key_auths = ks, address_auths = [] \<rparr>"

definition demo_active :: "nat \<Rightarrow> authority option" where
  "demo_active a = (if a = 7 then Some (demo_authority 2 [(8, 2)] [(41, 1)])
     else if a = 8 then Some (demo_authority 1 [] [(42, 1)])
     else if a = 9 then Some (demo_authority 2 [] [(41, 1), (42, 2)]) else None)"

definition demo_env :: sign_env where
  "demo_env = \<lparr> get_active = demo_active, available_keys = [], key_addresses = (\<lambda>_. []) \<rparr>"

definition demo_op_auths :: "nat op_auths" where
  "demo_op_auths = \<lparr> op_fee_payer = id, op_active = (\<lambda>_. []), op_owner = (\<lambda>_. []), op_other = (\<lambda>_. []) \<rparr>"

lemmas demo_simps = demo_authority_def demo_active_def demo_env_def demo_op_auths_def

lemmas check_simps = verify_authority_def verify_state_def get_required_authorities_def operation_get_required_authorities_def
  check_active_def check_account_def check_levels_def signed_by_def mark_signed_def sign_state_init_def approve_def
  remove_unused_signatures_def insort_insert_key_def word_le_nat_alt ex_bool_eq GRAPHENE_TEMP_ACCOUNT_def GRAPHENE_COMMITTEE_ACCOUNT_def Let_def

lemma demo_verify: "verify_authority demo_op_auths (\<lambda>_. []) [7] [42] demo_active demo_active 1 False [] [] = Inr ()"
  by (simp add: demo_simps check_simps)

section \<open>Properties\<close>

lemma remove_unused_all_used:
  assumes "ss_ok c K A B s" "available_keys c = []" "\<not> fst (remove_unused_signatures s)" "k \<in> K"
  shows "\<exists>au. relevant c B au \<and> names_key c au k"
proof -
  from assms obtain b where b: "(k, b) \<in> set (provided_signatures s)" by (auto simp: ss_ok_def)
  with assms(3) have "b" by (force simp: remove_unused_signatures_def filter_empty_conv)
  with b assms(1) have "map_of (provided_signatures s) k = Some True" by (simp add: ss_ok_def sorted_wrt_less_map_of)
  with assms(1) show ?thesis by (simp add: ss_ok_def)
qed

definition root_authorities :: "required_auths \<Rightarrow> (nat \<Rightarrow> authority option) \<Rightarrow> (nat \<Rightarrow> authority option) \<Rightarrow> authority set" where
  "root_authorities r get_act get_own = set (req_other r) \<union> {x. \<exists>i\<in>set (req_active r). get_act i = Some x \<or> get_own i = Some x} \<union>
     {x. \<exists>i\<in>set (req_owner r). get_own i = Some x}"

lemma verify_authority_accepts:
  assumes "verify_authority v addrs ops sigs get_act get_own n allow_committee aa oa = Inr ()"
    and r: "r = get_required_authorities v ops"
    and c: "c = \<lparr> get_active = get_act, available_keys = [], key_addresses = addrs \<rparr>"
    and A: "A = set aa \<union> set oa \<union> {GRAPHENE_TEMP_ACCOUNT}"
  shows "(\<forall>au\<in>set (req_other r). authorized c (set sigs) A au) \<and>
    (\<forall>i\<in>set (req_active r). i \<in> A \<or> (\<exists>au. (get_act i = Some au \<or> get_own i = Some au) \<and> authorized c (set sigs) A au)) \<and>
    (\<forall>i\<in>set (req_owner r). i \<in> set oa \<or> (\<exists>au. get_own i = Some au \<and> authorized c (set sigs) A au)) \<and>
    (allow_committee \<or> GRAPHENE_COMMITTEE_ACCOUNT \<notin> set (req_active r)) \<and>
    (\<forall>k\<in>set sigs. \<exists>au. relevant c (root_authorities r get_act get_own) au \<and> names_key c au k)"
proof -
  let ?K = "set sigs" and ?B = "root_authorities r get_act get_own"
  let ?I = "ss_ok c ?K A ?B" and ?s0 = "approve oa (approve aa (sign_state_init sigs))"
  from assms(1) obtain s1 s2 s3 where com: "allow_committee \<or> GRAPHENE_COMMITTEE_ACCOUNT \<notin> set (req_active r)"
    and s1: "rfold (check_other n c) (req_other r) ?s0 = Inr s1"
    and s2: "rfold (check_active n c get_own) (req_active r) s1 = Inr s2"
    and s3: "rfold (check_owner n c get_own oa) (req_owner r) s2 = Inr s3" and rm: "\<not> fst (remove_unused_signatures s3)"
    by (auto simp: verify_authority_def verify_state_def r c Let_def)
  have I0: "?I ?s0" using ss_ok_init [of c sigs aa oa ?B] by (simp add: c A)
  have o: "?I s1 \<and> (\<forall>au\<in>set (req_other r). authorized c ?K A au)"
    using s1 I0
  proof (rule rfold_checks)
    fix x s s' assume "x \<in> set (req_other r)" "?I s" "check_other n c x s = Inr s'"
    then show "?I s' \<and> authorized c ?K A x"
      using check_authority_ok [of n c "Some x" s True s' ?K A ?B] by (auto simp: check_other_def root_authorities_def)
  qed
  have a: "?I s2 \<and> (\<forall>i\<in>set (req_active r). i \<in> A \<or> (\<exists>au. (get_act i = Some au \<or> get_own i = Some au) \<and> authorized c ?K A au))"
    using s2 conjunct1 [OF o]
  proof (rule rfold_checks)
    fix i s s' assume i: "i \<in> set (req_active r)" and I: "?I s" and "check_active n c get_own i s = Inr s'"
    then obtain b u where u: "check_account n c i s = Inr (b, u)"
      and k: "if b then u = s' else check_authority n c (get_own i) u = Inr (True, s')"
      by (auto simp: check_active_def split: if_splits)
    have B: "get_active c i = Some x \<or> get_own i = Some x \<Longrightarrow> x \<in> ?B" for x using i by (auto simp: root_authorities_def c)
    note u2 = check_account_ok [OF u I B [OF disjI1]]
    show "?I s' \<and> (i \<in> A \<or> (\<exists>au. (get_act i = Some au \<or> get_own i = Some au) \<and> authorized c ?K A au))"
      using u2 k check_authority_ok [of n c "get_own i" u True s' ?K A ?B] B by (cases b) (auto simp: approves_def c)
  qed
  have w: "?I s3 \<and> (\<forall>i\<in>set (req_owner r). i \<in> set oa \<or> (\<exists>au. get_own i = Some au \<and> authorized c ?K A au))"
    using s3 conjunct1 [OF a]
  proof (rule rfold_checks)
    fix i s s' assume i: "i \<in> set (req_owner r)" and "?I s" "check_owner n c get_own oa i s = Inr s'"
    moreover have "get_own i = Some x \<Longrightarrow> x \<in> ?B" for x using i by (auto simp: root_authorities_def)
    ultimately show "?I s' \<and> (i \<in> set oa \<or> (\<exists>au. get_own i = Some au \<and> authorized c ?K A au))"
      using check_authority_ok [of n c "get_own i" s True s' ?K A ?B] by (auto simp: check_owner_def split: if_splits)
  qed
  have "available_keys c = []" by (simp add: c)
  from remove_unused_all_used [OF conjunct1 [OF w] this rm] o a w com show ?thesis by blast
qed

text \<open>C10: When \<open>verify_authority\<close> accepts a transaction, every authority the operations name is
  satisfied, every account whose active authority is required has approved or has its active or owner
  authority satisfied, every account whose owner authority is required has approved or has it satisfied
  (all by the provided keys and approvals), the committee account is not asked unless that is allowed,
  and every provided key is named by an authority that can be asked.\<close>

theorem verify_authority_sound:
  assumes "verify_authority v addrs ops sigs get_act get_own n allow_committee aa oa = Inr ()"
    and r: "r = get_required_authorities v ops"
    and c: "c = \<lparr> get_active = get_act, available_keys = [], key_addresses = addrs \<rparr>"
    and A: "A = set aa \<union> set oa \<union> {GRAPHENE_TEMP_ACCOUNT}"
  shows "(\<forall>au\<in>set (req_other r). authorized c (set sigs) A au) \<and>
    (\<forall>i\<in>set (req_active r). i \<in> A \<or> (\<exists>au. (get_act i = Some au \<or> get_own i = Some au) \<and> authorized c (set sigs) A au)) \<and>
    (\<forall>i\<in>set (req_owner r). i \<in> set oa \<or> (\<exists>au. get_own i = Some au \<and> authorized c (set sigs) A au)) \<and>
    (allow_committee \<or> GRAPHENE_COMMITTEE_ACCOUNT \<notin> set (req_active r)) \<and>
    (\<forall>k\<in>set sigs. \<exists>au. relevant c (root_authorities r get_act get_own) au \<and> names_key c au k)"
  by (rule verify_authority_accepts [OF assms])

theorem verify_authority_sound_witness:
  "verify_authority demo_op_auths (\<lambda>_. []) [7] [42] demo_active demo_active 1 False [] [] = Inr () \<and>
   (7 \<in> {GRAPHENE_TEMP_ACCOUNT} \<or> (\<exists>au. demo_active 7 = Some au \<and> authorized demo_env {42} {GRAPHENE_TEMP_ACCOUNT} au))"
  using demo_verify verify_authority_sound [OF demo_verify refl refl refl]
  by (simp add: demo_env_def get_required_authorities_def operation_get_required_authorities_def demo_op_auths_def insort_insert_key_def)



text \<open>Checking an address that belongs to none of the provided or available keys reads past the end
  of the table of addresses; every other address is answered, and only by a key with that address.\<close>

theorem signed_by_unknown_address:
  "signed_by_address c a (sign_state_init sigs) = Inl Undefined_behaviour \<longleftrightarrow>
     (\<forall>k\<in>set sigs \<union> set (available_keys c). a \<notin> set (key_addresses c k))"
proof -
  have inner: "map_of (fold (\<lambda>a. fm_update a k) as m) b = None \<longleftrightarrow> b \<notin> set as \<and> map_of m b = None" for as m b and k :: nat
    by (induction as arbitrary: m) auto
  have idx: "map_of (fold (\<lambda>k m. fold (\<lambda>a. fm_update a k) (key_addresses c k) m) ks m) a = None \<longleftrightarrow>
      (\<forall>k\<in>set ks. a \<notin> set (key_addresses c k)) \<and> map_of m a = None" for ks m
    by (induction ks arbitrary: m) (auto simp: inner)
  have none: "map_of (index_addresses c ks) a = None \<longleftrightarrow> (\<forall>k\<in>set ks. a \<notin> set (key_addresses c k))" for ks
    unfolding index_addresses_def by (simp add: idx)
  have "fst ` set (fold (\<lambda>k. fm_update k False) xs m) = set xs \<union> fst ` set m" for xs and m :: "(nat \<times> bool) list"
    by (induction xs arbitrary: m) auto
  from this [of sigs "[]"] have keys: "set (map fst (provided_signatures (sign_state_init sigs))) = set sigs"
    by (simp add: sign_state_init_def)
  have fill: "fill_address_sigs c (sign_state_init sigs) =
      (index_addresses c (available_keys c), index_addresses c (map fst (provided_signatures (sign_state_init sigs))))"
    by (simp add: fill_address_sigs_def sign_state_init_def)
  have "signed_by_address c a (sign_state_init sigs) = Inl Undefined_behaviour \<longleftrightarrow>
      map_of (index_addresses c (map fst (provided_signatures (sign_state_init sigs)))) a = None \<and>
      map_of (index_addresses c (available_keys c)) a = None"
    unfolding signed_by_address_def fill by (auto simp: Let_def split: option.splits)
  then show ?thesis unfolding none keys by auto
qed

theorem signed_by_unknown_address_witness:
  "signed_by_address demo_env 5 (sign_state_init [41, 42]) = Inl Undefined_behaviour"
  using signed_by_unknown_address [of demo_env 5 "[41, 42]"] by (simp add: demo_env_def)

text \<open>Dropping superfluous signatures is safe: if the signatures first collected satisfy
  \<open>verify_authority\<close>, so do the ones \<open>minimize_required_signatures\<close> returns.\<close>

theorem minimized_signatures_verify:
  assumes "get_required_signatures v addrs recover ops sigs available get_act get_own n = Inr s"
    and "verify_authority v addrs ops s get_act get_own n False [] [] = Inr ()" and "sorted s \<and> distinct s"
    and "minimize_required_signatures v addrs recover ops sigs available get_act get_own n = Inr m"
  shows "verify_authority v addrs ops m get_act get_own n False [] [] = Inr () \<and> set m \<subseteq> set s"
proof -
  let ?v = "\<lambda>ks. verify_authority v addrs ops ks get_act get_own n False [] []"
  let ?I = "\<lambda>r. ?v r = Inr () \<and> set r \<subseteq> set s \<and> sorted r \<and> distinct r"
  from assms(1,4) have m: "rfold (drop_key ?v) s s = Inr m" by (auto simp: minimize_required_signatures_def)
  have restore: "insort_insert k (remove1 k r) = r" if "sorted r" "distinct r" "k \<in> set r" for k :: nat and r
    using that by (simp add: insort_insert_insort insort_remove1)
  have "?I m" using m
  proof (rule rfold_invariant [where I = ?I])
    show "?I s" using assms(2,3) by simp
    fix k r r' assume k: "k \<in> set s" and I: "?I r" and d: "drop_key ?v k r = Inr r'"
    then have "r' = remove1 k r \<and> ?v (remove1 k r) = Inr () \<or> r' = insort_insert k (remove1 k r)"
      by (auto simp: drop_key_def Let_def split: sum.splits if_splits)
    then show "?I r'"
    proof (rule disjE)
      assume "r' = insort_insert k (remove1 k r)"
      then show ?thesis using I restore [of r k] d by (cases "k \<in> set r") (auto simp: drop_key_def remove1_idem split: sum.splits)
    next
      assume "r' = remove1 k r \<and> ?v (remove1 k r) = Inr ()"
      then show ?thesis using I set_remove1_subset [of k r] by (auto simp: sorted_remove1)
    qed
  qed
  then show ?thesis by simp
qed

theorem minimized_signatures_verify_witness:
  "minimize_required_signatures demo_op_auths (\<lambda>_. []) id [9] [] [41, 42] demo_active demo_active 1 = Inr [42] \<and>
   verify_authority demo_op_auths (\<lambda>_. []) [9] [42] demo_active demo_active 1 False [] [] = Inr ()"
proof -
  have r: "get_required_signatures demo_op_auths (\<lambda>_. []) id [9] [] [41, 42] demo_active demo_active 1 = Inr [41, 42]"
    by (simp add: get_required_signatures_def get_signature_keys_def demo_simps check_simps)
  have v: "verify_authority demo_op_auths (\<lambda>_. []) [9] [41, 42] demo_active demo_active 1 False [] [] = Inr ()"
    by (simp add: demo_simps check_simps)
  have m: "minimize_required_signatures demo_op_auths (\<lambda>_. []) id [9] [] [41, 42] demo_active demo_active 1 = Inr [42]"
    unfolding minimize_required_signatures_def r by (simp add: drop_key_def demo_simps check_simps)
  from minimized_signatures_verify [OF r v _ m] m show ?thesis by simp
qed

end
