(* ===== verification/Chain_State.thy ===== *)
theory Chain_State
  imports Vesting Authority
begin

text \<open>
  The part of the chain state that money moves through: accounts and their statistics, assets with
  their dynamic and market-issued data, account balances, vesting balances and market orders
  (\<^verbatim>\<open>account_object\<close>, \<^verbatim>\<open>asset_object\<close>, \<^verbatim>\<open>market_object\<close>, \<^verbatim>\<open>evaluator\<close>, \<^verbatim>\<open>db_balance.cpp\<close>,
  \<^verbatim>\<open>is_authorized_asset\<close>).

  Objects that are never removed live in a list whose position is the instance of their id;
  \<open>get_obj\<close> is \<^verbatim>\<open>database::get\<close>, which throws on an unknown id.  Orders and settlements, which are
  removed, are association lists in id order.  The balance index, unique by account and asset, is a
  map.  The undo sessions that bracket these changes are the subject of \<open>Undo_Database\<close>.
\<close>

section \<open>Objects\<close>

datatype special_authority = No_special_authority | Top_holders_special_authority nat nat

record account_options =
  memo_key :: nat
  voting_account :: nat
  num_witness :: nat
  num_committee :: nat
  votes :: "nat list"

record account_object =
  acc_name :: string
  membership_expiration_date :: nat
  registrar :: nat
  referrer :: nat
  lifetime_referrer :: nat
  network_fee_percentage :: nat
  lifetime_referrer_fee_percentage :: nat
  referrer_rewards_percentage :: nat
  owner :: authority
  active :: authority
  acc_options :: account_options
  statistics :: nat
  whitelisting_accounts :: "nat list"
  whitelisted_accounts :: "nat list"
  blacklisted_accounts :: "nat list"
  blacklisting_accounts :: "nat list"
  cashback_vb :: "nat option"
  owner_special_authority :: special_authority
  active_special_authority :: special_authority
  top_n_control_flags :: nat
  allowed_assets :: "nat list option"

record account_statistics_object =
  total_core_in_orders :: share_type
  lifetime_fees_paid :: share_type
  pending_fees :: share_type
  pending_vested_fees :: share_type

record asset_options =
  max_supply :: share_type
  market_fee_percent :: nat
  max_market_fee :: share_type
  issuer_permissions :: "16 word"
  flags :: "16 word"
  ao_core_exchange_rate :: price
  whitelist_authorities :: "nat list"
  blacklist_authorities :: "nat list"
  whitelist_markets :: "nat list"
  blacklist_markets :: "nat list"

record bitasset_options =
  feed_lifetime_sec :: nat
  minimum_feeds :: nat
  force_settlement_delay_sec :: nat
  force_settlement_offset_percent :: nat
  maximum_force_settlement_volume :: nat
  short_backing_asset :: nat

record asset_object =
  symbol :: string
  precision :: nat
  issuer :: nat
  options :: asset_options
  dynamic_asset_data_id :: nat
  bitasset_data_id :: "nat option"
  buyback_account :: "nat option"

record asset_dynamic_data_object =
  current_supply :: share_type
  confidential_supply :: share_type
  accumulated_fees :: share_type
  fee_pool :: share_type

record asset_bitasset_data_object =
  ba_options :: bitasset_options
  feeds :: "(nat \<times> nat \<times> price_feed) list"
  current_feed :: price_feed
  current_feed_publication_time :: nat
  is_prediction_market :: bool
  force_settled_volume :: share_type
  ba_settlement_price :: price
  settlement_fund :: share_type

record limit_order_object =
  expiration :: nat
  seller :: nat
  for_sale :: share_type
  sell_price :: price
  deferred_fee :: share_type

record call_order_object =
  borrower :: nat
  collateral :: share_type
  debt :: share_type
  call_price_of :: price

record force_settlement_object =
  fs_owner :: nat
  fs_balance :: asset
  settlement_date :: nat

record fba_accumulator_object =
  accumulated_fba_fees :: share_type
  designated_asset :: "nat option"

record withdraw_permission_object =
  wp_withdraw_from_account :: nat
  wp_authorized_account :: nat
  wp_withdrawal_limit :: asset
  wp_withdrawal_period_sec :: nat
  wp_period_start_time :: nat
  wp_expiration :: nat
  wp_claimed_this_period :: share_type

record balance_object =
  bo_owner :: nat
  bo_balance :: asset
  bo_vesting_policy :: "linear_vesting_policy option"
  bo_last_claim_date :: nat

record account_balance_migrate_object =
  mg_owner :: nat
  mg_eth_address :: string
  mg_asset_type :: nat
  mg_balance :: share_type

datatype order_ref = Limit_ref nat | Call_ref nat | Settle_ref nat

text \<open>The virtual operations recorded for the history.\<close>

datatype applied_operation =
    Fill_order_operation order_ref nat asset asset asset
  | Asset_settle_cancel_operation order_ref nat asset
  | Limit_order_cancel_operation order_ref nat
  | Fba_distribute_operation nat nat share_type

record chain_db =
  head_block_time :: nat
  cashback_vesting_period_seconds :: nat
  cashback_vesting_threshold :: share_type
  accounts :: "account_object list"
  acc_stats :: "account_statistics_object list"
  assets :: "asset_object list"
  dyn_data :: "asset_dynamic_data_object list"
  bitassets :: "asset_bitasset_data_object list"
  balances :: "nat \<times> nat \<rightharpoonup> share_type"
  vesting_balances :: "vesting_balance_object list"
  limit_orders :: "(nat \<times> limit_order_object) list"
  call_orders :: "(nat \<times> call_order_object) list"
  settlements :: "(nat \<times> force_settlement_object) list"
  next_limit_order :: nat
  next_call_order :: nat
  next_settlement :: nat
  fba_accumulators :: "fba_accumulator_object list"
  withdraw_permissions :: "(nat \<times> withdraw_permission_object) list"
  next_withdraw_permission :: nat
  claim_balances :: "(nat \<times> balance_object) list"
  migrate_records :: "account_balance_migrate_object list"
  special_authorities :: "nat list"
  buybacks :: "nat list"
  applied_ops :: "applied_operation list"

unbundle bit_operations_syntax

definition charge_market_fee :: "16 word" where "charge_market_fee = 0x01"
definition white_list :: "16 word" where "white_list = 0x02"
definition override_authority :: "16 word" where "override_authority = 0x04"
definition transfer_restricted :: "16 word" where "transfer_restricted = 0x08"
definition disable_force_settle :: "16 word" where "disable_force_settle = 0x10"
definition global_settle :: "16 word" where "global_settle = 0x20"
definition disable_confidential :: "16 word" where "disable_confidential = 0x40"
definition witness_fed_asset :: "16 word" where "witness_fed_asset = 0x80"
definition committee_fed_asset :: "16 word" where "committee_fed_asset = 0x100"

definition has_flag :: "16 word \<Rightarrow> 16 word \<Rightarrow> bool" where
  "has_flag fs f \<longleftrightarrow> fs AND f \<noteq> 0"

definition is_market_issued :: "asset_object \<Rightarrow> bool" where
  "is_market_issued a \<longleftrightarrow> bitasset_data_id a \<noteq> None"

definition can_force_settle :: "asset_object \<Rightarrow> bool" where
  "can_force_settle a \<longleftrightarrow> \<not> has_flag (flags (options a)) disable_force_settle"

definition can_global_settle :: "asset_object \<Rightarrow> bool" where
  "can_global_settle a \<longleftrightarrow> has_flag (issuer_permissions (options a)) global_settle"

definition charges_market_fees :: "asset_object \<Rightarrow> bool" where
  "charges_market_fees a \<longleftrightarrow> has_flag (flags (options a)) charge_market_fee"

definition is_transfer_restricted :: "asset_object \<Rightarrow> bool" where
  "is_transfer_restricted a \<longleftrightarrow> has_flag (flags (options a)) transfer_restricted"

definition can_override :: "asset_object \<Rightarrow> bool" where
  "can_override a \<longleftrightarrow> has_flag (flags (options a)) override_authority"

definition allow_confidential :: "asset_object \<Rightarrow> bool" where
  "allow_confidential a \<longleftrightarrow> \<not> has_flag (flags (options a)) disable_confidential"

definition is_lifetime_member :: "account_object \<Rightarrow> bool" where
  "is_lifetime_member a \<longleftrightarrow> membership_expiration_date a = 2 ^ 32 - 1"

definition is_basic_account :: "account_object \<Rightarrow> nat \<Rightarrow> bool" where
  "is_basic_account a now \<longleftrightarrow> now > membership_expiration_date a"

definition is_member :: "account_object \<Rightarrow> nat \<Rightarrow> bool" where
  "is_member a now \<longleftrightarrow> \<not> is_basic_account a now"

definition has_special_authority :: "account_object \<Rightarrow> bool" where
  "has_special_authority a \<longleftrightarrow> owner_special_authority a \<noteq> No_special_authority \<or> active_special_authority a \<noteq> No_special_authority"

section \<open>Access\<close>

definition get_obj :: "'a list \<Rightarrow> nat \<Rightarrow> 'a result" where
  "get_obj xs i = (if i < length xs then Inr (xs ! i) else Inl Assert_exception)"

definition modify_obj :: "nat \<Rightarrow> ('a \<Rightarrow> 'a result) \<Rightarrow> 'a list \<Rightarrow> 'a list result" where
  "modify_obj i f xs = rbind (get_obj xs i) (\<lambda>x. rbind (f x) (\<lambda>y. Inr (xs[i := y])))"

definition account_statistics :: "chain_db \<Rightarrow> nat \<Rightarrow> account_statistics_object result" where
  "account_statistics d i = rbind (get_obj (accounts d) i) (\<lambda>a. get_obj (acc_stats d) (statistics a))"

definition modify_stats :: "nat \<Rightarrow> (account_statistics_object \<Rightarrow> account_statistics_object result) \<Rightarrow> chain_db \<Rightarrow> chain_db result" where
  "modify_stats acc f d =
     rbind (get_obj (accounts d) acc) (\<lambda>a.
     rbind (modify_obj (statistics a) f (acc_stats d)) (\<lambda>ss. Inr (d\<lparr> acc_stats := ss \<rparr>)))"

definition modify_dyn :: "nat \<Rightarrow> (asset_dynamic_data_object \<Rightarrow> asset_dynamic_data_object result) \<Rightarrow> chain_db \<Rightarrow> chain_db result" where
  "modify_dyn ast f d =
     rbind (get_obj (assets d) ast) (\<lambda>a.
     rbind (modify_obj (dynamic_asset_data_id a) f (dyn_data d)) (\<lambda>ds. Inr (d\<lparr> dyn_data := ds \<rparr>)))"

section \<open>Whitelists\<close>

definition is_authorized_asset_slow :: "account_object \<Rightarrow> nat \<Rightarrow> asset_object \<Rightarrow> bool" where
  "is_authorized_asset_slow acct aid asset_obj =
     (if (case allowed_assets acct of None \<Rightarrow> False | Some as \<Rightarrow> aid \<notin> set as) then False
      else if list_ex (\<lambda>i. i \<in> set (blacklist_authorities (options asset_obj))) (blacklisting_accounts acct) then False
      else if length (whitelist_authorities (options asset_obj)) = 0 then True
      else list_ex (\<lambda>i. i \<in> set (whitelist_authorities (options asset_obj))) (whitelisting_accounts acct))"

definition is_authorized_asset :: "account_object \<Rightarrow> nat \<Rightarrow> asset_object \<Rightarrow> bool" where
  "is_authorized_asset acct aid asset_obj =
     (if \<not> has_flag (flags (options asset_obj)) white_list \<and> allowed_assets acct = None then True
      else is_authorized_asset_slow acct aid asset_obj)"

section \<open>Balances\<close>

definition get_balance :: "chain_db \<Rightarrow> nat \<Rightarrow> nat \<Rightarrow> asset" where
  "get_balance d own aid = (case balances d (own, aid) of None \<Rightarrow> mk_asset 0 aid | Some b \<Rightarrow> mk_asset b aid)"

definition adjust_balance :: "safe_ops \<Rightarrow> nat \<Rightarrow> asset \<Rightarrow> chain_db \<Rightarrow> chain_db result" where
  "adjust_balance S account delta d =
     (if amount delta = 0 then Inr d
      else (case balances d (account, asset_id delta) of
        None \<Rightarrow> ensure (amount delta > 0)
          (Inr (d\<lparr> balances := (balances d)((account, asset_id delta) \<mapsto> amount delta) \<rparr>))
      | Some b \<Rightarrow>
          rbind (if amount delta < 0
                 then rbind (asset_neg S delta) (\<lambda>n. rbind (asset_ge (mk_asset b (asset_id delta)) n) (\<lambda>ok. ensure ok (Inr ())))
                 else Inr ()) (\<lambda>_.
          rbind (safe_add S b (amount delta)) (\<lambda>b'.
          Inr (d\<lparr> balances := (balances d)((account, asset_id delta) \<mapsto> b') \<rparr>)))))"

subsection \<open>Deposits that vest\<close>

definition usable_vbo :: "chain_db \<Rightarrow> nat \<Rightarrow> nat \<Rightarrow> nat \<Rightarrow> bool result" where
  "usable_vbo d vbid own req_vesting_seconds =
     rbind (get_obj (vesting_balances d) vbid) (\<lambda>vbo.
     Inr (vb_owner vbo = own \<and>
       (case vb_policy vbo of Linear_policy _ \<Rightarrow> False | Cdd_policy p \<Rightarrow> vesting_seconds p = req_vesting_seconds)))"

definition deposit_lazy_vesting :: "safe_ops \<Rightarrow> nat option \<Rightarrow> share_type \<Rightarrow> nat \<Rightarrow> nat \<Rightarrow> bool \<Rightarrow> chain_db \<Rightarrow>
    (nat option \<times> chain_db) result" where
  "deposit_lazy_vesting S ovbid amt req_vesting_seconds own require_vesting d =
     (if amt = 0 then Inr (None, d)
      else
        let now = head_block_time d in
        rbind (case ovbid of None \<Rightarrow> Inr False | Some vbid \<Rightarrow> usable_vbo d vbid own req_vesting_seconds) (\<lambda>use.
        if use then
          rbind (modify_obj (the ovbid)
            (if require_vesting then vb_deposit S now (mk_asset amt 0) else vb_deposit_vested S now (mk_asset amt 0))
            (vesting_balances d)) (\<lambda>vs. Inr (None, d\<lparr> vesting_balances := vs \<rparr>))
        else
          throw_unless Undefined_behaviour (require_vesting \<or> int64 (amt * int req_vesting_seconds))
            (let policy = \<lparr> vesting_seconds = req_vesting_seconds,
                            coin_seconds_earned = (if require_vesting then 0 else u128 (amt * int req_vesting_seconds)),
                            start_claim = 0, coin_seconds_earned_last_update = now \<rparr>;
                 vbo = \<lparr> vb_owner = own, vb_balance = mk_asset amt 0, vb_policy = Cdd_policy policy \<rparr>
             in Inr (Some (length (vesting_balances d)), d\<lparr> vesting_balances := vesting_balances d @ [vbo] \<rparr>))))"

definition GRAPHENE_WITNESS_ACCOUNT :: nat where "GRAPHENE_WITNESS_ACCOUNT = 1"
definition GRAPHENE_RELAXED_COMMITTEE_ACCOUNT :: nat where "GRAPHENE_RELAXED_COMMITTEE_ACCOUNT = 2"

definition is_system_account :: "nat \<Rightarrow> bool" where
  "is_system_account acct \<longleftrightarrow> acct = GRAPHENE_COMMITTEE_ACCOUNT \<or> acct = GRAPHENE_WITNESS_ACCOUNT \<or>
     acct = GRAPHENE_RELAXED_COMMITTEE_ACCOUNT \<or> acct = GRAPHENE_NULL_ACCOUNT \<or> acct = GRAPHENE_TEMP_ACCOUNT"

definition deposit_cashback :: "safe_ops \<Rightarrow> nat \<Rightarrow> share_type \<Rightarrow> bool \<Rightarrow> chain_db \<Rightarrow> chain_db result" where
  "deposit_cashback S acct amt require_vesting d =
     (if amt = 0 then Inr d
      else if is_system_account acct then
        modify_dyn 0 (\<lambda>y. rbind (safe_sub S (current_supply y) amt) (\<lambda>s. Inr (y\<lparr> current_supply := s \<rparr>))) d
      else
        rbind (get_obj (accounts d) acct) (\<lambda>a.
        rbind (deposit_lazy_vesting S (cashback_vb a) amt (cashback_vesting_period_seconds d) acct require_vesting d) (\<lambda>(new_vbid, d1).
        case new_vbid of None \<Rightarrow> Inr d1
        | Some v \<Rightarrow> rbind (modify_obj acct (\<lambda>x. Inr (x\<lparr> cashback_vb := Some v \<rparr>)) (accounts d1)) (\<lambda>as. Inr (d1\<lparr> accounts := as \<rparr>)))))"

section \<open>Fees\<close>

definition GRAPHENE_100_PERCENT :: int where "GRAPHENE_100_PERCENT = 10000"

definition cut_fee :: "share_type \<Rightarrow> nat \<Rightarrow> share_type result" where
  "cut_fee a p =
     (if a = 0 \<or> p = 0 then Inr 0
      else if int p = GRAPHENE_100_PERCENT then Inr a
      else rbind (to_uint64 (u128 (u128 a * int p) div GRAPHENE_100_PERCENT)) (\<lambda>r. Inr (to_int64 r)))"

definition stats_pay_fee :: "safe_ops \<Rightarrow> share_type \<Rightarrow> share_type \<Rightarrow> account_statistics_object \<Rightarrow> account_statistics_object result" where
  "stats_pay_fee S core_fee threshold s =
     (if core_fee > threshold then rbind (safe_add S (pending_fees s) core_fee) (\<lambda>x. Inr (s\<lparr> pending_fees := x \<rparr>))
      else rbind (safe_add S (pending_vested_fees s) core_fee) (\<lambda>x. Inr (s\<lparr> pending_vested_fees := x \<rparr>)))"

definition distribute_fee :: "safe_ops \<Rightarrow> account_object \<Rightarrow> share_type \<Rightarrow> bool \<Rightarrow> chain_db \<Rightarrow> chain_db result" where
  "distribute_fee S account core_fee_total require_vesting d1 =
     rbind (cut_fee core_fee_total (network_fee_percentage account)) (\<lambda>network_cut.
     rbind (cut_fee core_fee_total (lifetime_referrer_fee_percentage account)) (\<lambda>lifetime_cut.
     rbind (safe_sub S core_fee_total network_cut) (\<lambda>r1.
     rbind (safe_sub S r1 lifetime_cut) (\<lambda>referral.
     rbind (modify_obj 0 (\<lambda>y. rbind (safe_add S (accumulated_fees y) network_cut) (\<lambda>s. Inr (y\<lparr> accumulated_fees := s \<rparr>)))
       (dyn_data d1)) (\<lambda>ds.
     rbind (cut_fee referral (referrer_rewards_percentage account)) (\<lambda>referrer_cut.
     rbind (safe_sub S referral referrer_cut) (\<lambda>registrar_cut.
     rbind (deposit_cashback S (lifetime_referrer account) lifetime_cut require_vesting (d1\<lparr> dyn_data := ds \<rparr>)) (\<lambda>d3.
     rbind (deposit_cashback S (referrer account) referrer_cut require_vesting d3) (\<lambda>d4.
     deposit_cashback S (registrar account) registrar_cut require_vesting d4)))))))))"

definition pay_out_fees :: "safe_ops \<Rightarrow> nat \<Rightarrow> share_type \<Rightarrow> bool \<Rightarrow> chain_db \<Rightarrow> chain_db result" where
  "pay_out_fees S acc core_fee_total require_vesting d =
     rbind (get_obj (accounts d) acc) (\<lambda>account0.
     rbind (get_obj (accounts d) (referrer account0)) (\<lambda>ref.
     let account = (if is_basic_account ref (head_block_time d) then account0\<lparr> referrer := lifetime_referrer account0 \<rparr> else account0)
     in distribute_fee S account core_fee_total require_vesting (d\<lparr> accounts := (accounts d)[acc := account] \<rparr>)))"

definition process_fees :: "safe_ops \<Rightarrow> nat \<Rightarrow> chain_db \<Rightarrow> chain_db result" where
  "process_fees S acc d =
     rbind (account_statistics d acc) (\<lambda>s.
     if pending_fees s > 0 \<or> pending_vested_fees s > 0 then
       rbind (pay_out_fees S acc (pending_fees s) True d) (\<lambda>d1.
       rbind (pay_out_fees S acc (pending_vested_fees s) False d1) (\<lambda>d2.
       modify_stats acc (\<lambda>t. rbind (safe_add S (pending_fees t) (pending_vested_fees t)) (\<lambda>p.
         rbind (safe_add S (lifetime_fees_paid t) p) (\<lambda>l.
         Inr (t\<lparr> lifetime_fees_paid := l, pending_fees := 0, pending_vested_fees := 0 \<rparr>)))) d2))
     else Inr d)"

section \<open>Lemmas\<close>

lemma get_obj_eq_Inr [simp]: "get_obj xs i = Inr x \<longleftrightarrow> i < length xs \<and> x = xs ! i"
  by (auto simp: get_obj_def)

lemma modify_obj_eq_Inr [simp]: "modify_obj i f xs = Inr ys \<longleftrightarrow> (\<exists>y. i < length xs \<and> f (xs ! i) = Inr y \<and> ys = xs[i := y])"
  by (auto simp: modify_obj_def)

lemma sum_list_update_int:
  "k < length xs \<Longrightarrow> sum_list (map f (xs[k := x])) = sum_list (map f xs) - f (xs ! k) + (f x :: int)"
  by (induction xs arbitrary: k) (auto split: nat.split)

definition bal :: "chain_db \<Rightarrow> nat \<Rightarrow> nat \<Rightarrow> int" where
  "bal d a x = amount (get_balance d a x)"

definition balances_ok :: "chain_db \<Rightarrow> bool" where
  "balances_ok d \<longleftrightarrow> (\<forall>k b. balances d k = Some b \<longrightarrow> 0 \<le> b \<and> int64 b)"

lemma bal_Some: "balances d (a, x) = Some b \<Longrightarrow> bal d a x = b"
  by (simp add: bal_def get_balance_def)

lemma bal_None: "balances d (a, x) = None \<Longrightarrow> bal d a x = 0"
  by (simp add: bal_def get_balance_def)

lemma bal_upd: "bal (d\<lparr> balances := (balances d)((a, x) \<mapsto> v) \<rparr>) = (\<lambda>c y. if c = a \<and> y = x then v else bal d c y)"
  by (auto simp: bal_def get_balance_def fun_eq_iff split: option.split)

context fc_safe
begin

lemma adjust_balance_Inr:
  assumes "balances_ok d" "int64 (amount delta)"
  shows "(\<exists>d'. adjust_balance S acc delta d = Inr d') \<longleftrightarrow>
     0 \<le> bal d acc (asset_id delta) + amount delta \<and> int64 (bal d acc (asset_id delta) + amount delta)"
proof (cases "balances d (acc, asset_id delta)")
  case None
  then show ?thesis using assms(2) by (auto simp: adjust_balance_def bal_None [OF None] less_le)
next
  case (Some b)
  have b: "0 \<le> b" "int64 b" using assms(1) Some by (auto simp: balances_ok_def)
  show ?thesis
  proof (cases "amount delta < 0")
    case True
    then show ?thesis using Some b
      by (auto simp: adjust_balance_def bal_Some [OF Some] asset_neg_def asset_ge_def asset_less_def neg_iff add_iff int64_def)
  next
    case False
    then show ?thesis using Some b by (auto simp: adjust_balance_def bal_Some [OF Some] add_iff)
  qed
qed

text \<open>A successful adjustment changes one balance, by the amount, and nothing else.\<close>

lemma adjust_balance_effect:
  assumes "adjust_balance S acc delta d = Inr d'"
  shows "bal d' = (\<lambda>c y. if c = acc \<and> y = asset_id delta then bal d c y + amount delta else bal d c y)"
    "\<exists>bs. d' = d\<lparr> balances := bs \<rparr>" "balances_ok d \<Longrightarrow> int64 (amount delta) \<Longrightarrow> balances_ok d'"
proof -
  consider (zero) "amount delta = 0" "d' = d"
    | (new) "balances d (acc, asset_id delta) = None" "amount delta > 0" "d' = d\<lparr> balances := (balances d)((acc, asset_id delta) \<mapsto> amount delta) \<rparr>"
    | (upd) b where "balances d (acc, asset_id delta) = Some b" "d' = d\<lparr> balances := (balances d)((acc, asset_id delta) \<mapsto> b + amount delta) \<rparr>"
        "int64 (b + amount delta)" "amount delta < 0 \<Longrightarrow> - amount delta \<le> b"
  proof (cases "amount delta = 0")
    case True
    with assms have "d' = d" by (simp add: adjust_balance_def)
    with True that(1) show ?thesis by blast
  next
    case nz: False
    show ?thesis
  proof (cases "balances d (acc, asset_id delta)")
    case None
    with assms nz have "amount delta > 0 \<and> d' = d\<lparr> balances := (balances d)((acc, asset_id delta) \<mapsto> amount delta) \<rparr>"
      by (auto simp: adjust_balance_def)
    with None that(2) show ?thesis by blast
  next
    case (Some b)
    show ?thesis
    proof (cases "amount delta < 0")
      case True
      with assms Some have "d' = d\<lparr> balances := (balances d)((acc, asset_id delta) \<mapsto> b + amount delta) \<rparr> \<and>
          int64 (b + amount delta) \<and> - amount delta \<le> b"
        by (auto simp: adjust_balance_def asset_neg_def asset_ge_def asset_less_def neg_iff add_iff)
      with that(3) [OF Some] show ?thesis by blast
    next
      case False
      with assms Some nz have "d' = d\<lparr> balances := (balances d)((acc, asset_id delta) \<mapsto> b + amount delta) \<rparr> \<and>
          int64 (b + amount delta)" by (auto simp: adjust_balance_def add_iff)
      with that(3) [OF Some] False show ?thesis by blast
    qed
  qed
  qed
  then have "bal d' = (\<lambda>c y. if c = acc \<and> y = asset_id delta then bal d c y + amount delta else bal d c y) \<and>
    (\<exists>bs. d' = d\<lparr> balances := bs \<rparr>) \<and> (balances_ok d \<longrightarrow> int64 (amount delta) \<longrightarrow> balances_ok d')"
  proof cases
    case zero
    then show ?thesis by (auto simp: fun_eq_iff intro: exI [of _ "balances d"])
  next
    case new
    then show ?thesis by (auto simp: bal_upd bal_None [OF new(1)] fun_eq_iff balances_ok_def)
  next
    case upd
    have "0 \<le> b + amount delta" if "balances_ok d"
    proof -
      have "0 \<le> b" using that upd(1) unfolding balances_ok_def by blast
      then show ?thesis using upd(4) by (cases "amount delta < 0") auto
    qed
    then show ?thesis using upd(2,3) unfolding upd(2) bal_upd balances_ok_def by (simp add: bal_Some [OF upd(1)] fun_eq_iff) blast
  qed
  then show "bal d' = (\<lambda>c y. if c = acc \<and> y = asset_id delta then bal d c y + amount delta else bal d c y)"
    "\<exists>bs. d' = d\<lparr> balances := bs \<rparr>" "balances_ok d \<Longrightarrow> int64 (amount delta) \<Longrightarrow> balances_ok d'" by blast+
qed

end

subsection \<open>Where fees go\<close>

definition core_vested :: "chain_db \<Rightarrow> int" where
  "core_vested d = sum_list (map (\<lambda>v. if asset_id (vb_balance v) = 0 then amount (vb_balance v) else 0) (vesting_balances d))"

text \<open>Core tokens that fee payment has set aside: the network's accumulated fees, the vesting balances,
  and what has been taken out of the supply.\<close>

definition fee_sink :: "chain_db \<Rightarrow> int" where
  "fee_sink d = accumulated_fees (dyn_data d ! 0) - current_supply (dyn_data d ! 0) + core_vested d"

definition core_asset_ok :: "chain_db \<Rightarrow> bool" where
  "core_asset_ok d \<longleftrightarrow> assets d \<noteq> [] \<and> dynamic_asset_data_id (assets d ! 0) = 0"

context fc_safe
begin

lemma vb_deposit_amount:
  assumes "vb_deposit S now a v = Inr v' \<or> vb_deposit_vested S now a v = Inr v'"
  shows "asset_id (vb_balance v) = asset_id a \<and> vb_balance v' = mk_asset (amount (vb_balance v) + amount a) (asset_id a)"
  using assms by (auto simp: vb_deposit_def vb_deposit_vested_def asset_plus_def add_iff Let_def)

lemma deposit_lazy_vesting_sum:
  assumes "deposit_lazy_vesting S ovb amt secs own rv d = Inr (r, d')"
  shows "core_vested d' = core_vested d + amt \<and> (\<exists>vs. d' = d\<lparr> vesting_balances := vs \<rparr>)"
proof (cases "amt = 0")
  case True
  with assms show ?thesis by (auto simp: deposit_lazy_vesting_def intro: exI [of _ "vesting_balances d"])
next
  case False
  let ?f = "\<lambda>v. if asset_id (vb_balance v) = 0 then amount (vb_balance v) else 0"
  from assms False obtain use where u: "(case ovb of None \<Rightarrow> Inr False | Some vbid \<Rightarrow> usable_vbo d vbid own secs) = Inr use"
    by (auto simp: deposit_lazy_vesting_def Let_def)
  show ?thesis
  proof (cases use)
    case True
    with assms False u obtain y where i: "the ovb < length (vesting_balances d)"
      and y: "vb_deposit S (head_block_time d) (mk_asset amt 0) (vesting_balances d ! the ovb) = Inr y \<or>
              vb_deposit_vested S (head_block_time d) (mk_asset amt 0) (vesting_balances d ! the ovb) = Inr y"
      and d': "d' = d\<lparr> vesting_balances := (vesting_balances d)[the ovb := y] \<rparr>"
      by (auto simp: deposit_lazy_vesting_def Let_def split: if_splits)
    show ?thesis using vb_deposit_amount [OF y] sum_list_update_int [OF i, of ?f y] by (auto simp: d' core_vested_def)
  next
    case nu: False
    with assms False u show ?thesis by (auto simp: deposit_lazy_vesting_def Let_def core_vested_def)
  qed
qed

lemma deposit_cashback_sink:
  assumes "deposit_cashback S acc amt rv d = Inr d'" "core_asset_ok d"
  shows "fee_sink d' = fee_sink d + amt \<and> core_asset_ok d' \<and> balances d' = balances d \<and> acc_stats d' = acc_stats d \<and>
    length (accounts d') = length (accounts d) \<and> (\<forall>i<length (accounts d). statistics (accounts d' ! i) = statistics (accounts d ! i))"
proof (cases "amt = 0 \<or> is_system_account acc")
  case True
  with assms show ?thesis
    by (auto simp: deposit_cashback_def modify_dyn_def sub_iff fee_sink_def core_vested_def core_asset_ok_def split: if_splits)
next
  case False
  with assms(1) obtain vb d1 where l: "deposit_lazy_vesting S (cashback_vb (accounts d ! acc)) amt (cashback_vesting_period_seconds d) acc rv d = Inr (vb, d1)"
    and d': "d' = d1 \<or> (\<exists>v. d' = d1\<lparr> accounts := (accounts d1)[acc := (accounts d1 ! acc)\<lparr> cashback_vb := Some v \<rparr>] \<rparr>)"
    by (auto simp: deposit_cashback_def split: option.splits)
  from deposit_lazy_vesting_sum [OF l] obtain vs where "core_vested d1 = core_vested d + amt" "d1 = d\<lparr> vesting_balances := vs \<rparr>" by blast
  moreover have "statistics ((accounts d)[acc := (accounts d ! acc)\<lparr> cashback_vb := Some v \<rparr>] ! i) = statistics (accounts d ! i)"
    if "i < length (accounts d)" for i v using that by (cases "i = acc") auto
  ultimately show ?thesis using d' assms(2) by (auto simp: fee_sink_def core_vested_def core_asset_ok_def)
qed

end

definition same_books :: "chain_db \<Rightarrow> chain_db \<Rightarrow> bool" where
  "same_books d d' \<longleftrightarrow> balances d' = balances d \<and> acc_stats d' = acc_stats d \<and>
    length (accounts d') = length (accounts d) \<and> (\<forall>i<length (accounts d). statistics (accounts d' ! i) = statistics (accounts d ! i))"

lemma same_books_trans: "same_books a b \<Longrightarrow> same_books b c \<Longrightarrow> same_books a c"
  by (simp add: same_books_def)

context fc_safe
begin

lemma distribute_fee_sink:
  assumes "distribute_fee S account fee rv d = Inr d'" "core_asset_ok d"
  shows "fee_sink d' = fee_sink d + fee \<and> core_asset_ok d' \<and> same_books d d'"
proof -
  from assms(1) obtain n l r d3 d4 where ne: "dyn_data d \<noteq> []"
    and d3: "deposit_cashback S (lifetime_referrer account) l rv
      (d\<lparr> dyn_data := (dyn_data d)[0 := (dyn_data d ! 0)\<lparr> accumulated_fees := accumulated_fees (dyn_data d ! 0) + n \<rparr>] \<rparr>) = Inr d3"
    and d4: "deposit_cashback S (referrer account) r rv d3 = Inr d4"
    and d5: "deposit_cashback S (registrar account) (fee - n - l - r) rv d4 = Inr d'"
    by (auto simp: distribute_fee_def sub_iff add_iff)
  let ?d2 = "d\<lparr> dyn_data := (dyn_data d)[0 := (dyn_data d ! 0)\<lparr> accumulated_fees := accumulated_fees (dyn_data d ! 0) + n \<rparr>] \<rparr>"
  have "fee_sink ?d2 = fee_sink d + n" "core_asset_ok ?d2" using assms(2) ne
    by (auto simp: fee_sink_def core_vested_def core_asset_ok_def)
  with deposit_cashback_sink [OF d3] deposit_cashback_sink [OF d4] deposit_cashback_sink [OF d5]
  show ?thesis by (auto simp: same_books_def)
qed

lemma pay_out_fees_sink:
  assumes "pay_out_fees S acc fee rv d = Inr d'" "core_asset_ok d"
  shows "fee_sink d' = fee_sink d + fee \<and> core_asset_ok d' \<and> same_books d d'"
proof -
  define account where "account = (if is_basic_account (accounts d ! referrer (accounts d ! acc)) (head_block_time d)
    then (accounts d ! acc)\<lparr> referrer := lifetime_referrer (accounts d ! acc) \<rparr> else accounts d ! acc)"
  have acc: "acc < length (accounts d)" "statistics account = statistics (accounts d ! acc)"
    and r: "distribute_fee S account fee rv (d\<lparr> accounts := (accounts d)[acc := account] \<rparr>) = Inr d'"
    using assms(1) by (auto simp: pay_out_fees_def Let_def account_def)
  have "core_asset_ok (d\<lparr> accounts := (accounts d)[acc := account] \<rparr>)" using assms(2) by (simp add: core_asset_ok_def)
  from distribute_fee_sink [OF r this] acc show ?thesis
    by (auto simp: same_books_def fee_sink_def core_vested_def nth_list_update)
qed

end

section \<open>A small chain state, for the examples\<close>

definition demo_options :: asset_options where
  "demo_options = \<lparr> max_supply = GRAPHENE_MAX_SHARE_SUPPLY, market_fee_percent = 0, max_market_fee = GRAPHENE_MAX_SHARE_SUPPLY,
     issuer_permissions = 0, flags = 0, ao_core_exchange_rate = default_price, whitelist_authorities = [], blacklist_authorities = [],
     whitelist_markets = [], blacklist_markets = [] \<rparr>"

definition demo_account :: "nat \<Rightarrow> account_object" where
  "demo_account i = \<lparr> acc_name = ''a'', membership_expiration_date = 2 ^ 32 - 1, registrar = 3, referrer = 3, lifetime_referrer = 3,
     network_fee_percentage = 2000, lifetime_referrer_fee_percentage = 3000, referrer_rewards_percentage = 5000,
     owner = null_authority, active = null_authority,
     acc_options = \<lparr> memo_key = 0, voting_account = 5, num_witness = 0, num_committee = 0, votes = [] \<rparr>,
     statistics = i, whitelisting_accounts = [], whitelisted_accounts = [], blacklisted_accounts = [], blacklisting_accounts = [],
     cashback_vb = None, owner_special_authority = No_special_authority, active_special_authority = No_special_authority,
     top_n_control_flags = 0, allowed_assets = None \<rparr>"

definition demo_asset :: "nat \<Rightarrow> asset_object" where
  "demo_asset i = \<lparr> symbol = ''PLS'', precision = 5, issuer = 3, options = demo_options, dynamic_asset_data_id = i,
     bitasset_data_id = None, buyback_account = None \<rparr>"

definition demo_stats :: account_statistics_object where
  "demo_stats = \<lparr> total_core_in_orders = 0, lifetime_fees_paid = 0, pending_fees = 1000, pending_vested_fees = 0 \<rparr>"

definition demo_dyn :: asset_dynamic_data_object where
  "demo_dyn = \<lparr> current_supply = 1000000, confidential_supply = 0, accumulated_fees = 0, fee_pool = 0 \<rparr>"

definition demo_db :: chain_db where
  "demo_db = \<lparr> head_block_time = 1000, cashback_vesting_period_seconds = 100, cashback_vesting_threshold = 10,
     accounts = map demo_account [0, 1, 2, 3, 4, 5, 6, 7, 8], acc_stats = replicate 9 demo_stats,
     assets = [demo_asset 0, demo_asset 1], dyn_data = [demo_dyn, demo_dyn], bitassets = [], balances = Map.empty,
     vesting_balances = [], limit_orders = [], call_orders = [], settlements = [], next_limit_order = 0, next_call_order = 0, next_settlement = 0,
     fba_accumulators = [], withdraw_permissions = [], next_withdraw_permission = 0, claim_balances = [], migrate_records = [], special_authorities = [], buybacks = [], applied_ops = [] \<rparr>"

section \<open>Properties\<close>

text \<open>\<open>adjust_balance\<close> succeeds exactly when the new balance would be a non-negative 64-bit amount;
  it then changes that one balance by the given amount, nothing else, and no balance becomes negative.\<close>

theorem adjust_balance_correct:
  assumes S: "fc_safe S" and ok: "balances_ok d" and a: "int64 (amount delta)"
  shows "((\<exists>d'. adjust_balance S acc delta d = Inr d') \<longleftrightarrow>
      0 \<le> bal d acc (asset_id delta) + amount delta \<and> int64 (bal d acc (asset_id delta) + amount delta)) \<and>
    (\<forall>d'. adjust_balance S acc delta d = Inr d' \<longrightarrow> balances_ok d' \<and> (\<exists>bs. d' = d\<lparr> balances := bs \<rparr>) \<and>
      bal d' = (\<lambda>c y. if c = acc \<and> y = asset_id delta then bal d c y + amount delta else bal d c y))"
  using fc_safe.adjust_balance_Inr [OF S ok a] fc_safe.adjust_balance_effect [OF S] ok a by blast

theorem adjust_balance_correct_witness:
  "\<exists>d'. adjust_balance checked_ops 7 (mk_asset 5 0) demo_db = Inr d' \<and> bal d' 7 0 = 5"
proof -
  have ok: "balances_ok demo_db" and b: "bal demo_db 7 0 = 0" by (simp_all add: balances_ok_def bal_def get_balance_def demo_db_def)
  from adjust_balance_correct [OF fc_safe_checked_ops ok, of "mk_asset 5 0" 7] b
  show ?thesis by (auto simp: int64_def)
qed

text \<open>The fee cut is the exact floor of its percentage and never exceeds the fee; a network and a
  lifetime cut whose percentages do not exceed 100% leave a non-negative referral reward, and the four cuts
  add up to the fee.\<close>

theorem fee_split_exact:
  assumes a: "0 \<le> a" "a \<le> GRAPHENE_MAX_SHARE_SUPPLY" and p: "int p + int q \<le> GRAPHENE_100_PERCENT" "int r \<le> GRAPHENE_100_PERCENT"
  shows "\<exists>network lifetime referrer_cut.
    cut_fee a p = Inr network \<and> cut_fee a q = Inr lifetime \<and> cut_fee (a - network - lifetime) r = Inr referrer_cut \<and>
    network = a * int p div GRAPHENE_100_PERCENT \<and> lifetime = a * int q div GRAPHENE_100_PERCENT \<and>
    referrer_cut = (a - network - lifetime) * int r div GRAPHENE_100_PERCENT \<and>
    0 \<le> network \<and> 0 \<le> lifetime \<and> 0 \<le> referrer_cut \<and> referrer_cut \<le> a - network - lifetime"
proof -
  have cut: "cut_fee x s = Inr (x * int s div 10000) \<and> 0 \<le> x * int s div 10000 \<and> x * int s div 10000 \<le> x"
    if x: "0 \<le> x" "x \<le> GRAPHENE_MAX_SHARE_SUPPLY" and s: "int s \<le> 10000" for x s
  proof -
    have m: "0 \<le> x * int s" "x * int s \<le> x * 10000" using x s by (auto intro: mult_left_mono)
    have d: "0 \<le> x * int s div 10000" "x * int s div 10000 \<le> x" using m by auto
    have i: "int64 (x * int s div 10000)" "x * int s div 10000 < 2 ^ 64" using d x by (auto simp: int64_def GRAPHENE_MAX_SHARE_SUPPLY_def)
    have u: "u128 x = x" "u128 (x * int s) = x * int s" using x m by (auto simp: GRAPHENE_MAX_SHARE_SUPPLY_def)
    show ?thesis using d i u by (auto simp: cut_fee_def GRAPHENE_100_PERCENT_def to_uint64_def)
  qed
  let ?n = "a * int p div 10000" and ?l = "a * int q div 10000"
  have "?n + ?l \<le> (a * int p + a * int q) div 10000" by linarith
  also have "\<dots> \<le> a * 10000 div 10000" using a p by (intro zdiv_mono1)
      (auto simp: GRAPHENE_100_PERCENT_def distrib_left [symmetric] intro!: mult_left_mono)
  finally have s: "0 \<le> a - ?n - ?l" by simp
  have le: "int p \<le> 10000" "int q \<le> 10000" "int r \<le> 10000" using p by (auto simp: GRAPHENE_100_PERCENT_def)
  note n = cut [OF a le(1)] and l = cut [OF a le(2)]
  have "a - ?n - ?l \<le> GRAPHENE_MAX_SHARE_SUPPLY" using a n l by linarith
  note r = cut [OF s this le(3)]
  show ?thesis using n l r by (simp add: GRAPHENE_100_PERCENT_def)
qed

theorem fee_split_exact_witness:
  "cut_fee 1000 2000 = Inr 200 \<and> cut_fee 1000 3000 = Inr 300 \<and> cut_fee 500 5000 = Inr 250"
  using fee_split_exact [of 1000 2000 3000 5000] by (simp add: GRAPHENE_MAX_SHARE_SUPPLY_def GRAPHENE_100_PERCENT_def)

text \<open>Processing an account's pending fees loses and creates nothing: the network's accumulated fees,
  the core vesting balances and the tokens taken out of the supply grow together by exactly the pending fees,
  which are then zero and counted as paid; no account balance changes.\<close>

theorem process_fees_conserves:
  assumes S: "fc_safe S" and ok: "core_asset_ok d" and s: "account_statistics d acc = Inr s"
    and p: "pending_fees s > 0 \<or> pending_vested_fees s > 0" and r: "process_fees S acc d = Inr d'"
  shows "fee_sink d' = fee_sink d + pending_fees s + pending_vested_fees s \<and> balances d' = balances d \<and>
    (\<exists>t. account_statistics d' acc = Inr t \<and> pending_fees t = 0 \<and> pending_vested_fees t = 0 \<and>
      lifetime_fees_paid t = lifetime_fees_paid s + pending_fees s + pending_vested_fees s \<and>
      total_core_in_orders t = total_core_in_orders s)"
proof -
  from r s p obtain d1 d2 where d1: "pay_out_fees S acc (pending_fees s) True d = Inr d1"
    and d2: "pay_out_fees S acc (pending_vested_fees s) False d1 = Inr d2"
    and m: "modify_stats acc (\<lambda>t. rbind (safe_add S (pending_fees t) (pending_vested_fees t)) (\<lambda>p.
         rbind (safe_add S (lifetime_fees_paid t) p) (\<lambda>l.
         Inr (t\<lparr> lifetime_fees_paid := l, pending_fees := 0, pending_vested_fees := 0 \<rparr>)))) d2 = Inr d'"
    by (auto simp: process_fees_def)
  note e1 = fc_safe.pay_out_fees_sink [OF S d1 ok]
  note e2 = fc_safe.pay_out_fees_sink [OF S d2 conjunct1 [OF conjunct2 [OF e1]]]
  from s have a: "acc < length (accounts d)" "statistics (accounts d ! acc) < length (acc_stats d)" "s = acc_stats d ! statistics (accounts d ! acc)"
    by (auto simp: account_statistics_def)
  from m e1 e2 a show ?thesis
    by (auto simp: modify_stats_def account_statistics_def fc_safe.add_iff [OF S] fee_sink_def core_vested_def same_books_def)
qed

theorem process_fees_conserves_witness:
  "\<exists>d'. process_fees checked_ops 8 demo_db = Inr d' \<and> fee_sink d' = fee_sink demo_db + 1000"
proof -
  have ok: "core_asset_ok demo_db" by (simp add: core_asset_ok_def demo_db_def demo_asset_def)
  have s: "account_statistics demo_db 8 = Inr demo_stats"
    by (simp add: account_statistics_def demo_db_def demo_account_def)
  have p: "pending_fees demo_stats > 0 \<or> pending_vested_fees demo_stats > 0" by (simp add: demo_stats_def)
  have "\<not> isl (process_fees checked_ops 8 demo_db)"
    by (simp add: process_fees_def account_statistics_def demo_stats_def pay_out_fees_def demo_db_def demo_account_def is_basic_account_def
        distribute_fee_def cut_fee_def GRAPHENE_100_PERCENT_def to_uint64_def checked_ops_def checked64_def int64_def demo_dyn_def
        deposit_cashback_def is_system_account_def GRAPHENE_NULL_ACCOUNT_def modify_dyn_def modify_obj_def get_obj_def demo_asset_def
        modify_stats_def Let_def)
  then obtain d' where r: "process_fees checked_ops 8 demo_db = Inr d'" by (metis isl_def sum.exhaust)
  from process_fees_conserves [OF fc_safe_checked_ops ok s p r] r show ?thesis by (simp add: demo_stats_def)
qed

end
