(* ===== verification/Evaluator.thy ===== *)
theory Evaluator
  imports Chain_State
begin

text \<open>
  How an operation is applied: the fee path of \<^verbatim>\<open>generic_evaluator\<close> (\<^verbatim>\<open>evaluator.{hpp,cpp}\<close>,
  \<^verbatim>\<open>fba_object.cpp\<close>) and the evaluators that move balances (\<^verbatim>\<open>transfer_evaluator.cpp\<close>,
  \<^verbatim>\<open>vesting_balance_evaluator.cpp\<close>, \<^verbatim>\<open>protocol/transfer.cpp\<close>).  An evaluator is a pair of a check
  (\<open>do_evaluate\<close>, which only reads the state) and an action (\<open>do_apply\<close>).  The required fee comes from
  the fee schedule and is an argument.
\<close>

section \<open>The fee path\<close>

record trx_eval_state =
  skip_fee :: bool
  skip_fee_schedule_check :: bool

definition prepare_fee :: "nat \<Rightarrow> asset \<Rightarrow> chain_db \<Rightarrow> share_type result" where
  "prepare_fee account_id fee d =
     ensure (amount fee \<ge> 0) (
     rbind (get_obj (accounts d) account_id) (\<lambda>payer.
     rbind (get_obj (acc_stats d) (statistics payer)) (\<lambda>_.
     rbind (get_obj (assets d) (asset_id fee)) (\<lambda>fee_asset.
     rbind (get_obj (dyn_data d) (dynamic_asset_data_id fee_asset)) (\<lambda>fee_dyn.
     ensure (is_authorized_asset payer (asset_id fee) fee_asset) (
     if asset_id fee = 0 then Inr (amount fee)
     else rbind (asset_times_price fee (ao_core_exchange_rate (options fee_asset))) (\<lambda>fee_from_pool.
          ensure (asset_id fee_from_pool = 0) (
          ensure (amount fee_from_pool \<le> fee_pool fee_dyn) (Inr (amount fee_from_pool))))))))))"

definition convert_fee :: "safe_ops \<Rightarrow> trx_eval_state \<Rightarrow> asset \<Rightarrow> share_type \<Rightarrow> chain_db \<Rightarrow> chain_db result" where
  "convert_fee S ts fee core_fee_paid d =
     (if \<not> skip_fee ts \<and> asset_id fee \<noteq> 0 then
        modify_dyn (asset_id fee) (\<lambda>y.
          rbind (safe_add S (accumulated_fees y) (amount fee)) (\<lambda>af.
          rbind (safe_sub S (fee_pool y) core_fee_paid) (\<lambda>fp.
          Inr (y\<lparr> accumulated_fees := af, fee_pool := fp \<rparr>)))) d
      else Inr d)"

definition pay_fee :: "safe_ops \<Rightarrow> trx_eval_state \<Rightarrow> nat \<Rightarrow> share_type \<Rightarrow> chain_db \<Rightarrow> chain_db result" where
  "pay_fee S ts payer core_fee_paid d =
     (if \<not> skip_fee ts then modify_stats payer (stats_pay_fee S core_fee_paid (cashback_vesting_threshold d)) d else Inr d)"

definition fba_is_configured :: "fba_accumulator_object \<Rightarrow> chain_db \<Rightarrow> bool result" where
  "fba_is_configured fba d =
     (case designated_asset fba of None \<Rightarrow> Inr False
      | Some das \<Rightarrow>
        if \<not> das < length (assets d) then Inr False
        else
          let dasset = assets d ! das; allowed_flags = charge_market_fee in
          if is_market_issued dasset then Inr False
          else if issuer_permissions (options dasset) AND allowed_flags \<noteq> issuer_permissions (options dasset) then Inr False
          else if flags (options dasset) AND allowed_flags \<noteq> flags (options dasset) then Inr False
          else if buyback_account dasset = None then Inr False
          else rbind (get_obj (accounts d) (issuer dasset)) (\<lambda>issuer_acct.
            case owner_special_authority issuer_acct of No_special_authority \<Rightarrow> Inr False
            | Top_holders_special_authority oa _ \<Rightarrow>
              (case active_special_authority issuer_acct of No_special_authority \<Rightarrow> Inr False
               | Top_holders_special_authority aa _ \<Rightarrow>
                 if oa \<noteq> das then Inr False
                 else if aa \<noteq> das then Inr False
                 else if top_n_control_flags issuer_acct \<noteq> 1 + 2 then Inr False
                 else Inr True)))"

definition pay_fba_fee :: "safe_ops \<Rightarrow> trx_eval_state \<Rightarrow> nat \<Rightarrow> share_type \<Rightarrow> nat \<Rightarrow> chain_db \<Rightarrow> chain_db result" where
  "pay_fba_fee S ts payer core_fee_paid fba_id d =
     rbind (get_obj (fba_accumulators d) fba_id) (\<lambda>fba.
     rbind (fba_is_configured fba d) (\<lambda>c.
     if \<not> c then pay_fee S ts payer core_fee_paid d
     else rbind (modify_obj fba_id (\<lambda>x. rbind (safe_add S (accumulated_fba_fees x) core_fee_paid) (\<lambda>s.
            Inr (x\<lparr> accumulated_fba_fees := s \<rparr>))) (fba_accumulators d)) (\<lambda>fs. Inr (d\<lparr> fba_accumulators := fs \<rparr>))))"

text \<open>\<^verbatim>\<open>evaluator::evaluate\<close> and \<^verbatim>\<open>evaluator::apply\<close> around an operation's own check and action; \<open>start_evaluate\<close>
  runs the one and then, if asked to, the other.\<close>

definition evaluate :: "trx_eval_state \<Rightarrow> share_type \<Rightarrow> nat \<Rightarrow> asset \<Rightarrow> (chain_db \<Rightarrow> 'r result) \<Rightarrow> chain_db \<Rightarrow> share_type result" where
  "evaluate ts required_fee payer fee do_evaluate d =
     rbind (prepare_fee payer fee d) (\<lambda>core_fee_paid.
     throw_unless Insufficient_fee_exception (skip_fee_schedule_check ts \<or> core_fee_paid \<ge> required_fee) (
     rbind (do_evaluate d) (\<lambda>_. Inr core_fee_paid)))"

definition apply_op :: "safe_ops \<Rightarrow> trx_eval_state \<Rightarrow> nat \<Rightarrow> asset \<Rightarrow> share_type \<Rightarrow> (chain_db \<Rightarrow> chain_db result) \<Rightarrow> chain_db \<Rightarrow> chain_db result" where
  "apply_op S ts payer fee core_fee_paid do_apply d =
     rbind (convert_fee S ts fee core_fee_paid d) (\<lambda>d1.
     rbind (pay_fee S ts payer core_fee_paid d1) (\<lambda>d2.
     rbind (do_apply d2) (\<lambda>d3.
     rbind (asset_neg S fee) (\<lambda>nfee. adjust_balance S payer nfee d3))))"

definition start_evaluate :: "safe_ops \<Rightarrow> trx_eval_state \<Rightarrow> share_type \<Rightarrow> nat \<Rightarrow> asset \<Rightarrow> (chain_db \<Rightarrow> 'r result) \<Rightarrow>
    (chain_db \<Rightarrow> chain_db result) \<Rightarrow> bool \<Rightarrow> chain_db \<Rightarrow> chain_db result" where
  "start_evaluate S ts required_fee payer fee do_evaluate do_apply app d =
     rbind (evaluate ts required_fee payer fee do_evaluate d) (\<lambda>core_fee_paid.
     if app then apply_op S ts payer fee core_fee_paid do_apply d else Inr d)"

section \<open>Transfers\<close>

definition HARDFORK_1_TIME :: nat where "HARDFORK_1_TIME = 1509166800"

record transfer_operation =
  tr_fee :: asset
  tr_from :: nat
  tr_to :: nat
  tr_amount :: asset

definition transfer_validate :: "transfer_operation \<Rightarrow> unit result" where
  "transfer_validate op =
     ensure (amount (tr_fee op) \<ge> 0) (ensure (tr_from op \<noteq> tr_to op) (ensure (amount (tr_amount op) > 0) (Inr ())))"

definition transfer_do_evaluate :: "transfer_operation \<Rightarrow> chain_db \<Rightarrow> unit result" where
  "transfer_do_evaluate op d =
     ensure (head_block_time d < HARDFORK_1_TIME) (
     rbind (get_obj (accounts d) (tr_from op)) (\<lambda>from_account.
     rbind (get_obj (accounts d) (tr_to op)) (\<lambda>to_account.
     rbind (get_obj (assets d) (asset_id (tr_amount op))) (\<lambda>asset_type.
     throw_unless Transfer_from_account_not_whitelisted (is_authorized_asset from_account (asset_id (tr_amount op)) asset_type) (
     throw_unless Transfer_to_account_not_whitelisted (is_authorized_asset to_account (asset_id (tr_amount op)) asset_type) (
     throw_unless Transfer_restricted_transfer_asset
       (is_transfer_restricted asset_type \<longrightarrow> tr_from op = issuer asset_type \<or> tr_to op = issuer asset_type) (
     ensure (amount (get_balance d (tr_from op) (asset_id (tr_amount op))) \<ge> amount (tr_amount op)) (Inr ()))))))))"

definition transfer_do_apply :: "safe_ops \<Rightarrow> transfer_operation \<Rightarrow> chain_db \<Rightarrow> chain_db result" where
  "transfer_do_apply S op d =
     rbind (asset_neg S (tr_amount op)) (\<lambda>n.
     rbind (adjust_balance S (tr_from op) n d) (adjust_balance S (tr_to op) (tr_amount op)))"

record override_transfer_operation =
  ov_fee :: asset
  ov_issuer :: nat
  ov_from :: nat
  ov_to :: nat
  ov_amount :: asset

definition override_transfer_validate :: "override_transfer_operation \<Rightarrow> unit result" where
  "override_transfer_validate op =
     ensure (amount (ov_fee op) \<ge> 0) (ensure (ov_from op \<noteq> ov_to op) (ensure (amount (ov_amount op) > 0)
       (ensure (ov_issuer op \<noteq> ov_from op) (Inr ()))))"

definition override_transfer_do_evaluate :: "override_transfer_operation \<Rightarrow> chain_db \<Rightarrow> unit result" where
  "override_transfer_do_evaluate op d =
     ensure (head_block_time d < HARDFORK_1_TIME) (
     rbind (get_obj (assets d) (asset_id (ov_amount op))) (\<lambda>asset_type.
     throw_unless Override_transfer_not_permitted (can_override asset_type) (
     ensure (issuer asset_type = ov_issuer op) (
     rbind (get_obj (accounts d) (ov_from op)) (\<lambda>from_account.
     rbind (get_obj (accounts d) (ov_to op)) (\<lambda>to_account.
     ensure (is_authorized_asset to_account (asset_id (ov_amount op)) asset_type) (
     ensure (is_authorized_asset from_account (asset_id (ov_amount op)) asset_type) (
     ensure (amount (get_balance d (ov_from op) (asset_id (ov_amount op))) \<ge> amount (ov_amount op)) (Inr ())))))))))"

definition override_transfer_do_apply :: "safe_ops \<Rightarrow> override_transfer_operation \<Rightarrow> chain_db \<Rightarrow> chain_db result" where
  "override_transfer_do_apply S op d =
     rbind (asset_neg S (ov_amount op)) (\<lambda>n.
     rbind (adjust_balance S (ov_from op) n d) (adjust_balance S (ov_to op) (ov_amount op)))"

section \<open>Vesting balances\<close>

datatype vesting_policy_initializer =
    Linear_vesting_policy_initializer nat nat nat \<comment> \<open>begin timestamp, cliff, duration\<close>
  | Cdd_vesting_policy_initializer nat nat \<comment> \<open>start claim, vesting seconds\<close>

record vesting_balance_create_operation =
  vc_fee :: asset
  vc_creator :: nat
  vc_owner :: nat
  vc_amount :: asset
  vc_policy :: vesting_policy_initializer

definition init_policy :: "share_type \<Rightarrow> nat \<Rightarrow> vesting_policy_initializer \<Rightarrow> vesting_policy" where
  "init_policy init_balance now i = (case i of
     Linear_vesting_policy_initializer b c dur \<Rightarrow>
       Linear_policy \<lparr> begin_timestamp = b, vesting_cliff_seconds = c, vesting_duration_seconds = dur, begin_balance = init_balance \<rparr>
   | Cdd_vesting_policy_initializer s v \<Rightarrow>
       Cdd_policy \<lparr> vesting_seconds = v, coin_seconds_earned = 0, start_claim = s, coin_seconds_earned_last_update = now \<rparr>)"

definition vesting_create_validate :: "vesting_balance_create_operation \<Rightarrow> unit result" where
  "vesting_create_validate op = ensure (amount (vc_fee op) \<ge> 0) (ensure (amount (vc_amount op) > 0) (Inr ()))"

definition vesting_create_do_evaluate :: "vesting_balance_create_operation \<Rightarrow> chain_db \<Rightarrow> unit result" where
  "vesting_create_do_evaluate op d =
     rbind (get_obj (accounts d) (vc_creator op)) (\<lambda>_.
     rbind (get_obj (accounts d) (vc_owner op)) (\<lambda>_.
     ensure (amount (vc_amount op) > 0) (
     rbind (asset_ge (get_balance d (vc_creator op) (asset_id (vc_amount op))) (vc_amount op)) (\<lambda>b. ensure b (
     rbind (get_obj (assets d) (asset_id (vc_amount op))) (\<lambda>a.
     ensure (\<not> is_transfer_restricted a) (Inr ())))))))"

definition vesting_create_do_apply :: "safe_ops \<Rightarrow> vesting_balance_create_operation \<Rightarrow> chain_db \<Rightarrow> chain_db result" where
  "vesting_create_do_apply S op d =
     rbind (asset_ge (get_balance d (vc_creator op) (asset_id (vc_amount op))) (vc_amount op)) (\<lambda>b. ensure b (
     rbind (asset_neg S (vc_amount op)) (\<lambda>n.
     rbind (adjust_balance S (vc_creator op) n d) (\<lambda>d1.
     Inr (d1\<lparr> vesting_balances := vesting_balances d1 @
       [\<lparr> vb_owner = vc_owner op, vb_balance = vc_amount op,
          vb_policy = init_policy (amount (vc_amount op)) (head_block_time d) (vc_policy op) \<rparr>] \<rparr>)))))"

record vesting_balance_withdraw_operation =
  vw_fee :: asset
  vw_vesting_balance :: nat
  vw_owner :: nat
  vw_amount :: asset

definition vesting_withdraw_validate :: "vesting_balance_withdraw_operation \<Rightarrow> unit result" where
  "vesting_withdraw_validate op = ensure (amount (vw_fee op) \<ge> 0) (ensure (amount (vw_amount op) > 0) (Inr ()))"

definition vesting_withdraw_do_evaluate :: "safe_ops \<Rightarrow> vesting_balance_withdraw_operation \<Rightarrow> chain_db \<Rightarrow> unit result" where
  "vesting_withdraw_do_evaluate S op d =
     rbind (get_obj (vesting_balances d) (vw_vesting_balance op)) (\<lambda>vbo.
     ensure (vw_owner op = vb_owner vbo) (
     rbind (vb_is_withdraw_allowed S vbo (head_block_time d) (vw_amount op)) (\<lambda>b. ensure b (
     rbind (get_obj (accounts d) (vw_owner op)) (\<lambda>_. Inr ())))))"

definition vesting_withdraw_do_apply :: "safe_ops \<Rightarrow> vesting_balance_withdraw_operation \<Rightarrow> chain_db \<Rightarrow> chain_db result" where
  "vesting_withdraw_do_apply S op d =
     rbind (modify_obj (vw_vesting_balance op) (vb_withdraw S (head_block_time d) (vw_amount op)) (vesting_balances d)) (\<lambda>vs.
     adjust_balance S (vw_owner op) (vw_amount op) (d\<lparr> vesting_balances := vs \<rparr>))"

section \<open>Lemmas\<close>

context fc_safe
begin

lemma move_balance:
  assumes n: "asset_neg S a = Inr n" and d1: "adjust_balance S x n d = Inr d1" and d2: "adjust_balance S y a d1 = Inr d2"
  shows "bal d2 = (\<lambda>c z. bal d c z + (if z = asset_id a then (if c = y then amount a else 0) - (if c = x then amount a else 0) else 0))"
    "\<exists>bs. d2 = d\<lparr> balances := bs \<rparr>"
proof -
  from n have n': "amount n = - amount a" "asset_id n = asset_id a" by (auto simp: asset_neg_def neg_iff)
  show "bal d2 = (\<lambda>c z. bal d c z + (if z = asset_id a then (if c = y then amount a else 0) - (if c = x then amount a else 0) else 0))"
    unfolding adjust_balance_effect(1) [OF d2] adjust_balance_effect(1) [OF d1] by (auto simp: fun_eq_iff n')
  from adjust_balance_effect(2) [OF d1] adjust_balance_effect(2) [OF d2] show "\<exists>bs. d2 = d\<lparr> balances := bs \<rparr>" by auto
qed

end

lemma bal_cong: "balances d = balances d' \<Longrightarrow> bal d = bal d'"
  by (simp add: bal_def get_balance_def fun_eq_iff)

lemma sum_move:
  assumes "finite U" "x \<in> U" "y \<in> U"
  shows "(\<Sum>c\<in>U. f c + ((if c = y then (m :: int) else 0) - (if c = x then m else 0))) = (\<Sum>c\<in>U. f c)"
  using assms by (simp add: sum.distrib sum_subtractf)

definition pending_total :: "chain_db \<Rightarrow> nat \<Rightarrow> int" where
  "pending_total d acc = pending_fees (acc_stats d ! statistics (accounts d ! acc)) +
     pending_vested_fees (acc_stats d ! statistics (accounts d ! acc))"

context fc_safe
begin

lemma convert_fee_effect:
  assumes "convert_fee S ts fee core d = Inr d'"
  shows "\<exists>ds. d' = d\<lparr> dyn_data := ds \<rparr> \<and> length ds = length (dyn_data d)"
    "\<not> skip_fee ts \<Longrightarrow> asset_id fee \<noteq> 0 \<Longrightarrow> (let i = dynamic_asset_data_id (assets d ! asset_id fee) in
       fee_pool (dyn_data d' ! i) = fee_pool (dyn_data d ! i) - core \<and>
       accumulated_fees (dyn_data d' ! i) = accumulated_fees (dyn_data d ! i) + amount fee)"
  using assms by (auto simp: convert_fee_def modify_dyn_def add_iff sub_iff Let_def split: if_splits intro: exI [of _ "dyn_data d"])

lemma pay_fee_effect:
  assumes "pay_fee S ts payer core d = Inr d'"
  shows "\<exists>ss. d' = d\<lparr> acc_stats := ss \<rparr>" "\<not> skip_fee ts \<Longrightarrow> pending_total d' payer = pending_total d payer + core"
  using assms by (auto simp: pay_fee_def modify_stats_def stats_pay_fee_def add_iff pending_total_def split: if_splits intro: exI [of _ "acc_stats d"])

end

section \<open>Examples\<close>

definition demo_ts :: trx_eval_state where
  "demo_ts = \<lparr> skip_fee = False, skip_fee_schedule_check = False \<rparr>"

definition demo_transfer :: transfer_operation where
  "demo_transfer = \<lparr> tr_fee = mk_asset 2 0, tr_from = 7, tr_to = 8, tr_amount = mk_asset 5 0 \<rparr>"

definition demo_funded :: chain_db where
  "demo_funded = demo_db\<lparr> balances := [(7, 0) \<mapsto> 100] \<rparr>"

definition demo_vw :: vesting_balance_withdraw_operation where
  "demo_vw = \<lparr> vw_fee = mk_asset 0 0, vw_vesting_balance = 0, vw_owner = 1, vw_amount = mk_asset 50 0 \<rparr>"

definition demo_vested :: chain_db where
  "demo_vested = demo_db\<lparr> head_block_time := 150, vesting_balances := [demo_linear] \<rparr>"

lemmas demo_eval_simps = demo_ts_def demo_transfer_def demo_funded_def demo_db_def demo_account_def demo_stats_def demo_asset_def
  demo_options_def demo_dyn_def start_evaluate_def evaluate_def apply_op_def prepare_fee_def convert_fee_def pay_fee_def
  transfer_do_evaluate_def transfer_do_apply_def is_authorized_asset_def has_flag_def is_transfer_restricted_def
  HARDFORK_1_TIME_def get_balance_def asset_neg_def asset_ge_def asset_less_def adjust_balance_def modify_stats_def modify_obj_def get_obj_def stats_pay_fee_def
  checked_ops_def checked64_def int64_def Let_def

section \<open>Properties\<close>

text \<open>C12: A transfer that goes through happened before the first hardfork, moved exactly the amount from
  the sender to the receiver and the fee out of the sender's balance, left every other balance alone, and put
  the fee, converted at the asset's fee pool if it was not paid in core, into the sender's pending fees.\<close>

theorem transfer_moves_exactly:
  assumes S: "fc_safe S" and run: "start_evaluate S ts req (tr_from op) (tr_fee op) (transfer_do_evaluate op) (transfer_do_apply S op) True d = Inr d'"
  shows "head_block_time d < HARDFORK_1_TIME \<and>
    bal d' = (\<lambda>c z. bal d c z
      + (if z = asset_id (tr_amount op) then (if c = tr_to op then amount (tr_amount op) else 0) - (if c = tr_from op then amount (tr_amount op) else 0) else 0)
      - (if c = tr_from op \<and> z = asset_id (tr_fee op) then amount (tr_fee op) else 0)) \<and>
    (\<exists>core. prepare_fee (tr_from op) (tr_fee op) d = Inr core \<and> (skip_fee_schedule_check ts \<or> req \<le> core) \<and>
      (\<not> skip_fee ts \<longrightarrow> pending_total d' (tr_from op) = pending_total d (tr_from op) + core) \<and>
      (\<not> skip_fee ts \<and> asset_id (tr_fee op) \<noteq> 0 \<longrightarrow> (let i = dynamic_asset_data_id (assets d ! asset_id (tr_fee op)) in
         fee_pool (dyn_data d' ! i) = fee_pool (dyn_data d ! i) - core \<and>
         accumulated_fees (dyn_data d' ! i) = accumulated_fees (dyn_data d ! i) + amount (tr_fee op))))"
proof -
  from run obtain core d1 d2 d3 n nf d4 where pf: "prepare_fee (tr_from op) (tr_fee op) d = Inr core"
    and req: "skip_fee_schedule_check ts \<or> req \<le> core" and ev: "transfer_do_evaluate op d = Inr ()"
    and c: "convert_fee S ts (tr_fee op) core d = Inr d1" and p: "pay_fee S ts (tr_from op) core d1 = Inr d2"
    and n: "asset_neg S (tr_amount op) = Inr n" and d3: "adjust_balance S (tr_from op) n d2 = Inr d3"
    and d4: "adjust_balance S (tr_to op) (tr_amount op) d3 = Inr d4"
    and nf: "asset_neg S (tr_fee op) = Inr nf" and d': "adjust_balance S (tr_from op) nf d4 = Inr d'"
    by (auto simp: start_evaluate_def evaluate_def apply_op_def transfer_do_apply_def)
  from ev have h: "head_block_time d < HARDFORK_1_TIME" by (simp add: transfer_do_evaluate_def)
  from nf have nf': "amount nf = - amount (tr_fee op)" "asset_id nf = asset_id (tr_fee op)"
    by (auto simp: asset_neg_def fc_safe.neg_iff [OF S])
  note e1 = fc_safe.convert_fee_effect [OF S c] and e2 = fc_safe.pay_fee_effect [OF S p] and e3 = fc_safe.move_balance [OF S n d3 d4]
  from e1(1) e2(1) have "bal d2 = bal d" by (auto intro: bal_cong)
  then have b: "bal d' = (\<lambda>c z. bal d c z
      + (if z = asset_id (tr_amount op) then (if c = tr_to op then amount (tr_amount op) else 0) - (if c = tr_from op then amount (tr_amount op) else 0) else 0)
      - (if c = tr_from op \<and> z = asset_id (tr_fee op) then amount (tr_fee op) else 0))"
    unfolding fc_safe.adjust_balance_effect(1) [OF S d'] e3(1) by (auto simp: fun_eq_iff nf')
  from e1(1) e2(1) e3(2) fc_safe.adjust_balance_effect(2) [OF S d'] obtain ds ss bs where
    x: "d1 = d\<lparr> dyn_data := ds \<rparr>" "d2 = d1\<lparr> acc_stats := ss \<rparr>" "d' = d2\<lparr> balances := bs \<rparr>" by auto
  have "pending_total d' (tr_from op) = pending_total d2 (tr_from op)" "pending_total d1 (tr_from op) = pending_total d (tr_from op)"
    "dyn_data d' = dyn_data d1" using x by (simp_all add: pending_total_def)
  with e1(2) e2(2) pf req h b show ?thesis by auto
qed

theorem transfer_moves_exactly_witness:
  "\<exists>d'. start_evaluate checked_ops demo_ts 1 7 (mk_asset 2 0) (transfer_do_evaluate demo_transfer) (transfer_do_apply checked_ops demo_transfer)
      True demo_funded = Inr d' \<and> bal d' 7 0 = 93 \<and> bal d' 8 0 = 5"
proof -
  let ?r = "start_evaluate checked_ops demo_ts 1 (tr_from demo_transfer) (tr_fee demo_transfer) (transfer_do_evaluate demo_transfer)
    (transfer_do_apply checked_ops demo_transfer) True demo_funded"
  have "\<not> isl ?r" by (simp add: demo_eval_simps)
  then obtain d' where r: "?r = Inr d'" by (metis isl_def sum.exhaust)
  note b = transfer_moves_exactly [OF fc_safe_checked_ops r, THEN conjunct2, THEN conjunct1]
  have "bal d' 7 0 = 93" "bal d' 8 0 = 5" unfolding b
    by (simp_all add: demo_transfer_def) (simp_all add: bal_def get_balance_def demo_funded_def demo_db_def)
  then show ?thesis using r by (simp add: demo_transfer_def)
qed

text \<open>A transfer that is valid and passes its check cannot fail when it is applied, provided the
  receiver's balance does not overflow: checking and applying agree.\<close>

theorem transfer_check_suffices:
  assumes S: "fc_safe S" and ok: "balances_ok d" and v: "transfer_validate op = Inr ()" and e: "transfer_do_evaluate op d = Inr ()"
    and a: "int64 (amount (tr_amount op))" "int64 (bal d (tr_to op) (asset_id (tr_amount op)) + amount (tr_amount op))"
  shows "\<exists>d'. transfer_do_apply S op d = Inr d' \<and> balances_ok d' \<and> (\<forall>U z. finite U \<and> tr_from op \<in> U \<and> tr_to op \<in> U \<longrightarrow>
    (\<Sum>c\<in>U. bal d' c z) = (\<Sum>c\<in>U. bal d c z))"
proof -
  let ?x = "asset_id (tr_amount op)" and ?a = "amount (tr_amount op)"
  from v have p: "0 < ?a" "tr_from op \<noteq> tr_to op" by (simp_all add: transfer_validate_def)
  from e have b: "?a \<le> bal d (tr_from op) ?x" by (simp add: transfer_do_evaluate_def bal_def)
  have i: "int64 (bal d c z)" "0 \<le> bal d c z" for c z
    using ok by (auto simp: bal_def get_balance_def balances_ok_def split: option.splits)
  have n: "asset_neg S (tr_amount op) = Inr (mk_asset (- ?a) ?x)" using p a by (auto simp: asset_neg_def fc_safe.neg_iff [OF S] int64_def)
  have na: "int64 (- ?a)" "int64 (bal d (tr_from op) ?x - ?a)" using p a b i [of "tr_from op" ?x] by (auto simp: int64_def)
  from fc_safe.adjust_balance_Inr [OF S ok, of "mk_asset (- ?a) ?x" "tr_from op"] na b
  obtain d1 where d1: "adjust_balance S (tr_from op) (mk_asset (- ?a) ?x) d = Inr d1" by auto
  note e1 = fc_safe.adjust_balance_effect [OF S d1]
  have ok1: "balances_ok d1" using e1(3) ok na by simp
  have "bal d1 (tr_to op) ?x = bal d (tr_to op) ?x" using p unfolding e1(1) by auto
  with fc_safe.adjust_balance_Inr [OF S ok1 a(1), of "tr_to op"] a(2) p i [of "tr_to op" ?x]
  obtain d2 where d2: "adjust_balance S (tr_to op) (tr_amount op) d1 = Inr d2" by auto
  have "(\<Sum>c\<in>U. bal d2 c z) = (\<Sum>c\<in>U. bal d c z)" if "finite U" "tr_from op \<in> U" "tr_to op \<in> U" for U z
    unfolding fc_safe.move_balance(1) [OF S n d1 d2] using sum_move [OF that, of "\<lambda>c. bal d c z" ?a]
    by (cases "z = ?x") (simp_all only: if_True if_False add_0_right simp_thms)
  moreover have "balances_ok d2" using fc_safe.adjust_balance_effect(3) [OF S d2 ok1 a(1)] .
  ultimately show ?thesis using n d1 d2 by (auto simp: transfer_do_apply_def)
qed

theorem transfer_check_suffices_witness:
  "\<exists>d'. transfer_do_apply checked_ops demo_transfer demo_funded = Inr d' \<and> (\<Sum>c\<in>{7, 8}. bal d' c 0) = 100"
proof -
  have ok: "balances_ok demo_funded" by (simp add: balances_ok_def demo_funded_def int64_def)
  have v: "transfer_validate demo_transfer = Inr ()" by (simp add: transfer_validate_def demo_transfer_def)
  have e: "transfer_do_evaluate demo_transfer demo_funded = Inr ()" by (simp add: demo_eval_simps)
  have s: "(\<Sum>c\<in>{7, 8}. bal demo_funded c 0) = 100" by (simp add: bal_def get_balance_def demo_funded_def demo_db_def)
  from transfer_check_suffices [OF fc_safe_checked_ops ok v e] obtain d' where "transfer_do_apply checked_ops demo_transfer demo_funded = Inr d'"
    "\<forall>U z. finite U \<and> 7 \<in> U \<and> 8 \<in> U \<longrightarrow> (\<Sum>c\<in>U. bal d' c z) = (\<Sum>c\<in>U. bal demo_funded c z)"
    by (auto simp: demo_transfer_def int64_def bal_def get_balance_def demo_funded_def demo_db_def)
  then show ?thesis using s by (metis finite.emptyI finite.insertI insertCI)
qed

text \<open>A vesting withdrawal that passes its check, with the vesting balance in its invariant, pays the owner
  exactly the amount that leaves the vesting balance, and leaves the vesting balance in its invariant.\<close>

theorem vesting_withdraw_moves_exactly:
  assumes S: "fc_safe S" and e: "vesting_withdraw_do_evaluate S op d = Inr ()" and r: "vesting_withdraw_do_apply S op d = Inr d'"
    and ok: "vb_ok t (vesting_balances d ! vw_vesting_balance op)" "t \<le> head_block_time d" "head_block_time d < 2 ^ 32"
    and a: "0 \<le> amount (vw_amount op)"
  shows "let v = vesting_balances d ! vw_vesting_balance op; v' = vesting_balances d' ! vw_vesting_balance op in
    vb_owner v = vw_owner op \<and> asset_id (vw_amount op) = asset_id (vb_balance v) \<and>
    amount (vb_balance v') = amount (vb_balance v) - amount (vw_amount op) \<and> 0 \<le> amount (vb_balance v') \<and>
    bal d' = (\<lambda>c z. if c = vw_owner op \<and> z = asset_id (vb_balance v) then bal d c z + amount (vw_amount op) else bal d c z) \<and>
    vb_ok (head_block_time d) v' \<and> (\<forall>i. i \<noteq> vw_vesting_balance op \<longrightarrow> vesting_balances d' ! i = vesting_balances d ! i)"
proof -
  let ?v = "vesting_balances d ! vw_vesting_balance op"
  from e have i: "vw_vesting_balance op < length (vesting_balances d)" and o: "vw_owner op = vb_owner ?v"
    and al: "vb_is_withdraw_allowed S ?v (head_block_time d) (vw_amount op) = Inr True"
    by (auto simp: vesting_withdraw_do_evaluate_def)
  from vb_withdraw_ok [OF S ok al a] obtain v' where v': "vb_withdraw S (head_block_time d) (vw_amount op) ?v = Inr v'"
    "vb_balance v' = mk_asset (amount (vb_balance ?v) - amount (vw_amount op)) (asset_id (vw_amount op))"
    "amount (vw_amount op) \<le> amount (vb_balance ?v)" "vb_ok (head_block_time d) v'"
    "asset_id (vw_amount op) = asset_id (vb_balance ?v)" by blast
  from r v' have adj: "adjust_balance S (vw_owner op) (vw_amount op) (d\<lparr> vesting_balances := (vesting_balances d)[vw_vesting_balance op := v'] \<rparr>) = Inr d'"
    by (auto simp: vesting_withdraw_do_apply_def)
  note ef = fc_safe.adjust_balance_effect(1,2) [OF S adj]
  from ef(2) have vs: "vesting_balances d' = (vesting_balances d)[vw_vesting_balance op := v']" by auto
  have "bal (d\<lparr> vesting_balances := (vesting_balances d)[vw_vesting_balance op := v'] \<rparr>) = bal d" by (rule bal_cong) simp
  with ef(1) have "bal d' = (\<lambda>c z. if c = vw_owner op \<and> z = asset_id (vw_amount op) then bal d c z + amount (vw_amount op) else bal d c z)"
    by (simp only:)
  with v' vs i o show ?thesis by (auto simp: Let_def)
qed

theorem vesting_withdraw_moves_exactly_witness:
  "\<exists>d'. vesting_withdraw_do_apply checked_ops demo_vw demo_vested = Inr d' \<and> bal d' 1 0 = 50 \<and>
     amount (vb_balance (vesting_balances d' ! 0)) = 50"
proof -
  have e: "vesting_withdraw_do_evaluate checked_ops demo_vw demo_vested = Inr ()"
    by (simp add: vesting_withdraw_do_evaluate_def demo_vw_def demo_vested_def demo_db_def get_obj_def demo_linear_def vb_is_withdraw_allowed_def
      linear_is_withdraw_allowed_def linear_get_allowed_withdraw_def to_uint64_def checked_ops_def checked64_def int64_def asset_le_mk)
  have "\<not> isl (vesting_withdraw_do_apply checked_ops demo_vw demo_vested)"
    by (simp add: vesting_withdraw_do_apply_def demo_vw_def demo_vested_def demo_db_def modify_obj_def get_obj_def demo_linear_def vb_withdraw_def
      asset_minus_def checked_ops_def checked64_def int64_def adjust_balance_def Let_def)
  then obtain d' where r: "vesting_withdraw_do_apply checked_ops demo_vw demo_vested = Inr d'" by (metis isl_def sum.exhaust)
  have ok: "vb_ok 0 (vesting_balances demo_vested ! vw_vesting_balance demo_vw)"
    by (simp add: demo_vested_def demo_vw_def demo_linear_def vb_ok_def linear_vested_def GRAPHENE_MAX_SHARE_SUPPLY_def)
  have h: "0 \<le> head_block_time demo_vested" "head_block_time demo_vested < 2 ^ 32" "0 \<le> amount (vw_amount demo_vw)"
    by (simp_all add: demo_vested_def demo_vw_def)
  note f = vesting_withdraw_moves_exactly [OF fc_safe_checked_ops e r ok h, unfolded Let_def]
  note b = f [THEN conjunct2, THEN conjunct2, THEN conjunct2, THEN conjunct2, THEN conjunct1]
  have "bal d' 1 0 = 50" unfolding b
    by (simp add: demo_vw_def demo_vested_def demo_linear_def) (simp add: bal_def get_balance_def demo_db_def)
  moreover have "amount (vb_balance (vesting_balances d' ! 0)) = 50"
    using f [THEN conjunct2, THEN conjunct2, THEN conjunct1] by (simp add: demo_vw_def demo_vested_def demo_linear_def)
  ultimately show ?thesis using r by blast
qed

end
