(* ===== verification/Market.thy ===== *)
theory Market
  imports Evaluator
begin

text \<open>
  The exchange: order matching, margin calls, black swans and forced settlement
  (\<^verbatim>\<open>db_market.cpp\<close>, \<^verbatim>\<open>check_for_blackswan\<close> of \<^verbatim>\<open>db_update.cpp\<close>, \<^verbatim>\<open>market_evaluator.cpp\<close>).

  An iterator range over a price index is the list of the ids it visits, sorted by the index's
  comparison.  The loops only remove or shrink the orders they stand on and never change a price,
  so the list taken at the start is what the iterators see.  A reference to an object that a call
  may remove is its id.  \<^verbatim>\<open>FC_ASSERT\<close> is a branch that throws; the plain \<^verbatim>\<open>assert\<close>s, which release
  builds drop, are no steps.
\<close>

section \<open>Orders\<close>

definition amount_for_sale :: "limit_order_object \<Rightarrow> asset" where
  "amount_for_sale o1 = mk_asset (for_sale o1) (asset_id (base (sell_price o1)))"

definition amount_to_receive :: "limit_order_object \<Rightarrow> asset result" where
  "amount_to_receive o1 = asset_times_price (amount_for_sale o1) (sell_price o1)"

definition get_collateral :: "call_order_object \<Rightarrow> asset" where
  "get_collateral c = mk_asset (collateral c) (asset_id (base (call_price_of c)))"

definition get_debt :: "call_order_object \<Rightarrow> asset" where
  "get_debt c = mk_asset (debt c) (asset_id (quote (call_price_of c)))"

definition collateralization :: "call_order_object \<Rightarrow> price result" where
  "collateralization c = asset_div (get_collateral c) (get_debt c)"

definition get_order :: "(nat \<times> 'a) list \<Rightarrow> nat \<Rightarrow> 'a result" where
  "get_order xs i = deref (map_of xs i)"

definition remove_order :: "nat \<Rightarrow> (nat \<times> 'a) list \<Rightarrow> (nat \<times> 'a) list" where
  "remove_order i xs = filter (\<lambda>p. fst p \<noteq> i) xs"

subsection \<open>Price indexes\<close>

definition limit_before :: "nat \<times> limit_order_object \<Rightarrow> nat \<times> limit_order_object \<Rightarrow> bool" where
  "limit_before a b = (if price_greater (sell_price (snd a)) (sell_price (snd b)) then True
     else if price_greater (sell_price (snd b)) (sell_price (snd a)) then False else fst a < fst b)"

definition call_before :: "nat \<times> call_order_object \<Rightarrow> nat \<times> call_order_object \<Rightarrow> bool" where
  "call_before a b = (if price_less (call_price_of (snd a)) (call_price_of (snd b)) then True
     else if price_less (call_price_of (snd b)) (call_price_of (snd a)) then False else fst a < fst b)"

text \<open>From \<^verbatim>\<open>lower_bound(hi)\<close> to \<^verbatim>\<open>upper_bound(lo)\<close> of the descending limit index, and from
  \<^verbatim>\<open>lower_bound(lo)\<close> to \<^verbatim>\<open>upper_bound(hi)\<close> of the ascending call index.\<close>

definition limit_range :: "chain_db \<Rightarrow> price \<Rightarrow> price \<Rightarrow> nat list" where
  "limit_range d hi lo = map fst (sort_by limit_before
     (filter (\<lambda>p. \<not> price_greater (sell_price (snd p)) hi \<and> \<not> price_greater lo (sell_price (snd p))) (limit_orders d)))"

definition call_range :: "chain_db \<Rightarrow> price \<Rightarrow> price \<Rightarrow> nat list" where
  "call_range d lo hi = map fst (sort_by call_before
     (filter (\<lambda>p. \<not> price_less (call_price_of (snd p)) lo \<and> \<not> price_less hi (call_price_of (snd p))) (call_orders d)))"

section \<open>Fees and payments\<close>

definition calculate_market_fee :: "nat \<Rightarrow> asset_object \<Rightarrow> asset \<Rightarrow> asset result" where
  "calculate_market_fee aid trade_asset trade_amount =
     (if \<not> charges_market_fees trade_asset then Inr (mk_asset 0 aid)
      else if market_fee_percent (options trade_asset) = 0 then Inr (mk_asset 0 aid)
      else rbind (to_uint64 (u128 (u128 (amount trade_amount) * int (market_fee_percent (options trade_asset))) div GRAPHENE_100_PERCENT)) (\<lambda>a.
        let percent_fee = to_int64 a in
        Inr (mk_asset (if percent_fee > max_market_fee (options trade_asset) then max_market_fee (options trade_asset) else percent_fee) aid)))"

definition pay_market_fees :: "safe_ops \<Rightarrow> nat \<Rightarrow> asset \<Rightarrow> chain_db \<Rightarrow> (asset \<times> chain_db) result" where
  "pay_market_fees S aid receives d =
     rbind (get_obj (assets d) aid) (\<lambda>recv_asset.
     rbind (calculate_market_fee aid recv_asset receives) (\<lambda>issuer_fees.
     if amount issuer_fees > 0 then
       rbind (modify_dyn aid (\<lambda>y. rbind (safe_add S (accumulated_fees y) (amount issuer_fees)) (\<lambda>s. Inr (y\<lparr> accumulated_fees := s \<rparr>))) d)
         (\<lambda>d1. Inr (issuer_fees, d1))
     else Inr (issuer_fees, d)))"

definition less_core_in_orders :: "safe_ops \<Rightarrow> share_type \<Rightarrow> account_statistics_object \<Rightarrow> account_statistics_object result" where
  "less_core_in_orders S a s = rbind (safe_sub S (total_core_in_orders s) a) (\<lambda>x. Inr (s\<lparr> total_core_in_orders := x \<rparr>))"

definition pay_order :: "safe_ops \<Rightarrow> nat \<Rightarrow> asset \<Rightarrow> asset \<Rightarrow> chain_db \<Rightarrow> chain_db result" where
  "pay_order S receiver receives pays d =
     rbind (modify_stats receiver (\<lambda>s. if asset_id pays = 0 then less_core_in_orders S (amount pays) s else Inr s) d)
       (adjust_balance S receiver receives)"

definition push_applied_operation :: "applied_operation \<Rightarrow> chain_db \<Rightarrow> chain_db" where
  "push_applied_operation vop d = d\<lparr> applied_ops := applied_ops d @ [vop] \<rparr>"

section \<open>Cancelling\<close>

definition cancel_settlement :: "safe_ops \<Rightarrow> nat \<Rightarrow> bool \<Rightarrow> chain_db \<Rightarrow> chain_db result" where
  "cancel_settlement S i create_virtual_op d =
     rbind (get_order (settlements d) i) (\<lambda>order.
     rbind (adjust_balance S (fs_owner order) (fs_balance order) d) (\<lambda>d1.
     let d2 = (if create_virtual_op then push_applied_operation (Asset_settle_cancel_operation (Settle_ref i) (fs_owner order) (fs_balance order)) d1 else d1)
     in Inr (d2\<lparr> settlements := remove_order i (settlements d2) \<rparr>)))"

definition cancel_limit_order :: "safe_ops \<Rightarrow> nat \<Rightarrow> bool \<Rightarrow> chain_db \<Rightarrow> chain_db result" where
  "cancel_limit_order S i create_virtual_op d =
     rbind (get_order (limit_orders d) i) (\<lambda>order.
     let refunded = amount_for_sale order in
     rbind (modify_stats (seller order) (\<lambda>s. if asset_id refunded = 0 then less_core_in_orders S (amount refunded) s else Inr s) d) (\<lambda>d1.
     rbind (adjust_balance S (seller order) refunded d1) (\<lambda>d2.
     rbind (adjust_balance S (seller order) (mk_asset (deferred_fee order) 0) d2) (\<lambda>d3.
     let d4 = (if create_virtual_op then push_applied_operation (Limit_order_cancel_operation (Limit_ref i) (seller order)) d3 else d3)
     in Inr (d4\<lparr> limit_orders := remove_order i (limit_orders d4) \<rparr>)))))"

definition maybe_cull_small_order :: "safe_ops \<Rightarrow> nat \<Rightarrow> chain_db \<Rightarrow> (bool \<times> chain_db) result" where
  "maybe_cull_small_order S i d =
     rbind (get_order (limit_orders d) i) (\<lambda>order.
     rbind (amount_to_receive order) (\<lambda>r.
     if amount r = 0 then rbind (cancel_limit_order S i True d) (\<lambda>d1. Inr (True, d1)) else Inr (False, d)))"

section \<open>Filling\<close>

definition fill_limit_order :: "safe_ops \<Rightarrow> nat \<Rightarrow> asset \<Rightarrow> asset \<Rightarrow> bool \<Rightarrow> chain_db \<Rightarrow> (bool \<times> chain_db) result" where
  "fill_limit_order S i pays receives cull_if_small d =
     rbind (get_order (limit_orders d) i) (\<lambda>order.
     ensure (asset_id (amount_for_sale order) = asset_id pays) (
     rbind (get_obj (accounts d) (seller order)) (\<lambda>_.
     rbind (pay_market_fees S (asset_id receives) receives d) (\<lambda>(issuer_fees, d1).
     rbind (asset_minus S receives issuer_fees) (\<lambda>net.
     rbind (pay_order S (seller order) net pays d1) (\<lambda>d2.
     let d3 = push_applied_operation (Fill_order_operation (Limit_ref i) (seller order) pays receives issuer_fees) d2 in
     rbind (if deferred_fee order > 0
            then modify_stats (seller order) (stats_pay_fee S (deferred_fee order) (cashback_vesting_threshold d3)) d3 else Inr d3) (\<lambda>d4.
     if asset_eq pays (amount_for_sale order) then Inr (True, d4\<lparr> limit_orders := remove_order i (limit_orders d4) \<rparr>)
     else
       rbind (safe_sub S (for_sale order) (amount pays)) (\<lambda>fs.
       let d5 = d4\<lparr> limit_orders := AList.update i (order\<lparr> for_sale := fs, deferred_fee := 0 \<rparr>) (limit_orders d4) \<rparr> in
       if cull_if_small then maybe_cull_small_order S i d5 else Inr (False, d5)))))))))"

definition fill_call_order :: "safe_ops \<Rightarrow> nat \<Rightarrow> asset \<Rightarrow> asset \<Rightarrow> chain_db \<Rightarrow> (bool \<times> chain_db) result" where
  "fill_call_order S i pays receives d =
     rbind (get_order (call_orders d) i) (\<lambda>order.
     ensure (asset_id (get_debt order) = asset_id receives) (
     ensure (asset_id (get_collateral order) = asset_id pays) (
     rbind (asset_ge (get_collateral order) pays) (\<lambda>enough. ensure enough (
     rbind (safe_sub S (debt order) (amount receives)) (\<lambda>dbt.
     rbind (safe_sub S (collateral order) (amount pays)) (\<lambda>coll.
     let closed = (dbt = 0);
         order1 = order\<lparr> debt := dbt, collateral := (if closed then 0 else coll) \<rparr>;
         freed = mk_asset coll (asset_id (base (call_price_of order)));
         d1 = d\<lparr> call_orders := AList.update i order1 (call_orders d) \<rparr> in
     rbind (modify_dyn (asset_id receives) (\<lambda>y. rbind (safe_sub S (current_supply y) (amount receives)) (\<lambda>s. Inr (y\<lparr> current_supply := s \<rparr>))) d1) (\<lambda>d2.
     rbind (get_obj (accounts d2) (borrower order)) (\<lambda>_.
     rbind (if closed \<or> asset_id pays = 0 then
              rbind (if closed then adjust_balance S (borrower order) freed d2 else Inr d2) (\<lambda>d3.
              modify_stats (borrower order) (\<lambda>b.
                rbind (if closed \<and> amount freed > 0 then less_core_in_orders S (amount freed) b else Inr b) (\<lambda>b1.
                if asset_id pays = 0 then less_core_in_orders S (amount pays) b1 else Inr b1)) d3)
            else Inr d2) (\<lambda>d4.
     let d5 = push_applied_operation (Fill_order_operation (Call_ref i) (borrower order) pays receives (mk_asset 0 (asset_id pays))) d4;
         d6 = (if closed then d5\<lparr> call_orders := remove_order i (call_orders d5) \<rparr> else d5)
     in Inr (closed, d6)))))))))))"

definition fill_settlement :: "safe_ops \<Rightarrow> nat \<Rightarrow> asset \<Rightarrow> asset \<Rightarrow> chain_db \<Rightarrow> (bool \<times> chain_db) result" where
  "fill_settlement S i pays receives d =
     rbind (get_order (settlements d) i) (\<lambda>settle.
     rbind (pay_market_fees S (asset_id receives) receives d) (\<lambda>(issuer_fees, d1).
     rbind (asset_less pays (fs_balance settle)) (\<lambda>partial.
     rbind (if partial
            then rbind (asset_minus S (fs_balance settle) pays) (\<lambda>b.
                   Inr (d1\<lparr> settlements := AList.update i (settle\<lparr> fs_balance := b \<rparr>) (settlements d1) \<rparr>))
            else Inr d1) (\<lambda>d2.
     rbind (asset_minus S receives issuer_fees) (\<lambda>net.
     rbind (adjust_balance S (fs_owner settle) net d2) (\<lambda>d3.
     let d4 = push_applied_operation (Fill_order_operation (Settle_ref i) (fs_owner settle) pays receives issuer_fees) d3 in
     Inr (\<not> partial, if partial then d4 else d4\<lparr> settlements := remove_order i (settlements d4) \<rparr>)))))))"

section \<open>Matching\<close>

definition match_limit :: "safe_ops \<Rightarrow> nat \<Rightarrow> nat \<Rightarrow> price \<Rightarrow> chain_db \<Rightarrow> (bool \<times> bool \<times> chain_db) result" where
  "match_limit S usd core match_price d =
     rbind (get_order (limit_orders d) usd) (\<lambda>u.
     rbind (get_order (limit_orders d) core) (\<lambda>c.
     rbind (asset_times_price (amount_for_sale c) match_price) (\<lambda>x.
     rbind (asset_le (amount_for_sale u) x) (\<lambda>b.
     rbind (if b then rbind (asset_times_price (amount_for_sale u) match_price) (\<lambda>r. Inr (amount_for_sale u, r))
            else Inr (x, amount_for_sale c)) (\<lambda>(core_receives, usd_receives).
     rbind (fill_limit_order S usd core_receives usd_receives False d) (\<lambda>(f1, d1).
     rbind (fill_limit_order S core usd_receives core_receives True d1) (\<lambda>(f2, d2).
     Inr (f1, f2, d2))))))))"

definition asset_min :: "asset \<Rightarrow> asset \<Rightarrow> asset result" where
  "asset_min a b = rbind (asset_less b a) (\<lambda>l. Inr (if l then b else a))"

definition match_settle :: "safe_ops \<Rightarrow> nat \<Rightarrow> nat \<Rightarrow> price \<Rightarrow> asset \<Rightarrow> chain_db \<Rightarrow> (asset \<times> chain_db) result" where
  "match_settle S ci si match_price max_settlement d =
     rbind (get_order (call_orders d) ci) (\<lambda>call.
     rbind (get_order (settlements d) si) (\<lambda>settle.
     ensure (asset_id (get_debt call) = asset_id (fs_balance settle)) (
     ensure (debt call > 0 \<and> collateral call > 0 \<and> amount (fs_balance settle) > 0) (
     rbind (asset_min (fs_balance settle) max_settlement) (\<lambda>settle_for_sale.
     rbind (asset_min settle_for_sale (get_debt call)) (\<lambda>call_receives.
     rbind (asset_times_price call_receives match_price) (\<lambda>call_pays.
     rbind (asset_less call_pays (get_collateral call)) (\<lambda>l. throw_unless Black_swan_exception l (
     rbind (fill_call_order S ci call_pays call_receives d) (\<lambda>(_, d1).
     rbind (fill_settlement S si call_receives call_pays d1) (\<lambda>(_, d2).
     Inr (call_receives, d2))))))))))))"

section \<open>Black swans\<close>

definition bitasset_of :: "chain_db \<Rightarrow> nat \<Rightarrow> asset_bitasset_data_object result" where
  "bitasset_of d mia = rbind (get_obj (assets d) mia) (\<lambda>a. rbind (deref (bitasset_data_id a)) (get_obj (bitassets d)))"

definition modify_bitasset :: "nat \<Rightarrow> (asset_bitasset_data_object \<Rightarrow> asset_bitasset_data_object result) \<Rightarrow> chain_db \<Rightarrow> chain_db result" where
  "modify_bitasset mia f d =
     rbind (get_obj (assets d) mia) (\<lambda>a.
     rbind (deref (bitasset_data_id a)) (\<lambda>i.
     rbind (modify_obj i f (bitassets d)) (\<lambda>bs. Inr (d\<lparr> bitassets := bs \<rparr>))))"

definition has_settlement :: "asset_bitasset_data_object \<Rightarrow> bool" where
  "has_settlement b \<longleftrightarrow> \<not> price_is_null (ba_settlement_price b)"

fun settle_calls :: "safe_ops \<Rightarrow> price \<Rightarrow> nat list \<Rightarrow> asset \<Rightarrow> chain_db \<Rightarrow> (asset \<times> chain_db) result" where
  "settle_calls S sp [] gathered d = Inr (gathered, d)"
| "settle_calls S sp (i # is) gathered d =
     rbind (get_order (call_orders d) i) (\<lambda>call.
     rbind (asset_times_price (get_debt call) sp) (\<lambda>pays0.
     rbind (asset_greater pays0 (get_collateral call)) (\<lambda>g.
     let pays = (if g then get_collateral call else pays0) in
     rbind (asset_plus S gathered pays) (\<lambda>gathered1.
     rbind (fill_call_order S i pays (get_debt call) d) (\<lambda>(filled, d1).
     ensure filled (settle_calls S sp is gathered1 d1))))))"

definition globally_settle_asset :: "safe_ops \<Rightarrow> nat \<Rightarrow> price \<Rightarrow> chain_db \<Rightarrow> chain_db result" where
  "globally_settle_asset S mia sp d =
     rbind (bitasset_of d mia) (\<lambda>bitasset.
     ensure (\<not> has_settlement bitasset) (
     rbind (get_obj (assets d) (short_backing_asset (ba_options bitasset))) (\<lambda>_.
     rbind (get_obj (assets d) mia) (\<lambda>a.
     rbind (get_obj (dyn_data d) (dynamic_asset_data_id a)) (\<lambda>mia_dyn.
     rbind (price_min (short_backing_asset (ba_options bitasset)) mia) (\<lambda>lo.
     rbind (price_max (short_backing_asset (ba_options bitasset)) mia) (\<lambda>hi.
     rbind (settle_calls S sp (call_range d lo hi) (mk_asset 0 (short_backing_asset (ba_options bitasset))) d) (\<lambda>(gathered, d1).
     rbind (modify_bitasset mia (\<lambda>b. rbind (asset_div (mk_asset (current_supply mia_dyn) mia) gathered) (\<lambda>q.
        Inr (b\<lparr> ba_settlement_price := q, settlement_fund := amount gathered \<rparr>))) d1) (\<lambda>d2.
     modify_dyn mia (\<lambda>y. Inr (y\<lparr> current_supply := current_supply mia_dyn \<rparr>)) d2)))))))))"

definition price_max_of :: "price \<Rightarrow> price \<Rightarrow> price" where
  "price_max_of a b = (if price_less a b then b else a)"

definition check_for_blackswan :: "safe_ops \<Rightarrow> nat \<Rightarrow> bool \<Rightarrow> chain_db \<Rightarrow> (bool \<times> chain_db) result" where
  "check_for_blackswan S mia enable_black_swan d =
     rbind (get_obj (assets d) mia) (\<lambda>a.
     if \<not> is_market_issued a then Inr (False, d)
     else rbind (bitasset_of d mia) (\<lambda>bitasset.
     if has_settlement bitasset then Inr (True, d)
     else
       let settle_price = settlement_price (current_feed bitasset); backing = short_backing_asset (ba_options bitasset) in
       if price_is_null settle_price then Inr (False, d)
       else
         rbind (price_max mia backing) (\<lambda>highest_possible_bid.
         rbind (price_min mia backing) (\<lambda>lowest_possible_bid.
         rbind (price_min backing mia) (\<lambda>call_min.
         rbind (price_max backing mia) (\<lambda>call_max.
         case call_range d call_min call_max of
           [] \<Rightarrow> Inr (False, d)
         | c # _ \<Rightarrow>
             rbind (case limit_range d highest_possible_bid lowest_possible_bid of
                      [] \<Rightarrow> Inr settle_price
                    | l # _ \<Rightarrow> rbind (get_order (limit_orders d) l) (\<lambda>lo. Inr (price_max_of (sell_price lo) settle_price))) (\<lambda>highest.
             rbind (get_order (call_orders d) c) (\<lambda>call.
             rbind (collateralization call) (\<lambda>least_collateral.
             if price_ge (price_inv least_collateral) highest then
               ensure enable_black_swan (rbind (globally_settle_asset S mia (price_inv least_collateral) d) (\<lambda>d1. Inr (True, d1)))
             else Inr (False, d)))))))))) "

section \<open>Margin calls\<close>

text \<open>The amounts of one margin call, and whether it fills the limit order (\<open>filled_limit\<close> is only ever
  set, never cleared, as in the source) and the call.\<close>

definition margin_amounts :: "asset \<Rightarrow> asset \<Rightarrow> price \<Rightarrow> bool \<Rightarrow> (asset \<times> asset \<times> bool \<times> bool) result" where
  "margin_amounts usd_to_buy usd_for_sale match_price filled_limit =
     rbind (asset_ge usd_to_buy usd_for_sale) (\<lambda>b.
     if b then rbind (asset_times_price usd_for_sale match_price) (\<lambda>r. Inr (usd_for_sale, r, True, asset_eq usd_to_buy usd_for_sale))
     else rbind (asset_times_price usd_to_buy match_price) (\<lambda>r. Inr (usd_to_buy, r, filled_limit, True)))"

function margin_loop :: "safe_ops \<Rightarrow> nat \<Rightarrow> bool \<Rightarrow> nat list \<Rightarrow> nat list \<Rightarrow> bool \<Rightarrow> bool \<Rightarrow> chain_db \<Rightarrow> (bool \<times> chain_db) result" where
  "margin_loop S mia enable_black_swan calls limits filled_limit margin_called d =
     rbind (check_for_blackswan S mia enable_black_swan d) (\<lambda>(swan, d).
     case calls of [] \<Rightarrow> Inr (margin_called, d)
     | call_id # calls' \<Rightarrow>
       if swan then Inr (margin_called, d)
       else (case limits of [] \<Rightarrow> Inr (margin_called, d)
     | limit_id # limits' \<Rightarrow>
       rbind (bitasset_of d mia) (\<lambda>bitasset.
       rbind (get_order (limit_orders d) limit_id) (\<lambda>limit.
       rbind (get_order (call_orders d) call_id) (\<lambda>call.
       let match_price = sell_price limit; usd_for_sale = amount_for_sale limit; feed = settlement_price (current_feed bitasset) in
       rbind (price_validate match_price) (\<lambda>_.
       if price_greater feed (price_inv (call_price_of call)) then Inr (margin_called, d)
       else if price_greater match_price (price_inv (call_price_of call)) then Inr (margin_called, d)
       else
         let usd_to_buy = get_debt call in
         rbind (asset_times_price usd_to_buy match_price) (\<lambda>needed.
         rbind (asset_greater needed (get_collateral call)) (\<lambda>short.
         if short then
           ensure enable_black_swan (rbind (globally_settle_asset S mia feed d) (\<lambda>d1. Inr (True, d1)))
         else
           rbind (margin_amounts usd_to_buy usd_for_sale match_price filled_limit) (\<lambda>(usd, coll, filled_limit1, filled_call).
           ensure (filled_call \<or> filled_limit1) (
           rbind (fill_call_order S call_id coll usd d) (\<lambda>(_, d1).
           rbind (fill_limit_order S limit_id usd coll True d1) (\<lambda>(_, d2).
           margin_loop S mia enable_black_swan (if filled_call then calls' else calls) (if filled_limit1 then limits' else limits)
             filled_limit1 True d2))))))))))))"
  by pat_completeness auto

termination margin_loop
  by (relation "measure (\<lambda>(S, mia, e, calls, limits, f, m, d). length calls + length limits)") (auto simp: ensure_def split: if_splits)

declare margin_loop.simps [simp del]

definition check_call_orders :: "safe_ops \<Rightarrow> nat \<Rightarrow> bool \<Rightarrow> chain_db \<Rightarrow> (bool \<times> chain_db) result" where
  "check_call_orders S mia enable_black_swan d =
     rbind (get_obj (assets d) mia) (\<lambda>a.
     if \<not> is_market_issued a then Inr (False, d)
     else rbind (check_for_blackswan S mia enable_black_swan d) (\<lambda>(swan, d).
     if swan then Inr (False, d)
     else rbind (bitasset_of d mia) (\<lambda>bitasset.
     if is_prediction_market bitasset then Inr (False, d)
     else if price_is_null (settlement_price (current_feed bitasset)) then Inr (False, d)
     else
       let backing = short_backing_asset (ba_options bitasset) in
       rbind (price_max mia backing) (\<lambda>max_price.
       rbind (max_short_squeeze_price (current_feed bitasset)) (\<lambda>min_price.
       let limits = limit_range d max_price min_price in
       if limits = [] then Inr (False, d)
       else
         rbind (price_min backing mia) (\<lambda>call_min.
         rbind (price_max backing mia) (\<lambda>call_max.
         margin_loop S mia enable_black_swan (call_range d call_min call_max) limits False False d)))))))"

section \<open>Placing an order\<close>

fun match_book :: "safe_ops \<Rightarrow> nat \<Rightarrow> nat list \<Rightarrow> chain_db \<Rightarrow> chain_db result" where
  "match_book S new [] d = Inr d"
| "match_book S new (i # is) d =
     rbind (get_order (limit_orders d) i) (\<lambda>old.
     rbind (match_limit S new i (sell_price old) d) (\<lambda>(new_filled, old_filled, d1).
     if \<not> new_filled \<and> old_filled then match_book S new is d1 else Inr d1))"

definition apply_order :: "safe_ops \<Rightarrow> nat \<Rightarrow> bool \<Rightarrow> chain_db \<Rightarrow> (bool \<times> chain_db) result" where
  "apply_order S order_id allow_black_swan d =
     rbind (get_order (limit_orders d) order_id) (\<lambda>new_order.
     rbind (amount_to_receive new_order) (\<lambda>recv.
     let sell_asset = asset_id (amount_for_sale new_order); receive_asset = asset_id recv in
     rbind (get_obj (assets d) sell_asset) (\<lambda>_.
     rbind (get_obj (assets d) receive_asset) (\<lambda>_.
     rbind (check_call_orders S sell_asset allow_black_swan d) (\<lambda>(called1, d1).
     rbind (check_call_orders S receive_asset allow_black_swan d1) (\<lambda>(called2, d2).
     if (called1 \<or> called2) \<and> map_of (limit_orders d2) order_id = None then Inr (True, d2)
     else
       let max_price = price_inv (sell_price new_order) in
       rbind (price_max (asset_id (base max_price)) (asset_id (quote max_price))) (\<lambda>hi.
       rbind (match_book S order_id (limit_range d2 hi max_price) d2) (\<lambda>d3.
       rbind (check_call_orders S sell_asset allow_black_swan d3) (\<lambda>(_, d4).
       rbind (check_call_orders S receive_asset allow_black_swan d4) (\<lambda>(_, d5).
       if map_of (limit_orders d5) order_id = None then Inr (True, d5)
       else maybe_cull_small_order S order_id d5))))))))))"

section \<open>Evaluators\<close>

record limit_order_create_operation =
  lo_fee :: asset
  lo_seller :: nat
  lo_amount_to_sell :: asset
  lo_min_to_receive :: asset
  lo_expiration :: nat
  lo_fill_or_kill :: bool

definition limit_order_create_validate :: "limit_order_create_operation \<Rightarrow> unit result" where
  "limit_order_create_validate op =
     ensure (asset_id (lo_amount_to_sell op) \<noteq> asset_id (lo_min_to_receive op)) (
     ensure (amount (lo_fee op) \<ge> 0) (
     ensure (amount (lo_amount_to_sell op) > 0) (
     ensure (amount (lo_min_to_receive op) > 0) (Inr ()))))"

text \<open>\<^verbatim>\<open>FC_ASSERT( false, "Limit order create operation is not supported for now.")\<close> comes first.\<close>

definition limit_order_create_do_evaluate :: "limit_order_create_operation \<Rightarrow> chain_db \<Rightarrow> unit result" where
  "limit_order_create_do_evaluate op d =
     ensure False (
     ensure (head_block_time d < HARDFORK_1_TIME) (
     ensure (lo_expiration op \<ge> head_block_time d) (
     rbind (get_obj (accounts d) (lo_seller op)) (\<lambda>slr.
     rbind (get_obj (assets d) (asset_id (lo_amount_to_sell op))) (\<lambda>sell_asset.
     rbind (get_obj (assets d) (asset_id (lo_min_to_receive op))) (\<lambda>receive_asset.
     ensure (whitelist_markets (options sell_asset) \<noteq> [] \<longrightarrow> asset_id (lo_min_to_receive op) \<in> set (whitelist_markets (options sell_asset))) (
     ensure (blacklist_markets (options sell_asset) \<noteq> [] \<longrightarrow> asset_id (lo_min_to_receive op) \<notin> set (blacklist_markets (options sell_asset))) (
     ensure (is_authorized_asset slr (asset_id (lo_amount_to_sell op)) sell_asset) (
     ensure (is_authorized_asset slr (asset_id (lo_min_to_receive op)) receive_asset) (
     rbind (asset_ge (get_balance d (lo_seller op) (asset_id (lo_amount_to_sell op))) (lo_amount_to_sell op)) (\<lambda>b. ensure b (Inr ()))))))))))))"

definition limit_order_create_do_apply :: "safe_ops \<Rightarrow> limit_order_create_operation \<Rightarrow> share_type \<Rightarrow> chain_db \<Rightarrow> (nat \<times> chain_db) result" where
  "limit_order_create_do_apply S op deferred d =
     rbind (modify_stats (lo_seller op) (\<lambda>s. if asset_id (lo_amount_to_sell op) = 0
       then rbind (safe_add S (total_core_in_orders s) (amount (lo_amount_to_sell op))) (\<lambda>x. Inr (s\<lparr> total_core_in_orders := x \<rparr>)) else Inr s) d) (\<lambda>d1.
     rbind (asset_neg S (lo_amount_to_sell op)) (\<lambda>n.
     rbind (adjust_balance S (lo_seller op) n d1) (\<lambda>d2.
     rbind (asset_div (lo_amount_to_sell op) (lo_min_to_receive op)) (\<lambda>p.
     let order_id = next_limit_order d2;
         order = \<lparr> expiration = lo_expiration op, seller = lo_seller op, for_sale = amount (lo_amount_to_sell op), sell_price = p, deferred_fee = deferred \<rparr>;
         d3 = d2\<lparr> limit_orders := limit_orders d2 @ [(order_id, order)], next_limit_order := Suc order_id \<rparr> in
     rbind (apply_order S order_id True d3) (\<lambda>(filled, d4).
     ensure (\<not> lo_fill_or_kill op \<or> filled) (Inr (order_id, d4)))))))"

record limit_order_cancel_operation =
  lc_fee :: asset
  lc_order :: nat
  lc_fee_paying_account :: nat

definition limit_order_cancel_validate :: "limit_order_cancel_operation \<Rightarrow> unit result" where
  "limit_order_cancel_validate op = ensure (amount (lc_fee op) \<ge> 0) (Inr ())"

definition limit_order_cancel_do_evaluate :: "limit_order_cancel_operation \<Rightarrow> chain_db \<Rightarrow> unit result" where
  "limit_order_cancel_do_evaluate op d =
     ensure (head_block_time d < HARDFORK_1_TIME) (
     rbind (get_order (limit_orders d) (lc_order op)) (\<lambda>o1. ensure (seller o1 = lc_fee_paying_account op) (Inr ())))"

definition limit_order_cancel_do_apply :: "safe_ops \<Rightarrow> limit_order_cancel_operation \<Rightarrow> chain_db \<Rightarrow> (asset \<times> chain_db) result" where
  "limit_order_cancel_do_apply S op d =
     rbind (get_order (limit_orders d) (lc_order op)) (\<lambda>o1.
     rbind (cancel_limit_order S (lc_order op) False d) (\<lambda>d1.
     rbind (check_call_orders S (asset_id (base (sell_price o1))) True d1) (\<lambda>(_, d2).
     rbind (check_call_orders S (asset_id (quote (sell_price o1))) True d2) (\<lambda>(_, d3).
     Inr (amount_for_sale o1, d3)))))"

record call_order_update_operation =
  cu_fee :: asset
  cu_funding_account :: nat
  cu_delta_collateral :: asset
  cu_delta_debt :: asset

definition call_order_update_validate :: "call_order_update_operation \<Rightarrow> unit result" where
  "call_order_update_validate op =
     ensure (amount (cu_fee op) \<ge> 0) (
     ensure (asset_id (cu_delta_collateral op) \<noteq> asset_id (cu_delta_debt op)) (
     ensure (amount (cu_delta_collateral op) \<noteq> 0 \<or> amount (cu_delta_debt op) \<noteq> 0) (Inr ())))"

definition call_order_update_do_evaluate :: "call_order_update_operation \<Rightarrow> chain_db \<Rightarrow> unit result" where
  "call_order_update_do_evaluate op d =
     ensure (head_block_time d < HARDFORK_1_TIME) (
     rbind (get_obj (accounts d) (cu_funding_account op)) (\<lambda>_.
     rbind (get_obj (assets d) (asset_id (cu_delta_debt op))) (\<lambda>debt_asset.
     ensure (is_market_issued debt_asset) (
     rbind (bitasset_of d (asset_id (cu_delta_debt op))) (\<lambda>bitasset.
     ensure (\<not> has_settlement bitasset) (
     ensure (asset_id (cu_delta_collateral op) = short_backing_asset (ba_options bitasset)) (
     rbind (if is_prediction_market bitasset then ensure (amount (cu_delta_collateral op) = amount (cu_delta_debt op)) (Inr ())
            else throw_unless Insufficient_feeds (\<not> price_is_null (settlement_price (current_feed bitasset))) (Inr ())) (\<lambda>_.
     rbind (if amount (cu_delta_debt op) < 0
            then rbind (asset_ge (get_balance d (cu_funding_account op) (asset_id (cu_delta_debt op))) (cu_delta_debt op)) (\<lambda>b. ensure b (Inr ()))
            else Inr ()) (\<lambda>_.
     if amount (cu_delta_collateral op) > 0
     then rbind (asset_ge (get_balance d (cu_funding_account op) (short_backing_asset (ba_options bitasset))) (cu_delta_collateral op))
            (\<lambda>b. ensure b (Inr ()))
     else Inr ())))))))))"

text \<open>\<^verbatim>\<open>FC_ASSERT( false, "Call order update operation is not supported for now.")\<close> opens the action, so
  nothing after it is reached.\<close>

definition call_order_update_do_apply :: "safe_ops \<Rightarrow> call_order_update_operation \<Rightarrow> chain_db \<Rightarrow> chain_db result" where
  "call_order_update_do_apply S op d = Inl Assert_exception"

end
