(* ===== verification/Market_Conservation.thy ===== *)
theory Market_Conservation
  imports Market
begin

text \<open>
  Nothing is created or lost in the market: for every asset, what accounts, orders, margin
  positions, fee accounts and settlement funds hold, less the recorded supply, is unchanged by
  matching orders, cancelling them, margin calls and global settlement.
\<close>

section \<open>What is held\<close>

definition limit_worth :: "nat \<Rightarrow> nat \<times> limit_order_object \<Rightarrow> int" where
  "limit_worth x p = (if asset_id (base (sell_price (snd p))) = x then for_sale (snd p) else 0) + (if x = 0 then deferred_fee (snd p) else 0)"

definition call_worth :: "nat \<Rightarrow> nat \<times> call_order_object \<Rightarrow> int" where
  "call_worth x p = (if asset_id (base (call_price_of (snd p))) = x then collateral (snd p) else 0)"

definition settle_worth :: "nat \<Rightarrow> nat \<times> force_settlement_object \<Rightarrow> int" where
  "settle_worth x p = (if asset_id (fs_balance (snd p)) = x then amount (fs_balance (snd p)) else 0)"

definition stat_worth :: "account_statistics_object \<Rightarrow> int" where
  "stat_worth s = pending_fees s + pending_vested_fees s"

definition fund_worth :: "nat \<Rightarrow> asset_bitasset_data_object \<Rightarrow> int" where
  "fund_worth x b = (if short_backing_asset (ba_options b) = x then settlement_fund b else 0)"

definition vest_worth :: "nat \<Rightarrow> vesting_balance_object \<Rightarrow> int" where
  "vest_worth x v = (if asset_id (vb_balance v) = x then amount (vb_balance v) else 0)"

definition claim_worth :: "nat \<Rightarrow> nat \<times> balance_object \<Rightarrow> int" where
  "claim_worth x p = (if asset_id (bo_balance (snd p)) = x then amount (bo_balance (snd p)) else 0)"

definition dyn_of :: "chain_db \<Rightarrow> nat \<Rightarrow> asset_dynamic_data_object" where
  "dyn_of d x = dyn_data d ! dynamic_asset_data_id (assets d ! x)"

definition gross :: "chain_db \<Rightarrow> nat \<Rightarrow> int" where
  "gross d x = (\<Sum>c<length (accounts d). bal d c x) + sum_list (map (limit_worth x) (limit_orders d)) +
     sum_list (map (call_worth x) (call_orders d)) + sum_list (map (settle_worth x) (settlements d)) +
     (if x = 0 then sum_list (map stat_worth (acc_stats d)) + sum_list (map fee_pool (dyn_data d)) else 0) +
     sum_list (map (vest_worth x) (vesting_balances d)) + sum_list (map (claim_worth x) (claim_balances d)) +
     (if x < length (assets d) then accumulated_fees (dyn_of d x) else 0) + sum_list (map (fund_worth x) (bitassets d))"

definition supply_of :: "chain_db \<Rightarrow> nat \<Rightarrow> int" where
  "supply_of d x = (if x < length (assets d) then current_supply (dyn_of d x) else 0)"

definition claim_ok :: "balance_object \<Rightarrow> bool" where
  "claim_ok b \<longleftrightarrow> 0 \<le> amount (bo_balance b) \<and> (case bo_vesting_policy b of None \<Rightarrow> True
     | Some p \<Rightarrow> 0 \<le> begin_balance p \<and> begin_balance p \<le> GRAPHENE_MAX_SHARE_SUPPLY \<and> vesting_duration_seconds p < 2 ^ 32)"

text \<open>A bitasset belongs to one asset; once settled, its price is of that asset in its backing asset.\<close>

definition settled_ok :: "asset_object list \<Rightarrow> asset_bitasset_data_object list \<Rightarrow> bool" where
  "settled_ok as bs \<longleftrightarrow>
     (\<forall>x<length as. \<forall>y<length as. bitasset_data_id (as ! x) \<noteq> None \<longrightarrow> bitasset_data_id (as ! x) = bitasset_data_id (as ! y) \<longrightarrow> x = y) \<and>
     (\<forall>x<length as. \<forall>i<length bs. bitasset_data_id (as ! x) = Some i \<longrightarrow> has_settlement (bs ! i) \<longrightarrow>
        asset_id (base (ba_settlement_price (bs ! i))) = x \<and> asset_id (quote (ba_settlement_price (bs ! i))) = short_backing_asset (ba_options (bs ! i)))"

text \<open>Every balance is an account's, and none is negative.\<close>

definition balances_owned :: "nat \<Rightarrow> (nat \<times> nat \<rightharpoonup> int) \<Rightarrow> bool" where
  "balances_owned n bs \<longleftrightarrow> (\<forall>k b. bs k = Some b \<longrightarrow> fst k < n \<and> 0 \<le> b)"

definition market_wf :: "chain_db \<Rightarrow> bool" where
  "market_wf d \<longleftrightarrow> distinct (map fst (limit_orders d)) \<and> distinct (map fst (call_orders d)) \<and> distinct (map fst (settlements d)) \<and>
     (\<forall>p\<in>set (limit_orders d). 0 \<le> for_sale (snd p) \<and> int64 (for_sale (snd p)) \<and> 0 \<le> deferred_fee (snd p) \<and> valid_price (sell_price (snd p))) \<and>
     (\<forall>x<length (assets d). dynamic_asset_data_id (assets d ! x) < length (dyn_data d) \<and>
        0 \<le> max_market_fee (options (assets d ! x)) \<and> int (market_fee_percent (options (assets d ! x))) \<le> GRAPHENE_100_PERCENT) \<and>
     (\<forall>x<length (assets d). \<forall>y<length (assets d).
        dynamic_asset_data_id (assets d ! x) = dynamic_asset_data_id (assets d ! y) \<longrightarrow> x = y) \<and>
     (\<forall>b\<in>set (bitassets d). \<not> has_settlement b \<longrightarrow> settlement_fund b = 0) \<and>
     (\<forall>p\<in>set (limit_orders d). fst p < next_limit_order d) \<and> distinct (map fst (claim_balances d)) \<and>
     (\<forall>p\<in>set (claim_balances d). claim_ok (snd p)) \<and>
     assets d \<noteq> [] \<and> dynamic_asset_data_id (assets d ! 0) = 0 \<and>
     (\<forall>p\<in>set (settlements d). fst p < next_settlement d \<and> fs_owner (snd p) < length (accounts d)) \<and> settled_ok (assets d) (bitassets d) \<and>
     (\<forall>p\<in>set (withdraw_permissions d). wp_withdraw_from_account (snd p) < length (accounts d)) \<and>
     (\<forall>a\<in>set (assets d). \<forall>i. buyback_account a = Some i \<longrightarrow> i < length (accounts d)) \<and>
     balances_owned (length (accounts d)) (balances d)"

text \<open>The clock, and the fees set aside for buybacks, which no operation of the model touches.\<close>

definition same_frame :: "chain_db \<Rightarrow> chain_db \<Rightarrow> bool" where
  "same_frame d d' \<longleftrightarrow> head_block_time d' = head_block_time d \<and> fba_accumulators d' = fba_accumulators d"

definition effect :: "(nat \<Rightarrow> int) \<Rightarrow> (nat \<Rightarrow> int) \<Rightarrow> chain_db \<Rightarrow> chain_db \<Rightarrow> bool" where
  "effect g s d d' \<longleftrightarrow> market_wf d' \<and> accounts d' = accounts d \<and> assets d' = assets d \<and> same_frame d d' \<and>
     (\<forall>x. gross d' x = gross d x + g x) \<and> (\<forall>x. supply_of d' x = supply_of d x + s x)"

definition same_orders :: "chain_db \<Rightarrow> chain_db \<Rightarrow> bool" where
  "same_orders d d' \<longleftrightarrow> limit_orders d' = limit_orders d \<and> call_orders d' = call_orders d \<and>
     settlements d' = settlements d \<and> bitassets d' = bitassets d"

text \<open>An amount of one asset.\<close>

definition amt_at :: "nat \<Rightarrow> int \<Rightarrow> nat \<Rightarrow> int" where
  "amt_at a v x = (if x = a then v else 0)"

lemma amt_at_0 [simp]: "amt_at x 0 = (\<lambda>_. 0)"
  by (simp add: amt_at_def fun_eq_iff)

lemma effect_trans: "effect g s d d1 \<Longrightarrow> effect h t d1 d2 \<Longrightarrow> effect (\<lambda>x. g x + h x) (\<lambda>x. s x + t x) d d2"
  by (simp add: same_frame_def effect_def)

lemma effect_refl: "market_wf d \<Longrightarrow> effect (\<lambda>_. 0) (\<lambda>_. 0) d d"
  by (simp add: same_frame_def effect_def)

lemma effect_cong: "effect g s d d' \<Longrightarrow> (\<And>x. g x = h x) \<Longrightarrow> (\<And>x. s x = t x) \<Longrightarrow> effect h t d d'"
  by (simp add: same_frame_def effect_def)

lemma same_orders_trans: "same_orders a b \<Longrightarrow> same_orders b c \<Longrightarrow> same_orders a c"
  by (simp add: same_orders_def)

lemma effectD: "effect g s d d' \<Longrightarrow> market_wf d'" "effect g s d d' \<Longrightarrow> accounts d' = accounts d" "effect g s d d' \<Longrightarrow> assets d' = assets d"
  by (simp_all add: same_frame_def effect_def)

section \<open>Primitive changes\<close>

lemma balances_owned_empty [simp]: "balances_owned n (\<lambda>_. None)"
  by (simp add: balances_owned_def)

lemma balances_owned_upd [simp]: "balances_owned n bs \<Longrightarrow> fst k < n \<Longrightarrow> 0 \<le> v \<Longrightarrow> balances_owned n (bs(k \<mapsto> v))"
  by (auto simp: balances_owned_def)

lemma balances_owned_mono: "balances_owned n bs \<Longrightarrow> n \<le> m \<Longrightarrow> balances_owned m bs"
  by (fastforce simp: balances_owned_def)

lemma sum_point: "a < n \<Longrightarrow> (\<Sum>c<n. if c = a then f c + v else f c) = (\<Sum>c<n. f c) + (v :: int)" for n :: nat
proof -
  assume a: "a < n"
  have "(\<Sum>c<n. if c = a then f c + v else f c) = (\<Sum>c<n. f c + (if c = a then v else 0))" by (rule sum.cong) auto
  also have "\<dots> = (\<Sum>c<n. f c) + v" using a by (simp add: sum.distrib)
  finally show ?thesis .
qed

context fc_safe
begin

lemma asset_neg_amounts: "asset_neg S a = Inr n \<Longrightarrow> amount n = - amount a \<and> asset_id n = asset_id a"
  by (auto simp: asset_neg_def neg_iff)

lemma adjust_balance_stores:
  assumes "adjust_balance S acc a d = Inr d'" "acc < length (accounts d)" "balances_owned (length (accounts d)) (balances d)"
  shows "balances_owned (length (accounts d)) (balances d')"
proof (cases "amount a = 0")
  case True
  with assms show ?thesis by (simp add: adjust_balance_def)
next
  case nz: False
  have "\<exists>b\<ge>0. d' = d\<lparr> balances := (balances d)((acc, asset_id a) \<mapsto> b) \<rparr>"
  proof (cases "balances d (acc, asset_id a)")
    case None
    with assms(1) nz show ?thesis by (intro exI [of _ "amount a"]) (simp add: adjust_balance_def)
  next
    case (Some b)
    then have b: "0 \<le> b" using assms(3) by (auto simp: balances_owned_def)
    have "0 \<le> b + amount a"
    proof (cases "amount a < 0")
      case True
      with assms(1) Some nz obtain n where n: "asset_neg S a = Inr n" "asset_ge (mk_asset b (asset_id a)) n = Inr True"
        by (auto simp: adjust_balance_def)
      then show ?thesis using asset_neg_amounts [OF n(1)] by (auto simp: asset_ge_def asset_less_def split: if_splits)
    qed (use b in simp)
    moreover have "d' = d\<lparr> balances := (balances d)((acc, asset_id a) \<mapsto> b + amount a) \<rparr>"
      using assms(1) Some nz by (auto simp: adjust_balance_def add_iff)
    ultimately show ?thesis by blast
  qed
  then obtain b where b: "0 \<le> b" "d' = d\<lparr> balances := (balances d)((acc, asset_id a) \<mapsto> b) \<rparr>" by blast
  show ?thesis unfolding b(2) using assms(2,3) b(1) by (auto simp: balances_owned_def)
qed

lemma adjust_balance_effect_on:
  assumes "adjust_balance S acc a d = Inr d'" "acc < length (accounts d)" "market_wf d"
  shows "effect (amt_at (asset_id a) (amount a)) (\<lambda>_. 0) d d' \<and> same_orders d d'"
proof -
  from adjust_balance_effect(2) [OF assms(1)] obtain bs where d': "d' = d\<lparr> balances := bs \<rparr>" by blast
  have "(\<Sum>c<length (accounts d). bal d' c x) = (\<Sum>c<length (accounts d). bal d c x) + amt_at (asset_id a) (amount a) x" for x
    unfolding adjust_balance_effect(1) [OF assms(1)] using sum_point [OF assms(2), of "\<lambda>c. bal d c x" "amount a"]
    by (cases "x = asset_id a") (simp_all add: amt_at_def)
  moreover have "balances_owned (length (accounts d)) bs"
    using adjust_balance_stores [OF assms(1,2)] assms(3) by (simp add: market_wf_def d')
  ultimately show ?thesis using assms(3) by (simp add: same_frame_def effect_def same_orders_def market_wf_def gross_def supply_of_def dyn_of_def d')
qed

lemma modify_stats_effect:
  assumes "modify_stats acc f d = Inr d'" "market_wf d" "\<And>s t. f s = Inr t \<Longrightarrow> stat_worth t = stat_worth s + k"
  shows "effect (amt_at 0 k) (\<lambda>_. 0) d d' \<and> same_orders d d' \<and> acc < length (accounts d)"
proof -
  from assms(1) obtain y where i: "acc < length (accounts d)" "statistics (accounts d ! acc) < length (acc_stats d)"
    "f (acc_stats d ! statistics (accounts d ! acc)) = Inr y" and d': "d' = d\<lparr> acc_stats := (acc_stats d)[statistics (accounts d ! acc) := y] \<rparr>"
    by (auto simp: modify_stats_def)
  have b: "bal d' = bal d" by (rule bal_cong) (simp add: d')
  have "sum_list (map stat_worth (acc_stats d')) = sum_list (map stat_worth (acc_stats d)) + k"
    using sum_list_update_int [OF i(2), of stat_worth y] assms(3) [OF i(3)] by (simp add: d')
  then show ?thesis using assms(2) b i(1)
    by (simp add: same_frame_def effect_def same_orders_def market_wf_def gross_def supply_of_def dyn_of_def d' amt_at_def)
qed

lemma less_core_in_orders_worth: "less_core_in_orders S a s = Inr t \<Longrightarrow> stat_worth t = stat_worth s"
  by (auto simp: less_core_in_orders_def stat_worth_def)

lemma modify_dyn_effect:
  assumes "modify_dyn x f d = Inr d'" "market_wf d"
    and f: "\<And>y z. f y = Inr z \<Longrightarrow> y = dyn_of d x \<Longrightarrow>
      accumulated_fees z = accumulated_fees y + k \<and> current_supply z = current_supply y + s \<and> fee_pool z = fee_pool y + p"
  shows "effect (\<lambda>y. amt_at x k y + amt_at 0 p y) (amt_at x s) d d' \<and> same_orders d d'"
proof -
  let ?i = "dynamic_asset_data_id (assets d ! x)"
  from assms(1) obtain z where x: "x < length (assets d)" "?i < length (dyn_data d)" "f (dyn_data d ! ?i) = Inr z"
    and d': "d' = d\<lparr> dyn_data := (dyn_data d)[?i := z] \<rparr>" by (auto simp: modify_dyn_def)
  have b: "bal d' = bal d" by (rule bal_cong) (simp add: d')
  have z: "accumulated_fees z = accumulated_fees (dyn_of d x) + k" "current_supply z = current_supply (dyn_of d x) + s"
    "fee_pool z = fee_pool (dyn_data d ! ?i) + p"
    using f [OF x(3)] by (simp_all add: dyn_of_def)
  have fp: "sum_list (map fee_pool (dyn_data d')) = sum_list (map fee_pool (dyn_data d)) + p"
    using sum_list_update_int [OF x(2), of fee_pool z] z(3) by (simp add: d')
  have "dyn_of d' y = (if y = x then z else dyn_of d y)" if "y < length (assets d)" for y
    using that assms(2) x by (auto simp: dyn_of_def d' market_wf_def nth_list_update)
  then have g: "gross d' y = gross d y + (amt_at x k y + amt_at 0 p y)" "supply_of d' y = supply_of d y + amt_at x s y" for y
    using x z(1,2) b fp by (auto simp: gross_def supply_of_def amt_at_def d')
  have "market_wf d'" using assms(2) by (simp add: market_wf_def d')
  with g show ?thesis by (simp add: same_frame_def effect_def same_orders_def d')
qed

lemma market_fee_nonneg:
  assumes "calculate_market_fee x a r = Inr f" "0 \<le> amount r" "int64 (amount r)" "0 \<le> max_market_fee (options a)"
    "int (market_fee_percent (options a)) \<le> GRAPHENE_100_PERCENT"
  shows "0 \<le> amount f \<and> asset_id f = x"
proof -
  let ?p = "int (market_fee_percent (options a))"
  have m: "amount r * ?p \<le> amount r * 10000" "0 \<le> amount r * ?p"
    using assms by (auto simp: GRAPHENE_100_PERCENT_def intro: mult_left_mono)
  then have d: "0 \<le> amount r * ?p div 10000" "amount r * ?p div 10000 \<le> amount r" by auto
  have "u128 (u128 (amount r) * ?p) = amount r * ?p" using assms(2,3,5)
    by (intro u128_product) (auto simp: int64_def GRAPHENE_100_PERCENT_def)
  moreover have "int64 (amount r * ?p div 10000)" using d assms(3) by (auto simp: int64_def)
  ultimately show ?thesis using assms(1,4) d
    by (auto simp: calculate_market_fee_def to_uint64_def GRAPHENE_100_PERCENT_def Let_def split: if_splits)
qed

lemma pay_market_fees_effect:
  assumes "pay_market_fees S x r d = Inr (f, d')" "market_wf d" "0 \<le> amount r" "int64 (amount r)"
  shows "effect (amt_at x (amount f)) (\<lambda>_. 0) d d' \<and> same_orders d d' \<and> asset_id f = x"
proof -
  from assms(1) have x: "x < length (assets d)" and c: "calculate_market_fee x (assets d ! x) r = Inr f"
    by (auto simp: pay_market_fees_def split: if_splits)
  have f: "0 \<le> amount f" "asset_id f = x" using market_fee_nonneg [OF c assms(3,4)] assms(2) x by (auto simp: market_wf_def)
  show ?thesis
  proof (cases "amount f > 0")
    case True
    with assms(1) c have m: "modify_dyn x (\<lambda>y. rbind (safe_add S (accumulated_fees y) (amount f)) (\<lambda>s. Inr (y\<lparr> accumulated_fees := s \<rparr>))) d = Inr d'"
      by (auto simp: pay_market_fees_def)
    have "effect (\<lambda>y. amt_at x (amount f) y + amt_at 0 0 y) (amt_at x 0) d d' \<and> same_orders d d'"
      by (rule modify_dyn_effect [OF m assms(2)]) (auto simp: add_iff)
    then show ?thesis using f by (auto elim: effect_cong simp: amt_at_def)
  next
    case False
    with assms(1) c f have "d' = d" "amount f = 0" by (auto simp: pay_market_fees_def)
    then show ?thesis using effect_refl [OF assms(2)] f by (simp add: same_orders_def amt_at_def)
  qed
qed

lemma pay_order_effect:
  assumes "pay_order S acc r pays d = Inr d'" "market_wf d"
  shows "effect (amt_at (asset_id r) (amount r)) (\<lambda>_. 0) d d' \<and> same_orders d d'"
proof -
  from assms(1) obtain d1 where m: "modify_stats acc (\<lambda>s. if asset_id pays = 0 then less_core_in_orders S (amount pays) s else Inr s) d = Inr d1"
    and a: "adjust_balance S acc r d1 = Inr d'" by (auto simp: pay_order_def)
  have e1: "effect (amt_at 0 0) (\<lambda>_. 0) d d1 \<and> same_orders d d1 \<and> acc < length (accounts d)"
    by (rule modify_stats_effect [OF m assms(2)]) (auto dest: less_core_in_orders_worth split: if_splits)
  then have "acc < length (accounts d1)" "market_wf d1" by (auto dest: effectD)
  from adjust_balance_effect_on [OF a this] e1 show ?thesis
    using effect_trans [of "amt_at 0 0" "\<lambda>_. 0" d d1 "amt_at (asset_id r) (amount r)" "\<lambda>_. 0" d']
    by (auto elim: effect_cong same_orders_trans simp: amt_at_def)
qed

end

section \<open>Order books\<close>

lemma remove_order_sum:
  "distinct (map fst xs) \<Longrightarrow> map_of xs i = Some v \<Longrightarrow>
   sum_list (map f (remove_order i xs)) = sum_list (map f xs) - (f (i, v) :: int)"
proof (induction xs)
  case (Cons a xs)
  show ?case
  proof (cases "fst a = i")
    case True
    then have "\<forall>p\<in>set xs. fst p \<noteq> i" using Cons.prems(1) by (auto simp: image_iff)
    then have "filter (\<lambda>p. fst p \<noteq> i) xs = xs" by (simp add: filter_id_conv)
    then show ?thesis using True Cons.prems by (cases a) (auto simp: remove_order_def)
  next
    case False
    then show ?thesis using Cons by (cases a) (auto simp: remove_order_def)
  qed
qed simp

lemma update_order_sum:
  "distinct (map fst xs) \<Longrightarrow> map_of xs i = Some v \<Longrightarrow>
   sum_list (map f (AList.update i w xs)) = sum_list (map f xs) - f (i, v) + (f (i, w) :: int)"
  by (induction xs) (auto split: if_splits)

lemma remove_order_distinct: "distinct (map fst xs) \<Longrightarrow> distinct (map fst (remove_order i xs))"
  by (auto simp: remove_order_def distinct_map inj_on_def)

lemma remove_order_subset: "set (remove_order i xs) \<subseteq> set xs"
  by (auto simp: remove_order_def)

lemma update_order_set: "set (AList.update i w xs) \<subseteq> insert (i, w) (set xs)"
  by (induction xs) auto

lemma update_order_all: "\<forall>p\<in>set xs. P p \<Longrightarrow> P (i, w) \<Longrightarrow> \<forall>p\<in>set (AList.update i w xs). P p"
  using update_order_set [of i w xs] by blast

lemma get_order_eq_Inr [simp]: "get_order xs i = Inr v \<longleftrightarrow> map_of xs i = Some v"
  by (simp add: get_order_def)

lemma bal_orders [simp]:
  "bal (d\<lparr> limit_orders := xs \<rparr>) = bal d" "bal (d\<lparr> call_orders := ys \<rparr>) = bal d" "bal (d\<lparr> bitassets := bs \<rparr>) = bal d"
  "bal (d\<lparr> applied_ops := vs \<rparr>) = bal d"
  by (simp_all add: bal_def get_balance_def fun_eq_iff)

lemma settled_ok_update:
  assumes "settled_ok as bs" "x < length as" "bitasset_data_id (as ! x) = Some i"
    and "has_settlement b \<Longrightarrow> asset_id (base (ba_settlement_price b)) = x \<and> asset_id (quote (ba_settlement_price b)) = short_backing_asset (ba_options b)"
  shows "settled_ok as (bs[i := b])"
  unfolding settled_ok_def
proof (intro conjI allI impI)
  fix y j assume y: "y < length as" "j < length (bs[i := b])" "bitasset_data_id (as ! y) = Some j" "has_settlement (bs[i := b] ! j)"
  have "y = x" if "j = i" using assms(1-3) y(1,3) that by (auto simp: settled_ok_def)
  then show "asset_id (base (ba_settlement_price (bs[i := b] ! j))) = y"
    "asset_id (quote (ba_settlement_price (bs[i := b] ! j))) = short_backing_asset (ba_options (bs[i := b] ! j))"
    using assms(1,4) y by (cases "j = i"; simp add: settled_ok_def)+
qed (use assms(1) in \<open>auto simp: settled_ok_def\<close>)

lemma market_wf_bitassets:
  "market_wf d \<Longrightarrow> \<forall>b\<in>set bs. \<not> has_settlement b \<longrightarrow> settlement_fund b = 0 \<Longrightarrow> settled_ok (assets d) bs \<Longrightarrow> market_wf (d\<lparr> bitassets := bs \<rparr>)"
  by (simp add: market_wf_def)

lemma market_wf_update_bitasset:
  assumes "market_wf d" "x < length (assets d)" "bitasset_data_id (assets d ! x) = Some i" "\<not> has_settlement b \<longrightarrow> settlement_fund b = 0"
    and "has_settlement b \<Longrightarrow> asset_id (base (ba_settlement_price b)) = x \<and> asset_id (quote (ba_settlement_price b)) = short_backing_asset (ba_options b)"
  shows "market_wf (d\<lparr> bitassets := (bitassets d)[i := b] \<rparr>)"
proof (rule market_wf_bitassets [OF assms(1)])
  show "\<forall>b'\<in>set ((bitassets d)[i := b]). \<not> has_settlement b' \<longrightarrow> settlement_fund b' = 0"
    using assms(1,4) set_update_subset_insert [of "bitassets d" i b] unfolding market_wf_def by blast
  show "settled_ok (assets d) ((bitassets d)[i := b])"
    by (rule settled_ok_update [OF _ assms(2,3,5)]) (use assms(1) in \<open>simp add: market_wf_def\<close>)
qed

lemma market_wf_limit: "market_wf d \<Longrightarrow> map_of (limit_orders d) i = Some v \<Longrightarrow>
    0 \<le> for_sale v \<and> int64 (for_sale v) \<and> 0 \<le> deferred_fee v \<and> valid_price (sell_price v)"
  by (force simp: market_wf_def dest!: map_of_SomeD)

lemma remove_limit_effect:
  assumes "market_wf d" "map_of (limit_orders d) i = Some v"
  shows "effect (\<lambda>x. - limit_worth x (i, v)) (\<lambda>_. 0) d (d\<lparr> limit_orders := remove_order i (limit_orders d) \<rparr>)"
proof -
  have dist: "distinct (map fst (limit_orders d))" using assms by (simp add: market_wf_def)
  have "market_wf (d\<lparr> limit_orders := remove_order i (limit_orders d) \<rparr>)"
    using assms(1) remove_order_distinct [OF dist] remove_order_subset [of i "limit_orders d"] by (auto simp: market_wf_def)
  then show ?thesis by (simp add: same_frame_def effect_def gross_def supply_of_def dyn_of_def remove_order_sum [OF dist assms(2)])
qed

lemma update_limit_effect:
  assumes "market_wf d" "map_of (limit_orders d) i = Some v"
    and "0 \<le> for_sale w" "int64 (for_sale w)" "0 \<le> deferred_fee w" "sell_price w = sell_price v"
  shows "effect (\<lambda>x. limit_worth x (i, w) - limit_worth x (i, v)) (\<lambda>_. 0) d (d\<lparr> limit_orders := AList.update i w (limit_orders d) \<rparr>)"
proof -
  have dist: "distinct (map fst (limit_orders d))" using assms by (simp add: market_wf_def)
  have "i < next_limit_order d" using assms(1) map_of_SomeD [OF assms(2)] by (auto simp: market_wf_def)
  then have "market_wf (d\<lparr> limit_orders := AList.update i w (limit_orders d) \<rparr>)"
    using assms(1,3-6) distinct_update [OF dist] market_wf_limit [OF assms(1,2)]
    by (simp add: market_wf_def) (intro conjI update_order_all; simp)
  then show ?thesis by (simp add: same_frame_def effect_def gross_def supply_of_def dyn_of_def update_order_sum [OF dist assms(2)])
qed

lemma remove_call_effect:
  assumes "market_wf d" "map_of (call_orders d) i = Some v"
  shows "effect (\<lambda>x. - call_worth x (i, v)) (\<lambda>_. 0) d (d\<lparr> call_orders := remove_order i (call_orders d) \<rparr>)"
proof -
  have dist: "distinct (map fst (call_orders d))" using assms by (simp add: market_wf_def)
  have "market_wf (d\<lparr> call_orders := remove_order i (call_orders d) \<rparr>)"
    using assms(1) remove_order_distinct [OF dist] by (auto simp: market_wf_def)
  then show ?thesis by (simp add: same_frame_def effect_def gross_def supply_of_def dyn_of_def remove_order_sum [OF dist assms(2)])
qed

lemma update_call_effect:
  assumes "market_wf d" "map_of (call_orders d) i = Some v"
  shows "effect (\<lambda>x. call_worth x (i, w) - call_worth x (i, v)) (\<lambda>_. 0) d (d\<lparr> call_orders := AList.update i w (call_orders d) \<rparr>)"
proof -
  have dist: "distinct (map fst (call_orders d))" using assms by (simp add: market_wf_def)
  have "market_wf (d\<lparr> call_orders := AList.update i w (call_orders d) \<rparr>)"
    using assms distinct_update [OF dist] by (auto simp: market_wf_def)
  then show ?thesis by (simp add: same_frame_def effect_def gross_def supply_of_def dyn_of_def update_order_sum [OF dist assms(2)])
qed

lemma push_applied_effect: "market_wf d \<Longrightarrow> effect (\<lambda>_. 0) (\<lambda>_. 0) d (push_applied_operation v d) \<and> same_orders d (push_applied_operation v d)"
  by (simp add: same_frame_def effect_def same_orders_def market_wf_def gross_def supply_of_def dyn_of_def push_applied_operation_def)

context fc_safe
begin

lemma cancel_limit_order_effect:
  assumes "cancel_limit_order S i v d = Inr d'" "market_wf d"
  shows "effect (\<lambda>_. 0) (\<lambda>_. 0) d d' \<and> call_orders d' = call_orders d \<and> settlements d' = settlements d \<and> bitassets d' = bitassets d \<and>
    (\<forall>j. map_of (limit_orders d') j = (if j = i then None else map_of (limit_orders d) j))"
proof -
  from assms(1) obtain order d1 d2 d3 d4 where o: "map_of (limit_orders d) i = Some order"
    and m: "modify_stats (seller order) (\<lambda>s. if asset_id (amount_for_sale order) = 0 then less_core_in_orders S (amount (amount_for_sale order)) s else Inr s) d = Inr d1"
    and a1: "adjust_balance S (seller order) (amount_for_sale order) d1 = Inr d2"
    and a2: "adjust_balance S (seller order) (mk_asset (deferred_fee order) 0) d2 = Inr d3"
    and d4: "d4 = (if v then push_applied_operation (Limit_order_cancel_operation (Limit_ref i) (seller order)) d3 else d3)"
    and d': "d' = d4\<lparr> limit_orders := remove_order i (limit_orders d4) \<rparr>"
    by (auto simp: cancel_limit_order_def Let_def)
  have e1: "effect (amt_at 0 0) (\<lambda>_. 0) d d1 \<and> same_orders d d1 \<and> seller order < length (accounts d)"
    by (rule modify_stats_effect [OF m assms(2)]) (auto dest: less_core_in_orders_worth split: if_splits)
  then have w1: "seller order < length (accounts d1)" "market_wf d1" by (auto dest: effectD)
  note e2 = adjust_balance_effect_on [OF a1 w1]
  then have w2: "seller order < length (accounts d2)" "market_wf d2" using w1 by (auto dest: effectD)
  note e3 = adjust_balance_effect_on [OF a2 w2]
  then have w3: "market_wf d3" by (auto dest: effectD)
  have e4: "effect (\<lambda>_. 0) (\<lambda>_. 0) d3 d4 \<and> same_orders d3 d4" using push_applied_effect [OF w3] effect_refl [OF w3]
    by (auto simp: d4 same_orders_def)
  have s: "limit_orders d4 = limit_orders d" "call_orders d4 = call_orders d" "settlements d4 = settlements d" "bitassets d4 = bitassets d"
    using e1 e2 e3 e4 by (auto simp: same_orders_def)
  have "map_of (limit_orders d4) i = Some order" "market_wf d4" using s o e4 by (auto dest: effectD)
  note e5 = remove_limit_effect [OF this(2,1)]
  have "effect (\<lambda>_. 0) (\<lambda>_. 0) d d'" unfolding d'
    by (rule effect_cong [OF effect_trans [OF effect_trans [OF effect_trans [OF effect_trans [OF conjunct1 [OF e1] conjunct1 [OF e2]]
      conjunct1 [OF e3]] conjunct1 [OF e4]] e5]]) (auto simp: amt_at_def limit_worth_def amount_for_sale_def)
  moreover have "map_of (remove_order i xs) j = (if j = i then None else map_of xs j)" for j and xs :: "(nat \<times> limit_order_object) list"
    by (induction xs) (auto simp: remove_order_def)
  ultimately show ?thesis using s by (simp add: d')
qed

lemma cull_effect:
  assumes "maybe_cull_small_order S i d = Inr (b, d')" "market_wf d"
  shows "effect (\<lambda>_. 0) (\<lambda>_. 0) d d' \<and> call_orders d' = call_orders d \<and> settlements d' = settlements d \<and> bitassets d' = bitassets d \<and>
    (\<forall>j. j \<noteq> i \<longrightarrow> map_of (limit_orders d') j = map_of (limit_orders d) j)"
  using assms cancel_limit_order_effect [of i True d] effect_refl [OF assms(2)]
  by (auto simp: maybe_cull_small_order_def split: if_splits)

end

section \<open>Filling an order\<close>

text \<open>The limit order \<open>i\<close> was worked on: no other order, call or bitasset changed.\<close>

definition limit_step :: "(nat \<Rightarrow> int) \<Rightarrow> nat \<Rightarrow> chain_db \<Rightarrow> chain_db \<Rightarrow> bool" where
  "limit_step g i d d' \<longleftrightarrow> effect g (\<lambda>_. 0) d d' \<and> call_orders d' = call_orders d \<and> settlements d' = settlements d \<and> bitassets d' = bitassets d \<and>
     (\<forall>j. j \<noteq> i \<longrightarrow> map_of (limit_orders d') j = map_of (limit_orders d) j)"

lemma limit_step_trans: "limit_step g i d d1 \<Longrightarrow> limit_step h i d1 d2 \<Longrightarrow> limit_step (\<lambda>x. g x + h x) i d d2"
  using effect_trans [of g "\<lambda>_. 0" d d1 h "\<lambda>_. 0" d2] by (auto simp: limit_step_def)

lemma limit_step_same: "effect g (\<lambda>_. 0) d d' \<and> same_orders d d' \<Longrightarrow> limit_step g i d d'"
  by (simp add: limit_step_def same_orders_def)

lemma limit_step_wf: "limit_step g i d d' \<Longrightarrow> market_wf d'"
  by (auto simp: limit_step_def dest: effectD)

lemma limit_step_cong: "limit_step g i d d' \<Longrightarrow> (\<And>x. g x = h x) \<Longrightarrow> limit_step h i d d'"
  by (auto simp: limit_step_def effect_def same_frame_def)

lemma map_of_remove_order: "map_of (remove_order i xs) j = (if j = i then None else map_of xs j)"
  by (induction xs) (auto simp: remove_order_def)

context fc_safe
begin

lemma stats_pay_fee_worth: "stats_pay_fee S f t s = Inr s' \<Longrightarrow> stat_worth s' = stat_worth s + f"
  by (auto simp: stats_pay_fee_def stat_worth_def add_iff split: if_splits)

lemma cull_step: "maybe_cull_small_order S i d = Inr (b, d') \<Longrightarrow> market_wf d \<Longrightarrow> limit_step (\<lambda>_. 0) i d d'"
  using cull_effect by (auto simp: limit_step_def)

text \<open>What the filled order still holds: nothing when it is closed, the rest otherwise.\<close>

lemma close_or_shrink_step:
  assumes "(if asset_eq pays (amount_for_sale order) then Inr (True, d\<lparr> limit_orders := remove_order i (limit_orders d) \<rparr>)
     else rbind (safe_sub S (for_sale order) (amount pays)) (\<lambda>fs.
       let d5 = d\<lparr> limit_orders := AList.update i (order\<lparr> for_sale := fs, deferred_fee := 0 \<rparr>) (limit_orders d) \<rparr> in
       if c then maybe_cull_small_order S i d5 else Inr (False, d5))) = Inr (b, d')"
    and "market_wf d" "map_of (limit_orders d) i = Some order" "asset_id pays = asset_id (base (sell_price order))"
    and "amount pays \<le> for_sale order"
  shows "limit_step (\<lambda>x. - amt_at (asset_id pays) (amount pays) x - amt_at 0 (deferred_fee order) x) i d d'"
proof (cases "pays = amount_for_sale order")
  case True
  then have d': "d' = d\<lparr> limit_orders := remove_order i (limit_orders d) \<rparr>" using assms(1) by auto
  have "limit_step (\<lambda>x. - limit_worth x (i, order)) i d d'"
    using remove_limit_effect [OF assms(2,3)] by (simp add: limit_step_def d' map_of_remove_order)
  then show ?thesis by (rule limit_step_cong) (auto simp: limit_worth_def amt_at_def True amount_for_sale_def)
next
  case False
  let ?w = "order\<lparr> for_sale := for_sale order - amount pays, deferred_fee := 0 \<rparr>"
  let ?d = "d\<lparr> limit_orders := AList.update i ?w (limit_orders d) \<rparr>"
  have o: "0 \<le> deferred_fee order" "int64 (for_sale order - amount pays)"
    using market_wf_limit [OF assms(2,3)] assms(1) False by (auto simp: sub_iff)
  have "effect (\<lambda>x. limit_worth x (i, ?w) - limit_worth x (i, order)) (\<lambda>_. 0) d ?d"
    by (rule update_limit_effect [OF assms(2,3)]) (use assms o in auto)
  then have s: "limit_step (\<lambda>x. limit_worth x (i, ?w) - limit_worth x (i, order)) i d ?d"
    by (simp add: limit_step_def update_conv)
  have "limit_step (\<lambda>_. 0) i ?d d'"
  proof (cases c)
    case True
    then show ?thesis using assms(1) False cull_step [OF _ limit_step_wf [OF s]] by (auto simp: sub_iff)
  next
    case c: False
    then show ?thesis using assms(1) False effect_refl [OF limit_step_wf [OF s]] by (auto simp: sub_iff limit_step_def)
  qed
  from limit_step_trans [OF s this] show ?thesis by (rule limit_step_cong) (auto simp: limit_worth_def amt_at_def assms(4))
qed

lemma fill_limit_order_step:
  assumes "fill_limit_order S i pays receives c d = Inr (b, d')" "market_wf d" "map_of (limit_orders d) i = Some order"
    and "amount pays \<le> for_sale order" "0 \<le> amount receives" "int64 (amount receives)"
  shows "limit_step (\<lambda>x. amt_at (asset_id receives) (amount receives) x - amt_at (asset_id pays) (amount pays) x) i d d' \<and>
    asset_id pays = asset_id (base (sell_price order))"
proof -
  let ?rest = "\<lambda>d4. if asset_eq pays (amount_for_sale order) then Inr (True, d4\<lparr> limit_orders := remove_order i (limit_orders d4) \<rparr>)
     else rbind (safe_sub S (for_sale order) (amount pays)) (\<lambda>fs.
       let d5 = d4\<lparr> limit_orders := AList.update i (order\<lparr> for_sale := fs, deferred_fee := 0 \<rparr>) (limit_orders d4) \<rparr> in
       if c then maybe_cull_small_order S i d5 else Inr (False, d5))"
  let ?fee = "\<lambda>d3. if deferred_fee order > 0
     then modify_stats (seller order) (stats_pay_fee S (deferred_fee order) (cashback_vesting_threshold d3)) d3 else Inr d3"
  from assms(1,3) obtain fees d1 net d2 where p: "asset_id pays = asset_id (base (sell_price order))"
    and f: "pay_market_fees S (asset_id receives) receives d = Inr (fees, d1)" and n: "asset_minus S receives fees = Inr net"
    and o: "pay_order S (seller order) net pays d1 = Inr d2"
    and q: "(let d3 = push_applied_operation (Fill_order_operation (Limit_ref i) (seller order) pays receives fees) d2
      in rbind (?fee d3) ?rest) = Inr (b, d')"
    by (auto simp: fill_limit_order_def amount_for_sale_def)
  define d3 where d3: "d3 = push_applied_operation (Fill_order_operation (Limit_ref i) (seller order) pays receives fees) d2"
  from q obtain d4 where m: "?fee d3 = Inr d4" and r: "?rest d4 = Inr (b, d')" unfolding d3 [symmetric] Let_def [of d3] rbind_eq_Inr
    by blast
  note e1 = pay_market_fees_effect [OF f assms(2,5,6)]
  then have e2: "effect (amt_at (asset_id net) (amount net)) (\<lambda>_. 0) d1 d2 \<and> same_orders d1 d2"
    by (intro pay_order_effect [OF o]) (auto dest: effectD)
  then have e3: "effect (\<lambda>_. 0) (\<lambda>_. 0) d2 d3 \<and> same_orders d2 d3" unfolding d3 by (intro push_applied_effect) (auto dest: effectD)
  then have w3: "market_wf d3" by (auto dest: effectD)
  have e4: "effect (amt_at 0 (deferred_fee order)) (\<lambda>_. 0) d3 d4 \<and> same_orders d3 d4"
  proof (cases "deferred_fee order > 0")
    case True
    with m have "modify_stats (seller order) (stats_pay_fee S (deferred_fee order) (cashback_vesting_threshold d3)) d3 = Inr d4" by simp
    then have "effect (amt_at 0 (deferred_fee order)) (\<lambda>_. 0) d3 d4 \<and> same_orders d3 d4 \<and> seller order < length (accounts d3)"
      by (rule modify_stats_effect [OF _ w3]) (rule stats_pay_fee_worth)
    then show ?thesis by blast
  next
    case False
    then have "deferred_fee order = 0" using market_wf_limit [OF assms(2,3)] by simp
    with m effect_refl [OF w3] show ?thesis by (simp add: same_orders_def)
  qed
  have l: "limit_orders d4 = limit_orders d" using e1 e2 e3 e4 by (simp add: same_orders_def)
  have w4: "market_wf d4" using e4 by (auto dest: effectD)
  have e5: "limit_step (\<lambda>x. - amt_at (asset_id pays) (amount pays) x - amt_at 0 (deferred_fee order) x) i d4 d'"
    by (rule close_or_shrink_step [OF r w4]) (simp_all add: l assms p)
  have na: "asset_id net = asset_id receives" "amount net = amount receives - amount fees" using n by (auto simp: asset_minus_def sub_iff)
  have "limit_step (amt_at (asset_id receives) (amount fees)) i d d1" using e1 by (intro limit_step_same) blast
  note t = limit_step_trans [OF limit_step_trans [OF limit_step_trans [OF limit_step_trans [OF this
    limit_step_same [OF e2]] limit_step_same [OF e3]] limit_step_same [OF e4]] e5]
  show ?thesis using p limit_step_cong [OF t] by (auto simp: amt_at_def na)
qed

end

end
