(* ===== verification/Market_Matching.thy ===== *)
theory Market_Matching
  imports Market_Conservation
begin

text \<open>
  Conservation for the compound operations of the exchange: matching, margin calls, forced and
  global settlement.  Each moves value between holders, or retires supply against debt, so that
  what is held of an asset less its supply never changes.
\<close>

definition conserves :: "chain_db \<Rightarrow> chain_db \<Rightarrow> bool" where
  "conserves d d' \<longleftrightarrow> market_wf d' \<and> length (accounts d') = length (accounts d) \<and> same_frame d d' \<and>
     (\<forall>x. gross d' x - supply_of d' x = gross d x - supply_of d x)"

lemma conserves_refl: "market_wf d \<Longrightarrow> conserves d d"
  by (simp add: same_frame_def conserves_def)

lemma conserves_trans: "conserves d d1 \<Longrightarrow> conserves d1 d2 \<Longrightarrow> conserves d d2"
  by (simp add: same_frame_def conserves_def)

lemma effect_conserves: "effect g s d d' \<Longrightarrow> (\<And>x. g x = s x) \<Longrightarrow> conserves d d'"
  by (simp add: same_frame_def effect_def conserves_def)

lemma conserves_wf: "conserves d d' \<Longrightarrow> market_wf d'"
  by (simp add: same_frame_def conserves_def)

section \<open>Limit orders\<close>

lemma asset_times_price_range:
  assumes "asset_times_price a p = Inr r"
  shows "0 \<le> amount r \<and> int64 (amount r)"
proof -
  have "0 \<le> to_int64 (u128 x div y) \<and> int64 (to_int64 (u128 x div y))" if "y > 0" "u128 x div y \<le> GRAPHENE_MAX_SHARE_SUPPLY" for x y
  proof -
    have "0 \<le> u128 x div y" using that(1) by (simp add: pos_imp_zdiv_nonneg_iff u128_def)
    moreover from this that(2) have "to_int64 (u128 x div y) = u128 x div y"
      by (intro to_int64_id) (simp add: int64_def GRAPHENE_MAX_SHARE_SUPPLY_def)
    ultimately show ?thesis using that(2) by (simp add: int64_def GRAPHENE_MAX_SHARE_SUPPLY_def)
  qed
  then show ?thesis using assms by (auto simp: asset_times_price_def Let_def split: if_splits)
qed

lemma asset_times_price_other: "asset_times_price a p = Inr r \<Longrightarrow> asset_id (base p) \<noteq> asset_id (quote p) \<Longrightarrow> asset_id r \<noteq> asset_id a"
  by (auto simp: asset_times_price_def Let_def split: if_splits)

lemma floor_back: "0 < (b :: int) \<Longrightarrow> 0 < q \<Longrightarrow> u \<le> c * q div b \<Longrightarrow> u * b div q \<le> c"
proof -
  assume b: "0 < b" "0 < q" "u \<le> c * q div b"
  have "u * b \<le> c * q div b * b" using b by (intro mult_right_mono) auto
  also have "\<dots> \<le> c * q" using minus_mod_eq_div_mult [of "c * q" b] pos_mod_sign [OF b(1), of "c * q"] by linarith
  finally have "u * b div q \<le> c * q div q" using b by (intro zdiv_mono1) auto
  then show ?thesis using b by simp
qed

text \<open>Converting to the other asset and back never asks for more than was there.\<close>

lemma match_rounding:
  assumes p: "valid_price p" and c: "0 \<le> amount c" "int64 (amount c)" "asset_times_price c p = Inr x"
    and u: "0 \<le> amount u" "int64 (amount u)" "asset_times_price u p = Inr r" "asset_id u = asset_id x" "amount u \<le> amount x"
  shows "amount r \<le> amount c"
proof -
  note v = valid_priceD [OF p]
  have base: "amount r \<le> amount c" if pb: "valid_price q" "asset_id c = asset_id (base q)" "asset_times_price c q = Inr x" "asset_times_price u (price_inv q) = Inr r" for q
  proof -
    note vq = valid_priceD [OF pb(1)]
    have ok: "asset_ok c" "asset_ok u" using c(2) u(2) by (simp_all add: asset_ok_def)
    have x: "x = mk_asset (amount c * amount (quote q) div amount (base q)) (asset_id (quote q))"
      using pb(3) unfolding asset_times_price_base [OF pb(1) ok(1) c(1) pb(2)] by simp
    have "asset_id u = asset_id (base (price_inv q))" using u(4) x by simp
    from pb(4) [unfolded asset_times_price_base [OF valid_price_inv [OF pb(1)] ok(2) u(1) this]]
    have "r = mk_asset (amount u * amount (base q) div amount (quote q)) (asset_id (base q))" by simp
    then show ?thesis using floor_back [OF vq(1,2), of "amount u" "amount c"] u(5) x by simp
  qed
  show ?thesis
  proof (cases "asset_id c = asset_id (base p)")
    case True
    with c v have "asset_id x = asset_id (quote p)" by (auto simp: asset_times_price_def Let_def)
    then show ?thesis using base [OF p True c(3)] asset_times_price_quote [OF p, of u] u by (simp add: asset_ok_def)
  next
    case False
    with c have q: "asset_id c = asset_id (quote p)" by (auto simp: asset_times_price_def split: if_splits)
    with c v have "asset_id x = asset_id (base p)" by (auto simp: asset_times_price_def Let_def)
    then have "asset_times_price u (price_inv (price_inv p)) = Inr r" using u by (cases p) (simp add: price_inv_def mk_price_def)
    then show ?thesis using base [OF valid_price_inv [OF p], of] q c asset_times_price_quote [OF p, of c] by (simp add: asset_ok_def)
  qed
qed

context fc_safe
begin

lemma fill_all: "fill_limit_order S i (amount_for_sale order) receives c d = Inr (f, d') \<Longrightarrow> map_of (limit_orders d) i = Some order \<Longrightarrow> f"
  by (auto simp: fill_limit_order_def Let_def)

lemma match_limit_step:
  assumes "match_limit S usd core p d = Inr (f1, f2, d')" "market_wf d" "valid_price p"
  shows "(f1 \<or> f2) \<and> effect (\<lambda>_. 0) (\<lambda>_. 0) d d' \<and> call_orders d' = call_orders d \<and> settlements d' = settlements d \<and> bitassets d' = bitassets d"
proof -
  from assms(1) obtain u c x cr ur d1 b where u: "map_of (limit_orders d) usd = Some u" and c: "map_of (limit_orders d) core = Some c"
    and x: "asset_times_price (amount_for_sale c) p = Inr x" and b: "asset_le (amount_for_sale u) x = Inr b"
    and r: "(if b then rbind (asset_times_price (amount_for_sale u) p) (\<lambda>r. Inr (amount_for_sale u, r)) else Inr (x, amount_for_sale c)) = Inr (cr, ur)"
    and f1: "fill_limit_order S usd cr ur False d = Inr (f1, d1)" and f2: "fill_limit_order S core ur cr True d1 = Inr (f2, d')"
    by (auto simp: match_limit_def)
  note wu = market_wf_limit [OF assms(2) u] and wc = market_wf_limit [OF assms(2) c]
  have xu: "asset_id (amount_for_sale u) = asset_id x" "b \<longleftrightarrow> for_sale u \<le> amount x"
    using b by (auto simp: asset_le_def asset_less_def amount_for_sale_def split: if_splits)
  have ne: "usd \<noteq> core" using xu(1) asset_times_price_other [OF x] valid_priceD(5) [OF assms(3)] u c by auto
  have amounts: "amount cr \<le> for_sale u \<and> 0 \<le> amount cr \<and> int64 (amount cr) \<and> amount ur \<le> for_sale c \<and> 0 \<le> amount ur \<and> int64 (amount ur)"
  proof (cases b)
    case True
    then have cr: "cr = amount_for_sale u" and ur: "asset_times_price (amount_for_sale u) p = Inr ur" using r by auto
    have "amount ur \<le> amount (amount_for_sale c)"
      using match_rounding [OF assms(3) _ _ x _ _ ur xu(1)] wu wc True xu by (simp add: amount_for_sale_def)
    then show ?thesis using asset_times_price_range [OF ur] wu by (simp add: cr amount_for_sale_def)
  next
    case False
    then show ?thesis using r asset_times_price_range [OF x] wc xu by (auto simp: amount_for_sale_def)
  qed
  have s1: "limit_step (\<lambda>x. amt_at (asset_id ur) (amount ur) x - amt_at (asset_id cr) (amount cr) x) usd d d1"
    using fill_limit_order_step [OF f1 assms(2) u] amounts by blast
  then have c1: "map_of (limit_orders d1) core = Some c" using c ne by (simp add: limit_step_def)
  have s2: "limit_step (\<lambda>x. amt_at (asset_id cr) (amount cr) x - amt_at (asset_id ur) (amount ur) x) core d1 d'"
    using fill_limit_order_step [OF f2 limit_step_wf [OF s1] c1] amounts by blast
  have "f1 \<or> f2"
  proof (cases b)
    case True
    then have "cr = amount_for_sale u" using r by auto
    then have f1 using fill_all [OF _ u] f1 by blast
    then show ?thesis ..
  next
    case False
    then have "ur = amount_for_sale c" using r by auto
    then have f2 using fill_all [OF _ c1] f2 by blast
    then show ?thesis ..
  qed
  moreover have "effect (\<lambda>_. 0) (\<lambda>_. 0) d d'" using s1 s2 by (auto simp: limit_step_def effect_def same_frame_def)
  ultimately show ?thesis using s1 s2 by (simp add: limit_step_def)
qed

lemma match_book_conserves:
  "match_book S new is d = Inr d' \<Longrightarrow> market_wf d \<Longrightarrow> effect (\<lambda>_. 0) (\<lambda>_. 0) d d'"
proof (induction "is" arbitrary: d)
  case (Cons i "is")
  from Cons.prems(1) obtain old f1 f2 d1 where o: "map_of (limit_orders d) i = Some old"
    and m: "match_limit S new i (sell_price old) d = Inr (f1, f2, d1)"
    and r: "(if \<not> f1 \<and> f2 then match_book S new is d1 else Inr d1) = Inr d'" by auto
  have e: "effect (\<lambda>_. 0) (\<lambda>_. 0) d d1" using match_limit_step [OF m Cons.prems(2)] market_wf_limit [OF Cons.prems(2) o] by blast
  then show ?case using Cons.IH [of d1] r effect_trans [OF e] effectD(1) [OF e] by (auto split: if_splits)
qed (auto intro: effect_refl)

end

section \<open>Margin positions\<close>

text \<open>The margin position \<open>i\<close> was worked on: \<open>g\<close> of its collateral paid out and \<open>s\<close> of its debt retired.\<close>

definition call_step :: "(nat \<Rightarrow> int) \<Rightarrow> (nat \<Rightarrow> int) \<Rightarrow> chain_db \<Rightarrow> chain_db \<Rightarrow> bool" where
  "call_step g s d d' \<longleftrightarrow> effect g s d d' \<and> limit_orders d' = limit_orders d \<and> settlements d' = settlements d \<and> bitassets d' = bitassets d"

lemma call_step_trans: "call_step g s d d1 \<Longrightarrow> call_step h t d1 d2 \<Longrightarrow> call_step (\<lambda>x. g x + h x) (\<lambda>x. s x + t x) d d2"
  using effect_trans [of g s d d1 h t d2] by (auto simp: call_step_def)

lemma call_step_same: "effect g s d d' \<and> same_orders d d' \<Longrightarrow> call_step g s d d'"
  by (simp add: call_step_def same_orders_def)

lemma call_step_wf: "call_step g s d d' \<Longrightarrow> market_wf d'"
  by (auto simp: call_step_def dest: effectD)

lemma call_step_cong: "call_step g s d d' \<Longrightarrow> (\<And>x. g x = h x) \<Longrightarrow> (\<And>x. s x = t x) \<Longrightarrow> call_step h t d d'"
  by (auto simp: call_step_def effect_def same_frame_def)

lemma call_step_refl: "market_wf d \<Longrightarrow> call_step (\<lambda>_. 0) (\<lambda>_. 0) d d"
  by (simp add: call_step_def effect_refl)

lemma map_of_update_order: "map_of (AList.update i w xs) j = (if j = i then Some w else map_of xs j)"
  by (simp add: update_conv)

context fc_safe
begin

lemma less_core_twice_worth:
  "rbind (if c then less_core_in_orders S a b else Inr b) (\<lambda>b1. if e then less_core_in_orders S a' b1 else Inr b1) = Inr t \<Longrightarrow>
   stat_worth t = stat_worth b"
  by (auto dest!: less_core_in_orders_worth split: if_splits)

text \<open>The part of \<^verbatim>\<open>fill_order\<close> that pays the borrower of a closed position what is left.\<close>

lemma release_collateral_effect:
  assumes "(if cl \<or> core then
      rbind (if cl then adjust_balance S acc freed d else Inr d) (\<lambda>d3.
      modify_stats acc (\<lambda>b. rbind (if cl \<and> amount freed > 0 then less_core_in_orders S (amount freed) b else Inr b) (\<lambda>b1.
        if core then less_core_in_orders S (amount pays) b1 else Inr b1)) d3)
      else Inr d) = Inr d'"
    and "market_wf d" "acc < length (accounts d)"
  shows "effect (if cl then amt_at (asset_id freed) (amount freed) else (\<lambda>_. 0)) (\<lambda>_. 0) d d' \<and> same_orders d d'"
proof (cases "cl \<or> core")
  case True
  with assms(1) obtain d3 where a: "(if cl then adjust_balance S acc freed d else Inr d) = Inr d3"
    and m: "modify_stats acc (\<lambda>b. rbind (if cl \<and> amount freed > 0 then less_core_in_orders S (amount freed) b else Inr b) (\<lambda>b1.
        if core then less_core_in_orders S (amount pays) b1 else Inr b1)) d3 = Inr d'" by auto
  have e: "effect (if cl then amt_at (asset_id freed) (amount freed) else (\<lambda>_. 0)) (\<lambda>_. 0) d d3 \<and> same_orders d d3"
    using a adjust_balance_effect_on [OF _ assms(3,2)] effect_refl [OF assms(2)] by (auto simp: same_orders_def split: if_splits)
  have w: "market_wf d3" using e by (auto dest: effectD)
  have e2: "effect (amt_at 0 0) (\<lambda>_. 0) d3 d' \<and> same_orders d3 d' \<and> acc < length (accounts d3)"
    by (rule modify_stats_effect [OF m w], subst less_core_twice_worth) auto
  show ?thesis using e e2 effect_trans [OF conjunct1 [OF e] conjunct1 [OF e2]] by (simp add: same_orders_def)
next
  case False
  then show ?thesis using assms effect_refl by (auto simp: same_orders_def)
qed

lemma fill_call_order_step:
  assumes "fill_call_order S i pays receives d = Inr (b, d')" "market_wf d"
  shows "call_step (\<lambda>x. - amt_at (asset_id pays) (amount pays) x) (\<lambda>x. - amt_at (asset_id receives) (amount receives) x) d d' \<and>
    (\<forall>j. j \<noteq> i \<longrightarrow> map_of (call_orders d') j = map_of (call_orders d) j)"
proof -
  from assms(1) obtain order where o: "get_order (call_orders d) i = Inr order" "asset_id (get_debt order) = asset_id receives"
    "asset_id (get_collateral order) = asset_id pays" "asset_ge (get_collateral order) pays = Inr True"
    and sb: "int64 (debt order - amount receives)" "int64 (collateral order - amount pays)"
    by (auto simp: fill_call_order_def sub_iff)
  define dbt coll where dc: "dbt = debt order - amount receives" "coll = collateral order - amount pays"
  have ss: "safe_sub S (debt order) (amount receives) = Inr dbt" "safe_sub S (collateral order) (amount pays) = Inr coll"
    using sb by (simp_all add: sub_iff dc)
  have p: "asset_id (base (call_price_of order)) = asset_id pays" using o(3) by (simp add: get_collateral_def)
  define w where w: "w = order\<lparr> debt := dbt, collateral := (if dbt = 0 then 0 else coll) \<rparr>"
  define d1 where d1: "d1 = d\<lparr> call_orders := AList.update i w (call_orders d) \<rparr>"
  define freed where fr: "freed = mk_asset coll (asset_id pays)"
  let ?sub = "\<lambda>y. rbind (safe_sub S (current_supply y) (amount receives)) (\<lambda>s. Inr (y\<lparr> current_supply := s \<rparr>))"
  let ?rel = "\<lambda>d2. if dbt = 0 \<or> asset_id pays = 0 then
      rbind (if dbt = 0 then adjust_balance S (borrower order) freed d2 else Inr d2) (\<lambda>d3.
      modify_stats (borrower order) (\<lambda>b. rbind (if dbt = 0 \<and> amount freed > 0 then less_core_in_orders S (amount freed) b else Inr b) (\<lambda>b1.
        if asset_id pays = 0 then less_core_in_orders S (amount pays) b1 else Inr b1)) d3)
      else Inr d2"
  let ?op = "push_applied_operation (Fill_order_operation (Call_ref i) (borrower order) pays receives (mk_asset 0 (asset_id pays)))"
  have "rbind (modify_dyn (asset_id receives) ?sub d1) (\<lambda>d2. rbind (get_obj (accounts d2) (borrower order)) (\<lambda>_. rbind (?rel d2) (\<lambda>d4.
      Inr (dbt = 0, if dbt = 0 then (?op d4)\<lparr> call_orders := remove_order i (call_orders (?op d4)) \<rparr> else ?op d4)))) = Inr (b, d')"
    using assms(1) unfolding w d1 fr by (simp only: fill_call_order_def o ss p rbind_Inr ensure_def Let_def if_True simp_thms)
  then obtain d2 d4 where m: "modify_dyn (asset_id receives) ?sub d1 = Inr d2" and acc: "borrower order < length (accounts d2)"
    and r: "?rel d2 = Inr d4" and d': "d' = (if dbt = 0 then (?op d4)\<lparr> call_orders := remove_order i (call_orders (?op d4)) \<rparr> else ?op d4)"
    unfolding rbind_eq_Inr by (auto split del: if_split)
  have e1: "call_step (\<lambda>x. call_worth x (i, w) - call_worth x (i, order)) (\<lambda>_. 0) d d1"
    using update_call_effect [OF assms(2)] o(1) by (simp add: call_step_def d1)
  have e2: "effect (\<lambda>y. amt_at (asset_id receives) 0 y + amt_at 0 0 y) (amt_at (asset_id receives) (- amount receives)) d1 d2 \<and> same_orders d1 d2"
    by (rule modify_dyn_effect [OF m call_step_wf [OF e1]]) (auto simp: sub_iff)
  have w2: "market_wf d2" using e2 by (auto dest: effectD)
  note e4 = release_collateral_effect [OF r w2 acc]
  define d5 where d5: "d5 = ?op d4"
  have e5: "effect (\<lambda>_. 0) (\<lambda>_. 0) d4 d5 \<and> same_orders d4 d5" unfolding d5 using e4 by (intro push_applied_effect) (auto dest: effectD)
  have c5: "call_orders d5 = AList.update i w (call_orders d)" "market_wf d5"
    using e2 e4 e5 by (auto simp: same_orders_def d1 dest: effectD)
  have e6: "call_step (\<lambda>x. if dbt = 0 then - call_worth x (i, w) else 0) (\<lambda>_. 0) d5 d'"
    using remove_call_effect [OF c5(2), of i w] call_step_refl [OF c5(2)]
    by (auto simp: d' d5 [symmetric] call_step_def c5(1) map_of_update_order)
  note t = call_step_trans [OF call_step_trans [OF call_step_trans [OF call_step_trans [OF e1 call_step_same [OF e2]]
    call_step_same [OF e4]] call_step_same [OF e5]] e6]
  have "call_step (\<lambda>x. - amt_at (asset_id pays) (amount pays) x) (\<lambda>x. - amt_at (asset_id receives) (amount receives) x) d d'"
    by (rule call_step_cong [OF t]) (auto simp: call_worth_def amt_at_def p w fr dc)
  moreover have "map_of (call_orders d') j = map_of (call_orders d) j" if "j \<noteq> i" for j
    using that by (simp add: d' d5 [symmetric] c5(1) map_of_remove_order map_of_update_order)
  ultimately show ?thesis by blast
qed

end

section \<open>Forced settlement\<close>

lemma market_wf_settle: "market_wf d \<Longrightarrow> map_of (settlements d) i = Some v \<Longrightarrow> i < next_settlement d \<and> fs_owner v < length (accounts d)"
  by (auto simp: market_wf_def dest!: map_of_SomeD)

lemma update_settle_effect:
  assumes "market_wf d" "map_of (settlements d) i = Some v" "fs_owner w = fs_owner v"
  shows "effect (\<lambda>x. settle_worth x (i, w) - settle_worth x (i, v)) (\<lambda>_. 0) d (d\<lparr> settlements := AList.update i w (settlements d) \<rparr>)"
proof -
  have dist: "distinct (map fst (settlements d))" using assms by (simp add: market_wf_def)
  have "market_wf (d\<lparr> settlements := AList.update i w (settlements d) \<rparr>)"
    using assms(1,3) distinct_update [OF dist] market_wf_settle [OF assms(1,2)]
    by (simp add: market_wf_def) (intro conjI update_order_all; simp)
  moreover have "bal (d\<lparr> settlements := AList.update i w (settlements d) \<rparr>) = bal d" by (rule bal_cong) simp
  ultimately show ?thesis by (simp add: same_frame_def effect_def gross_def supply_of_def dyn_of_def update_order_sum [OF dist assms(2)])
qed

lemma remove_settle_effect:
  assumes "market_wf d" "map_of (settlements d) i = Some v"
  shows "effect (\<lambda>x. - settle_worth x (i, v)) (\<lambda>_. 0) d (d\<lparr> settlements := remove_order i (settlements d) \<rparr>)"
proof -
  have dist: "distinct (map fst (settlements d))" using assms by (simp add: market_wf_def)
  have "market_wf (d\<lparr> settlements := remove_order i (settlements d) \<rparr>)"
    using assms(1) remove_order_distinct [OF dist] remove_order_subset [of i "settlements d"] by (auto simp: market_wf_def)
  moreover have "bal (d\<lparr> settlements := remove_order i (settlements d) \<rparr>) = bal d" by (rule bal_cong) simp
  ultimately show ?thesis by (simp add: same_frame_def effect_def gross_def supply_of_def dyn_of_def remove_order_sum [OF dist assms(2)])
qed

context fc_safe
begin

lemma cancel_settlement_effect:
  assumes "cancel_settlement S i v d = Inr d'" "market_wf d"
  shows "effect (\<lambda>_. 0) (\<lambda>_. 0) d d'"
proof -
  from assms(1) obtain order d1 d2 where o: "map_of (settlements d) i = Some order"
    and a: "adjust_balance S (fs_owner order) (fs_balance order) d = Inr d1"
    and d2: "d2 = (if v then push_applied_operation (Asset_settle_cancel_operation (Settle_ref i) (fs_owner order) (fs_balance order)) d1 else d1)"
    and d': "d' = d2\<lparr> settlements := remove_order i (settlements d2) \<rparr>"
    by (auto simp: cancel_settlement_def Let_def)
  have "fs_owner order < length (accounts d)" using market_wf_settle [OF assms(2) o] by simp
  note e1 = adjust_balance_effect_on [OF a this assms(2)]
  then have w1: "market_wf d1" by (auto dest: effectD)
  have e2: "effect (\<lambda>_. 0) (\<lambda>_. 0) d1 d2 \<and> same_orders d1 d2"
    using push_applied_effect [OF w1] effect_refl [OF w1] by (auto simp: d2 same_orders_def)
  have "market_wf d2" "map_of (settlements d2) i = Some order" using e1 e2 o by (auto simp: same_orders_def dest: effectD)
  note e3 = remove_settle_effect [OF this]
  show ?thesis unfolding d'
    by (rule effect_cong [OF effect_trans [OF effect_trans [OF conjunct1 [OF e1] conjunct1 [OF e2]] e3]])
      (auto simp: amt_at_def settle_worth_def)
qed

lemma fill_settlement_effect:
  assumes "fill_settlement S i pays receives d = Inr (b, d')" "market_wf d" "map_of (settlements d) i = Some settle"
    and "amount pays \<le> amount (fs_balance settle)" "0 \<le> amount receives" "int64 (amount receives)"
  shows "effect (\<lambda>x. amt_at (asset_id receives) (amount receives) x - amt_at (asset_id pays) (amount pays) x) (\<lambda>_. 0) d d'"
proof -
  from assms(1,3) obtain fees d1 part where f: "pay_market_fees S (asset_id receives) receives d = Inr (fees, d1)"
    and l: "asset_less pays (fs_balance settle) = Inr part" by (auto simp: fill_settlement_def)
  have g: "get_order (settlements d) i = Inr settle" using assms(3) by simp
  let ?upd = "if part then rbind (asset_minus S (fs_balance settle) pays)
      (\<lambda>b. Inr (d1\<lparr> settlements := AList.update i (settle\<lparr> fs_balance := b \<rparr>) (settlements d1) \<rparr>)) else Inr d1"
  let ?op = "push_applied_operation (Fill_order_operation (Settle_ref i) (fs_owner settle) pays receives fees)"
  have "rbind ?upd (\<lambda>d2. rbind (asset_minus S receives fees) (\<lambda>net. rbind (adjust_balance S (fs_owner settle) net d2) (\<lambda>d3.
      Inr (\<not> part, if part then ?op d3 else (?op d3)\<lparr> settlements := remove_order i (settlements (?op d3)) \<rparr>)))) = Inr (b, d')"
    using assms(1) by (simp only: fill_settlement_def g f l rbind_Inr prod.case Let_def)
  then obtain d2 net d3 where u: "?upd = Inr d2" and n: "asset_minus S receives fees = Inr net"
    and a: "adjust_balance S (fs_owner settle) net d2 = Inr d3"
    and d': "d' = (if part then ?op d3 else (?op d3)\<lparr> settlements := remove_order i (settlements (?op d3)) \<rparr>)"
    unfolding rbind_eq_Inr by (auto split del: if_split)
  have id: "asset_id pays = asset_id (fs_balance settle)" "part \<longleftrightarrow> amount pays < amount (fs_balance settle)" using l by (auto simp: asset_less_def)
  note e1 = pay_market_fees_effect [OF f assms(2,5,6)]
  then have s1: "map_of (settlements d1) i = Some settle" "market_wf d1" "accounts d1 = accounts d"
    using assms(3) by (auto simp: same_orders_def dest: effectD)
  have e2: "effect (\<lambda>x. if part then - amt_at (asset_id pays) (amount pays) x else 0) (\<lambda>_. 0) d1 d2 \<and> (\<not> part \<longrightarrow> settlements d2 = settlements d1)"
  proof (cases part)
    case True
    define bal where "bal = mk_asset (amount (fs_balance settle) - amount pays) (asset_id pays)"
    have d2: "d2 = d1\<lparr> settlements := AList.update i (settle\<lparr> fs_balance := bal \<rparr>) (settlements d1) \<rparr>"
      using u True id by (auto simp: asset_minus_def sub_iff bal_def)
    show ?thesis unfolding d2 using True effect_cong [OF update_settle_effect [OF s1(2,1), of "settle\<lparr> fs_balance := bal \<rparr>"]]
      by (auto simp: settle_worth_def amt_at_def bal_def id)
  next
    case False
    then show ?thesis using u effect_refl [OF s1(2)] by simp
  qed
  then have w2: "market_wf d2" "fs_owner settle < length (accounts d2)" using market_wf_settle [OF assms(2,3)] s1 by (auto dest: effectD)
  note e3 = adjust_balance_effect_on [OF a w2(2,1)]
  define d4 where d4: "d4 = ?op d3"
  have e4: "effect (\<lambda>_. 0) (\<lambda>_. 0) d3 d4 \<and> same_orders d3 d4" unfolding d4 using e3 by (intro push_applied_effect) (auto dest: effectD)
  have w4: "market_wf d4" using e4 by (auto dest: effectD)
  have e5: "effect (\<lambda>x. if part then 0 else - amt_at (asset_id pays) (amount pays) x) (\<lambda>_. 0) d4 d'"
  proof (cases part)
    case True
    then show ?thesis using effect_refl [OF w4] by (simp add: d' d4 [symmetric])
  next
    case False
    then have m: "map_of (settlements d4) i = Some settle" using e2 e3 e4 s1 by (simp add: same_orders_def)
    have "amount pays = amount (fs_balance settle)" using False id(2) assms(4) by simp
    with False id(1) show ?thesis
      by (auto intro!: effect_cong [OF remove_settle_effect [OF w4 m]] simp: d' d4 [symmetric] settle_worth_def amt_at_def)
  qed
  have na: "asset_id net = asset_id receives" "amount net = amount receives - amount fees" using n by (auto simp: asset_minus_def sub_iff)
  show ?thesis
    by (rule effect_cong [OF effect_trans [OF effect_trans [OF effect_trans [OF effect_trans [OF conjunct1 [OF e1] conjunct1 [OF e2]] conjunct1 [OF e3]]
      conjunct1 [OF e4]] e5]]) (auto simp: amt_at_def na)
qed

lemma match_settle_conserves_aux:
  assumes "match_settle S ci si p m d = Inr (r, d')" "market_wf d"
  shows "conserves d d'"
proof -
  from assms(1) obtain call settle sale pays d1 b1 b2 where s: "map_of (settlements d) si = Some settle"
    and sale: "asset_min (fs_balance settle) m = Inr sale" and r: "asset_min sale (get_debt call) = Inr r"
    and p: "asset_times_price r p = Inr pays" and f1: "fill_call_order S ci pays r d = Inr (b1, d1)"
    and f2: "fill_settlement S si r pays d1 = Inr (b2, d')"
    by (auto simp: match_settle_def)
  note e1 = fill_call_order_step [OF f1 assms(2)]
  have o: "map_of (settlements d1) si = Some settle" "market_wf d1"
    using e1 s by (auto simp: call_step_def dest: effectD)
  have "amount r \<le> amount (fs_balance settle)" using sale r by (auto simp: asset_min_def asset_less_def split: if_splits)
  then have e2: "effect (\<lambda>x. amt_at (asset_id pays) (amount pays) x - amt_at (asset_id r) (amount r) x) (\<lambda>_. 0) d1 d'"
    using fill_settlement_effect [OF f2 o(2,1)] asset_times_price_range [OF p] by blast
  from e1 have "effect (\<lambda>x. - amt_at (asset_id pays) (amount pays) x) (\<lambda>x. - amt_at (asset_id r) (amount r) x) d d1" by (simp add: call_step_def)
  from effect_trans [OF this e2] show ?thesis by (rule effect_conserves) simp
qed

end

section \<open>Global settlement\<close>

lemma call_range_distinct: "distinct (map fst (call_orders d)) \<Longrightarrow> distinct (call_range d lo hi)"
  unfolding call_range_def by (intro distinct_sort_by) (simp add: distinct_map_filter)

text \<open>The positions of the call index between the least and the greatest price of a pair are those of the pair.\<close>

lemma call_range_pair:
  assumes "price_min a b = Inr lo" "price_max a b = Inr hi" "i \<in> set (call_range d lo hi)"
  shows "\<exists>c. (i, c) \<in> set (call_orders d) \<and> asset_id (base (call_price_of c)) = a \<and> asset_id (quote (call_price_of c)) = b"
proof -
  from assms(3) obtain c where c: "(i, c) \<in> set (call_orders d)" "\<not> price_less (call_price_of c) lo" "\<not> price_less hi (call_price_of c)"
    by (auto simp: call_range_def set_sort_by)
  have "asset_id (base lo) = a" "asset_id (quote lo) = b" "asset_id (base hi) = a" "asset_id (quote hi) = b"
    using assms(1,2) by (auto simp: price_min_def price_max_def asset_div_def)
  then show ?thesis using c by (intro exI [of _ c]) (auto simp: price_less_def split: if_splits)
qed

context fc_safe
begin

lemma settle_calls_effect:
  assumes "settle_calls S sp is g d = Inr (g', d')" "market_wf d" "distinct is"
    and "\<forall>i\<in>set is. \<exists>c. map_of (call_orders d) i = Some c \<and> asset_id (quote (call_price_of c)) = mia"
  shows "asset_id g' = asset_id g \<and> (\<exists>k. call_step (\<lambda>x. - amt_at (asset_id g) (amount g' - amount g) x) (\<lambda>x. - amt_at mia k x) d d')"
  using assms
proof (induction "is" arbitrary: g d)
  case Nil
  then show ?case using call_step_refl [of d] by (auto intro!: exI [of _ 0])
next
  case (Cons i "is")
  from Cons.prems(1) obtain call pays g1 f d1 where c: "map_of (call_orders d) i = Some call" and p: "asset_plus S g pays = Inr g1"
    and fl: "fill_call_order S i pays (get_debt call) d = Inr (f, d1)" and r: "settle_calls S sp is g1 d1 = Inr (g', d')"
    by (auto simp: Let_def)
  have m: "asset_id (get_debt call) = mia" using Cons.prems(4) c by (auto simp: get_debt_def)
  have g1: "asset_id g1 = asset_id g" "asset_id pays = asset_id g" "amount g1 = amount g + amount pays" using p by (auto simp: asset_plus_def add_iff)
  note e = fill_call_order_step [OF fl Cons.prems(2)]
  have "\<forall>j\<in>set is. map_of (call_orders d1) j = map_of (call_orders d) j" using e Cons.prems(3) by auto
  then have ih: "asset_id g' = asset_id g1 \<and> (\<exists>k. call_step (\<lambda>x. - amt_at (asset_id g1) (amount g' - amount g1) x) (\<lambda>x. - amt_at mia k x) d1 d')"
    using Cons.prems by (intro Cons.IH [OF r]) (use e in \<open>auto intro: call_step_wf\<close>)
  then obtain k where "call_step (\<lambda>x. - amt_at (asset_id g1) (amount g' - amount g1) x) (\<lambda>x. - amt_at mia k x) d1 d'" by blast
  note t = call_step_trans [OF conjunct1 [OF e] this]
  have "call_step (\<lambda>x. - amt_at (asset_id g) (amount g' - amount g) x) (\<lambda>x. - amt_at mia (debt call + k) x) d d'"
    by (rule call_step_cong [OF t]) (auto simp: amt_at_def g1 m [symmetric] get_debt_def)
  then show ?case using ih g1(1) by auto
qed

text \<open>The settlement fund takes what was gathered.\<close>

lemma fund_effect:
  assumes "bitasset_of d mia = Inr b" "\<not> has_settlement b" "market_wf d" "asset_id g = short_backing_asset (ba_options b)"
    and "modify_bitasset mia (\<lambda>b. rbind (asset_div (mk_asset s mia) g) (\<lambda>q. Inr (b\<lparr> ba_settlement_price := q, settlement_fund := amount g \<rparr>))) d = Inr d'"
  shows "effect (amt_at (asset_id g) (amount g)) (\<lambda>_. 0) d d' \<and> dyn_data d' = dyn_data d \<and> assets d' = assets d"
proof -
  define b' where "b' = b\<lparr> ba_settlement_price := mk_price (mk_asset s mia) g, settlement_fund := amount g \<rparr>"
  from assms(1,5) obtain i where i: "i < length (bitassets d)" "bitassets d ! i = b" "mia \<noteq> asset_id g"
    and x: "mia < length (assets d)" "bitasset_data_id (assets d ! mia) = Some i" and d': "d' = d\<lparr> bitassets := (bitassets d)[i := b'] \<rparr>"
    by (auto simp: bitasset_of_def modify_bitasset_def asset_div_def b'_def)
  have z: "settlement_fund b = 0" using assms(2,3) i by (auto simp: market_wf_def)
  have hs: "has_settlement b'" using i(3) by (auto simp: has_settlement_def b'_def null_price_ids)
  have "sum_list (map (fund_worth x) (bitassets d')) = sum_list (map (fund_worth x) (bitassets d)) + amt_at (asset_id g) (amount g) x" for x
    using sum_list_update_int [OF i(1), of "fund_worth x" b'] i(2) z assms(4) by (auto simp: d' fund_worth_def amt_at_def b'_def)
  moreover have "market_wf d'" unfolding d' by (rule market_wf_update_bitasset [OF assms(3) x]) (use hs assms(4) in \<open>simp_all add: b'_def\<close>)
  moreover have "bal d' = bal d" by (simp add: d')
  ultimately show ?thesis by (simp add: same_frame_def effect_def gross_def supply_of_def dyn_of_def d')
qed

lemma globally_settle_effect:
  assumes "globally_settle_asset S mia sp d = Inr d'" "market_wf d"
  shows "effect (\<lambda>_. 0) (\<lambda>_. 0) d d'"
proof -
  from assms(1) obtain b a lo hi g d1 d2 where b: "bitasset_of d mia = Inr b" "\<not> has_settlement b"
    and a: "mia < length (assets d)" "dynamic_asset_data_id (assets d ! mia) < length (dyn_data d)"
    and lo: "price_min (short_backing_asset (ba_options b)) mia = Inr lo" and hi: "price_max (short_backing_asset (ba_options b)) mia = Inr hi"
    and g: "settle_calls S sp (call_range d lo hi) (mk_asset 0 (short_backing_asset (ba_options b))) d = Inr (g, d1)"
    and m: "modify_bitasset mia (\<lambda>b. rbind (asset_div (mk_asset (current_supply (dyn_of d mia)) mia) g) (\<lambda>q. Inr (b\<lparr> ba_settlement_price := q, settlement_fund := amount g \<rparr>))) d1 = Inr d2"
    and y: "modify_dyn mia (\<lambda>y. Inr (y\<lparr> current_supply := current_supply (dyn_of d mia) \<rparr>)) d2 = Inr d'"
    by (auto simp: globally_settle_asset_def dyn_of_def)
  let ?bk = "short_backing_asset (ba_options b)"
  have dist: "distinct (map fst (call_orders d))" using assms(2) by (simp add: market_wf_def)
  have di: "distinct (call_range d lo hi)" using dist by (rule call_range_distinct)
  have ca: "\<forall>i\<in>set (call_range d lo hi). \<exists>c. map_of (call_orders d) i = Some c \<and> asset_id (quote (call_price_of c)) = mia"
    using call_range_pair [OF lo hi] dist by (metis map_of_is_SomeI)
  from settle_calls_effect [OF g assms(2) di ca] obtain k where gi: "asset_id g = ?bk"
    and e1: "call_step (\<lambda>x. - amt_at ?bk (amount g) x) (\<lambda>x. - amt_at mia k x) d d1" by auto
  have "bitasset_of d1 mia = Inr b" using b e1 by (auto simp: bitasset_of_def call_step_def effect_def same_frame_def)
  note e2 = fund_effect [OF this b(2) call_step_wf [OF e1] gi m]
  have s2: "supply_of d2 mia = supply_of d mia - k" "assets d2 = assets d" using e1 e2 a by (auto simp: call_step_def effect_def same_frame_def amt_at_def)
  then have k: "current_supply (dyn_of d mia) = current_supply (dyn_of d2 mia) + k" using a by (simp add: supply_of_def)
  have w2: "market_wf d2" using e2 by (auto dest: effectD)
  have e3: "effect (\<lambda>y. amt_at mia 0 y + amt_at 0 0 y) (amt_at mia k) d2 d' \<and> same_orders d2 d'"
    by (rule modify_dyn_effect [OF y w2]) (auto simp: k)
  from e1 have "effect (\<lambda>x. - amt_at ?bk (amount g) x) (\<lambda>x. - amt_at mia k x) d d1" by (simp add: call_step_def)
  from effect_trans [OF effect_trans [OF this conjunct1 [OF e2]] conjunct1 [OF e3]]
  show ?thesis by (rule effect_cong) (auto simp: amt_at_def gi)
qed

end

section \<open>Margin calls and order placement\<close>

text \<open>One round of the margin call loop: it stops, settles the asset globally, or fills a call against a
  limit order and goes on with one of them done.\<close>

inductive margin_round :: "safe_ops \<Rightarrow> nat \<Rightarrow> bool \<Rightarrow> nat list \<Rightarrow> nat list \<Rightarrow> bool \<Rightarrow> chain_db \<Rightarrow> bool \<Rightarrow> chain_db \<Rightarrow> bool" for S mia e where
  stop: "margin_round S mia e calls limits fl d b d"
| settle: "globally_settle_asset S mia p d = Inr d' \<Longrightarrow> margin_round S mia e calls limits fl d b d'"
| fill: "map_of (limit_orders d) li = Some lo \<Longrightarrow> margin_amounts buy (amount_for_sale lo) p fl = Inr (usd, coll, fl', fc) \<Longrightarrow> fc \<or> fl' \<Longrightarrow>
    fill_call_order S ci coll usd d = Inr (b1, d1) \<Longrightarrow> fill_limit_order S li usd coll True d1 = Inr (b2, d2) \<Longrightarrow>
    margin_loop S mia e (if fc then cs else ci # cs) (if fl' then ls else li # ls) fl' True d2 = Inr (b, d') \<Longrightarrow>
    margin_round S mia e (ci # cs) (li # ls) fl d b d'"

lemmas margin_round_fills =
  margin_round.fill [where fc = True and fl' = True, simplified] margin_round.fill [where fc = True and fl' = False, simplified]
  margin_round.fill [where fc = False and fl' = True, simplified]

context fc_safe
begin

lemma blackswan_conserves:
  assumes "check_for_blackswan S mia e d = Inr (b, d')" "market_wf d"
  shows "conserves d d'"
proof -
  have "d' = d \<or> (\<exists>p. globally_settle_asset S mia p d = Inr d')"
    using assms(1) unfolding check_for_blackswan_def Let_def
    by (auto simp del: rbind_eq_Inr elim!: rbindE split: if_splits list.splits)
  then show ?thesis using globally_settle_effect [OF _ assms(2)] conserves_refl [OF assms(2)] by (auto intro: effect_conserves)
qed

lemma margin_amounts_le: "margin_amounts buy sale p f = Inr (usd, coll, fl, fc) \<Longrightarrow>
    amount usd \<le> amount sale \<and> 0 \<le> amount coll \<and> int64 (amount coll)"
  by (auto simp: margin_amounts_def asset_ge_def asset_less_def dest: asset_times_price_range split: if_splits)

lemma margin_fill_conserves:
  assumes "fill_call_order S ci coll usd d = Inr (b1, d1)" "fill_limit_order S li usd coll True d1 = Inr (b2, d2)"
    and "market_wf d" "map_of (limit_orders d) li = Some lo" "amount usd \<le> for_sale lo" "0 \<le> amount coll" "int64 (amount coll)"
  shows "conserves d d2"
proof -
  note e1 = conjunct1 [OF fill_call_order_step [OF assms(1,3)]]
  have "map_of (limit_orders d1) li = Some lo" using e1 assms(4) by (simp add: call_step_def)
  note e2 = conjunct1 [OF fill_limit_order_step [OF assms(2) call_step_wf [OF e1] this assms(5-7)]]
  have "effect (\<lambda>x. - amt_at (asset_id coll) (amount coll) x) (\<lambda>x. - amt_at (asset_id usd) (amount usd) x) d d1"
    "effect (\<lambda>x. amt_at (asset_id coll) (amount coll) x - amt_at (asset_id usd) (amount usd) x) (\<lambda>_. 0) d1 d2"
    using e1 e2 by (simp_all add: call_step_def limit_step_def)
  from effect_trans [OF this] show ?thesis by (rule effect_conserves) simp
qed

lemma margin_loop_cases:
  assumes "margin_loop S mia e calls limits fl mc d = Inr (b, d')" "check_for_blackswan S mia e d = Inr (swan, d0)"
  shows "margin_round S mia e calls limits fl d0 b d'"
proof (cases "calls = [] \<or> swan \<or> limits = []")
  case True
  then show ?thesis using assms by (subst (asm) margin_loop.simps) (auto split: list.splits if_splits intro: margin_round.stop)
next
  case False
  then obtain ci cs li ls where l: "calls = ci # cs" "limits = li # ls" by (auto simp: neq_Nil_conv)
  have q: "\<not> swan" using False by simp
  show ?thesis using assms(1) unfolding l margin_loop.simps [of S mia e "ci # cs" "li # ls"]
    apply (simp only: assms(2) rbind_Inr prod.case list.case q if_False Let_def)
    apply (auto simp del: rbind_eq_Inr elim!: rbindE split: if_split_asm intro!: margin_round.stop)
    apply (erule margin_round.settle | (rule margin_round_fills(1); assumption) | (rule margin_round_fills(2); assumption) |
      (rule margin_round_fills(3); assumption))+
    done
qed

lemma margin_loop_conserves:
  "margin_loop S mia e calls limits fl mc d = Inr (b, d') \<Longrightarrow> market_wf d \<Longrightarrow> conserves d d'"
proof (induction "length calls + length limits" arbitrary: calls limits fl mc d rule: less_induct)
  case less
  from less.prems(1) obtain swan d0 where bs: "check_for_blackswan S mia e d = Inr (swan, d0)"
    by (subst (asm) margin_loop.simps) auto
  have c0: "conserves d d0" using blackswan_conserves [OF bs less.prems(2)] .
  note w0 = conserves_wf [OF c0]
  from margin_loop_cases [OF less.prems(1) bs] have "conserves d0 d'"
  proof cases
    case stop
    then show ?thesis using conserves_refl [OF w0] by simp
  next
    case (settle p)
    then show ?thesis using globally_settle_effect [OF _ w0] by (auto intro: effect_conserves)
  next
    case (fill li lo buy p usd coll fl1 fc ci b1 d1 b2 d2 cs ls)
    note lo = fill(3) and m = fill(4) and or = fill(5) and f1 = fill(6) and f2 = fill(7) and r = fill(8)
    have c2: "conserves d0 d2" using margin_fill_conserves [OF f1 f2 w0 lo] margin_amounts_le [OF m] by (simp add: amount_for_sale_def)
    have "conserves d2 d'" by (rule less.hyps [OF _ r conserves_wf [OF c2]]) (use or fill(1,2) in auto)
    then show ?thesis by (rule conserves_trans [OF c2])
  qed
  then show ?case by (rule conserves_trans [OF c0])
qed

lemma check_call_orders_conserves:
  assumes "check_call_orders S mia e d = Inr (b, d')" "market_wf d"
  shows "conserves d d'"
proof (cases "d' = d")
  case False
  with assms(1) obtain swan d0 where bs: "check_for_blackswan S mia e d = Inr (swan, d0)"
    and r: "d' = d0 \<or> (\<exists>calls limits. margin_loop S mia e calls limits False False d0 = Inr (b, d'))"
    unfolding check_call_orders_def Let_def by (auto split: if_splits)
  have c0: "conserves d d0" using blackswan_conserves [OF bs assms(2)] .
  with r show ?thesis using margin_loop_conserves [OF _ conserves_wf [OF c0]] conserves_trans [OF c0] by auto
qed (use assms conserves_refl in simp)

lemma apply_order_conserves_aux:
  assumes "apply_order S i e d = Inr (b, d')" "market_wf d"
  shows "conserves d d'"
proof -
  from assms(1) obtain x y c1 d1 c2 d2 where a1: "check_call_orders S x e d = Inr (c1, d1)" and a2: "check_call_orders S y e d1 = Inr (c2, d2)"
    and r: "d' = d2 \<or> (\<exists>is d3 c3 d4 c4 d5. match_book S i is d2 = Inr d3 \<and> check_call_orders S x e d3 = Inr (c3, d4) \<and>
       check_call_orders S y e d4 = Inr (c4, d5) \<and> (d' = d5 \<or> maybe_cull_small_order S i d5 = Inr (b, d')))"
    unfolding apply_order_def Let_def by (auto split: if_splits) blast+
  note k1 = check_call_orders_conserves [OF a1 assms(2)]
  note k2 = conserves_trans [OF k1 check_call_orders_conserves [OF a2 conserves_wf [OF k1]]]
  show ?thesis
  proof (cases "d' = d2")
    case False
    with r obtain "is" d3 c3 d4 c4 d5 where m: "match_book S i is d2 = Inr d3" and a3: "check_call_orders S x e d3 = Inr (c3, d4)"
      and a4: "check_call_orders S y e d4 = Inr (c4, d5)" and d5: "d' = d5 \<or> maybe_cull_small_order S i d5 = Inr (b, d')" by blast
    note k3 = conserves_trans [OF k2 effect_conserves [OF match_book_conserves [OF m conserves_wf [OF k2]] refl]]
    note k4 = conserves_trans [OF k3 check_call_orders_conserves [OF a3 conserves_wf [OF k3]]]
    note k5 = conserves_trans [OF k4 check_call_orders_conserves [OF a4 conserves_wf [OF k4]]]
    have "conserves d5 d'" if "maybe_cull_small_order S i d5 = Inr (b, d')"
      using cull_effect [OF that conserves_wf [OF k5]] by (auto intro: effect_conserves)
    then show ?thesis using d5 k5 conserves_trans [OF k5] by auto
  qed (use k2 in simp)
qed

end

end
