(* ===== verification/Market_Properties.thy ===== *)
theory Market_Properties
  imports Market_Matching
begin

text \<open>The properties of the exchange, on the operations of \<^verbatim>\<open>db_market.cpp\<close>.\<close>

section \<open>A small market, for the examples\<close>

definition demo_market :: chain_db where
  "demo_market = demo_db\<lparr> limit_orders :=
     [(0, \<lparr> expiration = 2000, seller = 7, for_sale = 10, sell_price = mk_price (mk_asset 10 1) (mk_asset 20 0), deferred_fee = 0 \<rparr>),
      (1, \<lparr> expiration = 2000, seller = 8, for_sale = 30, sell_price = mk_price (mk_asset 30 0) (mk_asset 15 1), deferred_fee = 3 \<rparr>)],
     next_limit_order := 2 \<rparr>"

definition demo_feed :: price_feed where
  "demo_feed = \<lparr> settlement_price = mk_price (mk_asset 1 1) (mk_asset 2 0), core_exchange_rate = default_price,
     maintenance_collateral_ratio = 1750, maximum_short_squeeze_ratio = 1500 \<rparr>"

definition demo_bitasset :: asset_bitasset_data_object where
  "demo_bitasset = \<lparr> ba_options = \<lparr> feed_lifetime_sec = 100, minimum_feeds = 1, force_settlement_delay_sec = 100,
     force_settlement_offset_percent = 0, maximum_force_settlement_volume = 2000, short_backing_asset = 0 \<rparr>, feeds = [],
     current_feed = demo_feed, current_feed_publication_time = 0, is_prediction_market = False, force_settled_volume = 0,
     ba_settlement_price = default_price, settlement_fund = 0 \<rparr>"

definition demo_margin :: chain_db where
  "demo_margin = demo_db\<lparr> assets := [demo_asset 0, (demo_asset 1)\<lparr> bitasset_data_id := Some 0 \<rparr>], bitassets := [demo_bitasset],
     acc_stats := replicate 9 (demo_stats\<lparr> total_core_in_orders := 1000 \<rparr>),
     call_orders := [(4, \<lparr> borrower = 7, collateral = 300, debt = 100, call_price_of = mk_price (mk_asset 175 0) (mk_asset 100 1) \<rparr>)],
     settlements := [(5, \<lparr> fs_owner = 8, fs_balance = mk_asset 40 1, settlement_date = 900 \<rparr>)], next_settlement := 6 \<rparr>"

lemmas demo_market_simps = demo_market_def demo_margin_def demo_bitasset_def demo_feed_def demo_db_def demo_account_def demo_stats_def demo_asset_def demo_options_def demo_dyn_def

lemmas market_eval = demo_market_simps get_order_def get_obj_def modify_obj_def modify_stats_def modify_dyn_def less_core_in_orders_def
  adjust_balance_def get_balance_def amount_for_sale_def amount_to_receive_def get_debt_def get_collateral_def asset_times_price_def asset_le_def asset_less_def
  asset_ge_def asset_greater_def asset_minus_def asset_plus_def asset_div_def asset_min_def pay_market_fees_def calculate_market_fee_def charges_market_fees_def
  has_flag_def charge_market_fee_def pay_order_def push_applied_operation_def stats_pay_fee_def checked_ops_def checked64_def int64_def
  u128_def to_int64_id GRAPHENE_MAX_SHARE_SUPPLY_def remove_order_def Let_def

lemma demo_market_wf: "market_wf demo_market" "market_wf demo_margin"
  by (auto simp: market_wf_def settled_ok_def has_settlement_def null_price_ids default_price_def demo_market_simps int64_def valid_price_def price_validate_def asset_ok_def GRAPHENE_MAX_SHARE_SUPPLY_def
    GRAPHENE_100_PERCENT_def less_Suc_eq numeral_2_eq_2 nth_Cons')

section \<open>Properties\<close>

text \<open>C9: Placing an order (margin calls of both assets, matching against the book, margin calls again,
  culling) neither creates nor destroys anything: for every asset, what accounts, orders, positions,
  fee accounts, fee pools, vesting balances and settlement funds hold, less the supply, is what it was.\<close>

theorem apply_order_conserves:
  assumes "fc_safe S" "market_wf d" "apply_order S i allow_black_swan d = Inr (filled, d')"
  shows "market_wf d' \<and> gross d' x - supply_of d' x = gross d x - supply_of d x"
  using fc_safe.apply_order_conserves_aux [OF assms(1,3,2)] by (simp add: conserves_def same_frame_def)

lemma demo_apply: "\<not> isl (apply_order checked_ops 1 True demo_market)"
  by (simp add: apply_order_def check_call_orders_def check_for_blackswan_def is_market_issued_def market_eval limit_range_def sort_by_def
    price_max_def price_greater_def price_le_def price_eq_def price_less_def match_limit_def fill_limit_order_def maybe_cull_small_order_def)

theorem apply_order_conserves_witness:
  "\<exists>filled d'. apply_order checked_ops 1 True demo_market = Inr (filled, d') \<and>
     gross d' 0 - supply_of d' 0 = gross demo_market 0 - supply_of demo_market 0"
proof -
  obtain f d' where r: "apply_order checked_ops 1 True demo_market = Inr (f, d')"
    using demo_apply by (cases "apply_order checked_ops 1 True demo_market") auto
  with apply_order_conserves [OF fc_safe_checked_ops demo_market_wf(1) r, of 0] show ?thesis by blast
qed

text \<open>Matching two limit orders at a valid price always fills one of them completely (the assertion
  \<^verbatim>\<open>result != 0\<close> never fails), moves value only between their owners and the fee accounts, and changes no
  supply.\<close>

theorem match_fills_one:
  assumes "fc_safe S" "market_wf d" "valid_price p" "match_limit S usd core p d = Inr (f1, f2, d')"
  shows "(f1 \<or> f2) \<and> gross d' x = gross d x \<and> supply_of d' x = supply_of d x"
  using fc_safe.match_limit_step [OF assms(1,4,2,3)] by (simp add: effect_def same_frame_def)

lemma demo_match: "\<not> isl (match_limit checked_ops 1 0 (mk_price (mk_asset 10 1) (mk_asset 20 0)) demo_market)"
  by (simp add: market_eval match_limit_def fill_limit_order_def maybe_cull_small_order_def)

lemma demo_match_price: "valid_price (mk_price (mk_asset 10 1) (mk_asset 20 0))"
  by (simp add: valid_price_def price_validate_def asset_ok_def int64_def)

theorem match_fills_one_witness:
  "\<exists>f1 f2 d'. match_limit checked_ops 1 0 (mk_price (mk_asset 10 1) (mk_asset 20 0)) demo_market = Inr (f1, f2, d') \<and> (f1 \<or> f2) \<and>
     gross d' 0 = gross demo_market 0"
proof -
  obtain f1 f2 d' where r: "match_limit checked_ops 1 0 (mk_price (mk_asset 10 1) (mk_asset 20 0)) demo_market = Inr (f1, f2, d')"
    using demo_match by (cases "match_limit checked_ops 1 0 (mk_price (mk_asset 10 1) (mk_asset 20 0)) demo_market") auto
  with match_fills_one [OF fc_safe_checked_ops demo_market_wf(1) demo_match_price r, of 0] show ?thesis by blast
qed

text \<open>C15: Global settlement of a market-issued asset pays every position's debt out of its collateral: the
  collateral taken is what the settlement fund holds afterwards, the rest went back to the borrowers, and the
  supply of the settled asset and of every other asset is what it was.\<close>

theorem global_settlement_conserves:
  assumes "fc_safe S" "market_wf d" "globally_settle_asset S mia settle_price d = Inr d'"
  shows "market_wf d' \<and> gross d' x = gross d x \<and> supply_of d' x = supply_of d x"
  using fc_safe.globally_settle_effect [OF assms(1,3,2)] by (simp add: effect_def same_frame_def)

lemma demo_settle: "\<not> isl (globally_settle_asset checked_ops 1 (mk_price (mk_asset 1 1) (mk_asset 2 0)) demo_margin)"
  by (simp add: globally_settle_asset_def bitasset_of_def modify_bitasset_def has_settlement_def null_price_ids default_price_def market_eval
    price_min_def price_max_def call_range_def sort_by_def price_less_def fill_call_order_def)

theorem global_settlement_conserves_witness:
  "\<exists>d'. globally_settle_asset checked_ops 1 (mk_price (mk_asset 1 1) (mk_asset 2 0)) demo_margin = Inr d' \<and>
     gross d' 0 = gross demo_margin 0 \<and> supply_of d' 1 = supply_of demo_margin 1"
proof -
  obtain d' where r: "globally_settle_asset checked_ops 1 (mk_price (mk_asset 1 1) (mk_asset 2 0)) demo_margin = Inr d'"
    using demo_settle by (metis isl_def sum.exhaust)
  with global_settlement_conserves [OF fc_safe_checked_ops demo_market_wf(2) r, of 0]
    global_settlement_conserves [OF fc_safe_checked_ops demo_market_wf(2) r, of 1] show ?thesis by blast
qed

text \<open>C16: Matching a margin position with a forced settlement retires exactly as much supply as the
  settlement gives up, and pays its owner (less the market fee) exactly what leaves the collateral.\<close>

theorem match_settle_conserves:
  assumes "fc_safe S" "market_wf d" "match_settle S call settle match_price max_settlement d = Inr (r, d')"
  shows "market_wf d' \<and> gross d' x - supply_of d' x = gross d x - supply_of d x"
  using fc_safe.match_settle_conserves_aux [OF assms(1,3,2)] by (simp add: conserves_def same_frame_def)

lemma demo_match_settle: "\<not> isl (match_settle checked_ops 4 5 (mk_price (mk_asset 1 1) (mk_asset 2 0)) (mk_asset 1000 1) demo_margin)"
  by (simp add: match_settle_def market_eval fill_call_order_def fill_settlement_def)

theorem match_settle_conserves_witness:
  "\<exists>r d'. match_settle checked_ops 4 5 (mk_price (mk_asset 1 1) (mk_asset 2 0)) (mk_asset 1000 1) demo_margin = Inr (r, d') \<and>
     gross d' 1 - supply_of d' 1 = gross demo_margin 1 - supply_of demo_margin 1"
proof -
  obtain r d' where r: "match_settle checked_ops 4 5 (mk_price (mk_asset 1 1) (mk_asset 2 0)) (mk_asset 1000 1) demo_margin = Inr (r, d')"
    using demo_match_settle by (cases "match_settle checked_ops 4 5 (mk_price (mk_asset 1 1) (mk_asset 2 0)) (mk_asset 1000 1) demo_margin") auto
  from match_settle_conserves [OF fc_safe_checked_ops demo_market_wf(2) r, of 1] r show ?thesis by blast
qed

end
