(* ===== verification/Asset_Object.thy ===== *)
theory Asset_Object
  imports Chain_State
begin

text \<open>
  Price feeds of a market-issued asset and amounts as text (\<^verbatim>\<open>asset_object.cpp\<close>).  Among feeds that
  compare equal \<^verbatim>\<open>std::nth_element\<close> may choose any; the model takes the first in publication order.
\<close>

section \<open>Settlement volume and feeds\<close>

definition max_force_settlement_volume :: "safe_ops \<Rightarrow> asset_bitasset_data_object \<Rightarrow> share_type \<Rightarrow> share_type result" where
  "max_force_settlement_volume S b supply =
     (let p = maximum_force_settlement_volume (ba_options b) in
      if p = 0 then Inr 0
      else if int p = GRAPHENE_100_PERCENT then safe_add S supply (force_settled_volume b)
      else
        throw_unless Undefined_behaviour (int64 (supply + force_settled_volume b))
          (rbind (to_uint64 (u128 (u128 (supply + force_settled_volume b) * int p) div GRAPHENE_100_PERCENT)) (\<lambda>v. Inr (to_int64 v))))"

definition default_price_feed :: price_feed where
  "default_price_feed = \<lparr> settlement_price = default_price, core_exchange_rate = default_price,
     maintenance_collateral_ratio = 1750, maximum_short_squeeze_ratio = 1500 \<rparr>"

definition feed_is_current :: "nat \<Rightarrow> nat \<Rightarrow> nat \<times> nat \<times> price_feed \<Rightarrow> bool" where
  "feed_is_current lifetime current_time f \<longleftrightarrow> int current_time - int (fst (snd f)) < int lifetime \<and> fst (snd f) \<noteq> 0"

definition median_by :: "('f \<Rightarrow> 'f \<Rightarrow> bool) \<Rightarrow> (price_feed \<Rightarrow> 'f) \<Rightarrow> price_feed list \<Rightarrow> 'f" where
  "median_by lt field fs = field (sort_by (\<lambda>a b. lt (field a) (field b)) fs ! (length fs div 2))"

definition median_feed :: "price_feed list \<Rightarrow> price_feed" where
  "median_feed fs =
     \<lparr> settlement_price = median_by price_less settlement_price fs,
       core_exchange_rate = median_by price_less core_exchange_rate fs,
       maintenance_collateral_ratio = median_by (<) maintenance_collateral_ratio fs,
       maximum_short_squeeze_ratio = median_by (<) maximum_short_squeeze_ratio fs \<rparr>"

definition update_median_feeds :: "nat \<Rightarrow> asset_bitasset_data_object \<Rightarrow> asset_bitasset_data_object result" where
  "update_median_feeds current_time b =
     (let cur = filter (feed_is_current (feed_lifetime_sec (ba_options b)) current_time) (feeds b);
          fs = map (snd \<circ> snd) cur;
          published = fold (\<lambda>f t. min t (fst (snd f))) cur current_time in
      if length fs < minimum_feeds (ba_options b)
      then Inr (b\<lparr> current_feed_publication_time := current_time, current_feed := default_price_feed \<rparr>)
      else case fs of
        [] \<Rightarrow> Inl Undefined_behaviour
      | [f] \<Rightarrow> Inr (b\<lparr> current_feed_publication_time := published, current_feed := f \<rparr>)
      | _ \<Rightarrow> Inr (b\<lparr> current_feed_publication_time := published, current_feed := median_feed fs \<rparr>))"

definition feed_expiration_time :: "asset_bitasset_data_object \<Rightarrow> nat" where
  "feed_expiration_time b = (current_feed_publication_time b + feed_lifetime_sec (ba_options b)) mod 2 ^ 32"

definition feed_is_expired :: "nat \<Rightarrow> asset_bitasset_data_object \<Rightarrow> bool" where
  "feed_is_expired current_time b \<longleftrightarrow> feed_expiration_time b \<le> current_time"

section \<open>Amounts as text\<close>

definition digit_char :: "nat \<Rightarrow> char" where
  "digit_char k = ''0123456789'' ! k"

definition digit_value :: "char \<Rightarrow> nat option" where
  "digit_value c = find (\<lambda>k. digit_char k = c) [0..<10]"

definition isdigit :: "char \<Rightarrow> bool" where
  "isdigit c \<longleftrightarrow> digit_value c \<noteq> None"

fun nat_to_string :: "nat \<Rightarrow> string" where
  "nat_to_string n = (if n < 10 then [digit_char n] else nat_to_string (n div 10) @ [digit_char (n mod 10)])"

declare nat_to_string.simps [simp del]

definition int_to_string :: "int \<Rightarrow> string" where
  "int_to_string x = (if x < 0 then CHR ''-'' # nat_to_string (nat (- x)) else nat_to_string (nat x))"

text \<open>\<^verbatim>\<open>std::stoll\<close> on text without blanks: an optional sign, then the longest run of digits; it throws
  when there is none or the number does not fit.\<close>

fun parse_digits :: "nat \<Rightarrow> string \<Rightarrow> nat" where
  "parse_digits a [] = a"
| "parse_digits a (c # cs) = (case digit_value c of Some k \<Rightarrow> parse_digits (10 * a + k) cs | None \<Rightarrow> a)"

definition stoll :: "string \<Rightarrow> int result" where
  "stoll t =
     (let (neg, ds) = (case t of c # cs \<Rightarrow> if c = CHR ''-'' then (True, cs) else if c = CHR ''+'' then (False, cs) else (False, t) | [] \<Rightarrow> (False, []));
          v = (if neg then - int (parse_digits 0 ds) else int (parse_digits 0 ds))
      in ensure (ds \<noteq> [] \<and> isdigit (hd ds)) (ensure (int64 v) (Inr v)))"

fun scan_amount :: "string \<Rightarrow> bool \<Rightarrow> bool \<Rightarrow> (bool \<times> bool) result" where
  "scan_amount [] neg dec = Inr (neg, dec)"
| "scan_amount (c # cs) neg dec =
     (if isdigit c then scan_amount cs neg dec
      else if c = CHR ''-'' \<and> \<not> neg then scan_amount cs True dec
      else if c = CHR ''.'' \<and> \<not> dec then scan_amount cs neg True
      else Inl Assert_exception)"

definition find_char :: "char \<Rightarrow> string \<Rightarrow> nat option" where
  "find_char c t = (let k = length (takeWhile (\<lambda>x. x \<noteq> c) t) in if k < length t then Some k else None)"

definition substr :: "nat \<Rightarrow> nat option \<Rightarrow> string \<Rightarrow> string result" where
  "substr pos count t = ensure (pos \<le> length t) (Inr (case count of None \<Rightarrow> drop pos t | Some n \<Rightarrow> take n (drop pos t)))"

definition amount_from_string :: "safe_ops \<Rightarrow> nat \<Rightarrow> nat \<Rightarrow> string \<Rightarrow> asset result" where
  "amount_from_string S aid prec amount_string =
     rbind (scan_amount amount_string False False) (\<lambda>(negative_found, decimal_found).
     rbind (scaled_precision prec) (\<lambda>scaled.
     let decimal_pos = find_char (CHR ''.'') amount_string in
     rbind (substr (if negative_found then 1 else 0) decimal_pos amount_string) (\<lambda>lhs.
     rbind (if lhs \<noteq> [] then rbind (stoll lhs) (\<lambda>x. rbind (safe_mul S x scaled) (safe_add S 0)) else Inr 0) (\<lambda>whole.
     rbind (if decimal_found then
              rbind (substr (the decimal_pos + 1) None amount_string) (\<lambda>rhs.
              let max_rhs_size = length (tl (int_to_string scaled)) in
              ensure (length rhs \<le> max_rhs_size)
                (let padded = rhs @ replicate (max_rhs_size - length rhs) (CHR ''0'') in
                 if padded \<noteq> [] then rbind (stoll padded) (\<lambda>y. safe_add S whole y) else Inr whole))
            else Inr whole) (\<lambda>satoshis.
     ensure (satoshis \<le> GRAPHENE_MAX_SHARE_SUPPLY)
       (rbind (if negative_found then safe_mul S satoshis (- 1) else Inr satoshis) (\<lambda>r. Inr (mk_asset r aid))))))))"

text \<open>The loop that multiplies by ten overflows \<open>safe<int64_t>\<close> from precision 19 on.\<close>

definition amount_to_string :: "safe_ops \<Rightarrow> nat \<Rightarrow> share_type \<Rightarrow> string result" where
  "amount_to_string S prec amt =
     rbind (rfold (\<lambda>_ p. safe_mul S p 10) [0..<prec] 1) (\<lambda>scaled.
     let result = int_to_string (amt sdiv scaled); decimals = amt smod scaled in
     Inr (if decimals \<noteq> 0 then result @ ''.'' @ tl (int_to_string (scaled + decimals)) else result))"

section \<open>The median\<close>

lemma sorted_majority:
  fixes ys :: "'a :: linorder list"
  assumes "sorted ys" "length ys < 2 * length (filter (\<lambda>y. lo \<le> y \<and> y \<le> hi) ys)"
  shows "lo \<le> ys ! (length ys div 2) \<and> ys ! (length ys div 2) \<le> hi"
proof -
  let ?k = "length ys div 2" and ?P = "\<lambda>y. lo \<le> y \<and> y \<le> hi"
  have k: "?k < length ys" using assms(2) by (cases ys) auto
  have split: "length (filter ?P ys) = length (filter ?P (take j ys)) + length (filter ?P (drop j ys))" for j
    by (metis append_take_drop_id filter_append length_append)
  have "lo \<le> ys ! ?k"
  proof (rule ccontr)
    assume "\<not> lo \<le> ys ! ?k"
    then have "\<not> ?P y" if "y \<in> set (take (Suc ?k) ys)" for y
      using that k by (auto simp: in_set_conv_nth less_Suc_eq_le) (meson assms(1) order.trans sorted_nth_mono)
    then have "filter ?P (take (Suc ?k) ys) = []" by (simp add: filter_empty_conv)
    then show False using split [of "Suc ?k"] length_filter_le [of ?P "drop (Suc ?k) ys"] assms(2) k by simp
  qed
  moreover have "ys ! ?k \<le> hi"
  proof (rule ccontr)
    assume "\<not> ys ! ?k \<le> hi"
    moreover have "ys ! ?k \<le> ys ! (?k + i)" if "i < length ys - ?k" for i
      using sorted_nth_mono [OF assms(1), of ?k "?k + i"] that by simp
    ultimately have "\<not> ?P y" if "y \<in> set (drop ?k ys)" for y
      using that k by (fastforce simp: in_set_conv_nth)
    then have "filter ?P (drop ?k ys) = []" by (simp add: filter_empty_conv)
    then show False using split [of ?k] length_filter_le [of ?P "take ?k ys"] assms(2) k by simp
  qed
  ultimately show ?thesis ..
qed

lemma median_by_majority:
  fixes key :: "'f \<Rightarrow> 'k :: linorder"
  assumes "\<And>a b. a \<in> set fs \<Longrightarrow> b \<in> set fs \<Longrightarrow> lt (field a) (field b) \<longleftrightarrow> key (field a) < key (field b)"
    and "length fs < 2 * length (filter (\<lambda>f. lo \<le> key (field f) \<and> key (field f) \<le> hi) fs)"
  shows "lo \<le> key (median_by lt field fs) \<and> key (median_by lt field fs) \<le> hi"
proof -
  let ?s = "sort_by (\<lambda>a b. lt (field a) (field b)) fs" and ?key = "key \<circ> field"
  have s: "sorted (map ?key ?s)" by (rule sorted_sort_by) (use assms(1) in auto)
  have "length (filter (\<lambda>y. lo \<le> y \<and> y \<le> hi) (map ?key ?s)) = length (filter (\<lambda>f. lo \<le> ?key f \<and> ?key f \<le> hi) ?s)"
    by (simp add: filter_map comp_def)
  then have "length (map ?key ?s) < 2 * length (filter (\<lambda>y. lo \<le> y \<and> y \<le> hi) (map ?key ?s))"
    using assms(2) by (simp add: length_filter_sort_by)
  moreover have "length fs div 2 < length ?s" using assms(2) by (cases fs) auto
  ultimately show ?thesis using sorted_majority [OF s] by (simp add: median_by_def)
qed

section \<open>Digits\<close>

lemma digit_value_char [simp]: "k < 10 \<Longrightarrow> digit_value (digit_char k) = Some k"
  by (auto simp: digit_value_def digit_char_def less_Suc_eq numeral_eq_Suc upt_rec)

lemma isdigit_char [simp]: "k < 10 \<Longrightarrow> isdigit (digit_char k)"
  by (simp add: isdigit_def)

lemma not_digit [simp]: "\<not> isdigit (CHR ''.'')" "\<not> isdigit (CHR ''-'')" "\<not> isdigit (CHR ''+'')"
  by (simp_all add: isdigit_def digit_value_def digit_char_def upt_rec)

lemma parse_digits_append:
  "\<forall>c\<in>set xs. isdigit c \<Longrightarrow> parse_digits a (xs @ ys) = parse_digits (parse_digits a xs) ys"
  by (induction xs arbitrary: a) (auto simp: isdigit_def)

lemma nat_to_string_digits: "\<forall>c\<in>set (nat_to_string n). isdigit c" "nat_to_string n \<noteq> []"
  by (induction n rule: nat_to_string.induct) (subst nat_to_string.simps; auto)+

lemma parse_nat_to_string [simp]: "parse_digits 0 (nat_to_string n) = n"
proof (induction n rule: nat_to_string.induct)
  case (1 n)
  show ?case using 1 nat_to_string_digits(1) [of "n div 10"]
    by (subst nat_to_string.simps) (auto simp: parse_digits_append)
qed

lemma int_to_string_nat: "int_to_string (int n) = nat_to_string n"
  by (simp add: int_to_string_def)

text \<open>The last \<open>p\<close> digits of a number.\<close>

fun pad :: "nat \<Rightarrow> nat \<Rightarrow> string" where
  "pad 0 r = []"
| "pad (Suc p) r = pad p (r div 10) @ [digit_char (r mod 10)]"

lemma pad_length [simp]: "length (pad p r) = p"
  by (induction p arbitrary: r) auto

lemma pad_eq_Nil [simp]: "pad p r = [] \<longleftrightarrow> p = 0"
  by (cases p) auto

lemma pad_digits: "\<forall>c\<in>set (pad p r). isdigit c"
  by (induction p arbitrary: r) auto

lemma parse_pad: "r < 10 ^ p \<Longrightarrow> parse_digits 0 (pad p r) = r"
proof (induction p arbitrary: r)
  case (Suc p)
  then have "r div 10 < 10 ^ p" by auto
  with Suc.IH [OF this] pad_digits [of p "r div 10"] show ?case by (simp add: parse_digits_append)
qed simp

lemma nat_to_string_pad: "r < 10 ^ p \<Longrightarrow> nat_to_string (10 ^ p + r) = digit_char 1 # pad p r"
proof (induction p arbitrary: r)
  case 0
  then show ?case by (simp add: nat_to_string.simps)
next
  case (Suc p)
  then have "r div 10 < 10 ^ p" by auto
  moreover have "(1 :: nat) \<le> 10 ^ p" by simp
  ultimately show ?case using Suc.IH by (subst nat_to_string.simps) simp
qed

lemma stoll_digits: "\<forall>c\<in>set t. isdigit c \<Longrightarrow> t \<noteq> [] \<Longrightarrow> int64 (int (parse_digits 0 t)) \<Longrightarrow> stoll t = Inr (int (parse_digits 0 t))"
  by (cases t) (auto simp: stoll_def ensure_def)

lemma scan_digits: "\<forall>c\<in>set xs. isdigit c \<Longrightarrow> scan_amount (xs @ ys) n d = scan_amount ys n d"
  by (induction xs) auto

lemma find_point:
  assumes "\<forall>c\<in>set xs. isdigit c"
  shows "find_char (CHR ''.'') xs = None" "find_char (CHR ''.'') (xs @ CHR ''.'' # ys) = Some (length xs)"
proof -
  have "\<forall>c\<in>set xs. c \<noteq> CHR ''.''" using assms not_digit by blast
  then show "find_char (CHR ''.'') xs = None" "find_char (CHR ''.'') (xs @ CHR ''.'' # ys) = Some (length xs)"
    by (simp_all add: find_char_def Let_def takeWhile_append2 takeWhile_eq_all_conv [THEN iffD2])
qed

lemma scaled_precision_power: "p < 19 \<Longrightarrow> scaled_precision p = Inr (10 ^ p)"
proof -
  have "p10 k = 10 ^ k" for k by (induction k) auto
  then show "p < 19 \<Longrightarrow> scaled_precision p = Inr (10 ^ p)" by (simp add: scaled_precision_def scaled_precision_lut_def)
qed

lemma power_int64: "p < 19 \<Longrightarrow> int64 (10 ^ p)"
proof -
  assume "p < 19"
  then have "(10 :: int) ^ p \<le> 10 ^ 18" by (intro power_increasing) auto
  then have "(10 :: int) ^ p < 2 ^ 63" by simp
  moreover have "- (2 ^ 63) \<le> (10 :: int) ^ p" by (rule order_trans [of _ 0]) simp_all
  ultimately show ?thesis unfolding int64_def by blast
qed

lemma share_int64: "0 \<le> x \<Longrightarrow> x \<le> GRAPHENE_MAX_SHARE_SUPPLY \<Longrightarrow> int64 x"
  by (simp add: int64_def GRAPHENE_MAX_SHARE_SUPPLY_def)

context fc_safe
begin

lemma scale_loop: "p < 19 \<Longrightarrow> rfold (\<lambda>_ x. safe_mul S x 10) [0..<p] 1 = Inr (10 ^ p)"
  by (induction p) (simp_all add: rfold_append mul_iff power_int64 mult.commute flip: power_Suc)

lemma amount_text:
  assumes "p < 19" "0 \<le> a" "int64 a"
  shows "amount_to_string S p a = Inr (let q = nat a div 10 ^ p; r = nat a mod 10 ^ p in
    if r \<noteq> 0 then nat_to_string q @ CHR ''.'' # pad p r else nat_to_string q)"
proof -
  obtain n where a: "a = int n" using assms(2) by (metis nonneg_int_cases)
  have d: "int n sdiv 10 ^ p = int (n div 10 ^ p)" "int n smod 10 ^ p = int (n mod 10 ^ p)"
    by (simp_all add: signed_divide_int_def signed_modulo_int_def zdiv_int zmod_int sgn_if)
  have "int_to_string (10 ^ p + int (n mod 10 ^ p)) = digit_char 1 # pad p (n mod 10 ^ p)"
    using nat_to_string_pad [of "n mod 10 ^ p" p] int_to_string_nat [of "10 ^ p + n mod 10 ^ p"] by simp
  then show ?thesis unfolding amount_to_string_def scale_loop [OF assms(1)] a by (simp add: d Let_def int_to_string_nat)
qed

lemma amount_from_text:
  assumes "p < 19" "a = q * 10 ^ p + r" "r < 10 ^ p" "int a \<le> GRAPHENE_MAX_SHARE_SUPPLY"
  shows "amount_from_string S i p (nat_to_string q @ CHR ''.'' # pad p r) = Inr (mk_asset (int a) i)"
    "r = 0 \<Longrightarrow> amount_from_string S i p (nat_to_string q) = Inr (mk_asset (int a) i)"
proof -
  have "q * 1 \<le> q * 10 ^ p" by (intro mult_left_mono) simp_all
  then have "q \<le> a" "r \<le> a" "q * 10 ^ p \<le> a" unfolding assms(2) by linarith+
  then have "int q \<le> int a" "int r \<le> int a" "int (q * 10 ^ p) \<le> int a" by (simp_all only: of_nat_le_iff)
  then have le: "int q \<le> int a" "int r \<le> int a" "int q * 10 ^ p \<le> int a" by simp_all
  have rng: "int64 (int q)" "int64 (int r)" "int64 (int q * 10 ^ p)" "int64 (int a)"
    using le assms(4) by (auto intro!: share_int64)
  have sum: "int q * 10 ^ p + int r = int a" by (simp add: assms(2))
  have q: "stoll (nat_to_string q) = Inr (int q)" using stoll_digits [OF nat_to_string_digits] rng by simp
  have dots: "scan_amount (nat_to_string q @ CHR ''.'' # pad p r) False False = Inr (False, True)"
    using scan_digits [OF nat_to_string_digits(1), of q "CHR ''.'' # pad p r"] scan_digits [OF pad_digits, of p r "[]"] by simp
  have len: "length (int_to_string (10 ^ p)) = Suc p"
    using nat_to_string_pad [of 0 p] by (simp add: int_to_string_def nat_power_eq)
  have padded: "(if pad p r \<noteq> [] then rbind (stoll (pad p r)) (\<lambda>y. safe_add S (int q * 10 ^ p) y) else Inr (int q * 10 ^ p)) = Inr (int a)"
    using stoll_digits [OF pad_digits, of p r] parse_pad [OF assms(3)] rng sum assms(3) by (cases p) (auto simp: add_iff)
  show "amount_from_string S i p (nat_to_string q @ CHR ''.'' # pad p r) = Inr (mk_asset (int a) i)"
    unfolding amount_from_string_def dots using find_point(2) [OF nat_to_string_digits(1), of q "pad p r"] padded rng assms(1,4)
    by (auto simp: scaled_precision_power substr_def nat_to_string_digits(2) q mul_iff add_iff len Let_def split: if_splits)
  have "scan_amount (nat_to_string q) False False = Inr (False, False)"
    using scan_digits [OF nat_to_string_digits(1), of q "[]"] by simp
  then show "amount_from_string S i p (nat_to_string q) = Inr (mk_asset (int a) i)" if "r = 0"
    unfolding amount_from_string_def using find_point(1) [OF nat_to_string_digits(1), of q] rng assms(1,4) sum that
    by (simp add: scaled_precision_power substr_def nat_to_string_digits(2) q mul_iff add_iff)
qed

end

section \<open>Properties\<close>

text \<open>C31: A minority of feed publishers cannot move the median: if more than half of the current feeds of an
  asset have a settlement price whose ratio lies in an interval, so does the settlement price of the new current feed.\<close>

theorem median_feed_majority:
  assumes up: "update_median_feeds t b = Inr b'"
    and enough: "minimum_feeds (ba_options b) \<le> length (filter (feed_is_current (feed_lifetime_sec (ba_options b)) t) (feeds b))"
    and ok: "\<forall>f\<in>set (feeds b). valid_price (settlement_price (snd (snd f))) \<and>
      asset_id (base (settlement_price (snd (snd f)))) = x \<and> asset_id (quote (settlement_price (snd (snd f)))) = y"
    and maj: "length (filter (feed_is_current (feed_lifetime_sec (ba_options b)) t) (feeds b)) <
      2 * length (filter (\<lambda>f. feed_is_current (feed_lifetime_sec (ba_options b)) t f \<and>
        lo \<le> price_ratio (settlement_price (snd (snd f))) \<and> price_ratio (settlement_price (snd (snd f))) \<le> hi) (feeds b))"
  shows "lo \<le> price_ratio (settlement_price (current_feed b')) \<and> price_ratio (settlement_price (current_feed b')) \<le> hi"
proof -
  let ?cur = "filter (feed_is_current (feed_lifetime_sec (ba_options b)) t) (feeds b)"
  define fs where "fs = map (snd \<circ> snd) ?cur"
  let ?in = "\<lambda>f. lo \<le> price_ratio (settlement_price f) \<and> price_ratio (settlement_price f) \<le> hi"
  have fm: "length fs < 2 * length (filter ?in fs)" using maj by (simp add: fs_def filter_map comp_def conj_commute)
  have v: "valid_price (settlement_price f) \<and> asset_id (base (settlement_price f)) = x \<and> asset_id (quote (settlement_price f)) = y" if "f \<in> set fs" for f
    using that ok by (auto simp: fs_def)
  have lt: "price_less (settlement_price f) (settlement_price g) \<longleftrightarrow> price_ratio (settlement_price f) < price_ratio (settlement_price g)"
    if "f \<in> set fs" "g \<in> set fs" for f g
    using v [OF that(1)] v [OF that(2)] price_ratio_less_iff [of "settlement_price f" "settlement_price g"]
      price_mults [of "settlement_price f" "settlement_price g"] price_mults [of "settlement_price g" "settlement_price f"]
    by (simp add: price_less_def)
  show ?thesis
  proof (cases "length fs = 1")
    case True
    then obtain f where f: "fs = [f]" by (auto simp: length_Suc_conv)
    then show ?thesis using up enough fm by (auto simp: update_median_feeds_def Let_def fs_def [symmetric] split: if_splits)
  next
    case False
    moreover have "fs \<noteq> []" using fm by auto
    ultimately obtain f g rest where f: "fs = f # g # rest" by (cases fs; cases "tl fs") auto
    then have "settlement_price (current_feed b') = median_by price_less settlement_price fs"
      using up enough by (auto simp: update_median_feeds_def Let_def fs_def [symmetric] median_feed_def)
    then show ?thesis using median_by_majority [of fs price_less settlement_price price_ratio lo hi, OF lt fm] by simp
  qed
qed

definition demo_feeds :: "(nat \<times> nat \<times> price_feed) list" where
  "demo_feeds = map (\<lambda>(p, n). (p, 900, \<lparr> settlement_price = mk_price (mk_asset n 1) (mk_asset 10 0), core_exchange_rate = default_price,
     maintenance_collateral_ratio = 1750, maximum_short_squeeze_ratio = 1500 \<rparr>)) [(1, 5), (2, 1000), (3, 6)]"

definition demo_fed :: asset_bitasset_data_object where
  "demo_fed = \<lparr> ba_options = \<lparr> feed_lifetime_sec = 500, minimum_feeds = 1, force_settlement_delay_sec = 100,
     force_settlement_offset_percent = 0, maximum_force_settlement_volume = 2000, short_backing_asset = 0 \<rparr>, feeds = demo_feeds,
     current_feed = default_price_feed, current_feed_publication_time = 0, is_prediction_market = False, force_settled_volume = 0,
     ba_settlement_price = default_price, settlement_fund = 0 \<rparr>"

lemmas demo_fed_simps = demo_fed_def demo_feeds_def feed_is_current_def

theorem median_feed_majority_witness:
  "\<exists>b'. update_median_feeds 1000 demo_fed = Inr b' \<and> price_ratio (settlement_price (current_feed b')) \<le> 6 / 10"
proof -
  obtain b' where r: "update_median_feeds 1000 demo_fed = Inr b'" by (simp add: update_median_feeds_def Let_def demo_fed_simps)
  have "1 / 2 \<le> price_ratio (settlement_price (current_feed b')) \<and> price_ratio (settlement_price (current_feed b')) \<le> 6 / 10"
    by (rule median_feed_majority [OF r, of 1 0])
      (simp_all add: demo_fed_simps valid_price_def price_validate_def asset_ok_def int64_def price_ratio_def)
  then show ?thesis using r by blast
qed

text \<open>C35: Printing and reading back an amount gives the amount, for every precision an asset may have and every
  non-negative amount up to the maximum supply.\<close>

theorem amount_string_round_trip:
  assumes "fc_safe S" "prec < 19" "0 \<le> a" "a \<le> GRAPHENE_MAX_SHARE_SUPPLY"
  shows "\<exists>t. amount_to_string S prec a = Inr t \<and> amount_from_string S i prec t = Inr (mk_asset a i)"
proof -
  let ?q = "nat a div 10 ^ prec" and ?r = "nat a mod 10 ^ prec"
  have n: "nat a = ?q * 10 ^ prec + ?r" "?r < 10 ^ prec" "int (nat a) \<le> GRAPHENE_MAX_SHARE_SUPPLY" using assms by (simp_all add: div_mult_mod_eq)
  have "int64 a" using assms(3,4) by (rule share_int64)
  with fc_safe.amount_text [OF assms(1,2,3)] fc_safe.amount_from_text [OF assms(1,2) n, of i] assms(3) show ?thesis
    by (auto simp: Let_def)
qed

theorem amount_string_round_trip_witness:
  "\<exists>t. amount_to_string checked_ops 2 1205 = Inr t \<and> amount_from_string checked_ops 7 2 t = Inr (mk_asset 1205 7)"
  by (rule amount_string_round_trip) (auto simp: GRAPHENE_MAX_SHARE_SUPPLY_def)

text \<open>Negative amounts are not printed correctly: the fraction of -1.5 is lost, and a minus sign that is not in
  front makes the reader drop the first digit.\<close>

theorem negative_amount_strings:
  "amount_to_string checked_ops 1 (- 15) = Inr ''-1.'' \<and> amount_from_string checked_ops i 0 ''12-'' = Inr (mk_asset (- 2) i)"
  by code_simp

end
