(* ===== verification/Witness_Schedule.thy ===== *)
theory Witness_Schedule
  imports Chain_State Block "HOL-Library.Multiset"
begin

text \<open>
  Slots, the witness schedule and the bookkeeping of a new block: \<^verbatim>\<open>db_witness_schedule.cpp\<close> and the
  first half of \<^verbatim>\<open>db_update.cpp\<close>.  Times are seconds since the epoch in 32 bits, as naturals with the
  wrap-around written out.  Bit counting is \<open>fc::uint128\<close>'s and therefore a parameter.
\<close>

section \<open>State\<close>

record chain_parameters =
  block_interval_of :: nat
  maintenance_interval :: nat
  maintenance_skip_slots :: nat
  committee_proposal_review_period :: nat
  maximum_transaction_size :: nat
  maximum_block_size :: nat
  maximum_time_until_expiration :: nat
  maximum_proposal_lifetime :: nat
  maximum_asset_whitelist_authorities :: nat
  maximum_asset_feed_publishers :: nat
  maximum_witness_count :: nat
  maximum_committee_count :: nat
  maximum_authority_membership :: nat
  reserve_percent_of_fee :: nat
  network_percent_of_fee :: nat
  lifetime_referrer_percent_of_fee :: nat
  cp_cashback_vesting_period_seconds :: nat
  cp_cashback_vesting_threshold :: share_type
  count_non_member_votes :: bool
  allow_non_member_whitelists :: bool
  cp_witness_pay_per_block :: share_type
  witness_pay_vesting_seconds :: nat
  worker_budget_per_day :: share_type
  max_predicate_opcode :: nat
  fee_liquidation_threshold :: share_type
  accounts_per_fee_scale :: nat
  account_fee_scale_bitshifts :: nat
  max_authority_depth :: nat
  account_create_basic_fee :: nat

record global_property_object =
  parameters :: chain_parameters
  pending_parameters :: "chain_parameters option"
  next_available_vote_id :: nat
  active_committee_members :: "nat list"
  active_witnesses :: "nat list"

record dynamic_global_property_object =
  head_block_number :: nat
  head_block_id :: block_id_type
  current_witness :: nat
  next_maintenance_time :: nat
  last_budget_time :: nat
  witness_budget :: share_type
  witness_pay_per_block :: share_type
  accounts_registered_this_interval :: nat
  recently_missed_count :: nat
  current_aslot :: nat
  recent_slots_filled :: "128 word"
  dynamic_flags :: "32 word"
  last_irreversible_block_num :: nat

record witness_object =
  witness_account :: nat
  last_aslot :: nat
  signing_key :: nat
  pay_vb :: "nat option"
  wit_vote_id :: nat
  wit_total_votes :: nat
  wit_url :: string
  total_missed :: int
  last_confirmed_block_num :: nat

record committee_member_object =
  committee_member_account :: nat
  com_vote_id :: nat
  com_total_votes :: nat
  com_url :: string

text \<open>The database, with the time of the head block kept in \<open>cdb\<close>.  Of the fee schedule in the parameters only
  the basic fee of an account creation is kept: it is the only fee that changes by itself.  The two cashback parameters are
  also kept in \<open>cdb\<close>, where the fee path reads them; new parameters are copied there when they take effect.\<close>

record block_state =
  cdb :: chain_db
  gpo :: global_property_object
  dgp :: dynamic_global_property_object
  witnesses :: "witness_object list"
  committee_members :: "committee_member_object list"
  current_shuffled_witnesses :: "nat list"
  last_checkpoint :: "nat option"
  undo_max_size :: nat
  fork_max_size :: nat

abbreviation block_interval :: "block_state \<Rightarrow> nat" where
  "block_interval s \<equiv> block_interval_of (parameters (gpo s))"

abbreviation now_of :: "block_state \<Rightarrow> nat" where
  "now_of s \<equiv> head_block_time (cdb s)"

definition maintenance_flag :: "32 word" where "maintenance_flag = 1"
definition GRAPHENE_RECENTLY_MISSED_COUNT_INCREMENT :: nat where "GRAPHENE_RECENTLY_MISSED_COUNT_INCREMENT = 4"
definition GRAPHENE_RECENTLY_MISSED_COUNT_DECREMENT :: nat where "GRAPHENE_RECENTLY_MISSED_COUNT_DECREMENT = 3"
definition GRAPHENE_IRREVERSIBLE_THRESHOLD :: nat where "GRAPHENE_IRREVERSIBLE_THRESHOLD = 5500"
definition GRAPHENE_MAX_UNDO_HISTORY :: nat where "GRAPHENE_MAX_UNDO_HISTORY = 10000"

section \<open>Slots\<close>

text \<open>Reading the schedule of an empty set of witnesses divides by zero.\<close>

definition get_scheduled_witness :: "nat \<Rightarrow> block_state \<Rightarrow> nat result" where
  "get_scheduled_witness slot_num s =
     (let current = (current_aslot (dgp s) + slot_num) mod 2 ^ 64; wits = current_shuffled_witnesses s in
      throw_unless Undefined_behaviour (wits \<noteq> []) (Inr (wits ! (current mod length wits))))"

definition get_slot_time :: "nat \<Rightarrow> block_state \<Rightarrow> nat result" where
  "get_slot_time slot_num s =
     (if slot_num = 0 then Inr 0
      else if head_block_number (dgp s) = 0 then Inr ((now_of s + slot_num * block_interval s mod 2 ^ 32) mod 2 ^ 32)
      else
        throw_unless Undefined_behaviour (block_interval s \<noteq> 0)
          (let head_block_abs_slot = now_of s div block_interval s;
               head_slot_time = head_block_abs_slot * block_interval s mod 2 ^ 32;
               slot = (if dynamic_flags (dgp s) AND maintenance_flag \<noteq> 0
                       then (slot_num + maintenance_skip_slots (parameters (gpo s))) mod 2 ^ 32 else slot_num)
           in Inr ((head_slot_time + slot * block_interval s mod 2 ^ 32) mod 2 ^ 32)))"

definition get_slot_at_time :: "nat \<Rightarrow> block_state \<Rightarrow> nat result" where
  "get_slot_at_time when s =
     rbind (get_slot_time 1 s) (\<lambda>first_slot_time.
     if when < first_slot_time then Inr 0
     else throw_unless Undefined_behaviour (block_interval s \<noteq> 0)
       (Inr (((when - first_slot_time) div block_interval s + 1) mod 2 ^ 32)))"

definition witness_participation_rate :: "(128 word \<Rightarrow> nat) \<Rightarrow> block_state \<Rightarrow> nat" where
  "witness_participation_rate popcount s = 10000 * popcount (recent_slots_filled (dgp s)) div 128"

section \<open>The schedule\<close>

text \<open>The pseudo-random generator and one round of the shuffle.\<close>

definition xorshift :: "64 word \<Rightarrow> 64 word" where
  "xorshift k =
     (let k1 = k XOR drop_bit 12 k; k2 = k1 XOR push_bit 25 k1; k3 = k2 XOR drop_bit 27 k2
      in k3 * 2685821657736338717)"

definition shuffle_step :: "64 word \<Rightarrow> nat \<Rightarrow> nat list \<Rightarrow> nat list" where
  "shuffle_step now_hi i xs =
     (let k = xorshift (now_hi + of_nat i * 2685821657736338717); jmax = length xs - i; j = i + unat k mod jmax
      in xs[i := xs ! j, j := xs ! i])"

definition shuffle :: "64 word \<Rightarrow> nat list \<Rightarrow> nat list" where
  "shuffle now_hi xs = fold (shuffle_step now_hi) [0..<length xs] xs"

definition update_witness_schedule :: "block_state \<Rightarrow> block_state result" where
  "update_witness_schedule s =
     throw_unless Undefined_behaviour (active_witnesses (gpo s) \<noteq> [])
       (if head_block_number (dgp s) mod length (active_witnesses (gpo s)) = 0
        then Inr (s\<lparr> current_shuffled_witnesses := shuffle (push_bit 32 (of_nat (now_of s))) (active_witnesses (gpo s)) \<rparr>)
        else Inr s)"

section \<open>A new block\<close>

definition missed_by :: "nat \<Rightarrow> nat \<Rightarrow> block_state \<Rightarrow> block_state result" where
  "missed_by producer i s =
     rbind (get_scheduled_witness (i + 1) s) (\<lambda>w.
     if w = producer then rbind (get_obj (witnesses s) w) (\<lambda>_. Inr s)
     else rbind (modify_obj w (\<lambda>x. Inr (x\<lparr> total_missed := to_int64 (total_missed x + 1) \<rparr>)) (witnesses s))
       (\<lambda>ws. Inr (s\<lparr> witnesses := ws \<rparr>)))"

definition recently_missed :: "block_state \<Rightarrow> nat \<Rightarrow> nat \<Rightarrow> nat" where
  "recently_missed s num missed_blocks =
     (let r = recently_missed_count (dgp s) in
      if num = 1 then 0
      else if (case last_checkpoint s of None \<Rightarrow> False | Some c \<Rightarrow> c \<ge> num) then 0
      else if missed_blocks \<noteq> 0 then (r + GRAPHENE_RECENTLY_MISSED_COUNT_INCREMENT * missed_blocks) mod 2 ^ 32
      else if r > GRAPHENE_RECENTLY_MISSED_COUNT_INCREMENT then r - GRAPHENE_RECENTLY_MISSED_COUNT_DECREMENT
      else if r > 0 then r - 1 else r)"

text \<open>A block for slot 0 makes \<^verbatim>\<open>missed_blocks--\<close> wrap around; the source asserts that this never
  happens, since \<^verbatim>\<open>validate_block_header\<close> has checked the slot.\<close>

definition update_global_dynamic_data :: "('tx signed_block \<Rightarrow> nat) \<Rightarrow> bool \<Rightarrow> 'tx signed_block \<Rightarrow> block_state \<Rightarrow> block_state result" where
  "update_global_dynamic_data sha224 skip_undo_history_check b s =
     rbind (get_slot_at_time (timestamp b) s) (\<lambda>slot.
     throw_unless Undefined_behaviour (slot \<noteq> 0) (
     let missed_blocks = slot - 1 in
     rbind (rfold (missed_by (blk_witness b)) [0..<missed_blocks] s) (\<lambda>s1.
     let g = dgp s1;
         g1 = g\<lparr> recently_missed_count := recently_missed s1 (unat (block_num b)) missed_blocks,
                 head_block_number := unat (block_num b), head_block_id := block_id sha224 b, current_witness := blk_witness b,
                 recent_slots_filled := push_bit missed_blocks (push_bit 1 (recent_slots_filled g) + 1),
                 current_aslot := (current_aslot g + missed_blocks + 1) mod 2 ^ 64 \<rparr>;
         undo_size = (head_block_number g1 + 2 ^ 32 - last_irreversible_block_num g1) mod 2 ^ 32;
         s2 = s1\<lparr> dgp := g1, cdb := (cdb s1)\<lparr> head_block_time := timestamp b \<rparr> \<rparr> in
     throw_unless Undo_database_exception (skip_undo_history_check \<or> undo_size < GRAPHENE_MAX_UNDO_HISTORY)
       (Inr (s2\<lparr> undo_max_size := (undo_size + 1) mod 2 ^ 32, fork_max_size := (undo_size + 1) mod 2 ^ 32 \<rparr>)))))"

definition deposit_witness_pay :: "safe_ops \<Rightarrow> nat \<Rightarrow> share_type \<Rightarrow> block_state \<Rightarrow> block_state result" where
  "deposit_witness_pay S w amt s =
     (if amt = 0 then Inr s
      else
        rbind (get_obj (witnesses s) w) (\<lambda>wit.
        rbind (deposit_lazy_vesting S (pay_vb wit) amt (witness_pay_vesting_seconds (parameters (gpo s))) (witness_account wit) True (cdb s)) (\<lambda>(new_vbid, d1).
        let s1 = s\<lparr> cdb := d1 \<rparr> in
        case new_vbid of None \<Rightarrow> Inr s1
        | Some v \<Rightarrow> rbind (modify_obj w (\<lambda>x. Inr (x\<lparr> pay_vb := Some v \<rparr>)) (witnesses s1)) (\<lambda>ws. Inr (s1\<lparr> witnesses := ws \<rparr>)))))"

definition update_signing_witness :: "safe_ops \<Rightarrow> nat \<Rightarrow> 'tx signed_block \<Rightarrow> block_state \<Rightarrow> block_state result" where
  "update_signing_witness S w b s =
     rbind (get_slot_at_time (timestamp b) s) (\<lambda>slot.
     let new_block_aslot = (current_aslot (dgp s) + slot) mod 2 ^ 64;
         witness_pay = min (witness_pay_per_block (dgp s)) (witness_budget (dgp s)) in
     rbind (safe_sub S (witness_budget (dgp s)) witness_pay) (\<lambda>budget.
     rbind (deposit_witness_pay S w witness_pay (s\<lparr> dgp := (dgp s)\<lparr> witness_budget := budget \<rparr> \<rparr>)) (\<lambda>s1.
     rbind (modify_obj w (\<lambda>x. Inr (x\<lparr> last_aslot := new_block_aslot, last_confirmed_block_num := unat (block_num b) \<rparr>)) (witnesses s1))
       (\<lambda>ws. Inr (s1\<lparr> witnesses := ws \<rparr>)))))"

text \<open>\<^verbatim>\<open>std::nth_element\<close> puts at \<open>offset\<close> the element that would be there in sorted order.\<close>

definition irreversible_offset :: "nat \<Rightarrow> nat" where
  "irreversible_offset n = (10000 - GRAPHENE_IRREVERSIBLE_THRESHOLD) * n div 10000"

definition nth_element :: "nat list \<Rightarrow> nat \<Rightarrow> nat" where
  "nth_element xs k = sort xs ! k"

definition update_last_irreversible_block :: "block_state \<Rightarrow> block_state result" where
  "update_last_irreversible_block s =
     rbind (rfold (\<lambda>w acc. rbind (get_obj (witnesses s) w) (\<lambda>x. Inr (acc @ [last_confirmed_block_num x]))) (active_witnesses (gpo s)) []) (\<lambda>nums.
     let offset = irreversible_offset (length nums) in
     throw_unless Undefined_behaviour (offset < length nums)
       (let new_last = nth_element nums offset in
        Inr (if new_last > last_irreversible_block_num (dgp s)
             then s\<lparr> dgp := (dgp s)\<lparr> last_irreversible_block_num := new_last \<rparr> \<rparr> else s)))"

definition update_maintenance_flag :: "bool \<Rightarrow> block_state \<Rightarrow> block_state" where
  "update_maintenance_flag new_flag s =
     s\<lparr> dgp := (dgp s)\<lparr> dynamic_flags := (dynamic_flags (dgp s) AND NOT maintenance_flag) OR (if new_flag then maintenance_flag else 0) \<rparr> \<rparr>"

section \<open>The shuffle is a permutation\<close>

lemma shuffle_step_length [simp]: "length (shuffle_step h i xs) = length xs"
  by (simp add: shuffle_step_def Let_def)

lemma shuffle_step_mset: "i < length xs \<Longrightarrow> mset (shuffle_step h i xs) = mset xs"
proof -
  assume i: "i < length xs"
  define j where "j = i + unat (xorshift (h + of_nat i * 2685821657736338717)) mod (length xs - i)"
  have "unat (xorshift (h + of_nat i * 2685821657736338717)) mod (length xs - i) < length xs - i" using i by simp
  then have "j < length xs" using i unfolding j_def by linarith
  then show ?thesis using i mset_swap [of j xs i] by (simp add: shuffle_step_def Let_def j_def)
qed

lemma shuffle_mset: "mset (shuffle h xs) = mset xs"
proof -
  have "mset (fold (shuffle_step h) is ys) = mset ys" if "\<forall>i\<in>set is. i < length ys" for "is" ys
    using that by (induction "is" arbitrary: ys) (auto simp: shuffle_step_mset)
  then show ?thesis by (simp add: shuffle_def)
qed

lemma shuffle_length [simp]: "length (shuffle h xs) = length xs"
  using shuffle_mset by (metis size_mset)

text \<open>Reading a list at \<open>n\<close> consecutive positions modulo its length is reading a rotation of it.\<close>

lemma consecutive_mod: "xs \<noteq> [] \<Longrightarrow> map (\<lambda>i. xs ! ((k + i) mod length xs)) [0..<length xs] = rotate k xs"
  by (rule nth_equalityI) (simp_all add: nth_rotate)

lemma scheduled_round:
  assumes "current_shuffled_witnesses s \<noteq> []" "n = length (current_shuffled_witnesses s)" "current_aslot (dgp s) + k + n < 2 ^ 64"
  shows "map (\<lambda>i. get_scheduled_witness i s) [k..<k + n] = map Inr (rotate (current_aslot (dgp s) + k) (current_shuffled_witnesses s))"
proof -
  have "map (\<lambda>i. get_scheduled_witness i s) [k..<k + n] = map (\<lambda>i. get_scheduled_witness (k + i) s) [0..<n]"
    by (rule nth_equalityI) simp_all
  also have "\<dots> = map (\<lambda>i. Inr (current_shuffled_witnesses s ! ((current_aslot (dgp s) + k + i) mod n))) [0..<n]"
    using assms by (intro map_cong) (auto simp: get_scheduled_witness_def Let_def add.assoc)
  also have "\<dots> = map Inr (rotate (current_aslot (dgp s) + k) (current_shuffled_witnesses s))"
    by (simp add: assms(2) comp_def flip: consecutive_mod [OF assms(1)])
  finally show ?thesis .
qed

section \<open>Slots and times\<close>

definition slot_base :: "block_state \<Rightarrow> nat" where
  "slot_base s = (if head_block_number (dgp s) = 0 then now_of s
     else now_of s div block_interval s * block_interval s +
       (if dynamic_flags (dgp s) AND maintenance_flag \<noteq> 0 then maintenance_skip_slots (parameters (gpo s)) else 0) * block_interval s)"

text \<open>As long as the 32 bits suffice, slot \<open>n\<close> is \<open>n\<close> intervals after the base.\<close>

definition slots_fit :: "nat \<Rightarrow> block_state \<Rightarrow> bool" where
  "slots_fit n s \<longleftrightarrow> 0 < block_interval s \<and> now_of s + (n + maintenance_skip_slots (parameters (gpo s))) * block_interval s < 2 ^ 32"

lemma slots_fit_mono: "slots_fit n s \<Longrightarrow> m \<le> n \<Longrightarrow> slots_fit m s"
  unfolding slots_fit_def using mult_le_mono1 [of "m + maintenance_skip_slots (parameters (gpo s))" "n + maintenance_skip_slots (parameters (gpo s))" "block_interval s"] by linarith

lemma slot_time_linear:
  assumes "slots_fit n s" "0 < n"
  shows "get_slot_time n s = Inr (slot_base s + n * block_interval s)"
proof -
  let ?i = "block_interval s" and ?k = "maintenance_skip_slots (parameters (gpo s))"
  have f: "0 < ?i" "now_of s + n * ?i + ?k * ?i < 2 ^ 32" using assms(1) by (auto simp: slots_fit_def algebra_simps)
  have le: "now_of s div ?i * ?i \<le> now_of s" "n * ?i \<le> now_of s + n * ?i" by simp_all
  have nk: "n + ?k \<le> n * ?i + ?k * ?i" using f(1) by (simp add: add_mono)
  have b: "(n + ?k) * ?i = n * ?i + ?k * ?i" by (simp add: algebra_simps)
  show ?thesis
  proof (cases "head_block_number (dgp s) = 0")
    case True
    then show ?thesis using f assms(2) by (simp add: get_slot_time_def slot_base_def)
  next
    case False
    define e where "e = (if dynamic_flags (dgp s) AND maintenance_flag \<noteq> 0 then ?k else 0)"
    have e: "e \<le> ?k" by (simp add: e_def)
    then have ei: "e * ?i \<le> ?k * ?i" by simp
    have sm: "(n + e) * ?i = n * ?i + e * ?i" by (simp add: algebra_simps)
    have r: "now_of s div ?i * ?i mod 2 ^ 32 = now_of s div ?i * ?i" "(n + e) * ?i mod 2 ^ 32 = (n + e) * ?i"
      "(now_of s div ?i * ?i + (n + e) * ?i) mod 2 ^ 32 = now_of s div ?i * ?i + (n + e) * ?i" "(n + e) mod 2 ^ 32 = n + e"
      using f le nk e ei unfolding sm by (intro mod_less; linarith)+
    have "(if dynamic_flags (dgp s) AND maintenance_flag \<noteq> 0 then (n + ?k) mod 2 ^ 32 else n) = n + e"
      using r(4) unfolding e_def by (simp split: if_splits)
    then have "get_slot_time n s = Inr ((now_of s div ?i * ?i mod 2 ^ 32 + (n + e) * ?i mod 2 ^ 32) mod 2 ^ 32)"
      using False assms(2) f(1) by (simp add: get_slot_time_def Let_def)
    moreover have "slot_base s = now_of s div ?i * ?i + e * ?i" using False by (simp add: slot_base_def e_def)
    ultimately show ?thesis unfolding r by (simp add: sm)
  qed
qed

lemma slot_at_time:
  assumes "slots_fit (Suc n) s" "0 < n" "slot_base s + n * block_interval s \<le> t" "t < slot_base s + Suc n * block_interval s"
  shows "get_slot_at_time t s = Inr n"
proof -
  let ?i = "block_interval s"
  have i: "0 < ?i" and f1: "slots_fit 1 s" using assms(1) slots_fit_mono [OF assms(1), of 1] by (auto simp: slots_fit_def)
  obtain m where m: "n = Suc m" using assms(2) by (cases n) auto
  have "(t - (slot_base s + ?i)) div ?i = m" using assms(3,4) i
    by (intro div_nat_eqI) (auto simp: m algebra_simps)
  moreover have "\<not> t < slot_base s + ?i" using assms(3) by (simp add: m)
  moreover have "n < 2 ^ 32"
  proof -
    have "n \<le> n * ?i" "n * ?i \<le> (Suc n + maintenance_skip_slots (parameters (gpo s))) * ?i"
      using i by (simp_all only: mult_le_cancel2) simp_all
    then show ?thesis using assms(1) unfolding slots_fit_def by linarith
  qed
  ultimately show ?thesis using slot_time_linear [OF f1] i by (simp add: get_slot_at_time_def m)
qed

section \<open>Irreversible blocks\<close>

lemma rfold_collect:
  "rfold (\<lambda>w acc. rbind (get_obj xs w) (\<lambda>x. Inr (acc @ [f x]))) ws acc = Inr r \<Longrightarrow> r = acc @ map (\<lambda>w. f (xs ! w)) ws"
proof (induction ws arbitrary: acc)
  case (Cons a ws)
  then have "r = (acc @ [f (xs ! a)]) @ map (\<lambda>w. f (xs ! w)) ws" by (intro Cons.IH) auto
  then show ?case by simp
qed simp

text \<open>At least \<open>n - k\<close> elements are no smaller than the element at position \<open>k\<close> of the sorted list.\<close>

lemma nth_element_support:
  assumes "k < length xs"
  shows "length xs - k \<le> length (filter (\<lambda>x. nth_element xs k \<le> x) xs)"
proof -
  let ?s = "sort xs" and ?P = "\<lambda>x. sort xs ! k \<le> x"
  have "filter ?P (drop k ?s) = drop k ?s" using assms 
    by (auto simp: filter_id_conv in_set_conv_nth intro!: sorted_nth_mono)
  then have "length (filter ?P ?s) \<ge> length xs - k" using append_take_drop_id [of k ?s]
    by (metis filter_append length_append length_drop length_sort le_add2)
  moreover have "length (filter ?P ?s) = length (filter ?P xs)" by (metis mset_filter mset_sort size_mset)
  ultimately show ?thesis by (simp add: nth_element_def)
qed

lemma irreversible_share: "offset = irreversible_offset n \<Longrightarrow> n - offset \<le> m \<Longrightarrow> GRAPHENE_IRREVERSIBLE_THRESHOLD * n \<le> 10000 * m"
  unfolding irreversible_offset_def GRAPHENE_IRREVERSIBLE_THRESHOLD_def by simp

section \<open>Witness pay\<close>

context fc_safe
begin

lemma deposit_witness_pay_sum:
  assumes "deposit_witness_pay S w amt s = Inr s'"
  shows "core_vested (cdb s') = core_vested (cdb s) + amt \<and> dgp s' = dgp s \<and> balances (cdb s') = balances (cdb s)"
proof (cases "amt = 0")
  case False
  define wit where "wit = witnesses s ! w"
  from False assms obtain v d1 where l: "deposit_lazy_vesting S (pay_vb wit) amt (witness_pay_vesting_seconds (parameters (gpo s))) (witness_account wit) True (cdb s) = Inr (v, d1)"
    and r: "(case v of None \<Rightarrow> Inr (s\<lparr> cdb := d1 \<rparr>)
        | Some v \<Rightarrow> rbind (modify_obj w (\<lambda>x. Inr (x\<lparr> pay_vb := Some v \<rparr>)) (witnesses (s\<lparr> cdb := d1 \<rparr>))) (\<lambda>ws. Inr (s\<lparr> cdb := d1, witnesses := ws \<rparr>))) = Inr s'"
    unfolding deposit_witness_pay_def wit_def by (auto simp: Let_def)
  from r have s': "cdb s' = d1" "dgp s' = dgp s" by (auto split: option.splits)
  then show ?thesis using deposit_lazy_vesting_sum [OF l] by auto
qed (use assms in \<open>simp add: deposit_witness_pay_def\<close>)

end

section \<open>A small schedule, for the examples\<close>

definition demo_parameters :: chain_parameters where
  "demo_parameters = \<lparr> block_interval_of = 5, maintenance_interval = 86400, maintenance_skip_slots = 3, committee_proposal_review_period = 1209600,
     maximum_transaction_size = 2048, maximum_block_size = 2048000, maximum_time_until_expiration = 86400, maximum_proposal_lifetime = 2419200,
     maximum_asset_whitelist_authorities = 10, maximum_asset_feed_publishers = 10, maximum_witness_count = 1001, maximum_committee_count = 1001,
     maximum_authority_membership = 10, reserve_percent_of_fee = 2000, network_percent_of_fee = 2000, lifetime_referrer_percent_of_fee = 3000,
     cp_cashback_vesting_period_seconds = 100, cp_cashback_vesting_threshold = 10,
     count_non_member_votes = True, allow_non_member_whitelists = False, cp_witness_pay_per_block = 10, witness_pay_vesting_seconds = 86400,
     worker_budget_per_day = 0, max_predicate_opcode = 1, fee_liquidation_threshold = 0, accounts_per_fee_scale = 1000,
     account_fee_scale_bitshifts = 4, max_authority_depth = 2, account_create_basic_fee = 500000 \<rparr>"

definition demo_witness :: "nat \<Rightarrow> witness_object" where
  "demo_witness n = \<lparr> witness_account = 7, last_aslot = 0, signing_key = 0, pay_vb = None, wit_vote_id = 0, wit_total_votes = 0, wit_url = [],
     total_missed = 0, last_confirmed_block_num = n \<rparr>"

definition demo_block_state :: block_state where
  "demo_block_state = \<lparr> cdb = demo_db,
     gpo = \<lparr> parameters = demo_parameters, pending_parameters = None, next_available_vote_id = 0, active_committee_members = [], active_witnesses = [0, 1, 2] \<rparr>,
     dgp = \<lparr> head_block_number = 6, head_block_id = (6, 0), current_witness = 0, next_maintenance_time = 5000, last_budget_time = 0,
       witness_budget = 100, witness_pay_per_block = 10, accounts_registered_this_interval = 0, recently_missed_count = 0, current_aslot = 6,
       recent_slots_filled = 0x3F, dynamic_flags = 0, last_irreversible_block_num = 2 \<rparr>,
     witnesses = map demo_witness [5, 4, 6], committee_members = [], current_shuffled_witnesses = [0, 1, 2], last_checkpoint = None, undo_max_size = 5, fork_max_size = 5 \<rparr>"

section \<open>Properties\<close>

text \<open>C29: A new schedule is a permutation of the active witnesses: from the block at which it is drawn, any
  \<open>n\<close> consecutive slots are given to the \<open>n\<close> active witnesses once each, whatever the pseudo-random generator yields.\<close>

theorem schedule_round_fair:
  assumes "update_witness_schedule s = Inr s'" "n = length (active_witnesses (gpo s))" "head_block_number (dgp s) mod n = 0"
    and "current_aslot (dgp s) + k + n < 2 ^ 64"
  shows "\<exists>ws. map (\<lambda>i. get_scheduled_witness i s') [k..<k + n] = map Inr ws \<and> mset ws = mset (active_witnesses (gpo s))"
proof -
  from assms have ne: "active_witnesses (gpo s) \<noteq> []"
    and s': "s' = s\<lparr> current_shuffled_witnesses := shuffle (push_bit 32 (of_nat (now_of s))) (active_witnesses (gpo s)) \<rparr>"
    by (auto simp: update_witness_schedule_def split: if_splits)
  let ?w = "current_shuffled_witnesses s'"
  have w: "mset ?w = mset (active_witnesses (gpo s))" "length ?w = n" by (simp_all add: s' shuffle_mset assms(2))
  then have "?w \<noteq> []" using ne assms(2) by auto
  from scheduled_round [OF this, of n k] w assms(4) have
    "map (\<lambda>i. get_scheduled_witness i s') [k..<k + n] = map Inr (rotate (current_aslot (dgp s') + k) ?w)" by (simp add: s')
  moreover have "mset (rotate j ?w) = mset (active_witnesses (gpo s))" for j using w(1)
    by (metis append_take_drop_id mset_append rotate_drop_take add.commute)
  ultimately show ?thesis by blast
qed

theorem schedule_round_fair_witness:
  "\<exists>s' ws. update_witness_schedule demo_block_state = Inr s' \<and> map (\<lambda>i. get_scheduled_witness i s') [1..<4] = map Inr ws \<and> mset ws = {#0, 1, 2#}"
proof -
  obtain s' where r: "update_witness_schedule demo_block_state = Inr s'" by (simp add: update_witness_schedule_def demo_block_state_def)
  from schedule_round_fair [OF r, of 3 1] r show ?thesis by (auto simp: demo_block_state_def)
qed

text \<open>C34: Slot numbers and slot times are inverse: while the 32-bit clock suffices, \<open>get_slot_at_time\<close> maps the
  time of slot \<open>n\<close>, and every time before the next slot, back to \<open>n\<close>, and times before the first slot to 0.\<close>

theorem slot_time_round_trip:
  assumes "slots_fit (Suc n) s" "0 < n"
  shows "\<exists>t. get_slot_time n s = Inr t \<and> (\<forall>e<block_interval s. get_slot_at_time (t + e) s = Inr n) \<and>
    (\<forall>u. u + (n - 1) * block_interval s < t \<longrightarrow> get_slot_at_time u s = Inr 0)"
proof -
  let ?i = "block_interval s"
  have f: "slots_fit n s" "slots_fit 1 s" using assms slots_fit_mono [OF assms(1)] by auto
  obtain m where m: "n = Suc m" using assms(2) by (cases n) auto
  have "get_slot_at_time u s = Inr 0" if "u + (n - 1) * ?i < slot_base s + n * ?i" for u
    using that slot_time_linear [OF f(2)] by (simp add: get_slot_at_time_def m)
  moreover have "get_slot_at_time (slot_base s + n * ?i + e) s = Inr n" if "e < ?i" for e
    by (rule slot_at_time [OF assms]) (use that in auto)
  ultimately show ?thesis using slot_time_linear [OF f(1) assms(2)] by blast
qed

theorem slot_time_round_trip_witness:
  "\<exists>t. get_slot_time 2 demo_block_state = Inr t \<and> get_slot_at_time (t + 3) demo_block_state = Inr 2"
proof -
  have "slots_fit (Suc 2) demo_block_state" by (simp add: slots_fit_def demo_block_state_def demo_parameters_def demo_db_def)
  from slot_time_round_trip [OF this] show ?thesis by (auto simp: demo_block_state_def demo_parameters_def)
qed

text \<open>C32: The last irreversible block never moves back, and it only moves to a block that at least 55 percent of the
  active witnesses have confirmed.\<close>

theorem irreversible_block_supported:
  assumes "update_last_irreversible_block s = Inr s'"
  shows "last_irreversible_block_num (dgp s) \<le> last_irreversible_block_num (dgp s') \<and>
    (last_irreversible_block_num (dgp s') \<noteq> last_irreversible_block_num (dgp s) \<longrightarrow>
      GRAPHENE_IRREVERSIBLE_THRESHOLD * length (active_witnesses (gpo s)) \<le>
      10000 * length (filter (\<lambda>w. last_irreversible_block_num (dgp s') \<le> last_confirmed_block_num (witnesses s ! w)) (active_witnesses (gpo s))))"
proof -
  define nums where "nums = map (\<lambda>w. last_confirmed_block_num (witnesses s ! w)) (active_witnesses (gpo s))"
  let ?o = "irreversible_offset (length nums)"
  from assms have o: "?o < length nums" and s': "s' = (if nth_element nums ?o > last_irreversible_block_num (dgp s)
      then s\<lparr> dgp := (dgp s)\<lparr> last_irreversible_block_num := nth_element nums ?o \<rparr> \<rparr> else s)"
    by (auto simp: update_last_irreversible_block_def Let_def nums_def dest!: rfold_collect)
  have "length nums - ?o \<le> length (filter (\<lambda>w. nth_element nums ?o \<le> last_confirmed_block_num (witnesses s ! w)) (active_witnesses (gpo s)))"
    using nth_element_support [OF o] by (simp add: nums_def filter_map comp_def)
  from irreversible_share [OF refl this] show ?thesis by (simp add: s') (simp add: nums_def)
qed

theorem irreversible_block_supported_witness:
  "\<exists>s'. update_last_irreversible_block demo_block_state = Inr s' \<and> 2 \<le> last_irreversible_block_num (dgp s')"
proof -
  obtain s' where r: "update_last_irreversible_block demo_block_state = Inr s'"
    by (simp add: update_last_irreversible_block_def demo_block_state_def irreversible_offset_def GRAPHENE_IRREVERSIBLE_THRESHOLD_def Let_def)
  from irreversible_block_supported [OF r] r show ?thesis by (auto simp: demo_block_state_def)
qed

text \<open>Paying the witness of a block moves core tokens from the budget to its vesting balance: what is
  left of the budget and what is vested add up to what they were, and no account balance changes.\<close>

theorem witness_pay_conserves:
  assumes "fc_safe S" "update_signing_witness S w b s = Inr s'"
  shows "witness_budget (dgp s') + core_vested (cdb s') = witness_budget (dgp s) + core_vested (cdb s) \<and>
    (0 \<le> witness_budget (dgp s) \<and> 0 \<le> witness_pay_per_block (dgp s) \<longrightarrow> 0 \<le> witness_budget (dgp s') \<and> witness_budget (dgp s') \<le> witness_budget (dgp s)) \<and>
    balances (cdb s') = balances (cdb s)"
proof -
  let ?p = "min (witness_pay_per_block (dgp s)) (witness_budget (dgp s))"
  from assms(2) obtain s1 where p: "deposit_witness_pay S w ?p (s\<lparr> dgp := (dgp s)\<lparr> witness_budget := witness_budget (dgp s) - ?p \<rparr> \<rparr>) = Inr s1"
    and s': "cdb s' = cdb s1" "dgp s' = dgp s1"
    by (auto simp: update_signing_witness_def Let_def fc_safe.sub_iff [OF assms(1)])
  from fc_safe.deposit_witness_pay_sum [OF assms(1) p] s' show ?thesis by auto
qed

definition demo_next_block :: "nat signed_block" where
  "demo_next_block = \<lparr> previous = (6, 0), timestamp = 1005, blk_witness = 1, transaction_merkle_root = 0, witness_signature = 0, transactions = [] \<rparr>"

theorem witness_pay_conserves_witness:
  "\<exists>s'. update_signing_witness checked_ops 1 demo_next_block demo_block_state = Inr s' \<and>
     witness_budget (dgp s') + core_vested (cdb s') = 100 + core_vested demo_db"
proof -
  have "\<not> isl (update_signing_witness checked_ops 1 demo_next_block demo_block_state)"
    by (simp add: update_signing_witness_def get_slot_at_time_def get_slot_time_def demo_next_block_def demo_block_state_def demo_parameters_def
      demo_db_def demo_witness_def Let_def deposit_witness_pay_def deposit_lazy_vesting_def get_obj_def modify_obj_def checked_ops_def checked64_def int64_def
      maintenance_flag_def)
  then obtain s' where r: "update_signing_witness checked_ops 1 demo_next_block demo_block_state = Inr s'" by (metis isl_def sum.exhaust)
  from witness_pay_conserves [OF fc_safe_checked_ops r] r show ?thesis by (simp add: demo_block_state_def)
qed

end
