(* ===== verification/Asset_Evaluator.thy ===== *)
theory Asset_Evaluator
  imports Market_Matching Asset_Object Witness_Schedule
begin

text \<open>
  The operations on assets: their validation (\<^verbatim>\<open>protocol/asset_ops.cpp\<close>) and their evaluators
  (\<^verbatim>\<open>asset_evaluator.cpp\<close>).  The check of an operation reads the chain parameters \<open>cp\<close>.
\<close>

section \<open>Validation\<close>

definition char_code :: "char \<Rightarrow> nat" where
  "char_code c = of_char c"

definition isupper :: "char \<Rightarrow> bool" where
  "isupper c \<longleftrightarrow> 65 \<le> char_code c \<and> char_code c \<le> 90"

definition isalpha :: "char \<Rightarrow> bool" where
  "isalpha c \<longleftrightarrow> isupper c \<or> (97 \<le> char_code c \<and> char_code c \<le> 122)"

definition GRAPHENE_MIN_ASSET_SYMBOL_LENGTH :: nat where "GRAPHENE_MIN_ASSET_SYMBOL_LENGTH = 3"
definition GRAPHENE_MAX_ASSET_SYMBOL_LENGTH :: nat where "GRAPHENE_MAX_ASSET_SYMBOL_LENGTH = 16"

fun scan_symbol :: "string \<Rightarrow> bool \<Rightarrow> bool" where
  "scan_symbol [] dot_already_present = True"
| "scan_symbol (c # cs) dot_already_present =
     (if (isalpha c \<and> isupper c) \<or> isdigit c then scan_symbol cs dot_already_present
      else if c = CHR ''.'' then (if dot_already_present then False else scan_symbol cs True)
      else False)"

definition is_valid_symbol :: "string \<Rightarrow> bool" where
  "is_valid_symbol name =
     (if length name < GRAPHENE_MIN_ASSET_SYMBOL_LENGTH then False
      else if length name > GRAPHENE_MAX_ASSET_SYMBOL_LENGTH then False
      else if \<not> isalpha (hd name) then False
      else if \<not> isalpha (last name) then False
      else scan_symbol name False)"

definition ASSET_ISSUER_PERMISSION_MASK :: "16 word" where
  "ASSET_ISSUER_PERMISSION_MASK = charge_market_fee OR white_list OR override_authority OR transfer_restricted OR disable_force_settle OR
     global_settle OR disable_confidential OR witness_fed_asset OR committee_fed_asset"

definition asset_options_validate :: "asset_options \<Rightarrow> unit result" where
  "asset_options_validate o1 =
     ensure (max_supply o1 > 0) (
     ensure (max_supply o1 \<le> GRAPHENE_MAX_SHARE_SUPPLY) (
     ensure (int (market_fee_percent o1) \<le> GRAPHENE_100_PERCENT) (
     ensure (max_market_fee o1 \<ge> 0 \<and> max_market_fee o1 \<le> GRAPHENE_MAX_SHARE_SUPPLY) (
     ensure (issuer_permissions o1 AND NOT ASSET_ISSUER_PERMISSION_MASK = 0) (
     ensure (\<not> has_flag (flags o1) global_settle) (
     ensure (flags o1 AND (witness_fed_asset OR committee_fed_asset) \<noteq> (witness_fed_asset OR committee_fed_asset)) (
     rbind (price_validate (ao_core_exchange_rate o1)) (\<lambda>_.
     ensure (asset_id (base (ao_core_exchange_rate o1)) = 0 \<or> asset_id (quote (ao_core_exchange_rate o1)) = 0) (
     ensure (whitelist_authorities o1 \<noteq> [] \<or> blacklist_authorities o1 \<noteq> [] \<longrightarrow> has_flag (flags o1) white_list) (
     ensure (\<forall>i\<in>set (whitelist_markets o1). i \<notin> set (blacklist_markets o1)) (
     ensure (\<forall>i\<in>set (blacklist_markets o1). i \<notin> set (whitelist_markets o1)) (Inr ()))))))))))))"

definition bitasset_options_validate :: "bitasset_options \<Rightarrow> unit result" where
  "bitasset_options_validate o1 =
     ensure (minimum_feeds o1 > 0) (
     ensure (int (force_settlement_offset_percent o1) \<le> GRAPHENE_100_PERCENT) (
     ensure (int (maximum_force_settlement_volume o1) \<le> GRAPHENE_100_PERCENT) (Inr ())))"

definition asset_object_validate :: "asset_object \<Rightarrow> unit result" where
  "asset_object_validate a =
     (if \<not> is_market_issued a then
        ensure (\<not> (has_flag (flags (options a)) disable_force_settle \<or> has_flag (flags (options a)) global_settle)) (
        ensure (\<not> (has_flag (issuer_permissions (options a)) disable_force_settle \<or> has_flag (issuer_permissions (options a)) global_settle)) (Inr ()))
      else Inr ())"

record asset_create_operation =
  ac_fee :: asset
  ac_issuer :: nat
  ac_symbol :: string
  ac_precision :: nat
  ac_common_options :: asset_options
  ac_bitasset_opts :: "bitasset_options option"
  ac_is_prediction_market :: bool

definition asset_create_validate :: "asset_create_operation \<Rightarrow> unit result" where
  "asset_create_validate op =
     ensure (amount (ac_fee op) \<ge> 0) (
     ensure (is_valid_symbol (ac_symbol op)) (
     rbind (asset_options_validate (ac_common_options op)) (\<lambda>_.
     ensure (has_flag (issuer_permissions (ac_common_options op)) (disable_force_settle OR global_settle) \<longrightarrow> ac_bitasset_opts op \<noteq> None) (
     ensure (ac_is_prediction_market op \<longrightarrow> ac_bitasset_opts op \<noteq> None \<and> has_flag (issuer_permissions (ac_common_options op)) global_settle) (
     rbind (case ac_bitasset_opts op of None \<Rightarrow> Inr () | Some b \<Rightarrow> bitasset_options_validate b) (\<lambda>_.
     rbind (asset_times_price (mk_asset 1 0) (ao_core_exchange_rate (ac_common_options op))) (\<lambda>dummy.
     ensure (asset_id dummy = 1) (
     ensure (ac_precision op \<le> 12) (Inr ())))))))))"

record asset_issue_operation =
  ai_fee :: asset
  ai_issuer :: nat
  ai_asset_to_issue :: asset
  ai_issue_to_account :: nat

definition asset_issue_validate :: "asset_issue_operation \<Rightarrow> unit result" where
  "asset_issue_validate op =
     ensure (amount (ai_fee op) \<ge> 0) (
     ensure (amount (ai_asset_to_issue op) \<le> GRAPHENE_MAX_SHARE_SUPPLY) (
     ensure (amount (ai_asset_to_issue op) > 0) (
     ensure (asset_id (ai_asset_to_issue op) \<noteq> 0) (Inr ()))))"

record asset_reserve_operation =
  ar_fee :: asset
  ar_payer :: nat
  ar_amount_to_reserve :: asset

definition asset_reserve_validate :: "asset_reserve_operation \<Rightarrow> unit result" where
  "asset_reserve_validate op =
     ensure (amount (ar_fee op) \<ge> 0) (
     ensure (amount (ar_amount_to_reserve op) \<le> GRAPHENE_MAX_SHARE_SUPPLY) (
     ensure (amount (ar_amount_to_reserve op) > 0) (Inr ())))"

record asset_fund_fee_pool_operation =
  af_fee :: asset
  af_from_account :: nat
  af_asset_id :: nat
  af_amount :: share_type

definition asset_fund_fee_pool_validate :: "asset_fund_fee_pool_operation \<Rightarrow> unit result" where
  "asset_fund_fee_pool_validate op =
     ensure (amount (af_fee op) \<ge> 0) (ensure (asset_id (af_fee op) = 0) (ensure (af_amount op > 0) (Inr ())))"

record asset_update_operation =
  au_fee :: asset
  au_issuer :: nat
  au_asset_to_update :: nat
  au_new_issuer :: "nat option"
  au_new_options :: asset_options

definition asset_update_validate :: "asset_update_operation \<Rightarrow> unit result" where
  "asset_update_validate op =
     ensure (amount (au_fee op) \<ge> 0) (
     ensure (case au_new_issuer op of None \<Rightarrow> True | Some i \<Rightarrow> au_issuer op \<noteq> i) (
     rbind (asset_options_validate (au_new_options op)) (\<lambda>_.
     rbind (asset_times_price (mk_asset 1 (au_asset_to_update op)) (ao_core_exchange_rate (au_new_options op))) (\<lambda>dummy.
     ensure (asset_id dummy = 0) (Inr ())))))"

record asset_update_bitasset_operation =
  ab_fee :: asset
  ab_issuer :: nat
  ab_asset_to_update :: nat
  ab_new_options :: bitasset_options

definition asset_update_bitasset_validate :: "asset_update_bitasset_operation \<Rightarrow> unit result" where
  "asset_update_bitasset_validate op = ensure (amount (ab_fee op) \<ge> 0) (bitasset_options_validate (ab_new_options op))"

record asset_update_feed_producers_operation =
  ap_fee :: asset
  ap_issuer :: nat
  ap_asset_to_update :: nat
  ap_new_feed_producers :: "nat list"

definition asset_update_feed_producers_validate :: "asset_update_feed_producers_operation \<Rightarrow> unit result" where
  "asset_update_feed_producers_validate op = ensure (amount (ap_fee op) \<ge> 0) (Inr ())"

record asset_global_settle_operation =
  ag_fee :: asset
  ag_issuer :: nat
  ag_asset_to_settle :: nat
  ag_settle_price :: price

definition asset_global_settle_validate :: "asset_global_settle_operation \<Rightarrow> unit result" where
  "asset_global_settle_validate op =
     ensure (amount (ag_fee op) \<ge> 0) (ensure (ag_asset_to_settle op = asset_id (base (ag_settle_price op))) (Inr ()))"

record asset_settle_operation =
  as_fee :: asset
  as_account :: nat
  as_amount :: asset

definition asset_settle_validate :: "asset_settle_operation \<Rightarrow> unit result" where
  "asset_settle_validate op = ensure (amount (as_fee op) \<ge> 0) (ensure (amount (as_amount op) \<ge> 0) (Inr ()))"

record asset_publish_feed_operation =
  pf_fee :: asset
  pf_publisher :: nat
  pf_asset_id :: nat
  pf_feed :: price_feed

definition asset_publish_feed_validate :: "asset_publish_feed_operation \<Rightarrow> unit result" where
  "asset_publish_feed_validate op =
     (let feed = pf_feed op in
      ensure (amount (pf_fee op) \<ge> 0) (
      rbind (price_feed_validate feed) (\<lambda>_.
      rbind (if \<not> price_is_null (core_exchange_rate feed) then price_validate (core_exchange_rate feed) else Inr ()) (\<lambda>_.
      ensure (\<not> price_is_null (settlement_price feed) \<and> \<not> price_is_null (core_exchange_rate feed) \<longrightarrow>
        asset_id (base (settlement_price feed)) = asset_id (base (core_exchange_rate feed))) (
      ensure (\<not> price_is_null (settlement_price feed)) (
      ensure (\<not> price_is_null (core_exchange_rate feed)) (
      ensure (price_feed_is_for feed (pf_asset_id op)) (Inr ()))))))))"

record asset_claim_fees_operation =
  cf_fee :: asset
  cf_issuer :: nat
  cf_amount_to_claim :: asset

definition asset_claim_fees_validate :: "asset_claim_fees_operation \<Rightarrow> unit result" where
  "asset_claim_fees_validate op = ensure (amount (cf_fee op) \<ge> 0) (ensure (amount (cf_amount_to_claim op) > 0) (Inr ()))"

section \<open>Evaluators\<close>

text \<open>\<^verbatim>\<open>get_object\<close> on each of a set of accounts throws when one does not exist.\<close>

definition accounts_exist :: "nat list \<Rightarrow> chain_db \<Rightarrow> unit result" where
  "accounts_exist ids d = rfold (\<lambda>i _. rbind (get_obj (accounts d) i) (\<lambda>_. Inr ())) ids ()"

definition find_symbol :: "string \<Rightarrow> chain_db \<Rightarrow> asset_object option" where
  "find_symbol name d = find (\<lambda>a. symbol a = name) (assets d)"

definition rfind_dot :: "string \<Rightarrow> nat option" where
  "rfind_dot name = (case find_char (CHR ''.'') (rev name) of None \<Rightarrow> None | Some k \<Rightarrow> Some (length name - Suc k))"

text \<open>A market-issued asset of the committee must be backed by core, directly or through its backing asset.\<close>

definition backed_by_core :: "nat \<Rightarrow> chain_db \<Rightarrow> unit result" where
  "backed_by_core backing_id d =
     rbind (get_obj (assets d) backing_id) (\<lambda>backing.
     if is_market_issued backing then
       rbind (bitasset_of d backing_id) (\<lambda>bb.
       rbind (get_obj (assets d) (short_backing_asset (ba_options bb))) (\<lambda>_.
       ensure (short_backing_asset (ba_options bb) = 0) (Inr ())))
     else ensure (backing_id = 0) (Inr ()))"

subsection \<open>Create, issue, reserve\<close>

text \<open>The three checks open with \<^verbatim>\<open>FC_ASSERT( false, ...)\<close>.  The check of a creation returns what is left of
  the fee for the pool of the new asset.\<close>

definition asset_create_do_evaluate :: "safe_ops \<Rightarrow> chain_parameters \<Rightarrow> asset_create_operation \<Rightarrow> share_type \<Rightarrow> chain_db \<Rightarrow> share_type result" where
  "asset_create_do_evaluate S cp op core_fee_paid d =
     ensure False (
     ensure (head_block_time d < HARDFORK_1_TIME) (
     ensure (length (whitelist_authorities (ac_common_options op)) \<le> maximum_asset_whitelist_authorities cp) (
     ensure (length (blacklist_authorities (ac_common_options op)) \<le> maximum_asset_whitelist_authorities cp) (
     rbind (accounts_exist (whitelist_authorities (ac_common_options op)) d) (\<lambda>_.
     rbind (accounts_exist (blacklist_authorities (ac_common_options op)) d) (\<lambda>_.
     ensure (find_symbol (ac_symbol op) d = None) (
     rbind (case rfind_dot (ac_symbol op) of None \<Rightarrow> Inr ()
            | Some dotpos \<Rightarrow> (case find_symbol (take dotpos (ac_symbol op)) d of None \<Rightarrow> Inl Assert_exception
                | Some a \<Rightarrow> ensure (issuer a = ac_issuer op) (Inr ()))) (\<lambda>_.
     rbind (safe_sub S core_fee_paid (core_fee_paid sdiv 2)) (\<lambda>core_fee.
     rbind (case ac_bitasset_opts op of None \<Rightarrow> Inr ()
            | Some b \<Rightarrow>
                rbind (get_obj (assets d) (short_backing_asset b)) (\<lambda>backing.
                rbind (if is_market_issued backing then
                         rbind (bitasset_of d (short_backing_asset b)) (\<lambda>bb.
                         rbind (get_obj (assets d) (short_backing_asset (ba_options bb))) (\<lambda>backing_backing.
                         ensure (\<not> is_market_issued backing_backing) (
                         ensure (ac_issuer op \<noteq> GRAPHENE_COMMITTEE_ACCOUNT \<or> short_backing_asset (ba_options bb) = 0) (Inr ()))))
                       else ensure (ac_issuer op \<noteq> GRAPHENE_COMMITTEE_ACCOUNT \<or> short_backing_asset b = 0) (Inr ())) (\<lambda>_.
                ensure (feed_lifetime_sec b > block_interval_of cp \<and> force_settlement_delay_sec b > block_interval_of cp) (Inr ())))) (\<lambda>_.
     rbind (if ac_is_prediction_market op then
              rbind (deref (ac_bitasset_opts op)) (\<lambda>b.
              rbind (get_obj (assets d) (short_backing_asset b)) (\<lambda>backing.
              ensure (ac_precision op = precision backing) (Inr ())))
            else Inr ()) (\<lambda>_.
     Inr core_fee)))))))))))"

definition asset_create_do_apply :: "asset_create_operation \<Rightarrow> share_type \<Rightarrow> chain_db \<Rightarrow> nat \<times> chain_db" where
  "asset_create_do_apply op core_fee_paid d =
     (let dyn = \<lparr> current_supply = 0, confidential_supply = 0, accumulated_fees = 0, fee_pool = core_fee_paid \<rparr>;
          bits = (case ac_bitasset_opts op of None \<Rightarrow> []
            | Some b \<Rightarrow> [\<lparr> ba_options = b, feeds = [], current_feed = default_price_feed, current_feed_publication_time = 0,
                is_prediction_market = ac_is_prediction_market op, force_settled_volume = 0, ba_settlement_price = default_price, settlement_fund = 0 \<rparr>]);
          next_asset_id = length (assets d);
          rate = ao_core_exchange_rate (ac_common_options op);
          rate' = (if asset_id (base rate) = 0 then rate\<lparr> quote := (quote rate)\<lparr> asset_id := next_asset_id \<rparr> \<rparr>
                   else rate\<lparr> base := (base rate)\<lparr> asset_id := next_asset_id \<rparr> \<rparr>);
          a = \<lparr> symbol = ac_symbol op, precision = ac_precision op, issuer = ac_issuer op,
                options = (ac_common_options op)\<lparr> ao_core_exchange_rate := rate' \<rparr>, dynamic_asset_data_id = length (dyn_data d),
                bitasset_data_id = (if ac_bitasset_opts op = None then None else Some (length (bitassets d))), buyback_account = None \<rparr>
      in (next_asset_id, d\<lparr> dyn_data := dyn_data d @ [dyn], bitassets := bitassets d @ bits, assets := assets d @ [a] \<rparr>))"

definition asset_issue_do_evaluate :: "safe_ops \<Rightarrow> asset_issue_operation \<Rightarrow> chain_db \<Rightarrow> unit result" where
  "asset_issue_do_evaluate S op d =
     ensure False (
     ensure (head_block_time d < HARDFORK_1_TIME) (
     rbind (get_obj (assets d) (asset_id (ai_asset_to_issue op))) (\<lambda>a.
     ensure (ai_issuer op = issuer a) (
     ensure (\<not> is_market_issued a) (
     rbind (get_obj (accounts d) (ai_issue_to_account op)) (\<lambda>to_account.
     ensure (is_authorized_asset to_account (asset_id (ai_asset_to_issue op)) a) (
     rbind (get_obj (dyn_data d) (dynamic_asset_data_id a)) (\<lambda>dyn.
     rbind (safe_add S (current_supply dyn) (amount (ai_asset_to_issue op))) (\<lambda>total.
     ensure (total \<le> max_supply (options a)) (Inr ()))))))))))"

definition asset_issue_do_apply :: "safe_ops \<Rightarrow> asset_issue_operation \<Rightarrow> chain_db \<Rightarrow> chain_db result" where
  "asset_issue_do_apply S op d =
     rbind (adjust_balance S (ai_issue_to_account op) (ai_asset_to_issue op) d)
       (modify_dyn (asset_id (ai_asset_to_issue op)) (\<lambda>y.
          rbind (safe_add S (current_supply y) (amount (ai_asset_to_issue op))) (\<lambda>s. Inr (y\<lparr> current_supply := s \<rparr>))))"

definition asset_reserve_do_evaluate :: "safe_ops \<Rightarrow> asset_reserve_operation \<Rightarrow> chain_db \<Rightarrow> unit result" where
  "asset_reserve_do_evaluate S op d =
     ensure False (
     rbind (get_obj (assets d) (asset_id (ar_amount_to_reserve op))) (\<lambda>a.
     throw_unless Asset_reserve_invalid_on_mia (\<not> is_market_issued a) (
     rbind (get_obj (accounts d) (ar_payer op)) (\<lambda>from_account.
     ensure (is_authorized_asset from_account (asset_id (ar_amount_to_reserve op)) a) (
     rbind (get_obj (dyn_data d) (dynamic_asset_data_id a)) (\<lambda>dyn.
     rbind (safe_sub S (current_supply dyn) (amount (ar_amount_to_reserve op))) (\<lambda>rest.
     ensure (rest \<ge> 0) (Inr ()))))))))"

definition asset_reserve_do_apply :: "safe_ops \<Rightarrow> asset_reserve_operation \<Rightarrow> chain_db \<Rightarrow> chain_db result" where
  "asset_reserve_do_apply S op d =
     rbind (asset_neg S (ar_amount_to_reserve op)) (\<lambda>n.
     rbind (adjust_balance S (ar_payer op) n d)
       (modify_dyn (asset_id (ar_amount_to_reserve op)) (\<lambda>y.
          rbind (safe_sub S (current_supply y) (amount (ar_amount_to_reserve op))) (\<lambda>s. Inr (y\<lparr> current_supply := s \<rparr>)))))"

subsection \<open>Fee pool and accumulated fees\<close>

definition asset_fund_fee_pool_do_evaluate :: "asset_fund_fee_pool_operation \<Rightarrow> chain_db \<Rightarrow> unit result" where
  "asset_fund_fee_pool_do_evaluate op d =
     rbind (get_obj (assets d) (af_asset_id op)) (\<lambda>a.
     rbind (get_obj (dyn_data d) (dynamic_asset_data_id a)) (\<lambda>_. Inr ()))"

definition asset_fund_fee_pool_do_apply :: "safe_ops \<Rightarrow> asset_fund_fee_pool_operation \<Rightarrow> chain_db \<Rightarrow> chain_db result" where
  "asset_fund_fee_pool_do_apply S op d =
     rbind (safe_neg S (af_amount op)) (\<lambda>n.
     rbind (adjust_balance S (af_from_account op) (mk_asset n 0) d)
       (modify_dyn (af_asset_id op) (\<lambda>y. rbind (safe_add S (fee_pool y) (af_amount op)) (\<lambda>s. Inr (y\<lparr> fee_pool := s \<rparr>)))))"

definition asset_claim_fees_do_evaluate :: "asset_claim_fees_operation \<Rightarrow> chain_db \<Rightarrow> unit result" where
  "asset_claim_fees_do_evaluate op d =
     ensure (head_block_time d < HARDFORK_1_TIME) (
     rbind (get_obj (assets d) (asset_id (cf_amount_to_claim op))) (\<lambda>a. ensure (issuer a = cf_issuer op) (Inr ())))"

definition asset_claim_fees_do_apply :: "safe_ops \<Rightarrow> asset_claim_fees_operation \<Rightarrow> chain_db \<Rightarrow> chain_db result" where
  "asset_claim_fees_do_apply S op d =
     rbind (get_obj (assets d) (asset_id (cf_amount_to_claim op))) (\<lambda>a.
     rbind (get_obj (dyn_data d) (dynamic_asset_data_id a)) (\<lambda>addo.
     ensure (amount (cf_amount_to_claim op) \<le> accumulated_fees addo) (
     rbind (modify_dyn (asset_id (cf_amount_to_claim op)) (\<lambda>y.
       rbind (safe_sub S (accumulated_fees y) (amount (cf_amount_to_claim op))) (\<lambda>s. Inr (y\<lparr> accumulated_fees := s \<rparr>))) d)
       (adjust_balance S (cf_issuer op) (cf_amount_to_claim op)))))"

subsection \<open>Updates\<close>

definition asset_update_do_evaluate :: "chain_parameters \<Rightarrow> asset_update_operation \<Rightarrow> chain_db \<Rightarrow> unit result" where
  "asset_update_do_evaluate cp op d =
     ensure (head_block_time d < HARDFORK_1_TIME) (
     rbind (get_obj (assets d) (au_asset_to_update op)) (\<lambda>a.
     rbind (asset_object_validate (a\<lparr> options := au_new_options op \<rparr>)) (\<lambda>_.
     rbind (case au_new_issuer op of None \<Rightarrow> Inr ()
            | Some i \<Rightarrow>
                ensure (i < length (accounts d)) (
                if is_market_issued a \<and> i = GRAPHENE_COMMITTEE_ACCOUNT then
                  rbind (bitasset_of d (au_asset_to_update op)) (\<lambda>b. backed_by_core (short_backing_asset (ba_options b)) d)
                else Inr ())) (\<lambda>_.
     rbind (get_obj (dyn_data d) (dynamic_asset_data_id a)) (\<lambda>dyn.
     ensure (current_supply dyn \<noteq> 0 \<longrightarrow> issuer_permissions (au_new_options op) AND NOT (issuer_permissions (options a)) = 0) (
     ensure ((flags (au_new_options op) XOR flags (options a)) AND NOT (issuer_permissions (options a)) = 0) (
     ensure (au_issuer op = issuer a) (
     ensure (length (whitelist_authorities (au_new_options op)) \<le> maximum_asset_whitelist_authorities cp) (
     rbind (accounts_exist (whitelist_authorities (au_new_options op)) d) (\<lambda>_.
     ensure (length (blacklist_authorities (au_new_options op)) \<le> maximum_asset_whitelist_authorities cp) (
     accounts_exist (blacklist_authorities (au_new_options op)) d)))))))))))"

text \<open>The settlements of an asset in the order of the \<^verbatim>\<open>by_expiration\<close> index.\<close>

definition settle_before :: "nat \<times> force_settlement_object \<Rightarrow> nat \<times> force_settlement_object \<Rightarrow> bool" where
  "settle_before a b \<longleftrightarrow> settlement_date (snd a) < settlement_date (snd b) \<or>
     (settlement_date (snd a) = settlement_date (snd b) \<and> fst a < fst b)"

definition settle_range :: "chain_db \<Rightarrow> nat \<Rightarrow> nat list" where
  "settle_range d aid = map fst (sort_by settle_before (filter (\<lambda>p. asset_id (fs_balance (snd p)) = aid) (settlements d)))"

definition asset_update_do_apply :: "safe_ops \<Rightarrow> asset_update_operation \<Rightarrow> chain_db \<Rightarrow> chain_db result" where
  "asset_update_do_apply S op d =
     ensure (head_block_time d < HARDFORK_1_TIME) (
     rbind (get_obj (assets d) (au_asset_to_update op)) (\<lambda>a.
     rbind (if has_flag (flags (au_new_options op)) disable_force_settle \<and> can_force_settle a
            then rfold (\<lambda>i. cancel_settlement S i True) (settle_range d (au_asset_to_update op)) d
            else Inr d) (\<lambda>d1.
     rbind (modify_obj (au_asset_to_update op) (\<lambda>x.
       Inr (x\<lparr> issuer := (case au_new_issuer op of None \<Rightarrow> issuer x | Some i \<Rightarrow> i), options := au_new_options op \<rparr>)) (assets d1)) (\<lambda>as.
     Inr (d1\<lparr> assets := as \<rparr>)))))"

definition asset_update_bitasset_do_evaluate :: "asset_update_bitasset_operation \<Rightarrow> chain_db \<Rightarrow> unit result" where
  "asset_update_bitasset_do_evaluate op d =
     ensure (head_block_time d < HARDFORK_1_TIME) (
     rbind (get_obj (assets d) (ab_asset_to_update op)) (\<lambda>a.
     ensure (is_market_issued a) (
     rbind (bitasset_of d (ab_asset_to_update op)) (\<lambda>b.
     ensure (\<not> has_settlement b) (
     rbind (if short_backing_asset (ab_new_options op) \<noteq> short_backing_asset (ba_options b) then
              rbind (get_obj (dyn_data d) (dynamic_asset_data_id a)) (\<lambda>dyn.
              ensure (current_supply dyn = 0) (
              ensure (short_backing_asset (ab_new_options op) < length (assets d)) (
              if issuer a = GRAPHENE_COMMITTEE_ACCOUNT then backed_by_core (short_backing_asset (ba_options b)) d else Inr ())))
            else Inr ()) (\<lambda>_.
     ensure (ab_issuer op = issuer a) (Inr ())))))))"

definition asset_update_bitasset_do_apply :: "asset_update_bitasset_operation \<Rightarrow> chain_db \<Rightarrow> chain_db result" where
  "asset_update_bitasset_do_apply op d =
     modify_bitasset (ab_asset_to_update op) (\<lambda>b.
       if minimum_feeds (ab_new_options op) \<noteq> minimum_feeds (ba_options b)
       then update_median_feeds (head_block_time d) (b\<lparr> ba_options := ab_new_options op \<rparr>)
       else Inr (b\<lparr> ba_options := ab_new_options op \<rparr>)) d"

definition asset_update_feed_producers_do_evaluate :: "chain_parameters \<Rightarrow> asset_update_feed_producers_operation \<Rightarrow> chain_db \<Rightarrow> unit result" where
  "asset_update_feed_producers_do_evaluate cp op d =
     ensure (head_block_time d < HARDFORK_1_TIME) (
     ensure (length (ap_new_feed_producers op) \<le> maximum_asset_feed_publishers cp) (
     rbind (accounts_exist (ap_new_feed_producers op) d) (\<lambda>_.
     rbind (get_obj (assets d) (ap_asset_to_update op)) (\<lambda>a.
     ensure (is_market_issued a) (
     ensure (\<not> has_flag (flags (options a)) committee_fed_asset) (
     ensure (\<not> has_flag (flags (options a)) witness_fed_asset) (
     rbind (bitasset_of d (ap_asset_to_update op)) (\<lambda>_.
     ensure (issuer a = ap_issuer op) (Inr ())))))))))"

definition replace_producers :: "nat list \<Rightarrow> (nat \<times> nat \<times> price_feed) list \<Rightarrow> (nat \<times> nat \<times> price_feed) list" where
  "replace_producers producers fs =
     fold (\<lambda>i xs. if map_of xs i = None then fm_update i (0, default_price_feed) xs else xs) producers
       (filter (\<lambda>f. fst f \<in> set producers) fs)"

definition asset_update_feed_producers_do_apply :: "safe_ops \<Rightarrow> asset_update_feed_producers_operation \<Rightarrow> chain_db \<Rightarrow> chain_db result" where
  "asset_update_feed_producers_do_apply S op d =
     rbind (modify_bitasset (ap_asset_to_update op) (\<lambda>b.
       update_median_feeds (head_block_time d) (b\<lparr> feeds := replace_producers (ap_new_feed_producers op) (feeds b) \<rparr>)) d) (\<lambda>d1.
     rbind (check_call_orders S (ap_asset_to_update op) True d1) (\<lambda>(_, d2). Inr d2))"

definition asset_publish_feeds_do_evaluate :: "asset_publish_feed_operation \<Rightarrow> chain_db \<Rightarrow> unit result" where
  "asset_publish_feeds_do_evaluate op d =
     ensure (head_block_time d < HARDFORK_1_TIME) (
     rbind (get_obj (assets d) (pf_asset_id op)) (\<lambda>a.
     ensure (is_market_issued a) (
     rbind (bitasset_of d (pf_asset_id op)) (\<lambda>bitasset.
     ensure (\<not> has_settlement bitasset) (
     ensure (asset_id (quote (settlement_price (pf_feed op))) = short_backing_asset (ba_options bitasset)) (
     ensure (\<not> price_is_null (core_exchange_rate (pf_feed op)) \<longrightarrow> asset_id (quote (core_exchange_rate (pf_feed op))) = 0) (
     if has_flag (flags (options a)) witness_fed_asset then
       rbind (get_obj (accounts d) GRAPHENE_WITNESS_ACCOUNT) (\<lambda>w. ensure (map_of (account_auths (active w)) (pf_publisher op) \<noteq> None) (Inr ()))
     else if has_flag (flags (options a)) committee_fed_asset then
       rbind (get_obj (accounts d) GRAPHENE_COMMITTEE_ACCOUNT) (\<lambda>c. ensure (map_of (account_auths (active c)) (pf_publisher op) \<noteq> None) (Inr ()))
     else ensure (map_of (feeds bitasset) (pf_publisher op) \<noteq> None) (Inr ()))))))))"

definition feed_eq :: "price_feed \<Rightarrow> price_feed \<Rightarrow> bool" where
  "feed_eq a b \<longleftrightarrow> price_eq (settlement_price a) (settlement_price b) \<and> maintenance_collateral_ratio a = maintenance_collateral_ratio b \<and>
     maximum_short_squeeze_ratio a = maximum_short_squeeze_ratio b"

definition asset_publish_feeds_do_apply :: "safe_ops \<Rightarrow> asset_publish_feed_operation \<Rightarrow> chain_db \<Rightarrow> chain_db result" where
  "asset_publish_feeds_do_apply S op d =
     ensure (head_block_time d < HARDFORK_1_TIME) (
     rbind (bitasset_of d (pf_asset_id op)) (\<lambda>bad.
     rbind (modify_bitasset (pf_asset_id op) (\<lambda>b.
       update_median_feeds (head_block_time d) (b\<lparr> feeds := fm_update (pf_publisher op) (head_block_time d, pf_feed op) (feeds b) \<rparr>)) d) (\<lambda>d1.
     rbind (bitasset_of d1 (pf_asset_id op)) (\<lambda>bad1.
     if \<not> feed_eq (current_feed bad) (current_feed bad1)
     then rbind (check_call_orders S (pf_asset_id op) True d1) (\<lambda>(_, d2). Inr d2) else Inr d1))))"

subsection \<open>Settlement\<close>

text \<open>The \<^verbatim>\<open>by_collateral\<close> index orders positions by collateral per debt.  The two \<^verbatim>\<open>assert\<close>s on the
  iterator are dropped in release builds, where reading the end is undefined.\<close>

definition collateral_before :: "nat \<times> call_order_object \<Rightarrow> nat \<times> call_order_object \<Rightarrow> bool" where
  "collateral_before a b =
     (let p = mk_price (get_collateral (snd a)) (get_debt (snd a)); q = mk_price (get_collateral (snd b)) (get_debt (snd b)) in
      if price_less p q then True else if price_less q p then False else fst a < fst b)"

definition asset_global_settle_do_evaluate :: "asset_global_settle_operation \<Rightarrow> chain_db \<Rightarrow> unit result" where
  "asset_global_settle_do_evaluate op d =
     ensure (head_block_time d < HARDFORK_1_TIME) (
     rbind (get_obj (assets d) (ag_asset_to_settle op)) (\<lambda>a.
     ensure (is_market_issued a) (
     ensure (can_global_settle a) (
     ensure (issuer a = ag_issuer op) (
     rbind (get_obj (dyn_data d) (dynamic_asset_data_id a)) (\<lambda>dyn.
     ensure (current_supply dyn > 0) (
     rbind (bitasset_of d (ag_asset_to_settle op)) (\<lambda>b.
     rbind (price_min (short_backing_asset (ba_options b)) (ag_asset_to_settle op)) (\<lambda>lo.
     case sort_by collateral_before (filter (\<lambda>p. \<not> price_less (mk_price (get_collateral (snd p)) (get_debt (snd p))) lo) (call_orders d)) of
       [] \<Rightarrow> Inl Undefined_behaviour
     | (_, least_collateralized_short) # _ \<Rightarrow>
         rbind (asset_times_price (get_debt least_collateralized_short) (ag_settle_price op)) (\<lambda>owed.
         rbind (asset_le owed (get_collateral least_collateralized_short)) (\<lambda>ok. ensure ok (Inr ())))))))))))) "

definition asset_global_settle_do_apply :: "safe_ops \<Rightarrow> asset_global_settle_operation \<Rightarrow> chain_db \<Rightarrow> chain_db result" where
  "asset_global_settle_do_apply S op d = globally_settle_asset S (ag_asset_to_settle op) (ag_settle_price op) d"

definition asset_settle_do_evaluate :: "asset_settle_operation \<Rightarrow> chain_db \<Rightarrow> unit result" where
  "asset_settle_do_evaluate op d =
     ensure (head_block_time d < HARDFORK_1_TIME) (
     rbind (get_obj (assets d) (asset_id (as_amount op))) (\<lambda>a.
     ensure (is_market_issued a) (
     rbind (bitasset_of d (asset_id (as_amount op))) (\<lambda>bitasset.
     ensure (can_force_settle a \<or> has_settlement bitasset) (
     rbind (if is_prediction_market bitasset then ensure (has_settlement bitasset) (Inr ())
            else throw_unless Insufficient_feeds (\<not> price_is_null (settlement_price (current_feed bitasset))) (Inr ())) (\<lambda>_.
     rbind (get_obj (accounts d) (as_account op)) (\<lambda>_.
     rbind (asset_ge (get_balance d (as_account op) (asset_id (as_amount op))) (as_amount op)) (\<lambda>ok. ensure ok (Inr ())))))))))"

datatype settle_result = Settled_amount asset | Settlement_created nat

definition asset_settle_do_apply :: "safe_ops \<Rightarrow> asset_settle_operation \<Rightarrow> chain_db \<Rightarrow> (settle_result \<times> chain_db) result" where
  "asset_settle_do_apply S op d =
     rbind (asset_neg S (as_amount op)) (\<lambda>n.
     rbind (adjust_balance S (as_account op) n d) (\<lambda>d1.
     rbind (bitasset_of d1 (asset_id (as_amount op))) (\<lambda>bitasset.
     if has_settlement bitasset then
       rbind (asset_times_price (as_amount op) (ba_settlement_price bitasset)) (\<lambda>settled_amount.
       ensure (amount settled_amount \<le> settlement_fund bitasset) (
       rbind (modify_bitasset (asset_id (as_amount op)) (\<lambda>b.
         rbind (safe_sub S (settlement_fund b) (amount settled_amount)) (\<lambda>f. Inr (b\<lparr> settlement_fund := f \<rparr>))) d1) (\<lambda>d2.
       rbind (adjust_balance S (as_account op) settled_amount d2) (\<lambda>d3.
       rbind (modify_dyn (asset_id (as_amount op)) (\<lambda>y.
         rbind (safe_sub S (current_supply y) (amount (as_amount op))) (\<lambda>s. Inr (y\<lparr> current_supply := s \<rparr>))) d3) (\<lambda>d4.
       Inr (Settled_amount settled_amount, d4))))))
     else
       let i = next_settlement d1;
           s = \<lparr> fs_owner = as_account op, fs_balance = as_amount op,
                 settlement_date = (head_block_time d1 + force_settlement_delay_sec (ba_options bitasset)) mod 2 ^ 32 \<rparr>
       in Inr (Settlement_created i, d1\<lparr> settlements := settlements d1 @ [(i, s)], next_settlement := Suc i \<rparr>))))"

end
