(* ===== verification/Withdraw_Permission.thy ===== *)
theory Withdraw_Permission
  imports Market_Matching
begin

text \<open>
  Recurring withdrawals: \<^verbatim>\<open>withdraw_permission_object.hpp\<close>, \<^verbatim>\<open>protocol/withdraw_permission.cpp\<close> and
  \<^verbatim>\<open>withdraw_permission_evaluator.cpp\<close>.  Times are 32-bit seconds with the wrap-around written out; the
  difference of two times is a signed 64-bit number of seconds.  The block interval is the chain parameter.
\<close>

section \<open>Permissions\<close>

definition available_this_period :: "safe_ops \<Rightarrow> nat \<Rightarrow> withdraw_permission_object \<Rightarrow> asset result" where
  "available_this_period S current_time p =
     (if current_time \<ge> (wp_period_start_time p + wp_withdrawal_period_sec p) mod 2 ^ 32 then Inr (wp_withdrawal_limit p)
      else rbind (if amount (wp_withdrawal_limit p) > wp_claimed_this_period p
                  then safe_sub S (amount (wp_withdrawal_limit p)) (wp_claimed_this_period p) else Inr 0) (\<lambda>a.
        Inr (mk_asset a (asset_id (wp_withdrawal_limit p)))))"

record withdraw_permission_create_operation =
  wc_fee :: asset
  wc_withdraw_from_account :: nat
  wc_authorized_account :: nat
  wc_withdrawal_limit :: asset
  wc_withdrawal_period_sec :: nat
  wc_periods_until_expiration :: nat
  wc_period_start_time :: nat

record withdraw_permission_update_operation =
  wu_fee :: asset
  wu_withdraw_from_account :: nat
  wu_authorized_account :: nat
  wu_permission_to_update :: nat
  wu_withdrawal_limit :: asset
  wu_withdrawal_period_sec :: nat
  wu_period_start_time :: nat
  wu_periods_until_expiration :: nat

record withdraw_permission_claim_operation =
  wl_fee :: asset
  wl_withdraw_permission :: nat
  wl_withdraw_from_account :: nat
  wl_withdraw_to_account :: nat
  wl_amount_to_withdraw :: asset

record withdraw_permission_delete_operation =
  wd_fee :: asset
  wd_withdraw_from_account :: nat
  wd_authorized_account :: nat
  wd_withdrawal_permission :: nat

definition wp_create_validate :: "withdraw_permission_create_operation \<Rightarrow> unit result" where
  "wp_create_validate op =
     ensure (amount (wc_fee op) \<ge> 0) (
     ensure (wc_withdraw_from_account op \<noteq> wc_authorized_account op) (
     ensure (amount (wc_withdrawal_limit op) > 0) (
     ensure (wc_withdrawal_period_sec op > 0) (
     ensure (wc_periods_until_expiration op > 0) (Inr ())))))"

definition wp_update_validate :: "withdraw_permission_update_operation \<Rightarrow> unit result" where
  "wp_update_validate op =
     ensure (amount (wu_withdrawal_limit op) > 0) (
     ensure (amount (wu_fee op) \<ge> 0) (
     ensure (wu_withdrawal_period_sec op > 0) (
     ensure (wu_withdraw_from_account op \<noteq> wu_authorized_account op) (
     ensure (wu_periods_until_expiration op > 0) (Inr ())))))"

definition wp_claim_validate :: "withdraw_permission_claim_operation \<Rightarrow> unit result" where
  "wp_claim_validate op =
     ensure (wl_withdraw_to_account op \<noteq> wl_withdraw_from_account op) (
     ensure (amount (wl_amount_to_withdraw op) > 0) (
     ensure (amount (wl_fee op) \<ge> 0) (Inr ())))"

definition wp_delete_validate :: "withdraw_permission_delete_operation \<Rightarrow> unit result" where
  "wp_delete_validate op =
     ensure (amount (wd_fee op) \<ge> 0) (ensure (wd_withdraw_from_account op \<noteq> wd_authorized_account op) (Inr ()))"

section \<open>Evaluators\<close>

text \<open>Both products are of 32-bit numbers.\<close>

definition period_end :: "nat \<Rightarrow> nat \<Rightarrow> nat \<Rightarrow> nat" where
  "period_end start periods period = (start + periods * period mod 2 ^ 32) mod 2 ^ 32"

definition wp_create_do_evaluate :: "nat \<Rightarrow> withdraw_permission_create_operation \<Rightarrow> chain_db \<Rightarrow> unit result" where
  "wp_create_do_evaluate interval op d =
     ensure (wc_withdraw_from_account op < length (accounts d)) (
     ensure (wc_authorized_account op < length (accounts d)) (
     ensure (asset_id (wc_withdrawal_limit op) < length (assets d)) (
     ensure (wc_period_start_time op > head_block_time d) (
     ensure (period_end (wc_period_start_time op) (wc_periods_until_expiration op) (wc_withdrawal_period_sec op) > head_block_time d) (
     ensure (wc_withdrawal_period_sec op \<ge> interval) (Inr ()))))))"

definition wp_create_do_apply :: "withdraw_permission_create_operation \<Rightarrow> chain_db \<Rightarrow> (nat \<times> chain_db) result" where
  "wp_create_do_apply op d =
     (let i = next_withdraw_permission d;
          p = \<lparr> wp_withdraw_from_account = wc_withdraw_from_account op, wp_authorized_account = wc_authorized_account op,
                wp_withdrawal_limit = wc_withdrawal_limit op, wp_withdrawal_period_sec = wc_withdrawal_period_sec op,
                wp_period_start_time = wc_period_start_time op,
                wp_expiration = period_end (wc_period_start_time op) (wc_periods_until_expiration op) (wc_withdrawal_period_sec op),
                wp_claimed_this_period = 0 \<rparr>
      in Inr (i, d\<lparr> withdraw_permissions := withdraw_permissions d @ [(i, p)], next_withdraw_permission := Suc i \<rparr>))"

text \<open>The account called \<open>from\<close> below is the receiver, as in the source.\<close>

definition wp_claim_do_evaluate :: "safe_ops \<Rightarrow> withdraw_permission_claim_operation \<Rightarrow> chain_db \<Rightarrow> unit result" where
  "wp_claim_do_evaluate S op d =
     rbind (get_order (withdraw_permissions d) (wl_withdraw_permission op)) (\<lambda>permit.
     ensure (wp_expiration permit > head_block_time d) (
     ensure (wp_authorized_account permit = wl_withdraw_to_account op) (
     ensure (wp_withdraw_from_account permit = wl_withdraw_from_account op) (
     rbind (available_this_period S (head_block_time d) permit) (\<lambda>available.
     rbind (asset_le (wl_amount_to_withdraw op) available) (\<lambda>ok. ensure ok (
     rbind (asset_ge (get_balance d (wl_withdraw_from_account op) (asset_id (wl_amount_to_withdraw op))) (wl_amount_to_withdraw op)) (\<lambda>enough. ensure enough (
     rbind (get_obj (assets d) (asset_id (wl_amount_to_withdraw op))) (\<lambda>a.
     ensure (is_transfer_restricted a \<longrightarrow> issuer a = wp_authorized_account permit \<or> issuer a = wp_withdraw_from_account permit) (
     rbind (get_obj (accounts d) (wl_withdraw_to_account op)) (\<lambda>from.
     rbind (get_obj (accounts d) (wp_authorized_account permit)) (\<lambda>to.
     ensure (is_authorized_asset to (asset_id (wl_amount_to_withdraw op)) a) (
     ensure (is_authorized_asset from (asset_id (wl_amount_to_withdraw op)) a) (Inr ())))))))))))))))"

definition wp_claim :: "safe_ops \<Rightarrow> nat \<Rightarrow> share_type \<Rightarrow> withdraw_permission_object \<Rightarrow> withdraw_permission_object result" where
  "wp_claim S now a p =
     throw_unless Undefined_behaviour (wp_withdrawal_period_sec p \<noteq> 0)
       (let periods = (int now - int (wp_period_start_time p)) sdiv int (wp_withdrawal_period_sec p);
            start = (int (wp_period_start_time p) + periods * int (wp_withdrawal_period_sec p) mod 2 ^ 32) mod 2 ^ 32 in
        rbind (if periods = 0 then safe_add S (wp_claimed_this_period p) a else Inr a) (\<lambda>c.
        Inr (p\<lparr> wp_period_start_time := nat start, wp_claimed_this_period := c \<rparr>)))"

definition wp_claim_do_apply :: "safe_ops \<Rightarrow> withdraw_permission_claim_operation \<Rightarrow> chain_db \<Rightarrow> chain_db result" where
  "wp_claim_do_apply S op d =
     rbind (get_order (withdraw_permissions d) (wl_withdraw_permission op)) (\<lambda>permit.
     rbind (wp_claim S (head_block_time d) (amount (wl_amount_to_withdraw op)) permit) (\<lambda>permit1.
     let d1 = d\<lparr> withdraw_permissions := AList.update (wl_withdraw_permission op) permit1 (withdraw_permissions d) \<rparr> in
     rbind (asset_neg S (wl_amount_to_withdraw op)) (\<lambda>n.
     rbind (adjust_balance S (wl_withdraw_from_account op) n d1)
       (adjust_balance S (wl_withdraw_to_account op) (wl_amount_to_withdraw op)))))"

definition wp_update_do_evaluate :: "nat \<Rightarrow> withdraw_permission_update_operation \<Rightarrow> chain_db \<Rightarrow> unit result" where
  "wp_update_do_evaluate interval op d =
     rbind (get_order (withdraw_permissions d) (wu_permission_to_update op)) (\<lambda>permit.
     ensure (wp_authorized_account permit = wu_authorized_account op) (
     ensure (wp_withdraw_from_account permit = wu_withdraw_from_account op) (
     ensure (asset_id (wu_withdrawal_limit op) < length (assets d)) (
     ensure (wu_period_start_time op \<ge> head_block_time d) (
     ensure (period_end (wu_period_start_time op) (wu_periods_until_expiration op) (wu_withdrawal_period_sec op) > head_block_time d) (
     ensure (wu_withdrawal_period_sec op \<ge> interval) (Inr ())))))))"

definition wp_update_do_apply :: "withdraw_permission_update_operation \<Rightarrow> chain_db \<Rightarrow> chain_db result" where
  "wp_update_do_apply op d =
     rbind (get_order (withdraw_permissions d) (wu_permission_to_update op)) (\<lambda>permit.
     let permit1 = permit\<lparr> wp_period_start_time := wu_period_start_time op,
           wp_expiration := period_end (wu_period_start_time op) (wu_periods_until_expiration op) (wu_withdrawal_period_sec op),
           wp_withdrawal_limit := wu_withdrawal_limit op, wp_withdrawal_period_sec := wu_withdrawal_period_sec op \<rparr> in
     Inr (d\<lparr> withdraw_permissions := AList.update (wu_permission_to_update op) permit1 (withdraw_permissions d) \<rparr>))"

definition wp_delete_do_evaluate :: "withdraw_permission_delete_operation \<Rightarrow> chain_db \<Rightarrow> unit result" where
  "wp_delete_do_evaluate op d =
     rbind (get_order (withdraw_permissions d) (wd_withdrawal_permission op)) (\<lambda>permit.
     ensure (wp_authorized_account permit = wd_authorized_account op) (
     ensure (wp_withdraw_from_account permit = wd_withdraw_from_account op) (Inr ())))"

definition wp_delete_do_apply :: "withdraw_permission_delete_operation \<Rightarrow> chain_db \<Rightarrow> chain_db result" where
  "wp_delete_do_apply op d =
     rbind (get_order (withdraw_permissions d) (wd_withdrawal_permission op)) (\<lambda>_.
     Inr (d\<lparr> withdraw_permissions := remove_order (wd_withdrawal_permission op) (withdraw_permissions d) \<rparr>))"

text \<open>The \<^verbatim>\<open>by_expiration\<close> loop of \<^verbatim>\<open>update_withdraw_permissions\<close> removes the expired permissions, the
  earliest first, until none is left.\<close>

definition permit_before :: "nat \<times> withdraw_permission_object \<Rightarrow> nat \<times> withdraw_permission_object \<Rightarrow> bool" where
  "permit_before a b \<longleftrightarrow> wp_expiration (snd a) < wp_expiration (snd b) \<or> (wp_expiration (snd a) = wp_expiration (snd b) \<and> fst a < fst b)"

function clear_permits :: "nat \<Rightarrow> (nat \<times> withdraw_permission_object) list \<Rightarrow> (nat \<times> withdraw_permission_object) list" where
  "clear_permits now ps =
     (case sort_by permit_before ps of [] \<Rightarrow> ps
      | p # _ \<Rightarrow> if wp_expiration (snd p) \<le> now then clear_permits now (remove_order (fst p) ps) else ps)"
  by pat_completeness auto

lemma remove_order_shorter: "p \<in> set ps \<Longrightarrow> length (remove_order (fst p) ps) < length ps"
  unfolding remove_order_def by (rule length_filter_less) auto

lemma sort_by_Cons_mem: "sort_by lt ps = p # qs \<Longrightarrow> p \<in> set ps"
  using set_sort_by [of lt ps] by auto

termination clear_permits
  by (relation "measure (\<lambda>(now, ps). length ps)") (auto intro!: remove_order_shorter dest: sort_by_Cons_mem)

declare clear_permits.simps [simp del]

definition update_withdraw_permissions :: "chain_db \<Rightarrow> chain_db" where
  "update_withdraw_permissions d = d\<lparr> withdraw_permissions := clear_permits (head_block_time d) (withdraw_permissions d) \<rparr>"

section \<open>Lemmas\<close>

lemma permit_before_trans: "permit_before x y \<Longrightarrow> permit_before y z \<Longrightarrow> permit_before x z"
  by (auto simp: permit_before_def)

lemma permit_before_irrefl: "\<not> permit_before x x"
  by (simp add: permit_before_def)

lemma clear_permits_filter:
  "distinct (map fst ps) \<Longrightarrow> clear_permits now ps = filter (\<lambda>p. now < wp_expiration (snd p)) ps"
proof (induction "length ps" arbitrary: ps rule: less_induct)
  case less
  show ?case
  proof (cases "sort_by permit_before ps")
    case Nil
    then have "ps = []" using length_sort_by [of permit_before ps] by simp
    then show ?thesis by (simp add: clear_permits.simps sort_by_def)
  next
    case (Cons p qs)
    from sort_by_hd [OF permit_before_trans permit_before_irrefl Cons]
    have p: "p \<in> set ps" "\<And>z. z \<in> set ps \<Longrightarrow> wp_expiration (snd p) \<le> wp_expiration (snd z)"
      by (auto simp: permit_before_def not_less)
    show ?thesis
    proof (cases "wp_expiration (snd p) \<le> now")
      case True
      have u: "q = p" if "q \<in> set ps" "fst q = fst p" for q using less.prems p(1) that by (metis distinct_map inj_onD)
      have "clear_permits now ps = clear_permits now (remove_order (fst p) ps)"
        using True Cons by (subst clear_permits.simps) simp
      also have "\<dots> = filter (\<lambda>p. now < wp_expiration (snd p)) (remove_order (fst p) ps)"
        by (rule less.hyps [OF remove_order_shorter [OF p(1)] remove_order_distinct [OF less.prems]])
      also have "\<dots> = filter (\<lambda>p. now < wp_expiration (snd p)) ps"
        unfolding remove_order_def filter_filter
        by (rule filter_cong [OF refl]) (use True u in \<open>metis leD\<close>)
      finally show ?thesis .
    next
      case False
      have "clear_permits now ps = ps" using False Cons by (subst clear_permits.simps) simp
      moreover have "filter (\<lambda>p. now < wp_expiration (snd p)) ps = ps" using False p(2) by (auto simp: filter_id_conv not_le intro: less_le_trans)
      ultimately show ?thesis by simp
    qed
  qed
qed



section \<open>Properties\<close>

text \<open>Claims at given times, each checked and then applied.\<close>

definition claim_at :: "safe_ops \<Rightarrow> nat \<times> withdraw_permission_claim_operation \<Rightarrow> chain_db \<Rightarrow> chain_db result" where
  "claim_at S c d =
     (let d0 = d\<lparr> head_block_time := fst c \<rparr> in
      rbind (wp_claim_validate (snd c)) (\<lambda>_. rbind (wp_claim_do_evaluate S (snd c) d0) (\<lambda>_. wp_claim_do_apply S (snd c) d0)))"

definition demo_permit :: withdraw_permission_object where
  "demo_permit = \<lparr> wp_withdraw_from_account = 7, wp_authorized_account = 8, wp_withdrawal_limit = mk_asset 50 0, wp_withdrawal_period_sec = 100,
     wp_period_start_time = 1000, wp_expiration = 2000, wp_claimed_this_period = 0 \<rparr>"

definition demo_permit_db :: chain_db where
  "demo_permit_db = demo_funded\<lparr> withdraw_permissions := [(3, demo_permit)] \<rparr>"

definition demo_wl :: "int \<Rightarrow> withdraw_permission_claim_operation" where
  "demo_wl a = \<lparr> wl_fee = mk_asset 0 0, wl_withdraw_permission = 3, wl_withdraw_from_account = 7, wl_withdraw_to_account = 8,
     wl_amount_to_withdraw = mk_asset a 0 \<rparr>"

lemmas permit_eval = claim_at_def wp_claim_validate_def wp_claim_do_evaluate_def wp_claim_do_apply_def wp_claim_def available_this_period_def
  demo_wl_def demo_permit_def demo_permit_db_def demo_eval_simps get_order_def asset_le_def



text \<open>The check of a claim never looks at the account that pays: whatever its whitelists, blacklists and allowed
  assets say, the outcome is the same.  (The source names the receiver \<open>from\<close> and checks it twice.)\<close>

theorem claim_ignores_payer_lists:
  assumes "wp_claim_validate op = Inr ()"
  shows "wp_claim_do_evaluate S op (d\<lparr> accounts := (accounts d)[wl_withdraw_from_account op := a] \<rparr>) = wp_claim_do_evaluate S op d"
proof -
  have n: "wl_withdraw_from_account op \<noteq> wl_withdraw_to_account op" using assms by (simp add: wp_claim_validate_def)
  have e: "get_obj ((accounts d)[wl_withdraw_from_account op := a]) (wl_withdraw_to_account op) = get_obj (accounts d) (wl_withdraw_to_account op)"
    "get_balance (d\<lparr> accounts := (accounts d)[wl_withdraw_from_account op := a] \<rparr>) = get_balance d"
    using n by (simp_all add: get_obj_def get_balance_def fun_eq_iff)
  show ?thesis unfolding wp_claim_do_evaluate_def by (intro rbind_cong ensure_cong) (simp_all add: e del: get_obj_eq_Inr)
qed

theorem claim_ignores_payer_lists_witness:
  "wp_claim_do_evaluate checked_ops (demo_wl 20)
     (demo_permit_db\<lparr> accounts := (accounts demo_permit_db)[7 := (demo_account 7)\<lparr> allowed_assets := Some [] \<rparr>] \<rparr>) = Inr () \<and>
   \<not> is_authorized_asset ((demo_account 7)\<lparr> allowed_assets := Some [] \<rparr>) 0 (demo_asset 0)"
proof -
  have v: "wp_claim_validate (demo_wl 20) = Inr ()" by (simp add: permit_eval)
  have "wp_claim_do_evaluate checked_ops (demo_wl 20) demo_permit_db = Inr ()" by (auto simp: permit_eval)
  with claim_ignores_payer_lists [OF v, of checked_ops demo_permit_db "(demo_account 7)\<lparr> allowed_assets := Some [] \<rparr>"]
  have "wp_claim_do_evaluate checked_ops (demo_wl 20)
     (demo_permit_db\<lparr> accounts := (accounts demo_permit_db)[7 := (demo_account 7)\<lparr> allowed_assets := Some [] \<rparr>] \<rparr>) = Inr ()"
    by (simp add: demo_wl_def)
  then show ?thesis by (simp add: is_authorized_asset_def is_authorized_asset_slow_def)
qed

end
