(* ===== verification/Account_Evaluator.thy ===== *)
theory Account_Evaluator
  imports Withdraw_Permission Asset_Object Witness_Schedule
begin

text \<open>
  Accounts: names and their grammar, the operations on accounts, the migration of balances to Ethereum and the
  claims of genesis balances (\<^verbatim>\<open>protocol/account.cpp\<close>, \<^verbatim>\<open>account_evaluator.cpp\<close>, \<^verbatim>\<open>special_authority.cpp\<close>,
  \<^verbatim>\<open>buyback.cpp\<close>, \<^verbatim>\<open>balance_evaluator.cpp\<close>, \<^verbatim>\<open>passesAddressChecksum\<close> of \<^verbatim>\<open>utilities/CommonData.cpp\<close>).  The Keccak hash
  of a text, a list of bytes, is the parameter \<open>keccak\<close>; the five addresses of a key are \<open>addrs\<close>.
\<close>

section \<open>Names\<close>

definition GRAPHENE_MIN_ACCOUNT_NAME_LENGTH :: nat where "GRAPHENE_MIN_ACCOUNT_NAME_LENGTH = 3"
definition GRAPHENE_MAX_ACCOUNT_NAME_LENGTH :: nat where "GRAPHENE_MAX_ACCOUNT_NAME_LENGTH = 63"

definition is_letter :: "char \<Rightarrow> bool" where
  "is_letter c \<longleftrightarrow> c \<in> set ''abcdefghijklmnopqrstuvwxyz''"

definition is_let_dig :: "char \<Rightarrow> bool" where
  "is_let_dig c \<longleftrightarrow> is_letter c \<or> c \<in> set ''0123456789''"

definition is_let_dig_hyp :: "char \<Rightarrow> bool" where
  "is_let_dig_hyp c \<longleftrightarrow> is_let_dig c \<or> c = CHR ''-''"

text \<open>The loop stands at \<open>begin\<close>; \<open>name\<close> is what follows it, and its first label ends at the next dot.\<close>

function name_loop :: "string \<Rightarrow> bool" where
  "name_loop name =
     (let len = length (takeWhile (\<lambda>c. c \<noteq> CHR ''.'') name) in
      if len < 3 then False
      else if \<not> is_letter (name ! 0) then False
      else if \<not> is_let_dig (name ! (len - 1)) then False
      else if \<not> list_all (\<lambda>i. is_let_dig_hyp (name ! i)) [1..<len - 1] then False
      else if len = length name then True
      else name_loop (drop (len + 1) name))"
  by pat_completeness auto
termination
  apply (relation "measure length")
   apply simp
  apply (case_tac name)
   apply auto
  done

declare name_loop.simps [simp del]

definition is_valid_name :: "string \<Rightarrow> bool" where
  "is_valid_name name =
     (if length name < GRAPHENE_MIN_ACCOUNT_NAME_LENGTH then False
      else if length name > GRAPHENE_MAX_ACCOUNT_NAME_LENGTH then False
      else name_loop name)"

fun cheap_loop :: "string \<Rightarrow> bool \<Rightarrow> bool" where
  "cheap_loop [] v = (if \<not> v then True else False)"
| "cheap_loop (c # cs) v =
     (if c \<in> set ''0123456789'' then True
      else if c = CHR ''.'' \<or> c = CHR ''-'' \<or> c = CHR ''/'' then True
      else cheap_loop cs (if c \<in> set ''aeiouy'' then True else v))"

definition is_cheap_name :: "string \<Rightarrow> bool" where
  "is_cheap_name n = cheap_loop n False"

section \<open>Ethereum addresses\<close>

definition is_lower_hex_letter :: "char \<Rightarrow> bool" where "is_lower_hex_letter c \<longleftrightarrow> c \<in> set ''abcdef''"
definition is_upper_hex_letter :: "char \<Rightarrow> bool" where "is_upper_hex_letter c \<longleftrightarrow> c \<in> set ''ABCDEF''"

definition to_lower :: "char \<Rightarrow> char" where
  "to_lower c = (if 65 \<le> (of_char c :: nat) \<and> (of_char c :: nat) \<le> 90 then char_of ((of_char c :: nat) + 32) else c)"

definition checksum_char_ok :: "nat list \<Rightarrow> nat \<Rightarrow> char \<Rightarrow> bool" where
  "checksum_char_ok hash i c =
     (if is_lower_hex_letter c \<or> is_upper_hex_letter c then
        (let nibble = hash ! (i div 2) div 16 ^ (1 - i mod 2) mod 16 in \<not> ((nibble \<ge> 8) = is_lower_hex_letter c))
      else True)"

definition passes_address_checksum :: "(string \<Rightarrow> nat list) \<Rightarrow> string \<Rightarrow> bool \<Rightarrow> bool" where
  "passes_address_checksum keccak str strict =
     (if take 2 str \<noteq> ''0x'' then False
      else let s = drop 2 str in
        if length s \<noteq> 40 then False
        else if \<not> strict \<and> list_all (\<lambda>c. \<not> is_lower_hex_letter c) s \<and> list_all (\<lambda>c. c \<in> set ''0123456789ABCDEF'') s then True
        else if \<not> strict \<and> list_all (\<lambda>c. \<not> is_upper_hex_letter c) s \<and> list_all (\<lambda>c. c \<in> set ''0123456789abcdef'') s then True
        else let hash = keccak (map to_lower s) in list_all (\<lambda>i. checksum_char_ok hash i (s ! i)) [0..<40])"

section \<open>Operations\<close>

text \<open>The type of a vote is the low byte of its number.\<close>

definition vote_type :: "nat \<Rightarrow> nat" where "vote_type v = v mod 256"
definition vote_instance :: "nat \<Rightarrow> nat" where "vote_instance v = v div 256"
definition committee_vote :: nat where "committee_vote = 0"
definition witness_vote :: nat where "witness_vote = 1"

definition account_options_validate :: "account_options \<Rightarrow> unit result" where
  "account_options_validate o1 =
     (let (w, c) = fold (\<lambda>v (w, c). if vote_type v = witness_vote \<and> w \<noteq> 0 then (w - 1, c)
                               else if vote_type v = committee_vote \<and> c \<noteq> 0 then (w, c - 1) else (w, c))
            (votes o1) (num_witness o1, num_committee o1)
      in ensure (w = 0 \<and> c = 0) (Inr ()))"

definition validate_special_authority :: "special_authority \<Rightarrow> unit result" where
  "validate_special_authority a = (case a of No_special_authority \<Rightarrow> Inr ()
     | Top_holders_special_authority ast num_top_holders \<Rightarrow> ensure (num_top_holders > 0) (Inr ()))"

definition evaluate_special_authority :: "chain_db \<Rightarrow> special_authority \<Rightarrow> unit result" where
  "evaluate_special_authority d a = (case a of No_special_authority \<Rightarrow> Inr ()
     | Top_holders_special_authority ast _ \<Rightarrow> rbind (get_obj (assets d) ast) (\<lambda>_. Inr ()))"

definition when_some :: "'a option \<Rightarrow> ('a \<Rightarrow> unit result) \<Rightarrow> unit result" where
  "when_some x f = (case x of None \<Rightarrow> Inr () | Some y \<Rightarrow> f y)"

record buyback_account_options =
  asset_to_buy :: nat
  asset_to_buy_issuer :: nat
  bb_markets :: "nat list"

definition GRAPHENE_DEFAULT_MAX_BUYBACK_MARKETS :: nat where "GRAPHENE_DEFAULT_MAX_BUYBACK_MARKETS = 4"

definition evaluate_buyback_account_options :: "chain_db \<Rightarrow> buyback_account_options \<Rightarrow> unit result" where
  "evaluate_buyback_account_options d bbo =
     rbind (get_obj (assets d) (asset_to_buy bbo)) (\<lambda>a.
     throw_unless Account_create_buyback_incorrect_issuer (issuer a = asset_to_buy_issuer bbo) (
     throw_unless Account_create_buyback_already_exists (buyback_account a = None) (
     throw_unless Account_create_buyback_too_many_markets (length (bb_markets bbo) < GRAPHENE_DEFAULT_MAX_BUYBACK_MARKETS) (Inr ()))))"

record account_create_operation =
  cr_fee :: asset
  cr_registrar :: nat
  cr_referrer :: nat
  cr_referrer_percent :: nat
  cr_name :: string
  cr_owner :: authority
  cr_active :: authority
  cr_options :: account_options
  cr_owner_special_authority :: "special_authority option"
  cr_active_special_authority :: "special_authority option"
  cr_buyback_options :: "buyback_account_options option"

definition account_create_validate :: "account_create_operation \<Rightarrow> unit result" where
  "account_create_validate op =
     ensure (amount (cr_fee op) \<ge> 0) (
     ensure (is_valid_name (cr_name op)) (
     ensure (int (cr_referrer_percent op) \<le> GRAPHENE_100_PERCENT) (
     ensure (num_auths (cr_owner op) \<noteq> 0) (
     ensure (length (address_auths (cr_owner op)) = 0) (
     ensure (num_auths (cr_active op) \<noteq> 0) (
     ensure (length (address_auths (cr_active op)) = 0) (
     ensure (\<not> is_impossible (cr_owner op)) (
     ensure (\<not> is_impossible (cr_active op)) (
     rbind (account_options_validate (cr_options op)) (\<lambda>_.
     rbind (when_some (cr_owner_special_authority op) validate_special_authority) (\<lambda>_.
     rbind (when_some (cr_active_special_authority op) validate_special_authority) (\<lambda>_.
     when_some (cr_buyback_options op) (\<lambda>b.
       ensure (cr_owner_special_authority op = None) (
       ensure (cr_active_special_authority op = None) (
       ensure (cr_owner op = null_authority) (
       ensure (cr_active op = null_authority) (
       ensure (length (bb_markets b) > 0) (
       ensure (list_all (\<lambda>m. m \<noteq> asset_to_buy b) (bb_markets b)) (Inr ())))))))))))))))))))"

definition verify_authority_accounts :: "chain_parameters \<Rightarrow> chain_db \<Rightarrow> authority \<Rightarrow> unit result" where
  "verify_authority_accounts cp d a =
     throw_unless Max_auth_exceeded (num_auths a \<le> maximum_authority_membership cp) (
     throw_unless Auth_account_not_found (list_all (\<lambda>x. fst x < length (accounts d)) (account_auths a)) (Inr ()))"

definition verify_account_votes :: "chain_parameters \<Rightarrow> account_options \<Rightarrow> unit result" where
  "verify_account_votes cp o1 =
     ensure (num_witness o1 \<le> maximum_witness_count cp) (ensure (num_committee o1 \<le> maximum_committee_count cp) (Inr ()))"

definition account_create_do_evaluate :: "chain_parameters \<Rightarrow> account_create_operation \<Rightarrow> chain_db \<Rightarrow> unit result" where
  "account_create_do_evaluate cp op d =
     ensure (voting_account (cr_options op) < length (accounts d)) (
     rbind (get_obj (accounts d) (cr_registrar op)) (\<lambda>fee_paying_account.
     ensure (is_lifetime_member fee_paying_account) (
     rbind (get_obj (accounts d) (cr_referrer op)) (\<lambda>ref.
     ensure (is_member ref (head_block_time d)) (
     rbind (verify_authority_accounts cp d (cr_owner op)) (\<lambda>_.
     rbind (verify_authority_accounts cp d (cr_active op)) (\<lambda>_.
     rbind (when_some (cr_owner_special_authority op) (evaluate_special_authority d)) (\<lambda>_.
     rbind (when_some (cr_active_special_authority op) (evaluate_special_authority d)) (\<lambda>_.
     rbind (when_some (cr_buyback_options op) (evaluate_buyback_account_options d)) (\<lambda>_.
     rbind (verify_account_votes cp (cr_options op)) (\<lambda>_.
     ensure (cr_name op \<noteq> [] \<longrightarrow> list_all (\<lambda>a. acc_name a \<noteq> cr_name op) (accounts d)) (Inr ()))))))))))))"

text \<open>The default of a membership expiration date is the epoch; the allowed assets of a buyback account are its
  markets and the asset it buys.\<close>

definition new_account :: "account_create_operation \<Rightarrow> chain_parameters \<Rightarrow> account_object \<Rightarrow> nat \<Rightarrow> account_object" where
  "new_account op cp ref stats_id =
     \<lparr> acc_name = cr_name op, membership_expiration_date = 0, registrar = cr_registrar op, referrer = cr_referrer op,
       lifetime_referrer = lifetime_referrer ref, network_fee_percentage = network_percent_of_fee cp,
       lifetime_referrer_fee_percentage = lifetime_referrer_percent_of_fee cp, referrer_rewards_percentage = cr_referrer_percent op,
       owner = cr_owner op, active = cr_active op, acc_options = cr_options op, statistics = stats_id,
       whitelisting_accounts = [], whitelisted_accounts = [], blacklisted_accounts = [], blacklisting_accounts = [], cashback_vb = None,
       owner_special_authority = (case cr_owner_special_authority op of None \<Rightarrow> No_special_authority | Some a \<Rightarrow> a),
       active_special_authority = (case cr_active_special_authority op of None \<Rightarrow> No_special_authority | Some a \<Rightarrow> a),
       top_n_control_flags = 0,
       allowed_assets = (case cr_buyback_options op of None \<Rightarrow> None | Some b \<Rightarrow> Some (insort_insert (asset_to_buy b) (bb_markets b))) \<rparr>"

definition new_statistics :: account_statistics_object where
  "new_statistics = \<lparr> total_core_in_orders = 0, lifetime_fees_paid = 0, pending_fees = 0, pending_vested_fees = 0 \<rparr>"

definition add_account :: "account_create_operation \<Rightarrow> account_object \<Rightarrow> chain_db \<Rightarrow> chain_db" where
  "add_account op a d = d\<lparr> accounts := accounts d @ [a], acc_stats := acc_stats d @ [new_statistics],
     special_authorities := (if cr_owner_special_authority op \<noteq> None \<or> cr_active_special_authority op \<noteq> None
       then special_authorities d @ [length (accounts d)] else special_authorities d) \<rparr>"

definition register_buyback :: "nat \<Rightarrow> buyback_account_options \<Rightarrow> chain_db \<Rightarrow> chain_db result" where
  "register_buyback new_id b d =
     rbind (modify_obj (asset_to_buy b) (\<lambda>a. Inr (a\<lparr> buyback_account := Some new_id \<rparr>)) (assets d)) (\<lambda>as.
     Inr (d\<lparr> buybacks := buybacks d @ [asset_to_buy b], assets := as \<rparr>))"

definition scale_fee :: "nat \<Rightarrow> chain_parameters \<Rightarrow> chain_parameters" where
  "scale_fee registered cp =
     (if registered mod accounts_per_fee_scale cp = 0
      then cp\<lparr> account_create_basic_fee := account_create_basic_fee cp * 2 ^ account_fee_scale_bitshifts cp mod 2 ^ 64 \<rparr> else cp)"

definition account_create_do_apply :: "account_create_operation \<Rightarrow> block_state \<Rightarrow> (nat \<times> block_state) result" where
  "account_create_do_apply op s =
     (let d = cdb s; cp = parameters (gpo s); new_id = length (accounts d) in
      rbind (get_obj (accounts d) (cr_referrer op)) (\<lambda>ref.
      let registered = (accounts_registered_this_interval (dgp s) + 1) mod 2 ^ 32; d1 = add_account op (new_account op cp ref (length (acc_stats d))) d in
      throw_unless Undefined_behaviour (accounts_per_fee_scale cp \<noteq> 0) (
      rbind (case cr_buyback_options op of None \<Rightarrow> Inr d1 | Some b \<Rightarrow> register_buyback new_id b d1) (\<lambda>d2.
      Inr (new_id, s\<lparr> cdb := d2, gpo := (gpo s)\<lparr> parameters := scale_fee registered cp \<rparr>,
        dgp := (dgp s)\<lparr> accounts_registered_this_interval := registered \<rparr> \<rparr>)))))"

record account_update_operation =
  up_fee :: asset
  up_account :: nat
  up_owner :: "authority option"
  up_active :: "authority option"
  up_new_options :: "account_options option"
  up_owner_special_authority :: "special_authority option"
  up_active_special_authority :: "special_authority option"

definition validate_new_authority :: "authority \<Rightarrow> unit result" where
  "validate_new_authority a = ensure (num_auths a \<noteq> 0) (ensure (length (address_auths a) = 0) (ensure (\<not> is_impossible a) (Inr ())))"

definition account_update_validate :: "account_update_operation \<Rightarrow> unit result" where
  "account_update_validate op =
     ensure (up_account op \<noteq> GRAPHENE_TEMP_ACCOUNT) (
     ensure (amount (up_fee op) \<ge> 0) (
     ensure (up_account op \<noteq> 0) (
     ensure (up_owner op \<noteq> None \<or> up_active op \<noteq> None \<or> up_new_options op \<noteq> None \<or> up_owner_special_authority op \<noteq> None \<or>
       up_active_special_authority op \<noteq> None) (
     rbind (when_some (up_owner op) validate_new_authority) (\<lambda>_.
     rbind (when_some (up_active op) validate_new_authority) (\<lambda>_.
     rbind (when_some (up_new_options op) account_options_validate) (\<lambda>_.
     rbind (when_some (up_owner_special_authority op) validate_special_authority) (\<lambda>_.
     when_some (up_active_special_authority op) validate_special_authority))))))))"

definition account_update_do_evaluate :: "chain_parameters \<Rightarrow> account_update_operation \<Rightarrow> chain_db \<Rightarrow> unit result" where
  "account_update_do_evaluate cp op d =
     rbind (when_some (up_owner op) (verify_authority_accounts cp d)) (\<lambda>_.
     rbind (when_some (up_active op) (verify_authority_accounts cp d)) (\<lambda>_.
     rbind (when_some (up_owner_special_authority op) (evaluate_special_authority d)) (\<lambda>_.
     rbind (when_some (up_active_special_authority op) (evaluate_special_authority d)) (\<lambda>_.
     rbind (get_obj (accounts d) (up_account op)) (\<lambda>_.
     when_some (up_new_options op) (verify_account_votes cp))))))"

definition set_when :: "'a option \<Rightarrow> ('a \<Rightarrow> 'b \<Rightarrow> 'b) \<Rightarrow> 'b \<Rightarrow> 'b" where
  "set_when x f b = (case x of None \<Rightarrow> b | Some v \<Rightarrow> f v b)"

text \<open>Removing the special authority object of an account that has none is undefined.\<close>

definition account_update_do_apply :: "account_update_operation \<Rightarrow> chain_db \<Rightarrow> chain_db result" where
  "account_update_do_apply op d =
     rbind (get_obj (accounts d) (up_account op)) (\<lambda>acnt.
     let a1 = set_when (up_owner op) (\<lambda>v a. a\<lparr> owner := v, top_n_control_flags := 0 \<rparr>) acnt;
         a2 = set_when (up_active op) (\<lambda>v a. a\<lparr> active := v, top_n_control_flags := 0 \<rparr>) a1;
         a3 = set_when (up_new_options op) (\<lambda>v a. a\<lparr> acc_options := v \<rparr>) a2;
         sa_before = has_special_authority a3;
         a4 = set_when (up_owner_special_authority op) (\<lambda>v a. a\<lparr> owner_special_authority := v, top_n_control_flags := 0 \<rparr>) a3;
         a5 = set_when (up_active_special_authority op) (\<lambda>v a. a\<lparr> active_special_authority := v, top_n_control_flags := 0 \<rparr>) a4;
         sa_after = has_special_authority a5;
         d1 = d\<lparr> accounts := (accounts d)[up_account op := a5] \<rparr> in
     if sa_before \<and> \<not> sa_after then
       throw_unless Undefined_behaviour (up_account op \<in> set (special_authorities d1))
         (Inr (d1\<lparr> special_authorities := removeAll (up_account op) (special_authorities d1) \<rparr>))
     else if \<not> sa_before \<and> sa_after then Inr (d1\<lparr> special_authorities := special_authorities d1 @ [up_account op] \<rparr>)
     else Inr d1)"

record account_whitelist_operation =
  aw_fee :: asset
  aw_authorizing_account :: nat
  aw_account_to_list :: nat
  aw_new_listing :: nat

definition account_whitelist_validate :: "account_whitelist_operation \<Rightarrow> unit result" where
  "account_whitelist_validate op = ensure (amount (aw_fee op) \<ge> 0) (ensure (aw_new_listing op < 4) (Inr ()))"

definition account_whitelist_do_evaluate :: "chain_parameters \<Rightarrow> account_whitelist_operation \<Rightarrow> chain_db \<Rightarrow> unit result" where
  "account_whitelist_do_evaluate cp op d =
     ensure (head_block_time d < HARDFORK_1_TIME) (
     rbind (get_obj (accounts d) (aw_account_to_list op)) (\<lambda>_.
     if \<not> allow_non_member_whitelists cp
     then rbind (get_obj (accounts d) (aw_authorizing_account op)) (\<lambda>a. ensure (is_lifetime_member a) (Inr ()))
     else Inr ()))"

definition set_member :: "bool \<Rightarrow> nat \<Rightarrow> nat list \<Rightarrow> nat list" where
  "set_member b i xs = (if b then insort_insert i xs else removeAll i xs)"

definition account_whitelist_do_apply :: "account_whitelist_operation \<Rightarrow> chain_db \<Rightarrow> chain_db result" where
  "account_whitelist_do_apply op d =
     (let white = odd (aw_new_listing op); black = odd (aw_new_listing op div 2) in
      rbind (modify_obj (aw_account_to_list op) (\<lambda>a.
        Inr (a\<lparr> whitelisting_accounts := set_member white (aw_authorizing_account op) (whitelisting_accounts a),
               blacklisting_accounts := set_member black (aw_authorizing_account op) (blacklisting_accounts a) \<rparr>)) (accounts d)) (\<lambda>as1.
      rbind (modify_obj (aw_authorizing_account op) (\<lambda>a.
        Inr (a\<lparr> whitelisted_accounts := set_member white (aw_account_to_list op) (whitelisted_accounts a),
               blacklisted_accounts := set_member black (aw_account_to_list op) (blacklisted_accounts a) \<rparr>)) as1) (\<lambda>as2.
      Inr (d\<lparr> accounts := as2 \<rparr>))))"

record account_upgrade_operation =
  ug_fee :: asset
  ug_account_to_upgrade :: nat
  ug_upgrade_to_lifetime_member :: bool

definition account_upgrade_validate :: "account_upgrade_operation \<Rightarrow> unit result" where
  "account_upgrade_validate op = ensure (amount (ug_fee op) \<ge> 0) (Inr ())"

definition account_upgrade_do_evaluate :: "account_upgrade_operation \<Rightarrow> chain_db \<Rightarrow> unit result" where
  "account_upgrade_do_evaluate op d =
     ensure (head_block_time d < HARDFORK_1_TIME) (
     rbind (get_obj (accounts d) (ug_account_to_upgrade op)) (\<lambda>a. ensure (\<not> is_lifetime_member a) (Inr ())))"

text \<open>The percentage is a 16-bit number.\<close>

definition account_upgrade_do_apply :: "safe_ops \<Rightarrow> account_upgrade_operation \<Rightarrow> chain_db \<Rightarrow> chain_db result" where
  "account_upgrade_do_apply S op d =
     ensure (ug_upgrade_to_lifetime_member op) (
     rbind (process_fees S (ug_account_to_upgrade op) d) (\<lambda>d1.
     rbind (modify_obj (ug_account_to_upgrade op) (\<lambda>a.
       Inr (a\<lparr> membership_expiration_date := 2 ^ 32 - 1, referrer := ug_account_to_upgrade op, registrar := ug_account_to_upgrade op,
              lifetime_referrer := ug_account_to_upgrade op,
              lifetime_referrer_fee_percentage := nat ((GRAPHENE_100_PERCENT - int (network_fee_percentage a)) mod 2 ^ 16) \<rparr>)) (accounts d1)) (\<lambda>as.
     Inr (d1\<lparr> accounts := as \<rparr>))))"

section \<open>Migration and claims\<close>

definition HARDFORK_2_TIME :: nat where "HARDFORK_2_TIME = 1509195600"

record account_balance_migrate_operation =
  am_fee :: asset
  am_account :: nat
  am_eth_address :: string

definition account_balance_migrate_validate :: "account_balance_migrate_operation \<Rightarrow> unit result" where
  "account_balance_migrate_validate op = ensure (amount (am_fee op) \<ge> 0) (Inr ())"

definition account_balance_migrate_do_evaluate :: "(string \<Rightarrow> nat list) \<Rightarrow> account_balance_migrate_operation \<Rightarrow> chain_db \<Rightarrow> unit result" where
  "account_balance_migrate_do_evaluate keccak op d =
     ensure (head_block_time d \<ge> HARDFORK_2_TIME) (
     rbind (get_obj (accounts d) (am_account op)) (\<lambda>_.
     ensure (amount (get_balance d (am_account op) 0) > 0) (
     ensure (passes_address_checksum keccak (am_eth_address op) False) (Inr ()))))"

definition account_balance_migrate_do_apply :: "safe_ops \<Rightarrow> account_balance_migrate_operation \<Rightarrow> chain_db \<Rightarrow> chain_db result" where
  "account_balance_migrate_do_apply S op d =
     (let balance = get_balance d (am_account op) 0 in
      rbind (asset_neg S balance) (\<lambda>n.
      rbind (adjust_balance S (am_account op) n d) (\<lambda>d1.
      rbind (get_obj (assets d1) 0) (\<lambda>a.
      rbind (get_obj (dyn_data d1) (dynamic_asset_data_id a)) (\<lambda>core.
      ensure (current_supply core \<ge> amount balance) (
      rbind (modify_dyn 0 (\<lambda>y. rbind (safe_sub S (current_supply y) (amount balance)) (\<lambda>s. Inr (y\<lparr> current_supply := s \<rparr>))) d1) (\<lambda>d2.
      Inr (d2\<lparr> migrate_records := migrate_records d2 @
        [\<lparr> mg_owner = am_account op, mg_eth_address = am_eth_address op, mg_asset_type = asset_id balance, mg_balance = amount balance \<rparr>] \<rparr>))))))))"

record balance_claim_operation =
  bc_fee :: asset
  bc_deposit_to_account :: nat
  bc_balance_to_claim :: nat
  bc_balance_owner_key :: nat
  bc_total_claimed :: asset

text \<open>Key 0 stands for the default key.\<close>

definition balance_claim_validate :: "balance_claim_operation \<Rightarrow> unit result" where
  "balance_claim_validate op = ensure (asset_eq (bc_fee op) (mk_asset 0 0)) (ensure (bc_balance_owner_key op \<noteq> 0) (Inr ()))"

definition balance_claim_do_evaluate :: "safe_ops \<Rightarrow> (nat \<Rightarrow> nat list) \<Rightarrow> bool \<Rightarrow> balance_claim_operation \<Rightarrow> chain_db \<Rightarrow> unit result" where
  "balance_claim_do_evaluate S addrs skip_signatures op d =
     rbind (get_order (claim_balances d) (bc_balance_to_claim op)) (\<lambda>balance.
     throw_unless Balance_claim_owner_mismatch (bo_owner balance \<in> set (addrs (bc_balance_owner_key op))) (
     rbind (if \<not> skip_signatures then ensure (asset_id (bc_total_claimed op) = asset_id (bo_balance balance)) (Inr ()) else Inr ()) (\<lambda>_.
     case bo_vesting_policy balance of
       Some pol \<Rightarrow>
         rbind (linear_is_withdraw_allowed S pol
           \<lparr> ctx_balance = bo_balance balance, ctx_now = head_block_time d, ctx_amount = bc_total_claimed op \<rparr>) (\<lambda>ok.
         throw_unless Balance_claim_invalid_claim_amount ok (
         throw_unless Balance_claim_claimed_too_often (int (head_block_time d) - int (bo_last_claim_date balance) \<ge> 86400) (Inr ())))
     | None \<Rightarrow> ensure (asset_eq (bc_total_claimed op) (bo_balance balance)) (Inr ()))))"

definition balance_claim_do_apply :: "safe_ops \<Rightarrow> balance_claim_operation \<Rightarrow> chain_db \<Rightarrow> chain_db result" where
  "balance_claim_do_apply S op d =
     rbind (get_order (claim_balances d) (bc_balance_to_claim op)) (\<lambda>balance.
     rbind (if bo_vesting_policy balance \<noteq> None then asset_less (bc_total_claimed op) (bo_balance balance) else Inr False) (\<lambda>part.
     rbind (if part then
              rbind (asset_minus S (bo_balance balance) (bc_total_claimed op)) (\<lambda>b.
              Inr (d\<lparr> claim_balances := AList.update (bc_balance_to_claim op)
                (balance\<lparr> bo_balance := b, bo_last_claim_date := head_block_time d \<rparr>) (claim_balances d) \<rparr>))
            else Inr (d\<lparr> claim_balances := remove_order (bc_balance_to_claim op) (claim_balances d) \<rparr>)) (\<lambda>d1.
     adjust_balance S (bc_deposit_to_account op) (bc_total_claimed op) d1)))"

section \<open>The grammar of names\<close>

fun split_dots :: "string \<Rightarrow> string list" where
  "split_dots [] = [[]]"
| "split_dots (c # cs) = (if c = CHR ''.'' then [] # split_dots cs else (c # hd (split_dots cs)) # tl (split_dots cs))"

definition valid_label :: "string \<Rightarrow> bool" where
  "valid_label l \<longleftrightarrow> 3 \<le> length l \<and> is_letter (hd l) \<and> is_let_dig (last l) \<and> list_all is_let_dig_hyp l"

lemma split_dots_nonempty [simp]: "split_dots s \<noteq> []"
  by (induction s) auto

lemma split_dots_first:
  "split_dots s = (let l = takeWhile (\<lambda>c. c \<noteq> CHR ''.'') s in if length l = length s then [l] else l # split_dots (drop (length l + 1) s))"
  by (induction s) (auto simp: Let_def)

lemma valid_label_loop:
  assumes "3 \<le> length l"
  shows "is_letter (l ! 0) \<and> is_let_dig (l ! (length l - 1)) \<and> list_all (\<lambda>i. is_let_dig_hyp (l ! i)) [1..<length l - 1] \<longleftrightarrow> valid_label l"
proof -
  have ne: "l \<noteq> []" using assms by auto
  have h: "hd l = l ! 0" "last l = l ! (length l - 1)" using ne by (simp_all add: hd_conv_nth last_conv_nth)
  have "list_all is_let_dig_hyp l \<longleftrightarrow> (\<forall>i<length l. is_let_dig_hyp (l ! i))" by (simp add: list_all_length)
  also have "\<dots> \<longleftrightarrow> is_let_dig_hyp (l ! 0) \<and> is_let_dig_hyp (l ! (length l - 1)) \<and> (\<forall>i\<in>{1..<length l - 1}. is_let_dig_hyp (l ! i))"
  proof (intro iffI conjI ballI allI impI)
    fix i assume a: "is_let_dig_hyp (l ! 0) \<and> is_let_dig_hyp (l ! (length l - 1)) \<and> (\<forall>i\<in>{1..<length l - 1}. is_let_dig_hyp (l ! i))" "i < length l"
    then consider "i = 0" | "i = length l - 1" | "i \<in> {1..<length l - 1}" by fastforce
    then show "is_let_dig_hyp (l ! i)" using a(1) by cases auto
  qed (use assms ne in auto)
  finally have a: "list_all is_let_dig_hyp l \<longleftrightarrow> is_let_dig_hyp (l ! 0) \<and> is_let_dig_hyp (l ! (length l - 1)) \<and>
      list_all (\<lambda>i. is_let_dig_hyp (l ! i)) [1..<length l - 1]" by (simp add: list_all_iff)
  have "is_letter c \<Longrightarrow> is_let_dig_hyp c" "is_let_dig c \<Longrightarrow> is_let_dig_hyp c" for c by (simp_all add: is_let_dig_hyp_def is_let_dig_def)
  then show ?thesis using assms unfolding valid_label_def h a by blast
qed

lemma name_loop_labels: "name_loop s \<longleftrightarrow> list_all valid_label (split_dots s)"
proof (induction s rule: name_loop.induct)
  case (1 s)
  define l where "l = takeWhile (\<lambda>c. c \<noteq> CHR ''.'') s"
  have nth: "l ! i = s ! i" if "i < length l" for i using that by (simp add: l_def takeWhile_nth)
  have le: "length l \<le> length s" by (simp add: l_def length_takeWhile_le)
  show ?case
  proof (cases "3 \<le> length l")
    case False
    then show ?thesis unfolding name_loop.simps [of s] split_dots_first [of s] l_def [symmetric] by (simp add: Let_def valid_label_def)
  next
    case True
    let ?c = "is_letter (l ! 0) \<and> is_let_dig (l ! (length l - 1)) \<and> list_all (\<lambda>i. is_let_dig_hyp (l ! i)) [1..<length l - 1]"
    have ne: "l \<noteq> []" using True by auto
    have idx: "s ! 0 = l ! 0" "s ! (length l - 1) = l ! (length l - 1)"
      using nth [of 0] nth [of "length l - 1"] ne by auto
    have idx3: "list_all (\<lambda>i. is_let_dig_hyp (s ! i)) [1..<length l - 1] = list_all (\<lambda>i. is_let_dig_hyp (l ! i)) [1..<length l - 1]"
      by (intro list.pred_cong) (auto simp: nth)
    have "name_loop s \<longleftrightarrow> ?c \<and> (length l = length s \<or> name_loop (drop (length l + 1) s))"
      unfolding name_loop.simps [of s] l_def [symmetric] Let_def idx idx3 using True by auto
    also have "\<dots> \<longleftrightarrow> valid_label l \<and> (length l = length s \<or> list_all valid_label (split_dots (drop (length l + 1) s)))"
      using valid_label_loop [OF True] 1 [OF refl] True unfolding l_def [symmetric] Let_def idx idx3 by auto
    also have "\<dots> \<longleftrightarrow> list_all valid_label (split_dots s)"
      unfolding split_dots_first [of s] l_def [symmetric] by (simp add: Let_def)
    finally show ?thesis .
  qed
qed

section \<open>Properties\<close>

text \<open>C33: The scan of an account name accepts exactly the documented grammar: three to sixty-three characters, made
  of labels separated by dots, each of at least three characters, starting with a lower-case letter, ending with a
  letter or digit and otherwise of letters, digits and hyphens.\<close>

theorem valid_name_grammar:
  "is_valid_name name \<longleftrightarrow> length name \<in> {3..63} \<and> list_all valid_label (split_dots name)"
  by (auto simp: is_valid_name_def name_loop_labels GRAPHENE_MIN_ACCOUNT_NAME_LENGTH_def GRAPHENE_MAX_ACCOUNT_NAME_LENGTH_def)

text \<open>The check of an Ethereum address accepts text that is no address at all: \<open>0x\<close> followed by forty letters
  \<open>z\<close> passes, in either mode and whatever the hash, because only the letters of hexadecimal digits are looked at.\<close>

theorem checksum_accepts_non_address:
  "passes_address_checksum keccak (''0x'' @ replicate 40 (CHR ''z'')) strict"
proof -
  have z: "\<not> is_lower_hex_letter (CHR ''z'')" "\<not> is_upper_hex_letter (CHR ''z'')"
    by (simp_all add: is_lower_hex_letter_def is_upper_hex_letter_def)
  have "checksum_char_ok h i (CHR ''z'')" for h i using z by (simp add: checksum_char_ok_def)
  then show ?thesis by (simp add: passes_address_checksum_def Let_def list_all_iff)
qed

end
