(* ===== verification/Operation_Effects.thy ===== *)
theory Operation_Effects
  imports Asset_Evaluator Account_Evaluator
begin

text \<open>
  Every operation on the chain state, as one variant type (\<^verbatim>\<open>protocol/operations.hpp\<close>), with the dispatch to its
  evaluator, and the theorem that none of them creates or destroys value.  An operation is validated on its own,
  checked against the state, and applied between the conversion and the collection of its fee.
\<close>

section \<open>Movements of value\<close>

definition net :: "chain_db \<Rightarrow> nat \<Rightarrow> int" where
  "net d x = gross d x - supply_of d x"

definition moves :: "(nat \<Rightarrow> int) \<Rightarrow> chain_db \<Rightarrow> chain_db \<Rightarrow> bool" where
  "moves g d d' \<longleftrightarrow> market_wf d' \<and> length (accounts d') = length (accounts d) \<and> same_frame d d' \<and> (\<forall>x. net d' x = net d x + g x)"

lemma conserves_moves: "conserves d d' \<longleftrightarrow> moves (\<lambda>_. 0) d d'"
  by (simp add: same_frame_def conserves_def moves_def net_def)

lemma effect_moves: "effect g s d d' \<Longrightarrow> moves (\<lambda>x. g x - s x) d d'"
  by (simp add: same_frame_def effect_def moves_def net_def)

lemma moves_trans: "moves g d d1 \<Longrightarrow> moves h d1 d2 \<Longrightarrow> moves (\<lambda>x. g x + h x) d d2"
  by (simp add: same_frame_def moves_def)

lemma moves_cong: "moves g d d' \<Longrightarrow> (\<And>x. g x = h x) \<Longrightarrow> moves h d d'"
  by (simp add: same_frame_def moves_def)

lemma moves_wf: "moves g d d' \<Longrightarrow> market_wf d'" "moves g d d' \<Longrightarrow> length (accounts d') = length (accounts d)"
  by (simp_all add: same_frame_def moves_def)

lemma moves_refl: "market_wf d \<Longrightarrow> moves (\<lambda>_. 0) d d"
  by (simp add: same_frame_def moves_def)

section \<open>The fee path\<close>

definition fees_only :: "chain_db \<Rightarrow> chain_db \<Rightarrow> bool" where
  "fees_only d d' \<longleftrightarrow> (\<exists>ds ss. d' = d\<lparr> dyn_data := ds, acc_stats := ss \<rparr>)"

context fc_safe
begin

lemma adjust_balance_moves:
  "adjust_balance S acc a d = Inr d' \<Longrightarrow> acc < length (accounts d) \<Longrightarrow> market_wf d \<Longrightarrow> moves (amt_at (asset_id a) (amount a)) d d'"
  using effect_moves [of "amt_at (asset_id a) (amount a)" "\<lambda>_. 0"] adjust_balance_effect_on by simp

lemma move_conserves:
  assumes "asset_neg S a = Inr n" "adjust_balance S x n d = Inr d1" "adjust_balance S y a d1 = Inr d2"
    and "x < length (accounts d)" "y < length (accounts d)" "market_wf d"
  shows "conserves d d2"
proof -
  note e1 = adjust_balance_moves [OF assms(2,4,6)]
  have "y < length (accounts d1)" "market_wf d1" using moves_wf [OF e1] assms(5) by simp_all
  from moves_trans [OF e1 adjust_balance_moves [OF assms(3) this]] show ?thesis
    unfolding conserves_moves by (rule moves_cong) (use asset_neg_amounts [OF assms(1)] in \<open>simp add: amt_at_def\<close>)
qed

lemma convert_fee_moves:
  assumes "convert_fee S ts fee core d = Inr d'" "market_wf d" "\<not> skip_fee ts" "asset_id fee = 0 \<Longrightarrow> core = amount fee"
  shows "moves (\<lambda>x. amt_at (asset_id fee) (amount fee) x - amt_at 0 core x) d d'"
proof (cases "asset_id fee = 0")
  case True
  with assms(1,4) have "d' = d" "core = amount fee" by (simp_all add: convert_fee_def)
  then show ?thesis using moves_refl [OF assms(2)] True by simp
next
  case False
  with assms(1,3) have m: "modify_dyn (asset_id fee) (\<lambda>y. rbind (safe_add S (accumulated_fees y) (amount fee)) (\<lambda>af.
      rbind (safe_sub S (fee_pool y) core) (\<lambda>fp. Inr (y\<lparr> accumulated_fees := af, fee_pool := fp \<rparr>)))) d = Inr d'"
    by (simp add: convert_fee_def)
  have "effect (\<lambda>y. amt_at (asset_id fee) (amount fee) y + amt_at 0 (- core) y) (amt_at (asset_id fee) 0) d d' \<and> same_orders d d'"
    by (rule modify_dyn_effect [OF m assms(2)]) (auto simp: add_iff sub_iff)
  from effect_moves [OF conjunct1 [OF this]] show ?thesis by (rule moves_cong) (simp add: amt_at_def)
qed

lemma pay_fee_moves:
  assumes "pay_fee S ts payer core d = Inr d'" "market_wf d" "\<not> skip_fee ts"
  shows "moves (amt_at 0 core) d d'"
proof -
  from assms(1,3) have m: "modify_stats payer (stats_pay_fee S core (cashback_vesting_threshold d)) d = Inr d'" by (simp add: pay_fee_def)
  have "effect (amt_at 0 core) (\<lambda>_. 0) d d' \<and> same_orders d d' \<and> payer < length (accounts d)"
    by (rule modify_stats_effect [OF m assms(2)]) (rule stats_pay_fee_worth)
  from effect_moves [OF conjunct1 [OF this]] show ?thesis by simp
qed

lemma fee_path:
  assumes "prepare_fee payer fee d = Inr core" "convert_fee S ts fee core d = Inr d1" "pay_fee S ts payer core d1 = Inr d2"
    and "market_wf d" "\<not> skip_fee ts"
  shows "moves (amt_at (asset_id fee) (amount fee)) d d2" "fees_only d d2" "payer < length (accounts d2)"
proof -
  have c: "asset_id fee = 0 \<Longrightarrow> core = amount fee" using assms(1) by (auto simp: prepare_fee_def)
  have e1: "moves (\<lambda>x. amt_at (asset_id fee) (amount fee) x - amt_at 0 core x) d d1"
    by (rule convert_fee_moves [OF assms(2,4,5)]) (rule c)
  show e: "moves (amt_at (asset_id fee) (amount fee)) d d2"
    using moves_trans [OF e1 pay_fee_moves [OF assms(3) moves_wf(1) [OF e1] assms(5)]] by (rule moves_cong) simp
  show "fees_only d d2" using convert_fee_effect(1) [OF assms(2)] pay_fee_effect(1) [OF assms(3)] by (auto simp: fees_only_def)
  show "payer < length (accounts d2)" using moves_wf(2) [OF e] assms(1) by (auto simp: prepare_fee_def)
qed

end

section \<open>The contract of an evaluator\<close>

text \<open>An action that runs after its check, on a state in which only fees have moved since, conserves value.\<close>

locale op_evaluator =
  fixes S :: safe_ops and valid :: "unit result" and check :: "chain_db \<Rightarrow> 'r result" and act :: "chain_db \<Rightarrow> chain_db result" and payer :: nat
  assumes act_conserves: "fc_safe S \<Longrightarrow> market_wf d0 \<Longrightarrow> market_wf d \<Longrightarrow> valid = Inr () \<Longrightarrow> check d0 = Inr r \<Longrightarrow> fees_only d0 d \<Longrightarrow>
      payer < length (accounts d) \<Longrightarrow> act d = Inr d' \<Longrightarrow> conserves d d'"
begin

lemma start_evaluate_conserves:
  assumes S: "fc_safe S" and r: "start_evaluate S ts req payer fee check act app d = Inr d'"
    and "market_wf d" "valid = Inr ()" "\<not> skip_fee ts"
  shows "conserves d d'"
proof (cases app)
  case False
  with r show ?thesis using conserves_refl [OF assms(3)] by (auto simp: start_evaluate_def)
next
  case True
  with r obtain core res d1 d2 d3 n where p: "prepare_fee payer fee d = Inr core" and ch: "check d = Inr res"
    and c: "convert_fee S ts fee core d = Inr d1" and pf: "pay_fee S ts payer core d1 = Inr d2" and a: "act d2 = Inr d3"
    and n: "asset_neg S fee = Inr n" and d': "adjust_balance S payer n d3 = Inr d'"
    by (auto simp: start_evaluate_def evaluate_def apply_op_def)
  note f = fc_safe.fee_path [OF S p c pf assms(3,5)]
  have k: "conserves d2 d3" by (rule act_conserves [OF S assms(3) moves_wf(1) [OF f(1)] assms(4) ch f(2,3) a])
  then have "payer < length (accounts d3)" "market_wf d3" using f(3) by (simp_all add: same_frame_def conserves_def)
  note e = fc_safe.adjust_balance_moves [OF S d' this]
  from moves_trans [OF moves_trans [OF f(1) k [unfolded conserves_moves]] e] show ?thesis
    unfolding conserves_moves by (rule moves_cong) (use fc_safe.asset_neg_amounts [OF S n] in \<open>simp add: amt_at_def\<close>)
qed

end

section \<open>What the actions move\<close>

definition settle_worth_of :: "force_settlement_object \<Rightarrow> nat \<Rightarrow> int" where
  "settle_worth_of s = amt_at (asset_id (fs_balance s)) (amount (fs_balance s))"

subsection \<open>Holdings outside the order books\<close>

lemma fees_only_simps:
  assumes "fees_only d0 d"
  shows "accounts d = accounts d0" "assets d = assets d0" "bitassets d = bitassets d0" "settlements d = settlements d0"
    "limit_orders d = limit_orders d0" "claim_balances d = claim_balances d0" "head_block_time d = head_block_time d0"
    "vesting_balances d = vesting_balances d0" "bal d = bal d0" "bitasset_of d = bitasset_of d0" "withdraw_permissions d = withdraw_permissions d0"
  using assms by (auto simp: fees_only_def bal_def get_balance_def bitasset_of_def fun_eq_iff)

text \<open>A state that differs only in fields that hold nothing.\<close>

lemma moves_zero:
  assumes "market_wf d'" "length (accounts d') = length (accounts d)" "bal d' = bal d" "limit_orders d' = limit_orders d"
    "call_orders d' = call_orders d" "settlements d' = settlements d" "acc_stats d' = acc_stats d" "dyn_data d' = dyn_data d"
    "vesting_balances d' = vesting_balances d" "claim_balances d' = claim_balances d" "bitassets d' = bitassets d"
    "map dynamic_asset_data_id (assets d') = map dynamic_asset_data_id (assets d)" "same_frame d d'"
  shows "conserves d d'"
proof -
  have l: "length (assets d') = length (assets d)" using assms(12) by (metis length_map)
  have "dyn_of d' x = dyn_of d x" if "x < length (assets d)" for x
    using that assms(12) l by (metis dyn_of_def assms(8) nth_map)
  then have "gross d' x = gross d x" "supply_of d' x = supply_of d x" for x
    using assms l by (simp_all add: gross_def supply_of_def)
  then show ?thesis using assms(1,2,13) by (simp add: same_frame_def conserves_def)
qed

lemma append_vesting_effect:
  "market_wf d \<Longrightarrow> effect (\<lambda>x. vest_worth x v) (\<lambda>_. 0) d (d\<lparr> vesting_balances := vesting_balances d @ [v] \<rparr>)"
  by (simp add: same_frame_def effect_def market_wf_def gross_def supply_of_def dyn_of_def bal_def get_balance_def)

lemma update_vesting_effect:
  assumes "market_wf d" "i < length (vesting_balances d)"
  shows "effect (\<lambda>x. vest_worth x v - vest_worth x (vesting_balances d ! i)) (\<lambda>_. 0) d (d\<lparr> vesting_balances := (vesting_balances d)[i := v] \<rparr>)"
proof -
  have b: "bal (d\<lparr> vesting_balances := (vesting_balances d)[i := v] \<rparr>) = bal d" by (rule bal_cong) simp
  show ?thesis using assms(1) b
    by (simp add: same_frame_def effect_def market_wf_def gross_def supply_of_def dyn_of_def sum_list_update_int [OF assms(2)])
qed

lemma market_wf_claims:
  "market_wf d \<Longrightarrow> distinct (map fst cs) \<Longrightarrow> \<forall>p\<in>set cs. claim_ok (snd p) \<Longrightarrow> market_wf (d\<lparr> claim_balances := cs \<rparr>)"
  by (simp add: market_wf_def)

lemma remove_claim_effect:
  assumes "market_wf d" "map_of (claim_balances d) i = Some v"
  shows "effect (\<lambda>x. - claim_worth x (i, v)) (\<lambda>_. 0) d (d\<lparr> claim_balances := remove_order i (claim_balances d) \<rparr>)"
proof -
  let ?d = "d\<lparr> claim_balances := remove_order i (claim_balances d) \<rparr>"
  have dist: "distinct (map fst (claim_balances d))" using assms by (simp add: market_wf_def)
  have "bal ?d = bal d" by (rule bal_cong) simp
  moreover have "market_wf ?d"
  proof (rule market_wf_claims [OF assms(1) remove_order_distinct [OF dist]])
    show "\<forall>p\<in>set (remove_order i (claim_balances d)). claim_ok (snd p)"
      using assms(1) remove_order_subset [of i "claim_balances d"] unfolding market_wf_def by blast
  qed
  ultimately show ?thesis by (simp add: same_frame_def effect_def gross_def supply_of_def dyn_of_def remove_order_sum [OF dist assms(2)])
qed

lemma update_claim_effect:
  assumes "market_wf d" "map_of (claim_balances d) i = Some v" "bo_vesting_policy w = bo_vesting_policy v" "0 \<le> amount (bo_balance w)"
  shows "effect (\<lambda>x. claim_worth x (i, w) - claim_worth x (i, v)) (\<lambda>_. 0) d (d\<lparr> claim_balances := AList.update i w (claim_balances d) \<rparr>)"
proof -
  let ?d = "d\<lparr> claim_balances := AList.update i w (claim_balances d) \<rparr>"
  have dist: "distinct (map fst (claim_balances d))" using assms by (simp add: market_wf_def)
  have iv: "(i, v) \<in> set (claim_balances d)" using assms(2) by (rule map_of_SomeD)
  have "bal ?d = bal d" by (rule bal_cong) simp
  moreover have "market_wf ?d"
  proof (rule market_wf_claims [OF assms(1) distinct_update [OF dist]], rule update_order_all)
    show "\<forall>p\<in>set (claim_balances d). claim_ok (snd p)" using assms(1) unfolding market_wf_def by blast
    then show "claim_ok (snd (i, w))" using iv assms(3,4) by (auto simp: claim_ok_def)
  qed
  ultimately show ?thesis by (simp add: same_frame_def effect_def gross_def supply_of_def dyn_of_def update_order_sum [OF dist assms(2)])
qed

lemma settled_pair:
  "market_wf d \<Longrightarrow> bitasset_of d mia = Inr b \<Longrightarrow> has_settlement b \<Longrightarrow>
     asset_id (base (ba_settlement_price b)) = mia \<and> asset_id (quote (ba_settlement_price b)) = short_backing_asset (ba_options b)"
  by (auto simp: market_wf_def settled_ok_def bitasset_of_def)

lemma modify_bitasset_effect:
  assumes "modify_bitasset mia f d = Inr d'" "market_wf d" "bitasset_of d mia = Inr b"
    and "\<And>b'. f b = Inr b' \<Longrightarrow> (\<forall>x. fund_worth x b' = fund_worth x b + g x) \<and> (\<not> has_settlement b' \<longrightarrow> settlement_fund b' = 0) \<and>
      ba_settlement_price b' = ba_settlement_price b \<and> (has_settlement b \<longrightarrow> short_backing_asset (ba_options b') = short_backing_asset (ba_options b))"
  shows "effect g (\<lambda>_. 0) d d' \<and> limit_orders d' = limit_orders d \<and> call_orders d' = call_orders d \<and> settlements d' = settlements d"
proof -
  from assms(1,3) obtain i b' where i: "i < length (bitassets d)" "bitassets d ! i = b" "f b = Inr b'"
    and x: "mia < length (assets d)" "bitasset_data_id (assets d ! mia) = Some i" and d': "d' = d\<lparr> bitassets := (bitassets d)[i := b'] \<rparr>"
    by (auto simp: bitasset_of_def modify_bitasset_def)
  have "sum_list (map (fund_worth x) (bitassets d')) = sum_list (map (fund_worth x) (bitassets d)) + g x" for x
    using sum_list_update_int [OF i(1), of "fund_worth x" b'] i(2) assms(4) [OF i(3)] by (simp add: d')
  moreover have "market_wf d'" unfolding d'
    by (rule market_wf_update_bitasset [OF assms(2) x]) (use assms(4) [OF i(3)] settled_pair [OF assms(2,3)] in \<open>auto simp: has_settlement_def\<close>)
  moreover have "bal d' = bal d" by (simp add: d')
  ultimately show ?thesis by (simp add: same_frame_def effect_def gross_def supply_of_def dyn_of_def d')
qed

lemma update_median_feeds_keeps:
  "update_median_feeds t b = Inr b' \<Longrightarrow> ba_options b' = ba_options b \<and> settlement_fund b' = settlement_fund b \<and> ba_settlement_price b' = ba_settlement_price b"
  by (auto simp: update_median_feeds_def Let_def split: if_splits list.splits)

lemma bitasset_unsettled: "market_wf d \<Longrightarrow> bitasset_of d mia = Inr b \<Longrightarrow> \<not> has_settlement b \<Longrightarrow> settlement_fund b = 0"
  by (auto simp: market_wf_def bitasset_of_def)

subsection \<open>Vesting balances and claims\<close>

lemma linear_allowed_le:
  assumes S: "fc_safe S" and a: "linear_get_allowed_withdraw S p ctx = Inr a" and "0 \<le> begin_balance p" "begin_balance p \<le> GRAPHENE_MAX_SHARE_SUPPLY"
    "vesting_duration_seconds p < 2 ^ 32" "0 \<le> amount (ctx_balance ctx)"
  shows "amount a \<le> amount (ctx_balance ctx)"
proof -
  let ?e = "ctx_now ctx - begin_timestamp p" and ?B = "begin_balance p"
  have ok: "0 \<le> ?B" "?B \<le> GRAPHENE_MAX_SHARE_SUPPLY" "vesting_duration_seconds p < 2 ^ 32" using assms(3-5) by auto
  have v: "u128 (u128 ?B * int ?e) div int (vesting_duration_seconds p) \<le> ?B \<and> 0 \<le> u128 (u128 ?B * int ?e) div int (vesting_duration_seconds p)"
    if e: "?e < vesting_duration_seconds p"
  proof -
    note sp = small_product [OF ok(1,2), of "int ?e"]
    have "?B < 2 ^ 128" using ok(2) by (simp add: GRAPHENE_MAX_SHARE_SUPPLY_def)
    then have u: "u128 (u128 ?B * int ?e) = ?B * int ?e" using sp e ok by simp
    have "?B * int ?e \<le> ?B * int (vesting_duration_seconds p)" using e ok(1) by (intro mult_left_mono) auto
    then have "?B * int ?e div int (vesting_duration_seconds p) \<le> ?B * int (vesting_duration_seconds p) div int (vesting_duration_seconds p)"
      using e by (intro zdiv_mono1) auto
    then show ?thesis using u e sp(1) ok by (simp add: div_int_pos_iff)
  qed
  have i: "int64 ?B" using ok by (simp add: int64_def GRAPHENE_MAX_SHARE_SUPPLY_def)
  have t: "to_int64 y \<le> ?B" if "to_uint64 x = Inr y" "0 \<le> x" "x \<le> ?B" for x y
    using that i int64_between [of x ?B] by (auto simp: to_uint64_def split: if_splits)
  show ?thesis using a v t [OF _ conjunct2 [OF v] conjunct1 [OF v]] i ok(1) assms(6)
    by (auto simp: linear_get_allowed_withdraw_def fc_safe.sub_iff [OF S] Let_def split: if_splits)
qed

context fc_safe
begin

lemma vesting_create_conserves:
  assumes "vesting_create_do_apply S op d = Inr d'" "market_wf d" "vc_creator op < length (accounts d)"
  shows "conserves d d'"
proof -
  define v where "v = \<lparr> vb_owner = vc_owner op, vb_balance = vc_amount op,
    vb_policy = init_policy (amount (vc_amount op)) (head_block_time d) (vc_policy op) \<rparr>"
  have v: "vb_balance v = vc_amount op" by (simp add: v_def)
  from assms(1) obtain n d1 where n: "asset_neg S (vc_amount op) = Inr n" and a: "adjust_balance S (vc_creator op) n d = Inr d1"
    and d': "d' = d1\<lparr> vesting_balances := vesting_balances d1 @ [v] \<rparr>"
    by (auto simp: vesting_create_do_apply_def v_def)
  note e1 = adjust_balance_moves [OF a assms(3,2)]
  note e2 = effect_moves [OF append_vesting_effect [OF moves_wf(1) [OF e1], of v]]
  from moves_trans [OF e1 e2] show ?thesis unfolding conserves_moves d'
    by (rule moves_cong) (use asset_neg_amounts [OF n] v in \<open>simp add: amt_at_def vest_worth_def\<close>)
qed

lemma vesting_withdraw_conserves:
  assumes "vesting_withdraw_do_apply S op d = Inr d'" "market_wf d" "vw_owner op < length (accounts d)"
  shows "conserves d d'"
proof -
  let ?i = "vw_vesting_balance op"
  from assms(1) obtain v where i: "?i < length (vesting_balances d)" and v: "vb_withdraw S (head_block_time d) (vw_amount op) (vesting_balances d ! ?i) = Inr v"
    and a: "adjust_balance S (vw_owner op) (vw_amount op) (d\<lparr> vesting_balances := (vesting_balances d)[?i := v] \<rparr>) = Inr d'"
    by (auto simp: vesting_withdraw_do_apply_def)
  have b: "asset_id (vb_balance (vesting_balances d ! ?i)) = asset_id (vw_amount op)"
    "vb_balance v = mk_asset (amount (vb_balance (vesting_balances d ! ?i)) - amount (vw_amount op)) (asset_id (vw_amount op))"
    using v by (auto simp: vb_withdraw_def asset_minus_def sub_iff Let_def)
  note e1 = effect_moves [OF update_vesting_effect [OF assms(2) i, of v]]
  from moves_trans [OF e1 adjust_balance_moves [OF a _ moves_wf(1) [OF e1]]] assms(3) b show ?thesis
    unfolding conserves_moves by (auto elim!: moves_cong simp: amt_at_def vest_worth_def)
qed

lemma balance_claim_conserves:
  assumes "balance_claim_do_apply S op d = Inr d'" "market_wf d" "bc_deposit_to_account op < length (accounts d)"
    and "balance_claim_do_evaluate S addrs skip op d0 = Inr ()" "claim_balances d0 = claim_balances d"
  shows "conserves d d'"
proof -
  let ?i = "bc_balance_to_claim op" and ?c = "bc_total_claimed op"
  from assms(1) obtain b part d1 where b: "map_of (claim_balances d) ?i = Some b"
    and part: "(if bo_vesting_policy b \<noteq> None then asset_less ?c (bo_balance b) else Inr False) = Inr part"
    and d1: "(if part then rbind (asset_minus S (bo_balance b) ?c) (\<lambda>x. Inr (d\<lparr> claim_balances := AList.update ?i
        (b\<lparr> bo_balance := x, bo_last_claim_date := head_block_time d \<rparr>) (claim_balances d) \<rparr>))
      else Inr (d\<lparr> claim_balances := remove_order ?i (claim_balances d) \<rparr>)) = Inr d1"
    and a: "adjust_balance S (bc_deposit_to_account op) ?c d1 = Inr d'"
    unfolding balance_claim_do_apply_def rbind_eq_Inr get_order_eq_Inr by blast
  have bp: "claim_ok b" using assms(2) map_of_SomeD [OF b] by (auto simp: market_wf_def)
  have "moves (\<lambda>x. - amt_at (asset_id ?c) (amount ?c) x) d d1"
  proof (cases part)
    case True
    then have c: "asset_id ?c = asset_id (bo_balance b)" "amount ?c < amount (bo_balance b)"
      using part by (auto simp: asset_less_def split: if_splits)
    define w where "w = b\<lparr> bo_balance := mk_asset (amount (bo_balance b) - amount ?c) (asset_id (bo_balance b)), bo_last_claim_date := head_block_time d \<rparr>"
    have d1': "d1 = d\<lparr> claim_balances := AList.update ?i w (claim_balances d) \<rparr>"
      using d1 True c by (auto simp: asset_minus_def sub_iff w_def)
    have "effect (\<lambda>x. claim_worth x (?i, w) - claim_worth x (?i, b)) (\<lambda>_. 0) d d1"
      unfolding d1' by (rule update_claim_effect [OF assms(2) b]) (use c in \<open>simp_all add: w_def\<close>)
    from effect_moves [OF this] show ?thesis by (rule moves_cong) (auto simp: w_def claim_worth_def amt_at_def c)
  next
    case False
    have e: "?c = bo_balance b"
    proof (cases "bo_vesting_policy b")
      case None
      then show ?thesis using assms(4,5) b by (auto simp: balance_claim_do_evaluate_def)
    next
      case (Some p)
      let ?ctx = "\<lparr> ctx_balance = bo_balance b, ctx_now = head_block_time d0, ctx_amount = ?c \<rparr>"
      from assms(4,5) b Some have "linear_is_withdraw_allowed S p ?ctx = Inr True"
        by (auto simp: balance_claim_do_evaluate_def)
      then obtain al where al: "linear_get_allowed_withdraw S p ?ctx = Inr al" "asset_le ?c al = Inr True"
        and ids: "asset_id ?c = asset_id (bo_balance b)" by (auto simp: linear_is_withdraw_allowed_def split: if_splits)
      have "amount ?c \<le> amount al" using al(2) by (auto simp: asset_le_def asset_less_def split: if_splits)
      moreover have "amount al \<le> amount (bo_balance b)"
        using linear_allowed_le [OF fc_safe_axioms al(1)] bp Some by (simp add: claim_ok_def)
      moreover have "\<not> amount ?c < amount (bo_balance b)" using part False Some by (auto simp: asset_less_def split: if_splits)
      ultimately show ?thesis using ids by (cases "bo_balance b"; cases ?c) auto
    qed
    have d1': "d1 = d\<lparr> claim_balances := remove_order ?i (claim_balances d) \<rparr>" using d1 False by simp
    from effect_moves [OF remove_claim_effect [OF assms(2) b]] show ?thesis unfolding d1'
      by (rule moves_cong) (auto simp: claim_worth_def amt_at_def e)
  qed
  note e1 = this
  have "bc_deposit_to_account op < length (accounts d1)" using moves_wf(2) [OF e1] assms(3) by simp
  from moves_trans [OF e1 adjust_balance_moves [OF a this moves_wf(1) [OF e1]]] show ?thesis
    unfolding conserves_moves by (rule moves_cong) simp
qed

end

subsection \<open>Assets\<close>

lemma asset_options_valid:
  "asset_options_validate o1 = Inr () \<Longrightarrow> 0 \<le> max_market_fee o1 \<and> int (market_fee_percent o1) \<le> GRAPHENE_100_PERCENT"
  by (auto simp: asset_options_validate_def)

lemma market_wf_update_asset:
  assumes "market_wf d" "i < length (assets d)" "dynamic_asset_data_id a = dynamic_asset_data_id (assets d ! i)"
    "0 \<le> max_market_fee (options a)" "int (market_fee_percent (options a)) \<le> GRAPHENE_100_PERCENT"
    "bitasset_data_id a = bitasset_data_id (assets d ! i)" "buyback_account a = buyback_account (assets d ! i)"
  shows "market_wf (d\<lparr> assets := (assets d)[i := a] \<rparr>)"
proof -
  have bd: "bitasset_data_id ((assets d)[i := a] ! x) = bitasset_data_id (assets d ! x)" for x
    using assms(2,6) by (cases "x = i") auto
  have id: "dynamic_asset_data_id ((assets d)[i := a] ! x) = dynamic_asset_data_id (assets d ! x)" for x
    using assms(2,3) by (cases "x = i") auto
  have "0 \<le> max_market_fee (options ((assets d)[i := a] ! x)) \<and> int (market_fee_percent (options ((assets d)[i := a] ! x))) \<le> GRAPHENE_100_PERCENT"
    if "x < length (assets d)" for x using that assms by (cases "x = i") (auto simp: market_wf_def)
  moreover have "settled_ok ((assets d)[i := a]) (bitassets d) = settled_ok (assets d) (bitassets d)" by (simp add: settled_ok_def bd)
  moreover have "\<forall>b\<in>set ((assets d)[i := a]). \<forall>j. buyback_account b = Some j \<longrightarrow> j < length (accounts d)"
    using assms(1,2,7) set_update_subset_insert [of "assets d" i a] nth_mem [OF assms(2)] unfolding market_wf_def by (metis insertE subsetD)
  ultimately show ?thesis using assms(1) by (simp add: market_wf_def id)
qed

context fc_safe
begin

lemma cancel_settlements_conserves:
  "rfold (\<lambda>i. cancel_settlement S i v) is d = Inr d' \<Longrightarrow> market_wf d \<Longrightarrow> effect (\<lambda>_. 0) (\<lambda>_. 0) d d'"
proof (induction "is" arbitrary: d)
  case (Cons i "is")
  from Cons.prems(1) obtain d1 where d1: "cancel_settlement S i v d = Inr d1" "rfold (\<lambda>i. cancel_settlement S i v) is d1 = Inr d'" by auto
  note e = cancel_settlement_effect [OF d1(1) Cons.prems(2)]
  from effect_trans [OF e Cons.IH [OF d1(2) effectD(1) [OF e]]] show ?case by simp
qed (simp add: effect_refl)

lemma asset_update_conserves:
  assumes "asset_update_do_apply S op d = Inr d'" "market_wf d" "asset_update_validate op = Inr ()"
  shows "conserves d d'"
proof -
  let ?i = "au_asset_to_update op"
  from assms(1) obtain d1 where i: "?i < length (assets d1)"
    and d1: "rfold (\<lambda>i. cancel_settlement S i True) (settle_range d ?i) d = Inr d1 \<or> d1 = d"
    and d': "d' = d1\<lparr> assets := (assets d1)[?i := (assets d1 ! ?i)\<lparr> issuer := (case au_new_issuer op of None \<Rightarrow> issuer (assets d1 ! ?i) | Some i \<Rightarrow> i),
      options := au_new_options op \<rparr>] \<rparr>"
    by (auto simp: asset_update_do_apply_def split: if_splits)
  have e1: "effect (\<lambda>_. 0) (\<lambda>_. 0) d d1" using d1 cancel_settlements_conserves [OF _ assms(2)] effect_refl [OF assms(2)] by auto
  have o: "0 \<le> max_market_fee (au_new_options op) \<and> int (market_fee_percent (au_new_options op)) \<le> GRAPHENE_100_PERCENT"
    using assms(3) by (intro asset_options_valid) (auto simp: asset_update_validate_def)
  have w: "market_wf d'" unfolding d' by (rule market_wf_update_asset [OF effectD(1) [OF e1] i]) (use o in auto)
  have "conserves d1 d'" by (rule moves_zero [OF w]) (auto simp: d' same_frame_def bal_def get_balance_def fun_eq_iff map_update list_update_same_conv i)
  then show ?thesis using conserves_trans [OF effect_conserves [OF e1]] by simp
qed

lemma bitasset_action_conserves:
  assumes "modify_bitasset mia f d = Inr d'" "market_wf d" "bitasset_of d mia = Inr b"
    and "\<And>b'. f b = Inr b' \<Longrightarrow> ba_options b' = ba_options b \<and> settlement_fund b' = settlement_fund b \<and> ba_settlement_price b' = ba_settlement_price b"
  shows "conserves d d'"
proof -
  have "effect (\<lambda>_. 0) (\<lambda>_. 0) d d' \<and> limit_orders d' = limit_orders d \<and> call_orders d' = call_orders d \<and> settlements d' = settlements d"
  proof (rule modify_bitasset_effect [OF assms(1-3)])
    fix b' assume "f b = Inr b'"
    note k = assms(4) [OF this]
    then show "(\<forall>x. fund_worth x b' = fund_worth x b + 0) \<and> (\<not> has_settlement b' \<longrightarrow> settlement_fund b' = 0) \<and>
      ba_settlement_price b' = ba_settlement_price b \<and> (has_settlement b \<longrightarrow> short_backing_asset (ba_options b') = short_backing_asset (ba_options b))"
      using bitasset_unsettled [OF assms(2,3)] by (simp add: fund_worth_def has_settlement_def)
  qed
  then show ?thesis by (auto intro: effect_conserves)
qed

lemma asset_update_bitasset_conserves:
  assumes "asset_update_bitasset_do_apply op d = Inr d'" "market_wf d" "bitasset_of d (ab_asset_to_update op) = Inr b" "\<not> has_settlement b"
  shows "conserves d d'"
proof -
  have z: "settlement_fund b = 0" by (rule bitasset_unsettled [OF assms(2-4)])
  have "effect (\<lambda>_. 0) (\<lambda>_. 0) d d' \<and> limit_orders d' = limit_orders d \<and> call_orders d' = call_orders d \<and> settlements d' = settlements d"
    by (rule modify_bitasset_effect [OF assms(1) [unfolded asset_update_bitasset_do_apply_def] assms(2,3)])
      (use assms(4) in \<open>auto simp: fund_worth_def z dest!: update_median_feeds_keeps split: if_splits\<close>)
  then show ?thesis by (auto intro: effect_conserves)
qed

lemma asset_update_feed_producers_conserves:
  assumes "asset_update_feed_producers_do_apply S op d = Inr d'" "market_wf d"
  shows "conserves d d'"
proof -
  from assms(1) obtain d1 r where m: "modify_bitasset (ap_asset_to_update op) (\<lambda>b.
      update_median_feeds (head_block_time d) (b\<lparr> feeds := replace_producers (ap_new_feed_producers op) (feeds b) \<rparr>)) d = Inr d1"
    and c: "check_call_orders S (ap_asset_to_update op) True d1 = Inr (r, d')" by (auto simp: asset_update_feed_producers_do_apply_def)
  then obtain b where b: "bitasset_of d (ap_asset_to_update op) = Inr b" by (auto simp: modify_bitasset_def bitasset_of_def)
  have k: "conserves d d1" by (rule bitasset_action_conserves [OF m assms(2) b]) (auto dest: update_median_feeds_keeps)
  from conserves_trans [OF k check_call_orders_conserves [OF c conserves_wf [OF k]]] show ?thesis .
qed

lemma asset_publish_feeds_conserves:
  assumes "asset_publish_feeds_do_apply S op d = Inr d'" "market_wf d"
  shows "conserves d d'"
proof -
  from assms(1) obtain b d1 where b: "bitasset_of d (pf_asset_id op) = Inr b"
    and m: "modify_bitasset (pf_asset_id op) (\<lambda>b. update_median_feeds (head_block_time d)
        (b\<lparr> feeds := fm_update (pf_publisher op) (head_block_time d, pf_feed op) (feeds b) \<rparr>)) d = Inr d1"
    and c: "d' = d1 \<or> (\<exists>r. check_call_orders S (pf_asset_id op) True d1 = Inr (r, d'))"
    by (auto simp: asset_publish_feeds_do_apply_def split: if_splits)
  have k: "conserves d d1" by (rule bitasset_action_conserves [OF m assms(2) b]) (auto dest: update_median_feeds_keeps)
  then show ?thesis using c conserves_trans [OF k check_call_orders_conserves [OF _ conserves_wf [OF k]]] by auto
qed

lemma fund_fee_pool_conserves:
  assumes "asset_fund_fee_pool_do_apply S op d = Inr d'" "market_wf d" "af_from_account op < length (accounts d)"
  shows "conserves d d'"
proof -
  from assms(1) obtain d1 where a: "adjust_balance S (af_from_account op) (mk_asset (- af_amount op) 0) d = Inr d1"
    and m: "modify_dyn (af_asset_id op) (\<lambda>y. rbind (safe_add S (fee_pool y) (af_amount op)) (\<lambda>s. Inr (y\<lparr> fee_pool := s \<rparr>))) d1 = Inr d'"
    by (auto simp: asset_fund_fee_pool_do_apply_def neg_iff)
  note e1 = adjust_balance_moves [OF a assms(3,2)]
  have "effect (\<lambda>y. amt_at (af_asset_id op) 0 y + amt_at 0 (af_amount op) y) (amt_at (af_asset_id op) 0) d1 d' \<and> same_orders d1 d'"
    by (rule modify_dyn_effect [OF m moves_wf(1) [OF e1]]) (auto simp: add_iff)
  from moves_trans [OF e1 effect_moves [OF conjunct1 [OF this]]] show ?thesis
    unfolding conserves_moves by (rule moves_cong) (simp add: amt_at_def)
qed

lemma claim_fees_conserves:
  assumes "asset_claim_fees_do_apply S op d = Inr d'" "market_wf d" "cf_issuer op < length (accounts d)"
  shows "conserves d d'"
proof -
  let ?a = "cf_amount_to_claim op"
  from assms(1) obtain d1 where m: "modify_dyn (asset_id ?a) (\<lambda>y. rbind (safe_sub S (accumulated_fees y) (amount ?a)) (\<lambda>s. Inr (y\<lparr> accumulated_fees := s \<rparr>))) d = Inr d1"
    and a: "adjust_balance S (cf_issuer op) ?a d1 = Inr d'" by (auto simp: asset_claim_fees_do_apply_def)
  have "effect (\<lambda>y. amt_at (asset_id ?a) (- amount ?a) y + amt_at 0 0 y) (amt_at (asset_id ?a) 0) d d1 \<and> same_orders d d1"
    by (rule modify_dyn_effect [OF m assms(2)]) (auto simp: sub_iff)
  note e1 = effect_moves [OF conjunct1 [OF this]]
  have "cf_issuer op < length (accounts d1)" using moves_wf(2) [OF e1] assms(3) by simp
  from moves_trans [OF e1 adjust_balance_moves [OF a this moves_wf(1) [OF e1]]] show ?thesis
    unfolding conserves_moves by (rule moves_cong) (simp add: amt_at_def)
qed

subsection \<open>Settlement\<close>

lemma append_settlement_moves:
  assumes "market_wf d" "fs_owner s < length (accounts d)"
  shows "moves (settle_worth_of s) d (d\<lparr> settlements := settlements d @ [(next_settlement d, s)], next_settlement := Suc (next_settlement d) \<rparr>)"
proof -
  let ?d = "d\<lparr> settlements := settlements d @ [(next_settlement d, s)], next_settlement := Suc (next_settlement d) \<rparr>"
  have lt: "fst p < next_settlement d" if "p \<in> set (settlements d)" for p using assms(1) that by (simp add: market_wf_def)
  then have n: "next_settlement d \<notin> fst ` set (settlements d)" "\<forall>p\<in>set (settlements d). fst p < Suc (next_settlement d)"
    by (metis imageE less_irrefl_nat) (use lt less_SucI in blast)
  have "market_wf ?d" using assms n by (simp add: market_wf_def)
  moreover have "bal ?d = bal d" by (rule bal_cong) simp
  ultimately show ?thesis
    by (simp add: same_frame_def moves_def net_def gross_def supply_of_def dyn_of_def settle_worth_def settle_worth_of_def amt_at_def)
qed

lemma asset_settle_conserves:
  assumes "asset_settle_do_apply S op d = Inr (r, d')" "market_wf d" "as_account op < length (accounts d)"
  shows "conserves d d'"
proof -
  let ?a = "as_amount op" and ?c = "as_account op"
  from assms(1) obtain n d1 b where n: "asset_neg S ?a = Inr n" and d1: "adjust_balance S ?c n d = Inr d1"
    and b: "bitasset_of d1 (asset_id ?a) = Inr b"
    unfolding asset_settle_do_apply_def rbind_eq_Inr by blast
  note nn = asset_neg_amounts [OF n]
  note e1 = adjust_balance_moves [OF d1 assms(3,2)]
  note w1 = moves_wf(1) [OF e1]
  have c1: "?c < length (accounts d1)" using moves_wf(2) [OF e1] assms(3) by simp
  show ?thesis
  proof (cases "has_settlement b")
    case True
    with assms(1) n d1 b obtain st d2 d3 where st: "asset_times_price ?a (ba_settlement_price b) = Inr st"
      and m: "modify_bitasset (asset_id ?a) (\<lambda>b. rbind (safe_sub S (settlement_fund b) (amount st)) (\<lambda>f. Inr (b\<lparr> settlement_fund := f \<rparr>))) d1 = Inr d2"
      and d3: "adjust_balance S ?c st d2 = Inr d3"
      and y: "modify_dyn (asset_id ?a) (\<lambda>y. rbind (safe_sub S (current_supply y) (amount ?a)) (\<lambda>s. Inr (y\<lparr> current_supply := s \<rparr>))) d3 = Inr d'"
      by (auto simp: asset_settle_do_apply_def)
    have sp: "asset_id (base (ba_settlement_price b)) = asset_id ?a" "asset_id (quote (ba_settlement_price b)) = short_backing_asset (ba_options b)"
      using settled_pair [OF w1 b True] by auto
    have id: "asset_id st = short_backing_asset (ba_options b)" using st sp by (auto simp: asset_times_price_def Let_def split: if_splits)
    have "effect (amt_at (asset_id st) (- amount st)) (\<lambda>_. 0) d1 d2 \<and> limit_orders d2 = limit_orders d1 \<and> call_orders d2 = call_orders d1 \<and> settlements d2 = settlements d1"
      by (rule modify_bitasset_effect [OF m w1 b]) (use True in \<open>auto simp: fund_worth_def amt_at_def sub_iff id has_settlement_def\<close>)
    note e2 = effect_moves [OF conjunct1 [OF this]]
    have c2: "?c < length (accounts d2)" using moves_wf(2) [OF e2] c1 by simp
    note e3 = adjust_balance_moves [OF d3 c2 moves_wf(1) [OF e2]]
    have "effect (\<lambda>y. amt_at (asset_id ?a) 0 y + amt_at 0 0 y) (amt_at (asset_id ?a) (- amount ?a)) d3 d' \<and> same_orders d3 d'"
      by (rule modify_dyn_effect [OF y moves_wf(1) [OF e3]]) (auto simp: sub_iff)
    note e4 = effect_moves [OF conjunct1 [OF this]]
    from moves_trans [OF moves_trans [OF moves_trans [OF e1 e2] e3] e4] show ?thesis
      unfolding conserves_moves by (rule moves_cong) (simp add: amt_at_def nn)
  next
    case False
    define s where "s = \<lparr> fs_owner = ?c, fs_balance = ?a,
      settlement_date = (head_block_time d1 + force_settlement_delay_sec (ba_options b)) mod 2 ^ 32 \<rparr>"
    have d': "d' = d1\<lparr> settlements := settlements d1 @ [(next_settlement d1, s)], next_settlement := Suc (next_settlement d1) \<rparr>"
      using assms(1) n d1 b False by (simp add: asset_settle_do_apply_def Let_def s_def)
    have e2: "moves (settle_worth_of s) d1 d'" unfolding d' by (rule append_settlement_moves [OF w1]) (use c1 in \<open>simp add: s_def\<close>)
    from moves_trans [OF e1 e2] show ?thesis
      unfolding conserves_moves by (rule moves_cong) (simp add: amt_at_def nn settle_worth_of_def s_def)
  qed
qed

lemma global_settle_conserves:
  "asset_global_settle_do_apply S op d = Inr d' \<Longrightarrow> market_wf d \<Longrightarrow> conserves d d'"
  unfolding asset_global_settle_do_apply_def by (rule effect_conserves [OF globally_settle_effect]) simp_all

lemma limit_order_cancel_conserves:
  assumes "limit_order_cancel_do_apply S op d = Inr (r, d')" "market_wf d"
  shows "conserves d d'"
proof -
  from assms(1) obtain o1 d1 b1 d2 b2 where "map_of (limit_orders d) (lc_order op) = Some o1" and c: "cancel_limit_order S (lc_order op) False d = Inr d1"
    and k1: "check_call_orders S (asset_id (base (sell_price o1))) True d1 = Inr (b1, d2)"
    and k2: "check_call_orders S (asset_id (quote (sell_price o1))) True d2 = Inr (b2, d')"
    by (auto simp: limit_order_cancel_do_apply_def)
  have e: "conserves d d1" by (rule effect_conserves [OF conjunct1 [OF cancel_limit_order_effect [OF c assms(2)]]]) simp
  have e2: "conserves d1 d2" by (rule check_call_orders_conserves [OF k1 conserves_wf [OF e]])
  have "conserves d2 d'" by (rule check_call_orders_conserves [OF k2 conserves_wf [OF e2]])
  from conserves_trans [OF conserves_trans [OF e e2] this] show ?thesis .
qed

subsection \<open>Transfers\<close>

lemma transfer_conserves:
  "transfer_do_apply S op d = Inr d' \<Longrightarrow> market_wf d \<Longrightarrow> tr_from op < length (accounts d) \<Longrightarrow> tr_to op < length (accounts d) \<Longrightarrow> conserves d d'"
  by (auto simp: transfer_do_apply_def intro: move_conserves)

lemma override_transfer_conserves:
  "override_transfer_do_apply S op d = Inr d' \<Longrightarrow> market_wf d \<Longrightarrow> ov_from op < length (accounts d) \<Longrightarrow> ov_to op < length (accounts d) \<Longrightarrow> conserves d d'"
  by (auto simp: override_transfer_do_apply_def intro: move_conserves)

lemma permissions_hold_nothing:
  "market_wf d \<Longrightarrow> \<forall>p\<in>set ps. wp_withdraw_from_account (snd p) < length (accounts d) \<Longrightarrow> conserves d (d\<lparr> withdraw_permissions := ps \<rparr>)"
  "market_wf d \<Longrightarrow> \<forall>p\<in>set ps. wp_withdraw_from_account (snd p) < length (accounts d) \<Longrightarrow>
     conserves d (d\<lparr> withdraw_permissions := ps, next_withdraw_permission := i \<rparr>)"
  by (rule moves_zero; simp add: market_wf_def same_frame_def bal_def get_balance_def fun_eq_iff)+

lemma permission_owner: "market_wf d \<Longrightarrow> map_of (withdraw_permissions d) i = Some p \<Longrightarrow> wp_withdraw_from_account p < length (accounts d)"
  by (auto simp: market_wf_def dest!: map_of_SomeD)

lemma update_permission_conserves:
  assumes "market_wf d" "map_of (withdraw_permissions d) i = Some p" "wp_withdraw_from_account q = wp_withdraw_from_account p"
  shows "conserves d (d\<lparr> withdraw_permissions := AList.update i q (withdraw_permissions d) \<rparr>)"
proof (rule permissions_hold_nothing(1) [OF assms(1) update_order_all])
  show "\<forall>p\<in>set (withdraw_permissions d). wp_withdraw_from_account (snd p) < length (accounts d)" using assms(1) by (simp add: market_wf_def)
  show "wp_withdraw_from_account (snd (i, q)) < length (accounts d)" using permission_owner [OF assms(1,2)] assms(3) by simp
qed

lemma wp_create_conserves:
  assumes "wp_create_do_apply op d = Inr (r, d')" "market_wf d" "wc_withdraw_from_account op < length (accounts d)"
  shows "conserves d d'"
proof -
  from assms(1) obtain p where d': "d' = d\<lparr> withdraw_permissions := withdraw_permissions d @ [(next_withdraw_permission d, p)],
      next_withdraw_permission := Suc (next_withdraw_permission d) \<rparr>" and p: "wp_withdraw_from_account p = wc_withdraw_from_account op"
    by (auto simp: wp_create_do_apply_def Let_def)
  show ?thesis unfolding d' by (rule permissions_hold_nothing(2) [OF assms(2)]) (use assms(2,3) p in \<open>auto simp: market_wf_def\<close>)
qed

lemma wp_update_conserves: "wp_update_do_apply op d = Inr d' \<Longrightarrow> market_wf d \<Longrightarrow> conserves d d'"
  by (auto simp: wp_update_do_apply_def Let_def intro!: update_permission_conserves)

lemma wp_delete_conserves: 
  assumes "wp_delete_do_apply op d = Inr d'" "market_wf d"
  shows "conserves d d'"
proof -
  have d': "d' = d\<lparr> withdraw_permissions := remove_order (wd_withdrawal_permission op) (withdraw_permissions d) \<rparr>"
    using assms(1) by (auto simp: wp_delete_do_apply_def)
  show ?thesis unfolding d'
    by (rule permissions_hold_nothing(1) [OF assms(2)]) (use assms(2) remove_order_subset in \<open>fastforce simp: market_wf_def\<close>)
qed

lemma wp_claim_conserves:
  assumes "wp_claim_do_apply S op d = Inr d'" "market_wf d"
    and "wl_withdraw_from_account op < length (accounts d)" "wl_withdraw_to_account op < length (accounts d)"
  shows "conserves d d'"
proof -
  let ?i = "wl_withdraw_permission op"
  from assms(1) obtain p q n d2 where p: "map_of (withdraw_permissions d) ?i = Some p"
    and q: "wp_claim S (head_block_time d) (amount (wl_amount_to_withdraw op)) p = Inr q"
    and n: "asset_neg S (wl_amount_to_withdraw op) = Inr n"
    and a1: "adjust_balance S (wl_withdraw_from_account op) n (d\<lparr> withdraw_permissions := AList.update ?i q (withdraw_permissions d) \<rparr>) = Inr d2"
    and a2: "adjust_balance S (wl_withdraw_to_account op) (wl_amount_to_withdraw op) d2 = Inr d'"
    by (auto simp: wp_claim_do_apply_def Let_def)
  have k: "conserves d (d\<lparr> withdraw_permissions := AList.update ?i q (withdraw_permissions d) \<rparr>)"
    by (rule update_permission_conserves [OF assms(2) p]) (use q in \<open>auto simp: wp_claim_def Let_def\<close>)
  have "conserves (d\<lparr> withdraw_permissions := AList.update ?i q (withdraw_permissions d) \<rparr>) d'"
    by (rule move_conserves [OF n a1 a2]) (use assms(3,4) conserves_wf [OF k] in simp_all)
  from conserves_trans [OF k this] show ?thesis .
qed

subsection \<open>Accounts\<close>

lemma accounts_hold_nothing:
  "market_wf d \<Longrightarrow> length as = length (accounts d) \<Longrightarrow> conserves d (d\<lparr> accounts := as \<rparr>)"
  by (rule moves_zero; simp add: market_wf_def same_frame_def bal_def get_balance_def fun_eq_iff)

lemma special_authorities_hold_nothing: "market_wf d \<Longrightarrow> conserves d (d\<lparr> special_authorities := xs \<rparr>)"
  by (rule moves_zero; simp add: market_wf_def same_frame_def bal_def get_balance_def fun_eq_iff)

lemma account_update_conserves:
  assumes "account_update_do_apply op d = Inr d'" "market_wf d"
  shows "conserves d d'"
proof -
  from assms(1) obtain a xs where d': "d' = d\<lparr> accounts := (accounts d)[up_account op := a] \<rparr> \<or>
      d' = d\<lparr> accounts := (accounts d)[up_account op := a] \<rparr>\<lparr> special_authorities := xs \<rparr>"
    unfolding account_update_do_apply_def Let_def by (fastforce split: if_splits)
  have k: "conserves d (d\<lparr> accounts := (accounts d)[up_account op := a] \<rparr>)" by (rule accounts_hold_nothing [OF assms(2)]) simp
  show ?thesis using d' k conserves_trans [OF k special_authorities_hold_nothing [OF conserves_wf [OF k]]] by auto
qed

lemma account_whitelist_conserves: "account_whitelist_do_apply op d = Inr d' \<Longrightarrow> market_wf d \<Longrightarrow> conserves d d'"
  by (auto simp: account_whitelist_do_apply_def Let_def intro!: accounts_hold_nothing)

lemma deposit_lazy_vesting_moves:
  assumes "deposit_lazy_vesting S ovb amt secs own rv d = Inr (r, d')" "market_wf d"
  shows "moves (amt_at 0 amt) d d'"
proof (cases "amt = 0")
  case True
  then show ?thesis using assms by (simp add: deposit_lazy_vesting_def moves_refl)
next
  case False
  with assms(1) consider (old) i y where "i < length (vesting_balances d)" "d' = d\<lparr> vesting_balances := (vesting_balances d)[i := y] \<rparr>"
      "vb_deposit S (head_block_time d) (mk_asset amt 0) (vesting_balances d ! i) = Inr y \<or>
       vb_deposit_vested S (head_block_time d) (mk_asset amt 0) (vesting_balances d ! i) = Inr y"
    | (new) v where "d' = d\<lparr> vesting_balances := vesting_balances d @ [v] \<rparr>" "vb_balance v = mk_asset amt 0"
    by (auto simp: deposit_lazy_vesting_def Let_def split: if_splits)
  then show ?thesis
  proof cases
    case old
    from effect_moves [OF update_vesting_effect [OF assms(2) old(1), of y]] show ?thesis unfolding old(2)
      by (rule moves_cong) (use vb_deposit_amount [OF old(3)] in \<open>auto simp: vest_worth_def amt_at_def\<close>)
  next
    case new
    from effect_moves [OF append_vesting_effect [OF assms(2), of v]] show ?thesis unfolding new(1)
      by (rule moves_cong) (auto simp: vest_worth_def amt_at_def new(2))
  qed
qed

lemma deposit_cashback_moves:
  assumes "deposit_cashback S acc amt rv d = Inr d'" "market_wf d"
  shows "moves (amt_at 0 amt) d d'"
proof -
  consider (zero) "amt = 0" | (system) "amt \<noteq> 0" "is_system_account acc" | (vest) "amt \<noteq> 0" "\<not> is_system_account acc" by blast
  then show ?thesis
  proof cases
    case zero
    then show ?thesis using assms by (simp add: deposit_cashback_def moves_refl)
  next
    case system
    then have m: "modify_dyn 0 (\<lambda>y. rbind (safe_sub S (current_supply y) amt) (\<lambda>s. Inr (y\<lparr> current_supply := s \<rparr>))) d = Inr d'"
      using assms(1) by (simp add: deposit_cashback_def)
    have "effect (\<lambda>y. amt_at 0 0 y + amt_at 0 0 y) (amt_at 0 (- amt)) d d' \<and> same_orders d d'"
      by (rule modify_dyn_effect [OF m assms(2)]) (auto simp: sub_iff)
    from effect_moves [OF conjunct1 [OF this]] show ?thesis by (rule moves_cong) (simp add: amt_at_def)
  next
    case vest
    with assms(1) obtain r d1 where l: "deposit_lazy_vesting S (cashback_vb (accounts d ! acc)) amt (cashback_vesting_period_seconds d) acc rv d = Inr (r, d1)"
      and d': "d' = d1 \<or> (\<exists>a. d' = d1\<lparr> accounts := (accounts d1)[acc := a] \<rparr>)"
      by (auto simp: deposit_cashback_def split: option.splits)
    note e = deposit_lazy_vesting_moves [OF l assms(2)]
    have "conserves d1 d'" using d' accounts_hold_nothing [OF moves_wf(1) [OF e]] conserves_refl [OF moves_wf(1) [OF e]] by auto
    from moves_trans [OF e this [unfolded conserves_moves]] show ?thesis by simp
  qed
qed

lemma distribute_fee_moves:
  assumes "distribute_fee S account fee rv d = Inr d'" "market_wf d"
  shows "moves (amt_at 0 fee) d d'"
proof -
  have ok: "assets d \<noteq> []" "dynamic_asset_data_id (assets d ! 0) = 0" using assms(2) by (simp_all add: market_wf_def)
  from assms(1) obtain n l r z d2 d3 d4 where z: "dyn_data d \<noteq> []" "safe_add S (accumulated_fees (dyn_data d ! 0)) n = Inr z"
      "d2 = d\<lparr> dyn_data := (dyn_data d)[0 := (dyn_data d ! 0)\<lparr> accumulated_fees := z \<rparr>] \<rparr>"
    and d3: "deposit_cashback S (lifetime_referrer account) l rv d2 = Inr d3"
    and d4: "deposit_cashback S (referrer account) r rv d3 = Inr d4"
    and d5: "deposit_cashback S (registrar account) (fee - n - l - r) rv d4 = Inr d'"
    by (auto simp: distribute_fee_def sub_iff)
  have d2: "modify_dyn 0 (\<lambda>y. rbind (safe_add S (accumulated_fees y) n) (\<lambda>s. Inr (y\<lparr> accumulated_fees := s \<rparr>))) d = Inr d2"
    using ok z by (simp add: modify_dyn_def)
  have "effect (\<lambda>y. amt_at 0 n y + amt_at 0 0 y) (amt_at 0 0) d d2 \<and> same_orders d d2"
    by (rule modify_dyn_effect [OF d2 assms(2)]) (auto simp: add_iff)
  note e2 = effect_moves [OF conjunct1 [OF this]]
  note e3 = deposit_cashback_moves [OF d3 moves_wf(1) [OF e2]]
  note e4 = deposit_cashback_moves [OF d4 moves_wf(1) [OF e3]]
  note e5 = deposit_cashback_moves [OF d5 moves_wf(1) [OF e4]]
  from moves_trans [OF moves_trans [OF moves_trans [OF e2 e3] e4] e5] show ?thesis by (rule moves_cong) (simp add: amt_at_def)
qed

lemma pay_out_fees_moves:
  assumes "pay_out_fees S acc fee rv d = Inr d'" "market_wf d"
  shows "moves (amt_at 0 fee) d d'"
proof -
  from assms(1) obtain a where r: "distribute_fee S a fee rv (d\<lparr> accounts := (accounts d)[acc := a] \<rparr>) = Inr d'"
    by (auto simp: pay_out_fees_def Let_def)
  have k: "conserves d (d\<lparr> accounts := (accounts d)[acc := a] \<rparr>)" by (rule accounts_hold_nothing [OF assms(2)]) simp
  from moves_trans [OF k [unfolded conserves_moves] distribute_fee_moves [OF r conserves_wf [OF k]]] show ?thesis by simp
qed

text \<open>Paying out pending fees empties the account's pending fees into the network, the referral program and the
  vesting balances.\<close>

lemma process_fees_moves:
  assumes "process_fees S acc d = Inr d'" "market_wf d"
  shows "conserves d d'"
proof -
  from assms(1) obtain s where s: "account_statistics d acc = Inr s" by (auto simp: process_fees_def)
  show ?thesis
  proof (cases "pending_fees s > 0 \<or> pending_vested_fees s > 0")
    case False
    then show ?thesis using assms s by (simp add: process_fees_def conserves_refl)
  next
    case True
    define f where "f = (\<lambda>t. rbind (safe_add S (pending_fees t) (pending_vested_fees t)) (\<lambda>p.
         rbind (safe_add S (lifetime_fees_paid t) p) (\<lambda>l.
         Inr (t\<lparr> lifetime_fees_paid := l, pending_fees := 0, pending_vested_fees := 0 :: int \<rparr> :: account_statistics_object))))"
    from True assms(1) s obtain d1 d2 where d1: "pay_out_fees S acc (pending_fees s) True d = Inr d1"
      and d2: "pay_out_fees S acc (pending_vested_fees s) False d1 = Inr d2" and m: "modify_stats acc f d2 = Inr d'"
      by (auto simp: process_fees_def f_def)
    have ok: "core_asset_ok d" using assms(2) by (simp add: core_asset_ok_def market_wf_def)
    note b1 = pay_out_fees_sink [OF d1 ok]
    have b: "same_books d d2" using b1 pay_out_fees_sink [OF d2] same_books_trans by blast
    have st: "acc_stats d2 ! statistics (accounts d2 ! acc) = s" using s b by (auto simp: account_statistics_def same_books_def)
    have m': "modify_stats acc (\<lambda>t. if t = s then f t else Inl Undefined_behaviour) d2 = Inr d'"
      using m st by (auto simp: modify_stats_def)
    note e1 = pay_out_fees_moves [OF d1 assms(2)]
    note e2 = pay_out_fees_moves [OF d2 moves_wf(1) [OF e1]]
    have "effect (amt_at 0 (- pending_fees s - pending_vested_fees s)) (\<lambda>_. 0) d2 d' \<and> same_orders d2 d' \<and> acc < length (accounts d2)"
      by (rule modify_stats_effect [OF m' moves_wf(1) [OF e2]]) (auto simp: f_def stat_worth_def split: if_splits)
    from moves_trans [OF moves_trans [OF e1 e2] effect_moves [OF conjunct1 [OF this]]] show ?thesis
      unfolding conserves_moves by (rule moves_cong) (simp add: amt_at_def)
  qed
qed

lemma account_upgrade_conserves:
  assumes "account_upgrade_do_apply S op d = Inr d'" "market_wf d"
  shows "conserves d d'"
proof -
  from assms(1) obtain d1 a where p: "process_fees S (ug_account_to_upgrade op) d = Inr d1"
    and d': "d' = d1\<lparr> accounts := (accounts d1)[ug_account_to_upgrade op := a] \<rparr>"
    by (auto simp: account_upgrade_do_apply_def)
  note k = process_fees_moves [OF p assms(2)]
  have "conserves d1 d'" unfolding d' by (rule accounts_hold_nothing [OF conserves_wf [OF k]]) simp
  from conserves_trans [OF k this] show ?thesis .
qed

lemma migrate_conserves:
  assumes "account_balance_migrate_do_apply S op d = Inr d'" "market_wf d" "am_account op < length (accounts d)"
  shows "conserves d d'"
proof -
  let ?b = "get_balance d (am_account op) 0"
  from assms(1) obtain n d1 d2 rs where n: "asset_neg S ?b = Inr n" and a: "adjust_balance S (am_account op) n d = Inr d1"
    and m: "modify_dyn 0 (\<lambda>y. rbind (safe_sub S (current_supply y) (amount ?b)) (\<lambda>s. Inr (y\<lparr> current_supply := s \<rparr>))) d1 = Inr d2"
    and d': "d' = d2\<lparr> migrate_records := rs \<rparr>"
    by (auto simp: account_balance_migrate_do_apply_def Let_def)
  note e1 = adjust_balance_moves [OF a assms(3,2)]
  have "effect (\<lambda>y. amt_at 0 0 y + amt_at 0 0 y) (amt_at 0 (- amount ?b)) d1 d2 \<and> same_orders d1 d2"
    by (rule modify_dyn_effect [OF m moves_wf(1) [OF e1]]) (auto simp: sub_iff)
  note e2 = effect_moves [OF conjunct1 [OF this]]
  have k: "conserves d2 d'" unfolding d' by (rule moves_zero; use moves_wf(1) [OF e2] in \<open>simp add: market_wf_def same_frame_def bal_def get_balance_def fun_eq_iff\<close>)
  from moves_trans [OF moves_trans [OF e1 e2] k [unfolded conserves_moves]] show ?thesis
    unfolding conserves_moves by (rule moves_cong) (use asset_neg_amounts [OF n] in \<open>simp add: amt_at_def get_balance_def split: option.splits\<close>)
qed

end

end
