(* ===== verification/Operations.thy ===== *)
theory Operations
  imports Operation_Effects Market_Properties
begin

text \<open>
  The operations on the ledger as one variant type (\<^verbatim>\<open>protocol/operations.hpp\<close>), with the dispatch of
  \<^verbatim>\<open>operation_validate\<close> and \<^verbatim>\<open>database::apply_operation\<close> to the evaluator of each, and the theorem that no list of
  operations creates or destroys value.  The variant has the operations whose evaluators work on the ledger alone:
  \<^verbatim>\<open>account_create\<close>, which also changes the global properties, has its own definitions in \<open>Account_Evaluator\<close>, and
  \<^verbatim>\<open>limit_order_create\<close> and \<^verbatim>\<open>asset_create\<close>, whose checks start with \<^verbatim>\<open>FC_ASSERT(false)\<close>, theirs in \<open>Market\<close> and
  \<open>Asset_Evaluator\<close>.
\<close>

section \<open>The variant and its dispatch\<close>

record custom_operation =
  cs_fee :: asset
  cs_payer :: nat
  cs_required_auths :: "nat list"
  cs_id :: nat
  cs_data :: string

definition custom_validate :: "custom_operation \<Rightarrow> unit result" where
  "custom_validate op = ensure (amount (cs_fee op) > 0) (Inr ())"

datatype operation =
    Transfer_op transfer_operation
  | Limit_order_cancel_op limit_order_cancel_operation
  | Call_order_update_op call_order_update_operation
  | Account_update_op account_update_operation
  | Account_whitelist_op account_whitelist_operation
  | Account_upgrade_op account_upgrade_operation
  | Asset_update_op asset_update_operation
  | Asset_update_bitasset_op asset_update_bitasset_operation
  | Asset_update_feed_producers_op asset_update_feed_producers_operation
  | Asset_issue_op asset_issue_operation
  | Asset_reserve_op asset_reserve_operation
  | Asset_fund_fee_pool_op asset_fund_fee_pool_operation
  | Asset_settle_op asset_settle_operation
  | Asset_global_settle_op asset_global_settle_operation
  | Asset_publish_feed_op asset_publish_feed_operation
  | Withdraw_permission_create_op withdraw_permission_create_operation
  | Withdraw_permission_update_op withdraw_permission_update_operation
  | Withdraw_permission_claim_op withdraw_permission_claim_operation
  | Withdraw_permission_delete_op withdraw_permission_delete_operation
  | Vesting_balance_create_op vesting_balance_create_operation
  | Vesting_balance_withdraw_op vesting_balance_withdraw_operation
  | Custom_op custom_operation
  | Balance_claim_op balance_claim_operation
  | Override_transfer_op override_transfer_operation
  | Asset_claim_fees_op asset_claim_fees_operation
  | Account_balance_migrate_op account_balance_migrate_operation

fun operation_validate :: "operation \<Rightarrow> unit result" where
  "operation_validate (Transfer_op o1) = transfer_validate o1"
| "operation_validate (Limit_order_cancel_op o1) = limit_order_cancel_validate o1"
| "operation_validate (Call_order_update_op o1) = call_order_update_validate o1"
| "operation_validate (Account_update_op o1) = account_update_validate o1"
| "operation_validate (Account_whitelist_op o1) = account_whitelist_validate o1"
| "operation_validate (Account_upgrade_op o1) = account_upgrade_validate o1"
| "operation_validate (Asset_update_op o1) = asset_update_validate o1"
| "operation_validate (Asset_update_bitasset_op o1) = asset_update_bitasset_validate o1"
| "operation_validate (Asset_update_feed_producers_op o1) = asset_update_feed_producers_validate o1"
| "operation_validate (Asset_issue_op o1) = asset_issue_validate o1"
| "operation_validate (Asset_reserve_op o1) = asset_reserve_validate o1"
| "operation_validate (Asset_fund_fee_pool_op o1) = asset_fund_fee_pool_validate o1"
| "operation_validate (Asset_settle_op o1) = asset_settle_validate o1"
| "operation_validate (Asset_global_settle_op o1) = asset_global_settle_validate o1"
| "operation_validate (Asset_publish_feed_op o1) = asset_publish_feed_validate o1"
| "operation_validate (Withdraw_permission_create_op o1) = wp_create_validate o1"
| "operation_validate (Withdraw_permission_update_op o1) = wp_update_validate o1"
| "operation_validate (Withdraw_permission_claim_op o1) = wp_claim_validate o1"
| "operation_validate (Withdraw_permission_delete_op o1) = wp_delete_validate o1"
| "operation_validate (Vesting_balance_create_op o1) = vesting_create_validate o1"
| "operation_validate (Vesting_balance_withdraw_op o1) = vesting_withdraw_validate o1"
| "operation_validate (Custom_op o1) = custom_validate o1"
| "operation_validate (Balance_claim_op o1) = balance_claim_validate o1"
| "operation_validate (Override_transfer_op o1) = override_transfer_validate o1"
| "operation_validate (Asset_claim_fees_op o1) = asset_claim_fees_validate o1"
| "operation_validate (Account_balance_migrate_op o1) = account_balance_migrate_validate o1"

fun operation_fee :: "operation \<Rightarrow> asset" where
  "operation_fee (Transfer_op o1) = tr_fee o1"
| "operation_fee (Limit_order_cancel_op o1) = lc_fee o1"
| "operation_fee (Call_order_update_op o1) = cu_fee o1"
| "operation_fee (Account_update_op o1) = up_fee o1"
| "operation_fee (Account_whitelist_op o1) = aw_fee o1"
| "operation_fee (Account_upgrade_op o1) = ug_fee o1"
| "operation_fee (Asset_update_op o1) = au_fee o1"
| "operation_fee (Asset_update_bitasset_op o1) = ab_fee o1"
| "operation_fee (Asset_update_feed_producers_op o1) = ap_fee o1"
| "operation_fee (Asset_issue_op o1) = ai_fee o1"
| "operation_fee (Asset_reserve_op o1) = ar_fee o1"
| "operation_fee (Asset_fund_fee_pool_op o1) = af_fee o1"
| "operation_fee (Asset_settle_op o1) = as_fee o1"
| "operation_fee (Asset_global_settle_op o1) = ag_fee o1"
| "operation_fee (Asset_publish_feed_op o1) = pf_fee o1"
| "operation_fee (Withdraw_permission_create_op o1) = wc_fee o1"
| "operation_fee (Withdraw_permission_update_op o1) = wu_fee o1"
| "operation_fee (Withdraw_permission_claim_op o1) = wl_fee o1"
| "operation_fee (Withdraw_permission_delete_op o1) = wd_fee o1"
| "operation_fee (Vesting_balance_create_op o1) = vc_fee o1"
| "operation_fee (Vesting_balance_withdraw_op o1) = vw_fee o1"
| "operation_fee (Custom_op o1) = cs_fee o1"
| "operation_fee (Balance_claim_op o1) = bc_fee o1"
| "operation_fee (Override_transfer_op o1) = ov_fee o1"
| "operation_fee (Asset_claim_fees_op o1) = cf_fee o1"
| "operation_fee (Account_balance_migrate_op o1) = am_fee o1"

fun operation_fee_payer :: "operation \<Rightarrow> nat" where
  "operation_fee_payer (Transfer_op o1) = tr_from o1"
| "operation_fee_payer (Limit_order_cancel_op o1) = lc_fee_paying_account o1"
| "operation_fee_payer (Call_order_update_op o1) = cu_funding_account o1"
| "operation_fee_payer (Account_update_op o1) = up_account o1"
| "operation_fee_payer (Account_whitelist_op o1) = aw_authorizing_account o1"
| "operation_fee_payer (Account_upgrade_op o1) = ug_account_to_upgrade o1"
| "operation_fee_payer (Asset_update_op o1) = au_issuer o1"
| "operation_fee_payer (Asset_update_bitasset_op o1) = ab_issuer o1"
| "operation_fee_payer (Asset_update_feed_producers_op o1) = ap_issuer o1"
| "operation_fee_payer (Asset_issue_op o1) = ai_issuer o1"
| "operation_fee_payer (Asset_reserve_op o1) = ar_payer o1"
| "operation_fee_payer (Asset_fund_fee_pool_op o1) = af_from_account o1"
| "operation_fee_payer (Asset_settle_op o1) = as_account o1"
| "operation_fee_payer (Asset_global_settle_op o1) = ag_issuer o1"
| "operation_fee_payer (Asset_publish_feed_op o1) = pf_publisher o1"
| "operation_fee_payer (Withdraw_permission_create_op o1) = wc_withdraw_from_account o1"
| "operation_fee_payer (Withdraw_permission_update_op o1) = wu_withdraw_from_account o1"
| "operation_fee_payer (Withdraw_permission_claim_op o1) = wl_withdraw_to_account o1"
| "operation_fee_payer (Withdraw_permission_delete_op o1) = wd_withdraw_from_account o1"
| "operation_fee_payer (Vesting_balance_create_op o1) = vc_creator o1"
| "operation_fee_payer (Vesting_balance_withdraw_op o1) = vw_owner o1"
| "operation_fee_payer (Custom_op o1) = cs_payer o1"
| "operation_fee_payer (Balance_claim_op o1) = bc_deposit_to_account o1"
| "operation_fee_payer (Override_transfer_op o1) = ov_issuer o1"
| "operation_fee_payer (Asset_claim_fees_op o1) = cf_issuer o1"
| "operation_fee_payer (Account_balance_migrate_op o1) = am_account o1"

text \<open>What evaluators read besides the ledger: the chain parameters, the hash function of the Ethereum checksum, the
  addresses of a key, and whether signatures are checked.\<close>

record eval_context =
  ec_parameters :: chain_parameters
  ec_keccak :: "string \<Rightarrow> nat list"
  ec_addresses :: "nat \<Rightarrow> nat list"
  ec_skip_signatures :: bool

fun operation_do_evaluate :: "safe_ops \<Rightarrow> eval_context \<Rightarrow> operation \<Rightarrow> chain_db \<Rightarrow> unit result" where
  "operation_do_evaluate S c (Transfer_op o1) = transfer_do_evaluate o1"
| "operation_do_evaluate S c (Limit_order_cancel_op o1) = limit_order_cancel_do_evaluate o1"
| "operation_do_evaluate S c (Call_order_update_op o1) = call_order_update_do_evaluate o1"
| "operation_do_evaluate S c (Account_update_op o1) = account_update_do_evaluate (ec_parameters c) o1"
| "operation_do_evaluate S c (Account_whitelist_op o1) = account_whitelist_do_evaluate (ec_parameters c) o1"
| "operation_do_evaluate S c (Account_upgrade_op o1) = account_upgrade_do_evaluate o1"
| "operation_do_evaluate S c (Asset_update_op o1) = asset_update_do_evaluate (ec_parameters c) o1"
| "operation_do_evaluate S c (Asset_update_bitasset_op o1) = asset_update_bitasset_do_evaluate o1"
| "operation_do_evaluate S c (Asset_update_feed_producers_op o1) = asset_update_feed_producers_do_evaluate (ec_parameters c) o1"
| "operation_do_evaluate S c (Asset_issue_op o1) = asset_issue_do_evaluate S o1"
| "operation_do_evaluate S c (Asset_reserve_op o1) = asset_reserve_do_evaluate S o1"
| "operation_do_evaluate S c (Asset_fund_fee_pool_op o1) = asset_fund_fee_pool_do_evaluate o1"
| "operation_do_evaluate S c (Asset_settle_op o1) = asset_settle_do_evaluate o1"
| "operation_do_evaluate S c (Asset_global_settle_op o1) = asset_global_settle_do_evaluate o1"
| "operation_do_evaluate S c (Asset_publish_feed_op o1) = asset_publish_feeds_do_evaluate o1"
| "operation_do_evaluate S c (Withdraw_permission_create_op o1) = wp_create_do_evaluate (block_interval_of (ec_parameters c)) o1"
| "operation_do_evaluate S c (Withdraw_permission_update_op o1) = wp_update_do_evaluate (block_interval_of (ec_parameters c)) o1"
| "operation_do_evaluate S c (Withdraw_permission_claim_op o1) = wp_claim_do_evaluate S o1"
| "operation_do_evaluate S c (Withdraw_permission_delete_op o1) = wp_delete_do_evaluate o1"
| "operation_do_evaluate S c (Vesting_balance_create_op o1) = vesting_create_do_evaluate o1"
| "operation_do_evaluate S c (Vesting_balance_withdraw_op o1) = vesting_withdraw_do_evaluate S o1"
| "operation_do_evaluate S c (Custom_op o1) = (\<lambda>_. Inr ())"
| "operation_do_evaluate S c (Balance_claim_op o1) = balance_claim_do_evaluate S (ec_addresses c) (ec_skip_signatures c) o1"
| "operation_do_evaluate S c (Override_transfer_op o1) = override_transfer_do_evaluate o1"
| "operation_do_evaluate S c (Asset_claim_fees_op o1) = asset_claim_fees_do_evaluate o1"
| "operation_do_evaluate S c (Account_balance_migrate_op o1) = account_balance_migrate_do_evaluate (ec_keccak c) o1"

definition state_of :: "('a \<times> chain_db) result \<Rightarrow> chain_db result" where
  "state_of r = rbind r (\<lambda>(_, d). Inr d)"

fun operation_do_apply :: "safe_ops \<Rightarrow> operation \<Rightarrow> chain_db \<Rightarrow> chain_db result" where
  "operation_do_apply S (Transfer_op o1) d = transfer_do_apply S o1 d"
| "operation_do_apply S (Limit_order_cancel_op o1) d = state_of (limit_order_cancel_do_apply S o1 d)"
| "operation_do_apply S (Call_order_update_op o1) d = call_order_update_do_apply S o1 d"
| "operation_do_apply S (Account_update_op o1) d = account_update_do_apply o1 d"
| "operation_do_apply S (Account_whitelist_op o1) d = account_whitelist_do_apply o1 d"
| "operation_do_apply S (Account_upgrade_op o1) d = account_upgrade_do_apply S o1 d"
| "operation_do_apply S (Asset_update_op o1) d = asset_update_do_apply S o1 d"
| "operation_do_apply S (Asset_update_bitasset_op o1) d = asset_update_bitasset_do_apply o1 d"
| "operation_do_apply S (Asset_update_feed_producers_op o1) d = asset_update_feed_producers_do_apply S o1 d"
| "operation_do_apply S (Asset_issue_op o1) d = asset_issue_do_apply S o1 d"
| "operation_do_apply S (Asset_reserve_op o1) d = asset_reserve_do_apply S o1 d"
| "operation_do_apply S (Asset_fund_fee_pool_op o1) d = asset_fund_fee_pool_do_apply S o1 d"
| "operation_do_apply S (Asset_settle_op o1) d = state_of (asset_settle_do_apply S o1 d)"
| "operation_do_apply S (Asset_global_settle_op o1) d = asset_global_settle_do_apply S o1 d"
| "operation_do_apply S (Asset_publish_feed_op o1) d = asset_publish_feeds_do_apply S o1 d"
| "operation_do_apply S (Withdraw_permission_create_op o1) d = state_of (wp_create_do_apply o1 d)"
| "operation_do_apply S (Withdraw_permission_update_op o1) d = wp_update_do_apply o1 d"
| "operation_do_apply S (Withdraw_permission_claim_op o1) d = wp_claim_do_apply S o1 d"
| "operation_do_apply S (Withdraw_permission_delete_op o1) d = wp_delete_do_apply o1 d"
| "operation_do_apply S (Vesting_balance_create_op o1) d = vesting_create_do_apply S o1 d"
| "operation_do_apply S (Vesting_balance_withdraw_op o1) d = vesting_withdraw_do_apply S o1 d"
| "operation_do_apply S (Custom_op o1) d = Inr d"
| "operation_do_apply S (Balance_claim_op o1) d = balance_claim_do_apply S o1 d"
| "operation_do_apply S (Override_transfer_op o1) d = override_transfer_do_apply S o1 d"
| "operation_do_apply S (Asset_claim_fees_op o1) d = asset_claim_fees_do_apply S o1 d"
| "operation_do_apply S (Account_balance_migrate_op o1) d = account_balance_migrate_do_apply S o1 d"

text \<open>\<^verbatim>\<open>database::apply_operation\<close>; the fee the schedule asks for the operation is an argument.\<close>

definition apply_operation :: "safe_ops \<Rightarrow> eval_context \<Rightarrow> trx_eval_state \<Rightarrow> (operation \<Rightarrow> share_type) \<Rightarrow> operation \<Rightarrow> chain_db \<Rightarrow> chain_db result" where
  "apply_operation S c ts req op d =
     start_evaluate S ts (req op) (operation_fee_payer op) (operation_fee op) (operation_do_evaluate S c op) (operation_do_apply S op) True d"

section \<open>Every operation meets the contract\<close>

lemma state_of_eq_Inr [simp]: "state_of r = Inr d \<longleftrightarrow> (\<exists>x. r = Inr (x, d))"
  by (auto simp: state_of_def)

lemma operation_act_conserves:
  assumes S: "fc_safe S" and "market_wf d0" and w: "market_wf d" and v: "operation_validate op = Inr ()"
    and ch: "operation_do_evaluate S c op d0 = Inr ()" and f: "fees_only d0 d"
    and p: "operation_fee_payer op < length (accounts d)" and a: "operation_do_apply S op d = Inr d'"
  shows "conserves d d'"
proof (cases op)
  case (Transfer_op x)
  then show ?thesis using S w ch a fees_only_simps [OF f]
    by (auto simp: transfer_do_evaluate_def intro: fc_safe.transfer_conserves)
next
  case (Limit_order_cancel_op x)
  then show ?thesis using S w a by (auto intro: fc_safe.limit_order_cancel_conserves)
next
  case (Call_order_update_op x)
  then show ?thesis using a by (simp add: call_order_update_do_apply_def)
next
  case (Account_update_op x)
  then show ?thesis using S w a by (auto intro: fc_safe.account_update_conserves)
next
  case (Account_whitelist_op x)
  then show ?thesis using S w a by (auto intro: fc_safe.account_whitelist_conserves)
next
  case (Account_upgrade_op x)
  then show ?thesis using S w a by (auto intro: fc_safe.account_upgrade_conserves)
next
  case (Asset_update_op x)
  then show ?thesis using S w a v by (auto intro: fc_safe.asset_update_conserves)
next
  case (Asset_update_bitasset_op x)
  then show ?thesis using S w ch a fees_only_simps(10) [OF f]
    by (auto simp: asset_update_bitasset_do_evaluate_def intro: fc_safe.asset_update_bitasset_conserves)
next
  case (Asset_update_feed_producers_op x)
  then show ?thesis using S w a by (auto intro: fc_safe.asset_update_feed_producers_conserves)
next
  case (Asset_issue_op x)
  then show ?thesis using ch by (simp add: asset_issue_do_evaluate_def)
next
  case (Asset_reserve_op x)
  then show ?thesis using ch by (simp add: asset_reserve_do_evaluate_def)
next
  case (Asset_fund_fee_pool_op x)
  then show ?thesis using S w a p by (auto intro: fc_safe.fund_fee_pool_conserves)
next
  case (Asset_settle_op x)
  then show ?thesis using S w a p by (auto intro: fc_safe.asset_settle_conserves)
next
  case (Asset_global_settle_op x)
  then show ?thesis using S w a by (auto intro: fc_safe.global_settle_conserves)
next
  case (Asset_publish_feed_op x)
  then show ?thesis using S w a by (auto intro: fc_safe.asset_publish_feeds_conserves)
next
  case (Withdraw_permission_create_op x)
  then show ?thesis using S w a p by (auto intro: fc_safe.wp_create_conserves)
next
  case (Withdraw_permission_update_op x)
  then show ?thesis using S w a by (auto intro: fc_safe.wp_update_conserves)
next
  case (Withdraw_permission_claim_op x)
  with ch obtain q where q: "map_of (withdraw_permissions d0) (wl_withdraw_permission x) = Some q"
    "wp_withdraw_from_account q = wl_withdraw_from_account x" by (auto simp: wp_claim_do_evaluate_def)
  have "wl_withdraw_from_account x < length (accounts d)"
    using fc_safe.permission_owner [OF S w] q fees_only_simps(11) [OF f] by metis
  then show ?thesis using Withdraw_permission_claim_op S w a p by (auto intro: fc_safe.wp_claim_conserves)
next
  case (Withdraw_permission_delete_op x)
  then show ?thesis using S w a by (auto intro: fc_safe.wp_delete_conserves)
next
  case (Vesting_balance_create_op x)
  then show ?thesis using S w a p by (auto intro: fc_safe.vesting_create_conserves)
next
  case (Vesting_balance_withdraw_op x)
  then show ?thesis using S w a p by (auto intro: fc_safe.vesting_withdraw_conserves)
next
  case (Custom_op x)
  then show ?thesis using a w by (simp add: conserves_refl)
next
  case (Balance_claim_op x)
  then show ?thesis using S w ch a p fees_only_simps(6) [OF f] by (auto intro: fc_safe.balance_claim_conserves)
next
  case (Override_transfer_op x)
  then show ?thesis using S w ch a fees_only_simps [OF f]
    by (auto simp: override_transfer_do_evaluate_def intro: fc_safe.override_transfer_conserves)
next
  case (Asset_claim_fees_op x)
  then show ?thesis using S w a p by (auto intro: fc_safe.claim_fees_conserves)
next
  case (Account_balance_migrate_op x)
  then show ?thesis using S w a p by (auto intro: fc_safe.migrate_conserves)
qed

interpretation ops: op_evaluator S "operation_validate op" "operation_do_evaluate S c op" "operation_do_apply S op" "operation_fee_payer op"
  for S c op
  by unfold_locales (auto intro: operation_act_conserves)

lemma debit_covered:
  assumes S: "fc_safe S" and r: "adjust_balance S acc a d = Inr d'" and "amount a < 0"
  shows "0 \<le> bal d acc (asset_id a) + amount a"
proof (cases "balances d (acc, asset_id a)")
  case None
  then show ?thesis using r assms(3) by (simp add: adjust_balance_def)
next
  case (Some b)
  with r assms(3) obtain k where k: "asset_neg S a = Inr k" "asset_ge (mk_asset b (asset_id a)) k = Inr True"
    by (auto simp: adjust_balance_def)
  have "amount k \<le> b" using k(2) by (auto simp: asset_ge_def asset_less_def split: if_splits)
  then show ?thesis using fc_safe.asset_neg_amounts [OF S k(1)] Some by (simp add: bal_def get_balance_def)
qed

section \<open>Examples\<close>

definition demo_context :: eval_context where
  "demo_context = \<lparr> ec_parameters = demo_parameters, ec_keccak = (\<lambda>_. []), ec_addresses = (\<lambda>k. [k]), ec_skip_signatures = False \<rparr>"

definition demo_vc :: vesting_balance_create_operation where
  "demo_vc = \<lparr> vc_fee = mk_asset 1 0, vc_creator = 8, vc_owner = 7, vc_amount = mk_asset 3 0, vc_policy = Cdd_vesting_policy_initializer 0 100 \<rparr>"

definition demo_ops :: "operation list" where
  "demo_ops = [Transfer_op demo_transfer, Vesting_balance_create_op demo_vc]"

definition demo_migrate :: account_balance_migrate_operation where
  "demo_migrate = \<lparr> am_fee = mk_asset 1 0, am_account = 7, am_eth_address = [] \<rparr>"

lemma demo_funded_wf: "market_wf demo_funded"
  by (auto simp: market_wf_def settled_ok_def demo_funded_def demo_market_simps int64_def GRAPHENE_MAX_SHARE_SUPPLY_def
    GRAPHENE_100_PERCENT_def less_Suc_eq numeral_2_eq_2 nth_Cons')

lemma demo_ops_run: "\<not> isl (rfold (apply_operation checked_ops demo_context demo_ts (\<lambda>_. 1)) demo_ops demo_funded)"
  by (simp add: demo_ops_def apply_operation_def demo_vc_def vesting_create_do_evaluate_def vesting_create_do_apply_def init_policy_def demo_eval_simps)

section \<open>Properties\<close>

text \<open>C4: Whatever list of valid operations is applied to a well-formed ledger, in one transaction or in many,
  every asset ends with the same difference between all its holdings (balances, orders, positions, settlement requests
  and funds, fee pools, accumulated and pending fees, vesting and claimable balances) and its recorded supply: no operation
  creates or destroys value.  The ledger stays well-formed and no account disappears.\<close>

theorem operations_conserve:
  assumes S: "fc_safe S" and run: "rfold (apply_operation S c ts req) ops d = Inr d'" and w: "market_wf d"
    and v: "list_all (\<lambda>op. operation_validate op = Inr ()) ops" and fee: "\<not> skip_fee ts"
  shows "market_wf d' \<and> length (accounts d') = length (accounts d) \<and> same_frame d d' \<and> (\<forall>x. gross d' x - supply_of d' x = gross d x - supply_of d x)"
  unfolding conserves_def [symmetric] using run w v
proof (induction ops arbitrary: d)
  case (Cons op ops)
  from Cons.prems(1) obtain d1 where d1: "apply_operation S c ts req op d = Inr d1" "rfold (apply_operation S c ts req) ops d1 = Inr d'" by auto
  have "conserves d d1"
    by (rule ops.start_evaluate_conserves [OF S d1(1) [unfolded apply_operation_def] Cons.prems(2)]) (use Cons.prems(3) fee in simp_all)
  then show ?case using Cons.IH [OF d1(2) conserves_wf] Cons.prems(3) conserves_trans by auto
qed (simp add: conserves_refl)

theorem operations_conserve_witness:
  "\<exists>d'. rfold (apply_operation checked_ops demo_context demo_ts (\<lambda>_. 1)) demo_ops demo_funded = Inr d' \<and>
     gross d' 0 - supply_of d' 0 = gross demo_funded 0 - supply_of demo_funded 0"
proof -
  from demo_ops_run obtain d' where r: "rfold (apply_operation checked_ops demo_context demo_ts (\<lambda>_. 1)) demo_ops demo_funded = Inr d'"
    by (metis isl_def sum.exhaust)
  have "list_all (\<lambda>op. operation_validate op = Inr ()) demo_ops"
    by (simp add: demo_ops_def transfer_validate_def demo_transfer_def vesting_create_validate_def demo_vc_def)
  from operations_conserve [OF fc_safe_checked_ops r demo_funded_wf this] r show ?thesis by (simp add: demo_ts_def)
qed

text \<open>A balance migration never goes through with a fee in the core asset: the action takes the account's whole
  core balance, and only then is the fee taken from that same balance.\<close>

theorem migration_fee_unpayable:
  assumes S: "fc_safe S" and fee: "asset_id (am_fee op) = 0" "amount (am_fee op) > 0"
  shows "apply_operation S c ts req (Account_balance_migrate_op op) d \<noteq> Inr d'"
proof
  assume "apply_operation S c ts req (Account_balance_migrate_op op) d = Inr d'"
  then obtain d2 d3 n where a: "account_balance_migrate_do_apply S op d2 = Inr d3"
    and n: "asset_neg S (am_fee op) = Inr n" and d': "adjust_balance S (am_account op) n d3 = Inr d'"
    by (auto simp: apply_operation_def start_evaluate_def apply_op_def)
  from a obtain m d4 where m: "asset_neg S (get_balance d2 (am_account op) 0) = Inr m" and d4: "adjust_balance S (am_account op) m d2 = Inr d4"
    and b: "balances d3 = balances d4"
    by (auto simp: account_balance_migrate_do_apply_def modify_dyn_def Let_def)
  have id: "asset_id (get_balance d2 (am_account op) 0) = 0" by (simp add: get_balance_def split: option.splits)
  have z: "bal d4 (am_account op) 0 = 0" unfolding fc_safe.adjust_balance_effect(1) [OF S d4]
    using fc_safe.asset_neg_amounts [OF S m] id by (simp add: bal_def)
  have "bal d3 (am_account op) 0 = 0" using z bal_cong [OF b] by simp
  then show False using debit_covered [OF S d'] fee fc_safe.asset_neg_amounts [OF S n] by simp
qed

theorem migration_fee_unpayable_witness:
  "amount (am_fee demo_migrate) > 0 \<and> apply_operation checked_ops demo_context demo_ts (\<lambda>_. 1) (Account_balance_migrate_op demo_migrate) demo_funded \<noteq> Inr demo_funded"
  using migration_fee_unpayable [OF fc_safe_checked_ops, of demo_migrate demo_context demo_ts "\<lambda>_. 1" demo_funded demo_funded]
  by (simp add: demo_migrate_def)

end
