(* ===== verification/Expiration.thy ===== *)
theory Expiration
  imports Operations
begin

text \<open>
  What happens to expired objects at the end of every block (the second half of \<^verbatim>\<open>db_update.cpp\<close>): the records of
  recent transactions, limit orders, forced settlements and price feeds.
\<close>

section \<open>Records of recent transactions\<close>

text \<open>A record is the transaction's identifier and expiration; the \<^verbatim>\<open>by_expiration\<close> index keeps the order of insertion
  among equal times.  The loop takes the last of that index, which is the one that expires latest.\<close>

type_synonym transaction_record = "nat \<times> nat"

definition record_before :: "transaction_record \<Rightarrow> transaction_record \<Rightarrow> bool" where
  "record_before a b \<longleftrightarrow> snd a < snd b"

function clear_transactions :: "nat \<Rightarrow> transaction_record list \<Rightarrow> transaction_record list" where
  "clear_transactions now txs =
     (if txs \<noteq> [] \<and> snd (last (sort_by record_before txs)) < now
      then clear_transactions now (remove_order (fst (last (sort_by record_before txs))) txs) else txs)"
  by pat_completeness auto

lemma last_sort_by_mem: "xs \<noteq> [] \<Longrightarrow> last (sort_by lt xs) \<in> set xs"
  using set_sort_by [of lt xs] last_in_set [of "sort_by lt xs"] length_sort_by [of lt xs] by fastforce

termination clear_transactions
  by (relation "measure (\<lambda>(now, txs). length txs)") (auto intro: remove_order_shorter last_sort_by_mem)

declare clear_transactions.simps [simp del]

section \<open>Limit orders\<close>

definition limit_expires_before :: "nat \<times> limit_order_object \<Rightarrow> nat \<times> limit_order_object \<Rightarrow> bool" where
  "limit_expires_before a b \<longleftrightarrow> expiration (snd a) < expiration (snd b) \<or> (expiration (snd a) = expiration (snd b) \<and> fst a < fst b)"

definition first_expiring :: "chain_db \<Rightarrow> (nat \<times> limit_order_object) option" where
  "first_expiring d = (case sort_by limit_expires_before (limit_orders d) of [] \<Rightarrow> None | p # _ \<Rightarrow> Some p)"

text \<open>The chain cancels an order by the operation its owner would use, with the fee of the schedule, at most the deferred fee.\<close>

definition canceler :: "asset \<Rightarrow> nat \<times> limit_order_object \<Rightarrow> limit_order_cancel_operation" where
  "canceler fee p = \<lparr> lc_fee = (if amount fee > deferred_fee (snd p) then mk_asset (deferred_fee (snd p)) 0 else fee),
     lc_order = fst p, lc_fee_paying_account = seller (snd p) \<rparr>"

definition cancel_state :: trx_eval_state where
  "cancel_state = \<lparr> skip_fee = False, skip_fee_schedule_check = True \<rparr>"

definition auto_cancel :: "safe_ops \<Rightarrow> eval_context \<Rightarrow> asset \<Rightarrow> nat \<times> limit_order_object \<Rightarrow> chain_db \<Rightarrow> chain_db result" where
  "auto_cancel S c fee p d = apply_operation S c cancel_state (\<lambda>_. 0) (Limit_order_cancel_op (canceler fee p)) d"

partial_function (option) clear_limit_orders :: "safe_ops \<Rightarrow> eval_context \<Rightarrow> asset \<Rightarrow> chain_db \<Rightarrow> chain_db result option" where
  "clear_limit_orders S c fee d =
     (case first_expiring d of None \<Rightarrow> Some (Inr d)
      | Some p \<Rightarrow>
          if expiration (snd p) \<le> head_block_time d then
            (case auto_cancel S c fee p d of Inl e \<Rightarrow> Some (Inl e) | Inr d1 \<Rightarrow> clear_limit_orders S c fee d1)
          else Some (Inr d))"

section \<open>Forced settlements\<close>

text \<open>The least collateralised position of an asset, and what one settlement takes from it.\<close>

definition first_call :: "chain_db \<Rightarrow> nat \<Rightarrow> nat result" where
  "first_call d mia =
     rbind (bitasset_of d mia) (\<lambda>b.
     rbind (price_min (short_backing_asset (ba_options b)) mia) (\<lambda>lo.
     case sort_by collateral_before (filter (\<lambda>p. \<not> price_less (mk_price (get_collateral (snd p)) (get_debt (snd p))) lo) (call_orders d)) of
       [] \<Rightarrow> Inl Undefined_behaviour | (ci, _) # _ \<Rightarrow> Inr ci))"

text \<open>One turn of the inner loop, which may match or leave the loop.\<close>

datatype match_outcome = Matched asset chain_db | Broke chain_db

definition match_turn :: "safe_ops \<Rightarrow> nat \<Rightarrow> price \<Rightarrow> asset \<Rightarrow> nat \<Rightarrow> asset \<Rightarrow> chain_db \<Rightarrow> match_outcome result" where
  "match_turn S oid sp max_volume mia settled d =
     rbind (first_call d mia) (\<lambda>ci.
     rbind (asset_minus S max_volume settled) (\<lambda>max_settlement.
     rbind (get_order (settlements d) oid) (\<lambda>order.
     if amount (fs_balance order) = 0 then rbind (cancel_settlement S oid True d) (\<lambda>d1. Inr (Broke d1))
     else (case match_settle S ci oid sp max_settlement d of
             Inl e \<Rightarrow> if e = Black_swan_exception then rbind (cancel_settlement S oid True d) (\<lambda>d1. Inr (Broke d1)) else Inl e
           | Inr (r, d1) \<Rightarrow> rbind (asset_plus S settled r) (\<lambda>settled1. Inr (Matched settled1 d1))))))"

partial_function (option) settle_matches :: "safe_ops \<Rightarrow> nat \<Rightarrow> price \<Rightarrow> asset \<Rightarrow> nat \<Rightarrow> asset \<Rightarrow> chain_db \<Rightarrow> (asset \<times> chain_db) result option" where
  "settle_matches S oid sp max_volume mia settled d =
     (case asset_less settled max_volume of Inl e \<Rightarrow> Some (Inl e)
      | Inr below \<Rightarrow>
          if below \<and> map_of (settlements d) oid \<noteq> None then
            (case match_turn S oid sp max_volume mia settled d of Inl e \<Rightarrow> Some (Inl e)
             | Inr (Broke d1) \<Rightarrow> Some (Inr (settled, d1))
             | Inr (Matched settled1 d1) \<Rightarrow> settle_matches S oid sp max_volume mia settled1 d1)
          else Some (Inr (settled, d)))"

text \<open>The \<^verbatim>\<open>by_expiration\<close> index orders settlements by asset, date and identifier; \<open>first_settlement\<close> is its
  \<^verbatim>\<open>lower_bound\<close> of an asset and \<open>next_settlement_asset\<close> the asset at its \<^verbatim>\<open>upper_bound\<close>.\<close>

definition settle_index_before :: "nat \<times> force_settlement_object \<Rightarrow> nat \<times> force_settlement_object \<Rightarrow> bool" where
  "settle_index_before a b \<longleftrightarrow> asset_id (fs_balance (snd a)) < asset_id (fs_balance (snd b)) \<or>
     (asset_id (fs_balance (snd a)) = asset_id (fs_balance (snd b)) \<and> settle_before a b)"

definition first_settlement :: "chain_db \<Rightarrow> nat \<Rightarrow> (nat \<times> force_settlement_object) option" where
  "first_settlement d cur =
     (case sort_by settle_index_before (filter (\<lambda>p. cur \<le> asset_id (fs_balance (snd p))) (settlements d)) of [] \<Rightarrow> None | p # _ \<Rightarrow> Some p)"

definition next_settlement_asset :: "chain_db \<Rightarrow> nat \<Rightarrow> nat option" where
  "next_settlement_asset d cur = (case first_settlement d (Suc cur) of None \<Rightarrow> None | Some p \<Rightarrow> Some (asset_id (fs_balance (snd p))))"

definition settlement_terms :: "asset_bitasset_data_object \<Rightarrow> force_settlement_object \<Rightarrow> price result" where
  "settlement_terms b order =
     rbind (asset_times_price (fs_balance order) (settlement_price (current_feed b))) (\<lambda>receives.
     rbind (to_uint64 (u128 (u128 (amount receives) * (GRAPHENE_100_PERCENT - int (force_settlement_offset_percent (ba_options b)))) div GRAPHENE_100_PERCENT)) (\<lambda>r.
     asset_div (fs_balance order) (mk_asset (to_int64 r) (asset_id receives))))"

text \<open>What an iteration of the outer loop does with the order at hand.\<close>

datatype settlement_step = Cancel_it | Next_asset asset | Settle_it asset price

definition settlement_decision :: "safe_ops \<Rightarrow> asset \<Rightarrow> force_settlement_object \<Rightarrow> chain_db \<Rightarrow> settlement_step result" where
  "settlement_decision S max_volume order d =
     (let mia = asset_id (fs_balance order) in
      rbind (bitasset_of d mia) (\<lambda>b.
      if has_settlement b then Inr Cancel_it
      else if settlement_date order > head_block_time d then Inr (Next_asset max_volume)
      else if price_is_null (settlement_price (current_feed b)) then Inr Cancel_it
      else
        rbind (if asset_id max_volume \<noteq> mia
               then rbind (get_obj (assets d) mia) (\<lambda>a. rbind (get_obj (dyn_data d) (dynamic_asset_data_id a)) (\<lambda>dyn.
                 rbind (max_force_settlement_volume S b (current_supply dyn)) (\<lambda>v. Inr (mk_asset v mia))))
               else Inr max_volume) (\<lambda>mv.
        if force_settled_volume b \<ge> amount mv then Inr (Next_asset mv)
        else rbind (settlement_terms b order) (\<lambda>sp. Inr (Settle_it mv sp)))))"

definition record_settled :: "nat \<Rightarrow> asset \<Rightarrow> chain_db \<Rightarrow> chain_db result" where
  "record_settled mia settled d = modify_bitasset mia (\<lambda>b. Inr (b\<lparr> force_settled_volume := amount settled \<rparr>)) d"

partial_function (option) settle_loop :: "safe_ops \<Rightarrow> nat \<Rightarrow> asset \<Rightarrow> chain_db \<Rightarrow> chain_db result option" where
  "settle_loop S cur max_volume d =
     (case first_settlement d cur of None \<Rightarrow> Some (Inr d)
      | Some (oid, order) \<Rightarrow>
          (case settlement_decision S max_volume order d of Inl e \<Rightarrow> Some (Inl e)
           | Inr Cancel_it \<Rightarrow>
               (case cancel_settlement S oid True d of Inl e \<Rightarrow> Some (Inl e)
                | Inr d1 \<Rightarrow> settle_loop S (asset_id (fs_balance order)) max_volume d1)
           | Inr (Next_asset mv) \<Rightarrow>
               (case next_settlement_asset d (asset_id (fs_balance order)) of None \<Rightarrow> Some (Inr d)
                | Some nxt \<Rightarrow> settle_loop S nxt mv d)
           | Inr (Settle_it mv sp) \<Rightarrow>
               (case bitasset_of d (asset_id (fs_balance order)) of Inl e \<Rightarrow> Some (Inl e)
                | Inr b \<Rightarrow>
                    (case settle_matches S oid sp mv (asset_id (fs_balance order)) (mk_asset (force_settled_volume b) (asset_id (fs_balance order))) d of
                       None \<Rightarrow> None
                     | Some (Inl e) \<Rightarrow> Some (Inl e)
                     | Some (Inr (settled, d1)) \<Rightarrow>
                         (case record_settled (asset_id (fs_balance order)) settled d1 of Inl e \<Rightarrow> Some (Inl e)
                          | Inr d2 \<Rightarrow> settle_loop S (asset_id (fs_balance order)) mv d2)))))"

definition clear_expired_orders :: "safe_ops \<Rightarrow> eval_context \<Rightarrow> asset \<Rightarrow> chain_db \<Rightarrow> chain_db result option" where
  "clear_expired_orders S c fee d =
     (case clear_limit_orders S c fee d of None \<Rightarrow> None | Some (Inl e) \<Rightarrow> Some (Inl e)
      | Some (Inr d1) \<Rightarrow>
          (case first_settlement d1 0 of None \<Rightarrow> Some (Inr d1)
           | Some p \<Rightarrow> settle_loop S (asset_id (fs_balance (snd p))) (mk_asset 0 0) d1))"

section \<open>Price feeds\<close>

definition refresh_feed :: "safe_ops \<Rightarrow> nat \<Rightarrow> chain_db \<Rightarrow> chain_db result" where
  "refresh_feed S i d =
     rbind (modify_bitasset i (update_median_feeds (head_block_time d)) d) (\<lambda>d1.
     rbind (bitasset_of d1 i) (\<lambda>b.
     rbind (check_call_orders S (asset_id (base (settlement_price (current_feed b)))) True d1) (\<lambda>(_, d2). Inr d2)))"

definition copy_core_rate :: "nat \<Rightarrow> price \<Rightarrow> chain_db \<Rightarrow> chain_db result" where
  "copy_core_rate i r d =
     rbind (get_obj (assets d) i) (\<lambda>a.
     if \<not> price_is_null r \<and> \<not> price_eq (ao_core_exchange_rate (options a)) r
     then Inr (d\<lparr> assets := (assets d)[i := a\<lparr> options := (options a)\<lparr> ao_core_exchange_rate := r \<rparr> \<rparr>] \<rparr>)
     else Inr d)"

definition expire_feed :: "safe_ops \<Rightarrow> nat \<Rightarrow> chain_db \<Rightarrow> chain_db result" where
  "expire_feed S i d =
     rbind (bitasset_of d i) (\<lambda>b.
     rbind (if feed_is_expired (head_block_time d) b then refresh_feed S i d else Inr d) (\<lambda>d1.
     rbind (bitasset_of d1 i) (\<lambda>b1. copy_core_rate i (core_exchange_rate (current_feed b1)) d1)))"

definition update_expired_feeds :: "safe_ops \<Rightarrow> chain_db \<Rightarrow> chain_db result" where
  "update_expired_feeds S d = rfold (expire_feed S) (filter (\<lambda>i. is_market_issued (assets d ! i)) [0..<length (assets d)]) d"

section \<open>Lemmas\<close>

subsection \<open>Transaction records\<close>

lemma sorted_insert_record: "sorted (map snd ys) \<Longrightarrow> sorted (map snd (insert_by record_before x ys))"
  by (induction ys) (auto simp: record_before_def set_insert_by)

lemma sorted_sort_record: "sorted (map snd (sort_by record_before xs))"
proof -
  have "sorted (map snd ys) \<Longrightarrow> sorted (map snd (fold (insert_by record_before) xs ys))" for ys
    by (induction xs arbitrary: ys) (auto intro: sorted_insert_record)
  then show ?thesis by (simp add: sort_by_def)
qed

lemma last_record_latest:
  assumes "t \<in> set txs"
  shows "snd t \<le> snd (last (sort_by record_before txs))"
proof -
  let ?s = "sort_by record_before txs"
  have "t \<in> set ?s" using assms by (simp add: set_sort_by)
  then obtain i where i: "i < length ?s" "?s ! i = t" by (metis in_set_conv_nth)
  have "map snd ?s ! i \<le> map snd ?s ! (length ?s - 1)" by (rule sorted_nth_mono [OF sorted_sort_record]) (use i in auto)
  moreover have "?s \<noteq> []" using i(1) by (metis less_nat_zero_code list.size(3))
  ultimately show ?thesis using i by (simp add: last_conv_nth)
qed

lemma clear_transactions_all_or_nothing:
  "distinct (map fst txs) \<Longrightarrow> clear_transactions now txs = (if \<exists>t\<in>set txs. now \<le> snd t then txs else [])"
proof (induction "length txs" arbitrary: txs rule: less_induct)
  case less
  let ?l = "last (sort_by record_before txs)"
  show ?case
  proof (cases "txs \<noteq> [] \<and> snd ?l < now")
    case False
    have "?l \<in> set txs" if "txs \<noteq> []" using that by (rule last_sort_by_mem)
    then show ?thesis using False by (subst clear_transactions.simps) (auto simp: not_less)
  next
    case True
    then have l: "?l \<in> set txs" and e: "\<not> (\<exists>t\<in>set txs. now \<le> snd t)"
      using last_sort_by_mem last_record_latest [of _ txs] by (blast, meson leD le_trans)
    have "clear_transactions now txs = clear_transactions now (remove_order (fst ?l) txs)"
      using True by (subst clear_transactions.simps) simp
    also have "\<dots> = (if \<exists>t\<in>set (remove_order (fst ?l) txs). now \<le> snd t then remove_order (fst ?l) txs else [])"
      by (rule less.hyps [OF remove_order_shorter [OF l] remove_order_distinct [OF less.prems]])
    finally show ?thesis using e remove_order_subset [of "fst ?l" txs] by auto
  qed
qed

subsection \<open>The orders only get fewer\<close>

definition limit_ids :: "chain_db \<Rightarrow> nat set" where
  "limit_ids d = fst ` set (limit_orders d)"

definition shrinks :: "chain_db \<Rightarrow> chain_db \<Rightarrow> bool" where
  "shrinks d d' \<longleftrightarrow> market_wf d' \<and> limit_ids d' \<subseteq> limit_ids d \<and> settlements d' = settlements d"

lemma shrinks_trans: "shrinks d d1 \<Longrightarrow> shrinks d1 d2 \<Longrightarrow> shrinks d d2"
  by (auto simp: shrinks_def)

lemma shrinks_refl: "market_wf d \<Longrightarrow> shrinks d d"
  by (simp add: shrinks_def)

lemma shrinks_wf: "shrinks d d' \<Longrightarrow> market_wf d'"
  by (simp add: shrinks_def)

lemma limit_ids_dom: "limit_ids d = dom (map_of (limit_orders d))"
  by (simp add: limit_ids_def dom_map_of_conv_image_fst)

lemma call_step_shrinks: "call_step g s d d' \<Longrightarrow> shrinks d d'"
  by (auto simp: call_step_def shrinks_def limit_ids_def dest: effectD)

lemma limit_step_shrinks: "limit_step g i d d' \<Longrightarrow> map_of (limit_orders d) i = Some v \<Longrightarrow> shrinks d d'"
  unfolding limit_step_def shrinks_def limit_ids_dom by (auto dest: effectD)

context fc_safe
begin

lemma settle_calls_shrinks:
  "settle_calls S sp is g d = Inr (g', d') \<Longrightarrow> market_wf d \<Longrightarrow> shrinks d d'"
proof (induction "is" arbitrary: g d)
  case (Cons i "is")
  from Cons.prems(1) obtain pays call b d1 g1 where f: "fill_call_order S i pays (get_debt (call :: call_order_object)) d = Inr (b, d1)"
    and r: "settle_calls S sp is g1 d1 = Inr (g', d')" by (auto simp: Let_def)
  have s: "shrinks d d1" using conjunct1 [OF fill_call_order_step [OF f Cons.prems(2)]] by (rule call_step_shrinks)
  then show ?case using Cons.IH [OF r shrinks_wf] shrinks_trans by blast
qed (simp add: shrinks_refl)

lemma globally_settle_shrinks:
  assumes "globally_settle_asset S mia sp d = Inr d'" "market_wf d"
  shows "shrinks d d'"
proof -
  from assms(1) obtain xs g0 g d1 where c: "settle_calls S sp xs g0 d = Inr (g, d1)"
    and l: "limit_orders d' = limit_orders d1" "settlements d' = settlements d1"
    by (auto simp: globally_settle_asset_def modify_bitasset_def modify_dyn_def)
  have "market_wf d'" using globally_settle_effect [OF assms] by (rule effectD)
  then show ?thesis using settle_calls_shrinks [OF c assms(2)] l by (simp add: shrinks_def limit_ids_def)
qed

lemma blackswan_shrinks:
  assumes "check_for_blackswan S mia e d = Inr (b, d')" "market_wf d"
  shows "shrinks d d'"
proof -
  have "d' = d \<or> (\<exists>p. globally_settle_asset S mia p d = Inr d')"
    using assms(1) unfolding check_for_blackswan_def Let_def
    by (auto simp del: rbind_eq_Inr elim!: rbindE split: if_splits list.splits)
  then show ?thesis using globally_settle_shrinks [OF _ assms(2)] shrinks_refl [OF assms(2)] by auto
qed

lemma margin_loop_shrinks:
  "margin_loop S mia e calls limits fl mc d = Inr (b, d') \<Longrightarrow> market_wf d \<Longrightarrow> shrinks d d'"
proof (induction "length calls + length limits" arbitrary: calls limits fl mc d rule: less_induct)
  case less
  from less.prems(1) obtain swan d0 where bs: "check_for_blackswan S mia e d = Inr (swan, d0)"
    by (subst (asm) margin_loop.simps) auto
  note c0 = blackswan_shrinks [OF bs less.prems(2)]
  note w0 = shrinks_wf [OF c0]
  from margin_loop_cases [OF less.prems(1) bs] have "shrinks d0 d'"
  proof cases
    case stop
    then show ?thesis using shrinks_refl [OF w0] by simp
  next
    case (settle p)
    then show ?thesis using globally_settle_shrinks [OF _ w0] by simp
  next
    case (fill li lo buy p usd coll fl1 fc ci b1 d1 b2 d2 cs ls)
    note lo = fill(3) and m = fill(4) and or = fill(5) and f1 = fill(6) and f2 = fill(7) and r = fill(8)
    note e1 = conjunct1 [OF fill_call_order_step [OF f1 w0]]
    have l1: "map_of (limit_orders d1) li = Some lo" using e1 lo by (simp add: call_step_def)
    have e2: "shrinks d1 d2" using conjunct1 [OF fill_limit_order_step [OF f2 call_step_wf [OF e1] l1]] margin_amounts_le [OF m] l1
      by (auto simp: amount_for_sale_def intro: limit_step_shrinks)
    have "shrinks d2 d'" by (rule less.hyps [OF _ r shrinks_wf [OF e2]]) (use or fill(1,2) in auto)
    then show ?thesis using shrinks_trans [OF call_step_shrinks [OF e1] e2] shrinks_trans by blast
  qed
  then show ?case by (rule shrinks_trans [OF c0])
qed

lemma check_call_orders_shrinks:
  assumes "check_call_orders S mia e d = Inr (b, d')" "market_wf d"
  shows "shrinks d d'"
proof (cases "d' = d")
  case False
  with assms(1) obtain swan d0 where bs: "check_for_blackswan S mia e d = Inr (swan, d0)"
    and r: "d' = d0 \<or> (\<exists>calls limits. margin_loop S mia e calls limits False False d0 = Inr (b, d'))"
    unfolding check_call_orders_def Let_def by (auto split: if_splits)
  note c0 = blackswan_shrinks [OF bs assms(2)]
  with r show ?thesis using margin_loop_shrinks [OF _ shrinks_wf [OF c0]] shrinks_trans [OF c0] by auto
qed (use assms shrinks_refl in simp)

lemma auto_cancel_ok:
  assumes "auto_cancel S c fee p d = Inr d'" "market_wf d" "0 \<le> amount fee" "0 \<le> deferred_fee (snd p)"
  shows "conserves d d'" "settlements d' = settlements d" "limit_ids d' \<subseteq> limit_ids d - {fst p}" "fst p \<in> limit_ids d"
proof -
  let ?op = "canceler fee p"
  have fee: "0 \<le> amount (lc_fee ?op)" using assms(3,4) by (simp add: canceler_def)
  note run = assms(1) [unfolded auto_cancel_def apply_operation_def]
  show "conserves d d'"
    by (rule ops.start_evaluate_conserves [OF fc_safe_axioms run assms(2)]) (use fee in \<open>simp_all add: limit_order_cancel_validate_def cancel_state_def\<close>)
  from run obtain core d1 d2 r d3 n where pf: "prepare_fee (lc_fee_paying_account ?op) (lc_fee ?op) d = Inr core"
    and c1: "convert_fee S cancel_state (lc_fee ?op) core d = Inr d1" and c2: "pay_fee S cancel_state (lc_fee_paying_account ?op) core d1 = Inr d2"
    and a: "limit_order_cancel_do_apply S ?op d2 = Inr (r, d3)" and d': "adjust_balance S (lc_fee_paying_account ?op) n d3 = Inr d'"
    by (auto simp: start_evaluate_def evaluate_def apply_op_def)
  have sf: "\<not> skip_fee cancel_state" by (simp add: cancel_state_def)
  note f = fee_path [OF pf c1 c2 assms(2) sf]
  have l2: "limit_orders d2 = limit_orders d" "settlements d2 = settlements d" using fees_only_simps [OF f(2)] by simp_all
  from a obtain o1 d4 b1 d5 b2 where o1: "map_of (limit_orders d2) (fst p) = Some o1" and c: "cancel_limit_order S (fst p) False d2 = Inr d4"
    and k1: "check_call_orders S (asset_id (base (sell_price o1))) True d4 = Inr (b1, d5)"
    and k2: "check_call_orders S (asset_id (quote (sell_price o1))) True d5 = Inr (b2, d3)"
    by (auto simp: limit_order_cancel_do_apply_def canceler_def)
  note e = cancel_limit_order_effect [OF c moves_wf(1) [OF f(1)]]
  have w4: "market_wf d4" using e by (auto dest: effectD)
  have "map_of (limit_orders d4) = (map_of (limit_orders d))(fst p := None)" using e l2 by (auto simp: fun_eq_iff)
  then have i4: "limit_ids d4 = limit_ids d - {fst p}" "settlements d4 = settlements d" using e l2 by (auto simp: limit_ids_dom split: if_splits)
  note s1 = check_call_orders_shrinks [OF k1 w4]
  note s2 = shrinks_trans [OF s1 check_call_orders_shrinks [OF k2 shrinks_wf [OF s1]]]
  have "limit_orders d' = limit_orders d3" "settlements d' = settlements d3" using adjust_balance_effect(2) [OF d'] by auto
  then show "settlements d' = settlements d" "limit_ids d' \<subseteq> limit_ids d - {fst p}" using s2 i4 by (auto simp: shrinks_def limit_ids_def)
  show "fst p \<in> limit_ids d" using o1 l2 by (auto simp: limit_ids_dom)
qed

end

lemma first_expiring_mem: "first_expiring d = Some p \<Longrightarrow> p \<in> set (limit_orders d)"
  by (auto simp: first_expiring_def split: list.splits dest: sort_by_Cons_mem)

lemma first_expiring_deferred: "first_expiring d = Some p \<Longrightarrow> market_wf d \<Longrightarrow> 0 \<le> deferred_fee (snd p)"
  using first_expiring_mem by (auto simp: market_wf_def)

lemma first_expiring_first:
  assumes "q \<in> set (limit_orders d)"
  shows "\<exists>p. first_expiring d = Some p \<and> expiration (snd p) \<le> expiration (snd q)"
proof (cases "sort_by limit_expires_before (limit_orders d)")
  case Nil
  then show ?thesis using assms set_sort_by [of limit_expires_before "limit_orders d"] by simp
next
  case (Cons p ps)
  have trans_ok: "limit_expires_before x y \<Longrightarrow> limit_expires_before y z \<Longrightarrow> limit_expires_before x z" for x y z
    by (auto simp: limit_expires_before_def)
  have "\<not> limit_expires_before q p" using sort_by_hd [OF trans_ok _ Cons] assms by (auto simp: limit_expires_before_def)
  then show ?thesis using Cons by (auto simp: first_expiring_def limit_expires_before_def)
qed

context fc_safe
begin

lemma clear_limit_orders_returns:
  "market_wf d \<Longrightarrow> 0 \<le> amount fee \<Longrightarrow>
     \<exists>r. clear_limit_orders S c fee d = Some r \<and>
       (\<forall>d'. r = Inr d' \<longrightarrow> conserves d d' \<and> (\<forall>q\<in>set (limit_orders d'). head_block_time d' < expiration (snd q)))"
proof (induction "card (limit_ids d)" arbitrary: d rule: less_induct)
  case less
  show ?case
  proof (cases "\<exists>p d1. first_expiring d = Some p \<and> expiration (snd p) \<le> head_block_time d \<and> auto_cancel S c fee p d = Inr d1")
    case False
    have "head_block_time d < expiration (snd q)" if "q \<in> set (limit_orders d)"
      "\<And>p. first_expiring d = Some p \<Longrightarrow> head_block_time d < expiration (snd p)" for q
      using first_expiring_first [OF that(1)] that(2) by (meson less_le_trans)
    then show ?thesis using less.prems False
      by (subst clear_limit_orders.simps) (auto split: option.splits sum.splits simp: conserves_refl not_le)
  next
    case True
    then obtain p d1 where p: "first_expiring d = Some p" "expiration (snd p) \<le> head_block_time d" "auto_cancel S c fee p d = Inr d1" by blast
    note k = auto_cancel_ok [OF p(3) less.prems first_expiring_deferred [OF p(1) less.prems(1)]]
    have "limit_ids d1 \<subset> limit_ids d" using k(3,4) by blast
    then have "card (limit_ids d1) < card (limit_ids d)" by (rule psubset_card_mono [rotated]) (simp add: limit_ids_def)
    from less.hyps [OF this conserves_wf [OF k(1)] less.prems(2)] show ?thesis using p conserves_trans [OF k(1)]
      by (subst clear_limit_orders.simps) auto
  qed
qed

end

subsection \<open>Settlements\<close>

text \<open>The assets of the settlement requests, which only a removal changes.\<close>

definition settle_assets :: "chain_db \<Rightarrow> nat list" where
  "settle_assets d = map (\<lambda>p. asset_id (fs_balance (snd p))) (settlements d)"

definition settles :: "nat \<Rightarrow> chain_db \<Rightarrow> chain_db \<Rightarrow> bool" where
  "settles oid d d' \<longleftrightarrow> conserves d d' \<and> bitassets d' = bitassets d \<and> assets d' = assets d \<and>
     (length (settlements d') < length (settlements d) \<or> map_of (settlements d') oid \<noteq> None \<and> settle_assets d' = settle_assets d)"

lemma map_update_same: "map_of xs i = Some v \<Longrightarrow> f (i, w) = f (i, v) \<Longrightarrow> map f (AList.update i w xs) = map f xs"
  by (induction xs) (auto split: if_splits)

lemma remove_settlement_shorter: "map_of (settlements d) i = Some v \<Longrightarrow> length (remove_order i (settlements d)) < length (settlements d)"
  using remove_order_shorter [of "(i, v)" "settlements d"] by (auto dest: map_of_SomeD)

lemma pay_market_fees_only: "pay_market_fees S x r d = Inr (f, d1) \<Longrightarrow> \<exists>ds. d1 = d\<lparr> dyn_data := ds \<rparr>"
  by (auto simp: pay_market_fees_def modify_dyn_def split: if_splits intro: exI [of _ "dyn_data d"])

lemma settle_assets_length: "settle_assets d' = settle_assets d \<Longrightarrow> length (settlements d') = length (settlements d)"
  unfolding settle_assets_def by (rule map_eq_imp_length_eq)

lemma settles_trans:
  assumes "settles i d d1" "settles i d1 d2"
  shows "settles i d d2"
proof -
  have "conserves d d2" using assms conserves_trans unfolding settles_def by blast
  moreover have "length (settlements d2) < length (settlements d) \<or> map_of (settlements d2) i \<noteq> None \<and> settle_assets d2 = settle_assets d"
    using assms settle_assets_length [of d1 d] settle_assets_length [of d2 d1] unfolding settles_def by (elim conjE disjE) simp_all
  ultimately show ?thesis using assms by (simp add: settles_def)
qed

lemma settles_gone: "settles i d d1 \<Longrightarrow> map_of (settlements d1) i = None \<Longrightarrow> length (settlements d1) < length (settlements d)"
  by (auto simp: settles_def)

lemma settles_wf: "settles i d d1 \<Longrightarrow> market_wf d1"
  by (auto simp: settles_def dest: conserves_wf)

context fc_safe
begin

lemma fill_settlement_cases:
  assumes "fill_settlement S i pays receives d = Inr (b, d')" "map_of (settlements d) i = Some v"
  obtains (partial) x where "asset_id x = asset_id (fs_balance v)" "bitassets d' = bitassets d" "assets d' = assets d"
      "settlements d' = AList.update i (v\<lparr> fs_balance := x \<rparr>) (settlements d)"
    | (filled) "bitassets d' = bitassets d" "assets d' = assets d" "settlements d' = remove_order i (settlements d)"
proof -
  from assms obtain fees d1 part where f: "pay_market_fees S (asset_id receives) receives d = Inr (fees, d1)"
    and l: "asset_less pays (fs_balance v) = Inr part" by (auto simp: fill_settlement_def)
  have g: "get_order (settlements d) i = Inr v" using assms(2) by simp
  let ?upd = "if part then rbind (asset_minus S (fs_balance v) pays)
      (\<lambda>b. Inr (d1\<lparr> settlements := AList.update i (v\<lparr> fs_balance := b \<rparr>) (settlements d1) \<rparr>)) else Inr d1"
  let ?op = "push_applied_operation (Fill_order_operation (Settle_ref i) (fs_owner v) pays receives fees)"
  have "rbind ?upd (\<lambda>d2. rbind (asset_minus S receives fees) (\<lambda>net. rbind (adjust_balance S (fs_owner v) net d2) (\<lambda>d3.
      Inr (\<not> part, if part then ?op d3 else (?op d3)\<lparr> settlements := remove_order i (settlements (?op d3)) \<rparr>)))) = Inr (b, d')"
    using assms(1) by (simp only: fill_settlement_def g f l rbind_Inr prod.case Let_def)
  then obtain d2 net d3 where u: "?upd = Inr d2" and a: "adjust_balance S (fs_owner v) net d2 = Inr d3"
    and d': "d' = (if part then ?op d3 else (?op d3)\<lparr> settlements := remove_order i (settlements (?op d3)) \<rparr>)"
    unfolding rbind_eq_Inr by (auto split del: if_split)
  obtain ds where d1: "d1 = d\<lparr> dyn_data := ds \<rparr>" using pay_market_fees_only [OF f] by blast
  obtain bs where d3: "d3 = d2\<lparr> balances := bs \<rparr>" using adjust_balance_effect(2) [OF a] by blast
  show thesis
  proof (cases part)
    case True
    then obtain x where x: "asset_minus S (fs_balance v) pays = Inr x" "d2 = d1\<lparr> settlements := AList.update i (v\<lparr> fs_balance := x \<rparr>) (settlements d1) \<rparr>"
      using u by auto
    have "asset_id x = asset_id (fs_balance v)" using x(1) by (auto simp: asset_minus_def)
    then show thesis by (rule partial) (use x(2) d1 d3 d' True in \<open>simp_all add: push_applied_operation_def\<close>)
  next
    case False
    then have "d2 = d1" using u by simp
    then have "d3 = d\<lparr> dyn_data := ds, balances := bs \<rparr>" unfolding d3 d1 by simp
    then show thesis by (intro filled) (use d' False in \<open>simp_all add: push_applied_operation_def\<close>)
  qed
qed

lemma fill_settlement_settles:
  assumes "fill_settlement S i pays receives d = Inr (b, d')" "map_of (settlements d) i = Some v"
  shows "bitassets d' = bitassets d" "assets d' = assets d"
    "length (settlements d') < length (settlements d) \<or> map_of (settlements d') i \<noteq> None \<and> settle_assets d' = settle_assets d"
proof -
  have "bitassets d' = bitassets d \<and> assets d' = assets d \<and>
    (length (settlements d') < length (settlements d) \<or> map_of (settlements d') i \<noteq> None \<and> settle_assets d' = settle_assets d)"
    using assms
  proof (cases rule: fill_settlement_cases)
    case (partial x)
    then show ?thesis using map_update_same [OF assms(2), of "\<lambda>p. asset_id (fs_balance (snd p))" "v\<lparr> fs_balance := x \<rparr>"]
      by (simp add: settle_assets_def map_of_update_order)
  next
    case filled
    then show ?thesis using remove_settlement_shorter [OF assms(2)] by simp
  qed
  then show "bitassets d' = bitassets d" "assets d' = assets d"
    "length (settlements d') < length (settlements d) \<or> map_of (settlements d') i \<noteq> None \<and> settle_assets d' = settle_assets d" by blast+
qed

lemma cancel_settlement_settles:
  assumes "cancel_settlement S i v d = Inr d1" "market_wf d"
  shows "settles i d d1" "length (settlements d1) < length (settlements d)"
proof -
  from assms(1) obtain order d0 where o: "map_of (settlements d) i = Some order" and a: "adjust_balance S (fs_owner order) (fs_balance order) d = Inr d0"
    and e: "(let d2 = (if v then push_applied_operation (Asset_settle_cancel_operation (Settle_ref i) (fs_owner order) (fs_balance order)) d0 else d0)
      in Inr (d2\<lparr> settlements := remove_order i (settlements d2) \<rparr>)) = (Inr d1 :: chain_db result)"
    unfolding cancel_settlement_def rbind_eq_Inr get_order_eq_Inr by blast
  have s: "settlements d1 = remove_order i (settlements d0)" "bitassets d1 = bitassets d0" "assets d1 = assets d0"
    using e by (auto simp: push_applied_operation_def Let_def split: if_splits)
  show l: "length (settlements d1) < length (settlements d)" using s adjust_balance_effect(2) [OF a] remove_settlement_shorter [OF o] by auto
  have "conserves d d1" by (rule effect_conserves [OF cancel_settlement_effect [OF assms]]) simp
  then show "settles i d d1" using l s adjust_balance_effect(2) [OF a] by (auto simp: settles_def)
qed

lemma match_settle_settles:
  assumes "match_settle S ci i sp m d = Inr (r, d1)" "market_wf d"
  shows "settles i d d1" "0 < amount m \<Longrightarrow> 0 < amount r"
proof -
  from assms(1) obtain call v sale pays d0 b1 b2 where v: "map_of (settlements d) i = Some v"
    and pos: "debt call > 0" "amount (fs_balance v) > 0" and sale: "asset_min (fs_balance v) m = Inr sale" and r: "asset_min sale (get_debt call) = Inr r"
    and f1: "fill_call_order S ci pays r d = Inr (b1, d0)" and f2: "fill_settlement S i r pays d0 = Inr (b2, d1)"
    by (auto simp: match_settle_def)
  note e = conjunct1 [OF fill_call_order_step [OF f1 assms(2)]]
  have v0: "map_of (settlements d0) i = Some v" "settlements d0 = settlements d" "bitassets d0 = bitassets d" "assets d0 = assets d"
    using e v by (auto simp: call_step_def dest: effectD)
  show "settles i d d1" using match_settle_conserves_aux [OF assms] fill_settlement_settles [OF f2 v0(1)] v0
    by (auto simp: settles_def settle_assets_def)
  show "0 < amount r" if "0 < amount m" using that pos sale r by (auto simp: asset_min_def asset_less_def get_debt_def split: if_splits)
qed

lemma match_turn_ok:
  assumes "match_turn S i sp mv mia settled d = Inr r" "market_wf d" "asset_less settled mv = Inr True"
  shows "case r of Broke d1 \<Rightarrow> settles i d d1 \<and> length (settlements d1) < length (settlements d)
    | Matched s1 d1 \<Rightarrow> settles i d d1 \<and> amount settled < amount s1"
proof -
  from assms(1) obtain ci m order where m: "asset_minus S mv settled = Inr m" and o: "map_of (settlements d) i = Some order"
    and q: "(if amount (fs_balance order) = 0 then rbind (cancel_settlement S i True d) (\<lambda>d1. Inr (Broke d1))
     else (case match_settle S ci i sp m d of
             Inl e \<Rightarrow> if e = Black_swan_exception then rbind (cancel_settlement S i True d) (\<lambda>d1. Inr (Broke d1)) else Inl e
           | Inr (r, d1) \<Rightarrow> rbind (asset_plus S settled r) (\<lambda>settled1. Inr (Matched settled1 d1)))) = Inr r"
    unfolding match_turn_def rbind_eq_Inr get_order_eq_Inr by blast
  have alt: "(\<exists>d1. cancel_settlement S i True d = Inr d1 \<and> r = Broke d1) \<or>
      (\<exists>x d1 s1. match_settle S ci i sp m d = Inr (x, d1) \<and> asset_plus S settled x = Inr s1 \<and> r = Matched s1 d1)"
    using q by (auto split: if_splits sum.splits)
  have pos: "0 < amount m" using m assms(3) by (auto simp: asset_minus_def sub_iff asset_less_def split: if_splits)
  show ?thesis using alt
  proof
    assume "\<exists>d1. cancel_settlement S i True d = Inr d1 \<and> r = Broke d1"
    then show ?thesis using cancel_settlement_settles [OF _ assms(2)] by auto
  next
    assume "\<exists>x d1 s1. match_settle S ci i sp m d = Inr (x, d1) \<and> asset_plus S settled x = Inr s1 \<and> r = Matched s1 d1"
    then obtain x d1 s1 where x: "match_settle S ci i sp m d = Inr (x, d1)" "asset_plus S settled x = Inr s1" "r = Matched s1 d1" by blast
    have "amount s1 = amount settled + amount x" using x(2) by (auto simp: asset_plus_def add_iff)
    then show ?thesis using match_settle_settles [OF x(1) assms(2)] pos x(3) by simp
  qed
qed

lemma settle_matches_returns:
  "market_wf d \<Longrightarrow> map_of (settlements d) i \<noteq> None \<Longrightarrow> amount settled < amount mv \<Longrightarrow>
    \<exists>r. settle_matches S i sp mv mia settled d = Some r \<and> (\<forall>s' d'. r = Inr (s', d') \<longrightarrow>
      settles i d d' \<and> (length (settlements d') < length (settlements d) \<or> amount mv \<le> amount s'))"
proof (induction "nat (amount mv - amount settled)" arbitrary: settled d rule: less_induct)
  case less
  show ?case
  proof (cases "asset_less settled mv")
    case (Inl e)
    then show ?thesis by (subst settle_matches.simps) simp
  next
    case (Inr below)
    then have l: "asset_less settled mv = Inr True" using less.prems(3) by (auto simp: asset_less_def split: if_splits)
    show ?thesis
    proof (cases "match_turn S i sp mv mia settled d")
      case (Inl e)
      then show ?thesis using l less.prems(2) by (subst settle_matches.simps) simp
    next
      case (Inr r)
      note ok = match_turn_ok [OF Inr less.prems(1) l]
      show ?thesis
      proof (cases r)
        case (Broke d1)
        then show ?thesis using l less.prems(2) Inr ok by (subst settle_matches.simps) simp
      next
        case (Matched s1 d1)
        have st: "settles i d d1" "amount settled < amount s1" using ok Matched by simp_all
        have eq: "settle_matches S i sp mv mia settled d = settle_matches S i sp mv mia s1 d1"
          using l less.prems(2) Inr Matched by (subst settle_matches.simps) simp
        show ?thesis
        proof (cases "map_of (settlements d1) i \<noteq> None \<and> amount s1 < amount mv")
          case True
          have "nat (amount mv - amount s1) < nat (amount mv - amount settled)" using st(2) less.prems(3) by simp
          from less.hyps [OF this settles_wf [OF st(1)]] True obtain r where r: "settle_matches S i sp mv mia s1 d1 = Some r"
            "\<forall>s' d'. r = Inr (s', d') \<longrightarrow> settles i d1 d' \<and> (length (settlements d') < length (settlements d1) \<or> amount mv \<le> amount s')" by blast
          have "length (settlements d1) \<le> length (settlements d)" using st(1) by (auto simp: settles_def settle_assets_def dest: map_eq_imp_length_eq)
          then show ?thesis using eq r settles_trans [OF st(1)] by fastforce
        next
          case False
          have "settle_matches S i sp mv mia s1 d1 = Some (Inr (s1, d1)) \<or> (\<exists>e. settle_matches S i sp mv mia s1 d1 = Some (Inl e))"
            using False by (subst (1 2) settle_matches.simps) (auto simp: asset_less_def split: sum.splits)
          then show ?thesis using eq st settles_gone [OF st(1)] False by auto
        qed
      qed
    qed
  qed
qed

lemma record_settled_ok:
  assumes "record_settled mia s d = Inr d'" "market_wf d"
  shows "conserves d d'" "settlements d' = settlements d" "\<exists>b'. bitasset_of d' mia = Inr b' \<and> force_settled_volume b' = amount s"
proof -
  from assms(1) obtain b where b: "bitasset_of d mia = Inr b" by (auto simp: record_settled_def modify_bitasset_def bitasset_of_def modify_obj_def)
  show "conserves d d'" by (rule bitasset_action_conserves [OF assms(1) [unfolded record_settled_def] assms(2) b]) auto
  from assms(1) obtain i where "mia < length (assets d)" "bitasset_data_id (assets d ! mia) = Some i" "i < length (bitassets d)"
    and "d' = d\<lparr> bitassets := (bitassets d)[i := (bitassets d ! i)\<lparr> force_settled_volume := amount s \<rparr>] \<rparr>"
    by (auto simp: record_settled_def modify_bitasset_def modify_obj_def split: if_splits)
  then show "settlements d' = settlements d" "\<exists>b'. bitasset_of d' mia = Inr b' \<and> force_settled_volume b' = amount s"
    by (simp_all add: bitasset_of_def get_obj_def)
qed

end

definition exhausted :: "nat \<Rightarrow> asset \<Rightarrow> chain_db \<Rightarrow> bool" where
  "exhausted cur mv d \<longleftrightarrow> asset_id mv = cur \<and> (\<exists>b. bitasset_of d cur = Inr b \<and> amount mv \<le> force_settled_volume b)"

definition settle_measure :: "(nat \<times> asset \<times> chain_db) \<Rightarrow> nat \<times> nat \<times> nat" where
  "settle_measure = (\<lambda>(cur, mv, d). (length (settlements d), length (filter (\<lambda>x. cur < x) (settle_assets d)), if exhausted cur mv d then 0 else 1))"

definition settle_order :: "((nat \<times> asset \<times> chain_db) \<times> (nat \<times> asset \<times> chain_db)) set" where
  "settle_order = inv_image (less_than <*lex*> less_than <*lex*> less_than) settle_measure"

lemma wf_settle_order: "wf settle_order"
  unfolding settle_order_def by (intro wf_inv_image wf_lex_prod wf_less_than)

lemma first_settlement_mem:
  assumes "first_settlement d cur = Some (i, v)"
  shows "(i, v) \<in> set (settlements d)" "cur \<le> asset_id (fs_balance v)"
  using assms by (auto simp: first_settlement_def split: list.splits dest: sort_by_Cons_mem)

lemma next_settlement_later:
  assumes "next_settlement_asset d a = Some nxt"
  shows "a < nxt" "nxt \<in> set (settle_assets d)"
proof -
  from assms obtain i v where f: "first_settlement d (Suc a) = Some (i, v)" and n: "nxt = asset_id (fs_balance v)"
    by (auto simp: next_settlement_asset_def split: option.splits)
  show "a < nxt" using first_settlement_mem(2) [OF f] n by simp
  show "nxt \<in> set (settle_assets d)" using first_settlement_mem(1) [OF f] n by (force simp: settle_assets_def)
qed

lemma filter_above_shorter: "a < b \<Longrightarrow> b \<in> set xs \<Longrightarrow> length (filter (\<lambda>x. b < x) xs) < length (filter (\<lambda>x. a < x) (xs :: nat list))"
proof (induction xs)
  case (Cons y ys)
  have "length (filter (\<lambda>x. b < x) ys) \<le> length (filter (\<lambda>x. a < x) ys)" using Cons.prems(1) by (induction ys) auto
  then show ?case using Cons by auto
qed simp

lemma settlement_decision_settle:
  assumes "settlement_decision S mv0 v d = Inr (Settle_it mv sp)" "bitasset_of d (asset_id (fs_balance v)) = Inr b"
  shows "asset_id mv = asset_id (fs_balance v)" "force_settled_volume b < amount mv" "\<not> exhausted (asset_id (fs_balance v)) mv0 d"
  using assms by (auto simp: settlement_decision_def Let_def exhausted_def split: if_splits)

lemma settle_measure_less:
  assumes "length (settlements d') < length (settlements d) \<or> settle_assets d' = settle_assets d \<and>
    (cur < cur' \<and> cur' \<in> set (settle_assets d) \<or> cur = cur' \<and> exhausted cur mv' d' \<and> \<not> exhausted cur mv d)"
  shows "((cur', mv', d'), (cur, mv, d)) \<in> settle_order"
  using assms filter_above_shorter [of cur cur' "settle_assets d"] settle_assets_length [of d' d] by (auto simp: settle_measure_def settle_order_def)

context fc_safe
begin

lemma settle_turn:
  assumes "first_settlement d cur = Some (i, v)" "settlement_decision S mv0 v d = Inr (Settle_it mv sp)" "market_wf d"
    and "bitasset_of d (asset_id (fs_balance v)) = Inr b"
  shows "\<exists>r. settle_matches S i sp mv (asset_id (fs_balance v)) (mk_asset (force_settled_volume b) (asset_id (fs_balance v))) d = Some r \<and>
    (\<forall>s d1 d2. r = Inr (s, d1) \<longrightarrow> record_settled (asset_id (fs_balance v)) s d1 = Inr d2 \<longrightarrow>
       conserves d d2 \<and> ((asset_id (fs_balance v), mv, d2), (cur, mv0, d)) \<in> settle_order)"
proof -
  let ?a = "asset_id (fs_balance v)"
  note dec = settlement_decision_settle [OF assms(2,4)] and mem = first_settlement_mem [OF assms(1)]
  have "map_of (settlements d) i \<noteq> None" using weak_map_of_SomeI [OF mem(1)] by auto
  then obtain r where r: "settle_matches S i sp mv ?a (mk_asset (force_settled_volume b) ?a) d = Some r"
    and k: "\<And>s' d'. r = Inr (s', d') \<Longrightarrow> settles i d d' \<and> (length (settlements d') < length (settlements d) \<or> amount mv \<le> amount s')"
    using settle_matches_returns [OF assms(3), of i "mk_asset (force_settled_volume b) ?a" mv sp ?a] dec(2) by auto
  have "conserves d d2 \<and> ((?a, mv, d2), (cur, mv0, d)) \<in> settle_order"
    if q: "r = Inr (s, d1)" "record_settled ?a s d1 = Inr d2" for s d1 d2
  proof
    note st = k [OF q(1)]
    note rec = record_settled_ok [OF q(2) settles_wf [OF conjunct1 [OF st]]]
    show "conserves d d2" using st rec(1) conserves_trans unfolding settles_def by blast
    have s2: "settle_assets d2 = settle_assets d1" "length (settlements d2) = length (settlements d1)" using rec(2) by (simp_all add: settle_assets_def)
    have "?a \<in> set (settle_assets d)" using mem(1) by (force simp: settle_assets_def)
    moreover have "exhausted ?a mv d2" if "amount mv \<le> amount s" using that rec(3) dec(1) by (auto simp: exhausted_def)
    ultimately show "((?a, mv, d2), (cur, mv0, d)) \<in> settle_order"
      using st dec(3) mem(2) s2 by (intro settle_measure_less) (auto simp: settles_def le_less)
  qed
  with r show ?thesis by blast
qed

lemma settle_loop_returns:
  "market_wf d \<Longrightarrow> \<exists>r. settle_loop S cur mv d = Some r \<and> (\<forall>d'. r = Inr d' \<longrightarrow> conserves d d')"
proof (induction "(cur, mv, d)" arbitrary: cur mv d rule: wf_induct_rule [OF wf_settle_order])
  case less: (1 cur mv d)
  note step = less.hyps and simps = settle_loop.simps [of S cur mv d]
  have via: ?case if "settle_loop S cur mv d = settle_loop S cur' mv' d1" "conserves d d1"
    "((cur', mv', d1), (cur, mv, d)) \<in> settle_order" for cur' mv' d1
    using step [OF that(3) conserves_wf [OF that(2)]] that(1) conserves_trans [OF that(2)] by auto
  show ?case
  proof (cases "\<exists>i v x. first_settlement d cur = Some (i, v) \<and> settlement_decision S mv v d = Inr x")
    case False
    then show ?thesis using less.prems by (subst simps) (auto split: option.splits sum.splits simp: conserves_refl)
  next
    case True
    then obtain i v x where f: "first_settlement d cur = Some (i, v)" and x: "settlement_decision S mv v d = Inr x" by blast
    let ?a = "asset_id (fs_balance v)"
    show ?thesis
    proof (cases x)
      case Cancel_it
      show ?thesis
      proof (cases "cancel_settlement S i True d")
        case (Inl e)
        then show ?thesis using f x Cancel_it by (subst simps) simp
      next
        case (Inr d1)
        note c = cancel_settlement_settles [OF Inr less.prems]
        show ?thesis by (rule via [of ?a mv d1]) (use f x Cancel_it Inr c in \<open>simp_all add: simps settles_def settle_measure_less\<close>)
      qed
    next
      case (Next_asset mv1)
      show ?thesis
      proof (cases "next_settlement_asset d ?a")
        case None
        then show ?thesis using f x Next_asset less.prems by (subst simps) (simp add: conserves_refl)
      next
        case (Some nxt)
        have "cur < nxt \<and> nxt \<in> set (settle_assets d)" using next_settlement_later [OF Some] first_settlement_mem(2) [OF f] by simp
        then show ?thesis using f x Next_asset Some less.prems
          by (intro via [of nxt mv1 d]) (simp_all add: simps conserves_refl settle_measure_less)
      qed
    next
      case (Settle_it mv1 sp)
      obtain b where b: "bitasset_of d ?a = Inr b" using x Settle_it by (auto simp: settlement_decision_def Let_def)
      from settle_turn [OF f x [unfolded Settle_it] less.prems b] obtain r
        where r: "settle_matches S i sp mv1 ?a (mk_asset (force_settled_volume b) ?a) d = Some r"
        and k: "\<And>s d1 d2. r = Inr (s, d1) \<Longrightarrow> record_settled ?a s d1 = Inr d2 \<Longrightarrow>
       conserves d d2 \<and> ((?a, mv1, d2), (cur, mv, d)) \<in> settle_order" by blast
      show ?thesis
      proof (cases "\<exists>s d1 d2. r = Inr (s, d1) \<and> record_settled ?a s d1 = Inr d2")
        case False
        then show ?thesis using f x Settle_it b r by (subst simps) (auto split: sum.splits)
      next
        case True
        then obtain s d1 d2 where q: "r = Inr (s, d1)" "record_settled ?a s d1 = Inr d2" by blast
        show ?thesis by (rule via [of ?a mv1 d2]) (use f x Settle_it b r q k [OF q] in \<open>simp_all add: simps\<close>)
      qed
    qed
  qed
qed

end

context fc_safe
begin

lemma clear_expired_orders_total:
  assumes "market_wf d" "0 \<le> amount fee"
  shows "\<exists>r. clear_expired_orders S c fee d = Some r \<and> (\<forall>d'. r = Inr d' \<longrightarrow> conserves d d')"
proof -
  from clear_limit_orders_returns [OF assms] obtain r where r: "clear_limit_orders S c fee d = Some r"
    and k: "\<And>d'. r = Inr d' \<Longrightarrow> conserves d d'" by blast
  show ?thesis
  proof (cases r)
    case (Inl e)
    then show ?thesis using r by (simp add: clear_expired_orders_def)
  next
    case (Inr d1)
    note c = k [OF Inr]
    show ?thesis
    proof (cases "first_settlement d1 0")
      case None
      then show ?thesis using r Inr c by (simp add: clear_expired_orders_def)
    next
      case (Some p)
      from settle_loop_returns [OF conserves_wf [OF c], of "asset_id (fs_balance (snd p))" "mk_asset 0 0"] show ?thesis
        using r Inr Some conserves_trans [OF c] by (auto simp: clear_expired_orders_def)
    qed
  qed
qed

lemma refresh_feed_conserves:
  assumes "refresh_feed S i d = Inr d'" "market_wf d" "bitasset_of d i = Inr b"
  shows "conserves d d'"
proof -
  from assms(1) obtain d0 x r where m: "modify_bitasset i (update_median_feeds (head_block_time d)) d = Inr d0"
    and k: "check_call_orders S x True d0 = Inr (r, d')" by (auto simp: refresh_feed_def)
  have c: "conserves d d0" by (rule bitasset_action_conserves [OF m assms(2,3)]) (auto dest: update_median_feeds_keeps)
  then show ?thesis using conserves_trans check_call_orders_conserves [OF k conserves_wf [OF c]] by blast
qed

lemma copy_core_rate_conserves:
  assumes "copy_core_rate i r d = Inr d'" "market_wf d"
  shows "conserves d d'"
proof (cases "d' = d")
  case False
  then have i: "i < length (assets d)" and d': "d' = d\<lparr> assets := (assets d)[i := (assets d ! i)\<lparr> options := (options (assets d ! i))\<lparr> ao_core_exchange_rate := r \<rparr> \<rparr>] \<rparr>"
    using assms(1) by (auto simp: copy_core_rate_def split: if_splits)
  have w: "market_wf d'" unfolding d' by (rule market_wf_update_asset [OF assms(2) i]) (use assms(2) i in \<open>auto simp: market_wf_def\<close>)
  show ?thesis by (rule moves_zero [OF w]) (auto simp: d' same_frame_def bal_def get_balance_def fun_eq_iff map_update list_update_same_conv i)
qed (simp add: assms(2) conserves_refl)

lemma expire_feed_conserves:
  assumes "expire_feed S i d = Inr d'" "market_wf d"
  shows "conserves d d'"
proof -
  from assms(1) obtain b d1 r where b: "bitasset_of d i = Inr b" and d1: "refresh_feed S i d = Inr d1 \<or> d1 = d"
    and d': "copy_core_rate i r d1 = Inr d'" by (auto simp: expire_feed_def split: if_splits)
  have c: "conserves d d1" using d1 refresh_feed_conserves [OF _ assms(2) b] conserves_refl [OF assms(2)] by auto
  from conserves_trans [OF c copy_core_rate_conserves [OF d' conserves_wf [OF c]]] show ?thesis .
qed

lemma update_expired_feeds_conserves:
  assumes "update_expired_feeds S d = Inr d'" "market_wf d"
  shows "conserves d d'"
proof -
  have "rfold (expire_feed S) is d = Inr d' \<Longrightarrow> market_wf d \<Longrightarrow> conserves d d'" for "is" d
  proof (induction "is" arbitrary: d)
    case (Cons i "is")
    then obtain d1 where d1: "expire_feed S i d = Inr d1" "rfold (expire_feed S) is d1 = Inr d'" by auto
    note c = expire_feed_conserves [OF d1(1) Cons.prems(2)]
    then show ?case using Cons.IH [OF d1(2) conserves_wf [OF c]] conserves_trans by blast
  qed (simp add: conserves_refl)
  with assms show ?thesis unfolding update_expired_feeds_def by blast
qed

end

section \<open>Properties\<close>

text \<open>C19: The clearing of expired orders at the end of a block always returns on a well-formed ledger: both loops end,
  although each settlement round may match, cancel or skip, and a limit order that is cancelled may trigger margin calls.
  When it succeeds no value is created or destroyed, and the first loop leaves no expired limit order behind.\<close>

theorem clear_expired_orders_returns:
  assumes S: "fc_safe S" and w: "market_wf d" and fee: "0 \<le> amount fee"
  shows "\<exists>r. clear_expired_orders S c fee d = Some r \<and>
    (\<forall>d'. r = Inr d' \<longrightarrow> market_wf d' \<and> length (accounts d') = length (accounts d) \<and> same_frame d d' \<and> (\<forall>x. gross d' x - supply_of d' x = gross d x - supply_of d x)) \<and>
    (\<forall>d1. clear_limit_orders S c fee d = Some (Inr d1) \<longrightarrow> (\<forall>q\<in>set (limit_orders d1). head_block_time d1 < expiration (snd q)))"
proof -
  have l: "\<forall>d1. clear_limit_orders S c fee d = Some (Inr d1) \<longrightarrow> (\<forall>q\<in>set (limit_orders d1). head_block_time d1 < expiration (snd q))"
    using fc_safe.clear_limit_orders_returns [OF S w fee, of c] by (metis option.inject)
  show ?thesis unfolding conserves_def [symmetric] using fc_safe.clear_expired_orders_total [OF S w fee, of c] l by blast
qed

definition demo_due :: chain_db where
  "demo_due = demo_margin\<lparr> head_block_time := 3000, limit_orders := limit_orders demo_market, next_limit_order := 2 \<rparr>"

lemma demo_due_wf: "market_wf demo_due"
  by (auto simp: demo_due_def market_wf_def settled_ok_def has_settlement_def null_price_ids default_price_def demo_market_simps int64_def valid_price_def price_validate_def asset_ok_def GRAPHENE_MAX_SHARE_SUPPLY_def
    GRAPHENE_100_PERCENT_def less_Suc_eq nth_Cons split: nat.splits)

theorem clear_expired_orders_returns_witness:
  "0 \<le> amount (mk_asset 1 0) \<and> (\<exists>r. clear_expired_orders checked_ops demo_context (mk_asset 1 0) demo_due = Some r)"
  using clear_expired_orders_returns [OF fc_safe_checked_ops demo_due_wf, of "mk_asset 1 0" demo_context] by auto



text \<open>The records kept against replays go all together or not at all: as long as one recorded transaction has not
  expired, none of the expired ones is removed, since the loop looks at the record that expires last.\<close>

theorem transaction_records_all_or_nothing:
  assumes "distinct (map fst txs)"
  shows "clear_transactions now txs = (if \<exists>t\<in>set txs. now \<le> snd t then txs else [])"
  using assms by (rule clear_transactions_all_or_nothing)

theorem transaction_records_all_or_nothing_witness:
  "clear_transactions 50 [(1, 10), (2, 60)] = [(1, 10), (2, 60)] \<and> clear_transactions 70 [(1, 10), (2, 60)] = []"
  using transaction_records_all_or_nothing [of "[(1, 10), (2, 60)]" 50] transaction_records_all_or_nothing [of "[(1, 10), (2, 60)]" 70] by simp

end
