(* ===== verification/Chain_Operations.thy ===== *)
theory Chain_Operations
  imports Expiration Authority
begin

text \<open>
  The operations that concern more than the ledger: witnesses, committee members, chain parameters, assertions, the creation
  of accounts and the proposals, which carry operations themselves.  With the operations on the ledger they make up the
  variant \<open>chain_operation\<close>; here are its validation, its fees and who must sign it.  Confidential transfers are left out.
\<close>

section \<open>Governance operations\<close>

definition GRAPHENE_MAX_URL_LENGTH :: nat where "GRAPHENE_MAX_URL_LENGTH = 127"
definition GRAPHENE_MIN_BLOCK_INTERVAL :: nat where "GRAPHENE_MIN_BLOCK_INTERVAL = 1"
definition GRAPHENE_MAX_BLOCK_INTERVAL :: nat where "GRAPHENE_MAX_BLOCK_INTERVAL = 30"
definition GRAPHENE_MIN_TRANSACTION_SIZE_LIMIT :: nat where "GRAPHENE_MIN_TRANSACTION_SIZE_LIMIT = 1024"
definition GRAPHENE_MIN_BLOCK_SIZE_LIMIT :: nat where "GRAPHENE_MIN_BLOCK_SIZE_LIMIT = GRAPHENE_MIN_TRANSACTION_SIZE_LIMIT * 5"

record witness_create_operation =
  wr_fee :: asset
  wr_witness_account :: nat
  wr_url :: string
  wr_block_signing_key :: nat

record witness_update_operation =
  wt_fee :: asset
  wt_witness :: nat
  wt_witness_account :: nat
  wt_new_url :: "string option"
  wt_new_signing_key :: "nat option"

record committee_member_create_operation =
  mc_fee :: asset
  mc_committee_member_account :: nat
  mc_url :: string

record committee_member_update_operation =
  mu_fee :: asset
  mu_committee_member :: nat
  mu_committee_member_account :: nat
  mu_new_url :: "string option"

record committee_member_update_global_parameters_operation =
  mg_fee :: asset
  mg_new_parameters :: chain_parameters

definition witness_create_validate :: "witness_create_operation \<Rightarrow> unit result" where
  "witness_create_validate op = ensure (amount (wr_fee op) \<ge> 0) (ensure (length (wr_url op) < GRAPHENE_MAX_URL_LENGTH) (Inr ()))"

definition witness_update_validate :: "witness_update_operation \<Rightarrow> unit result" where
  "witness_update_validate op = ensure (amount (wt_fee op) \<ge> 0)
     (when_some (wt_new_url op) (\<lambda>u. ensure (length u < GRAPHENE_MAX_URL_LENGTH) (Inr ())))"

definition committee_member_create_validate :: "committee_member_create_operation \<Rightarrow> unit result" where
  "committee_member_create_validate op = ensure (amount (mc_fee op) \<ge> 0) (ensure (length (mc_url op) < GRAPHENE_MAX_URL_LENGTH) (Inr ()))"

definition committee_member_update_validate :: "committee_member_update_operation \<Rightarrow> unit result" where
  "committee_member_update_validate op = ensure (amount (mu_fee op) \<ge> 0)
     (when_some (mu_new_url op) (\<lambda>u. ensure (length u < GRAPHENE_MAX_URL_LENGTH) (Inr ())))"

text \<open>The last assertion subtracts unsigned 32-bit integers.\<close>

definition chain_parameters_validate :: "chain_parameters \<Rightarrow> unit result" where
  "chain_parameters_validate p =
     ensure (int (reserve_percent_of_fee p) \<le> GRAPHENE_100_PERCENT) (
     ensure (int (network_percent_of_fee p) \<le> GRAPHENE_100_PERCENT) (
     ensure (int (lifetime_referrer_percent_of_fee p) \<le> GRAPHENE_100_PERCENT) (
     ensure (int (network_percent_of_fee p + lifetime_referrer_percent_of_fee p) \<le> GRAPHENE_100_PERCENT) (
     ensure (block_interval_of p \<ge> GRAPHENE_MIN_BLOCK_INTERVAL) (
     ensure (block_interval_of p \<le> GRAPHENE_MAX_BLOCK_INTERVAL) (
     ensure (block_interval_of p > 0) (
     ensure (maintenance_interval p > block_interval_of p) (
     ensure (maintenance_interval p mod block_interval_of p = 0) (
     ensure (maximum_transaction_size p \<ge> GRAPHENE_MIN_TRANSACTION_SIZE_LIMIT) (
     ensure (maximum_block_size p \<ge> GRAPHENE_MIN_BLOCK_SIZE_LIMIT) (
     ensure (maximum_time_until_expiration p > block_interval_of p) (
     ensure ((int (maximum_proposal_lifetime p) - int (committee_proposal_review_period p)) mod 2 ^ 32 > int (block_interval_of p))
       (Inr ())))))))))))))"

definition update_global_parameters_validate :: "committee_member_update_global_parameters_operation \<Rightarrow> unit result" where
  "update_global_parameters_validate op = ensure (amount (mg_fee op) \<ge> 0) (chain_parameters_validate (mg_new_parameters op))"

section \<open>Assertions\<close>

datatype predicate =
    Account_name_eq_lit nat string
  | Asset_symbol_eq_lit nat string
  | Block_id_predicate block_id_type

record assert_operation =
  at_fee :: asset
  at_fee_paying_account :: nat
  at_predicates :: "predicate list"
  at_required_auths :: "nat list"

fun predicate_validate :: "predicate \<Rightarrow> bool" where
  "predicate_validate (Account_name_eq_lit _ n) = is_valid_name n"
| "predicate_validate (Asset_symbol_eq_lit _ s) = is_valid_symbol s"
| "predicate_validate (Block_id_predicate _) = True"

text \<open>The visitor calls \<open>predicate_validate\<close> and drops its result.\<close>

definition predicate_validator :: "predicate \<Rightarrow> unit" where
  "predicate_validator p = (let _ = predicate_validate p in ())"

definition assert_validate :: "assert_operation \<Rightarrow> unit result" where
  "assert_validate op = ensure (amount (at_fee op) \<ge> 0) (rfold (\<lambda>p _. Inr (predicate_validator p)) (at_predicates op) ())"

section \<open>Proposals\<close>

datatype 'op proposal_create_operation = Proposal_create_operation
  (pc_fee: asset)
  (pc_fee_paying_account: nat)
  (pc_proposed_ops: "'op list")
  (pc_expiration_time: nat)
  (pc_review_period_seconds: "nat option")

record proposal_update_operation =
  pu_fee_paying_account :: nat
  pu_fee :: asset
  pu_proposal :: nat
  active_approvals_to_add :: "nat list"
  active_approvals_to_remove :: "nat list"
  owner_approvals_to_add :: "nat list"
  owner_approvals_to_remove :: "nat list"
  key_approvals_to_add :: "nat list"
  key_approvals_to_remove :: "nat list"

record proposal_delete_operation =
  pd_fee_paying_account :: nat
  pd_using_owner_authority :: bool
  pd_fee :: asset
  pd_proposal :: nat

definition proposal_update_validate :: "proposal_update_operation \<Rightarrow> unit result" where
  "proposal_update_validate op =
     ensure (amount (pu_fee op) \<ge> 0) (
     ensure (\<not> (active_approvals_to_add op = [] \<and> active_approvals_to_remove op = [] \<and> owner_approvals_to_add op = [] \<and>
       owner_approvals_to_remove op = [] \<and> key_approvals_to_add op = [] \<and> key_approvals_to_remove op = [])) (
     ensure (list_all (\<lambda>a. a \<notin> set (active_approvals_to_remove op)) (active_approvals_to_add op)) (
     ensure (list_all (\<lambda>a. a \<notin> set (owner_approvals_to_remove op)) (owner_approvals_to_add op)) (
     ensure (list_all (\<lambda>a. a \<notin> set (key_approvals_to_remove op)) (key_approvals_to_add op)) (Inr ())))))"

definition proposal_delete_validate :: "proposal_delete_operation \<Rightarrow> unit result" where
  "proposal_delete_validate op = ensure (amount (pd_fee op) \<ge> 0) (Inr ())"

section \<open>The variant\<close>

datatype chain_operation =
    Ledger_op operation
  | Account_create_op account_create_operation
  | Limit_order_create_op limit_order_create_operation
  | Asset_create_op asset_create_operation
  | Witness_create_op witness_create_operation
  | Witness_update_op witness_update_operation
  | Committee_member_create_op committee_member_create_operation
  | Committee_member_update_op committee_member_update_operation
  | Update_global_parameters_op committee_member_update_global_parameters_operation
  | Assert_op assert_operation
  | Proposal_create_op "chain_operation proposal_create_operation"
  | Proposal_update_op proposal_update_operation
  | Proposal_delete_op proposal_delete_operation

lemma rfold_cong [fundef_cong]:
  "xs = ys \<Longrightarrow> s = t \<Longrightarrow> (\<And>x u. x \<in> set ys \<Longrightarrow> f x u = g x u) \<Longrightarrow> rfold f xs s = rfold g ys t"
proof (induction xs arbitrary: ys s t)
  case (Cons x xs)
  from Cons.prems show ?case by (auto intro!: rbind_cong Cons.IH)
qed auto

fun chain_operation_validate :: "chain_operation \<Rightarrow> unit result" where
  "chain_operation_validate (Ledger_op o1) = operation_validate o1"
| "chain_operation_validate (Account_create_op o1) = account_create_validate o1"
| "chain_operation_validate (Limit_order_create_op o1) = limit_order_create_validate o1"
| "chain_operation_validate (Asset_create_op o1) = asset_create_validate o1"
| "chain_operation_validate (Witness_create_op o1) = witness_create_validate o1"
| "chain_operation_validate (Witness_update_op o1) = witness_update_validate o1"
| "chain_operation_validate (Committee_member_create_op o1) = committee_member_create_validate o1"
| "chain_operation_validate (Committee_member_update_op o1) = committee_member_update_validate o1"
| "chain_operation_validate (Update_global_parameters_op o1) = update_global_parameters_validate o1"
| "chain_operation_validate (Assert_op o1) = assert_validate o1"
| "chain_operation_validate (Proposal_create_op (Proposal_create_operation _ _ ops _ _)) =
     ensure (ops \<noteq> []) (rfold (\<lambda>op _. chain_operation_validate op) ops ())"
| "chain_operation_validate (Proposal_update_op o1) = proposal_update_validate o1"
| "chain_operation_validate (Proposal_delete_op o1) = proposal_delete_validate o1"

fun chain_operation_fee :: "chain_operation \<Rightarrow> asset" where
  "chain_operation_fee (Ledger_op o1) = operation_fee o1"
| "chain_operation_fee (Account_create_op o1) = cr_fee o1"
| "chain_operation_fee (Limit_order_create_op o1) = lo_fee o1"
| "chain_operation_fee (Asset_create_op o1) = ac_fee o1"
| "chain_operation_fee (Witness_create_op o1) = wr_fee o1"
| "chain_operation_fee (Witness_update_op o1) = wt_fee o1"
| "chain_operation_fee (Committee_member_create_op o1) = mc_fee o1"
| "chain_operation_fee (Committee_member_update_op o1) = mu_fee o1"
| "chain_operation_fee (Update_global_parameters_op o1) = mg_fee o1"
| "chain_operation_fee (Assert_op o1) = at_fee o1"
| "chain_operation_fee (Proposal_create_op o1) = pc_fee o1"
| "chain_operation_fee (Proposal_update_op o1) = pu_fee o1"
| "chain_operation_fee (Proposal_delete_op o1) = pd_fee o1"

fun chain_operation_fee_payer :: "chain_operation \<Rightarrow> nat" where
  "chain_operation_fee_payer (Ledger_op o1) = operation_fee_payer o1"
| "chain_operation_fee_payer (Account_create_op o1) = cr_registrar o1"
| "chain_operation_fee_payer (Limit_order_create_op o1) = lo_seller o1"
| "chain_operation_fee_payer (Asset_create_op o1) = ac_issuer o1"
| "chain_operation_fee_payer (Witness_create_op o1) = wr_witness_account o1"
| "chain_operation_fee_payer (Witness_update_op o1) = wt_witness_account o1"
| "chain_operation_fee_payer (Committee_member_create_op o1) = mc_committee_member_account o1"
| "chain_operation_fee_payer (Committee_member_update_op o1) = mu_committee_member_account o1"
| "chain_operation_fee_payer (Update_global_parameters_op o1) = GRAPHENE_COMMITTEE_ACCOUNT"
| "chain_operation_fee_payer (Assert_op o1) = at_fee_paying_account o1"
| "chain_operation_fee_payer (Proposal_create_op o1) = pc_fee_paying_account o1"
| "chain_operation_fee_payer (Proposal_update_op o1) = pu_fee_paying_account o1"
| "chain_operation_fee_payer (Proposal_delete_op o1) = pd_fee_paying_account o1"

section \<open>Who must sign an operation\<close>

text \<open>The methods \<^verbatim>\<open>get_required_active_authorities\<close>, \<^verbatim>\<open>get_required_owner_authorities\<close> and \<^verbatim>\<open>get_required_authorities\<close>;
  the ones of \<^verbatim>\<open>base_operation\<close>, which ask for nothing, unless the operation has its own.\<close>

definition is_owner_update :: "account_update_operation \<Rightarrow> bool" where
  "is_owner_update op \<longleftrightarrow> up_owner op \<noteq> None \<or> up_owner_special_authority op \<noteq> None"

fun required_active :: "chain_operation \<Rightarrow> nat list" where
  "required_active (Ledger_op (Account_update_op o1)) = (if is_owner_update o1 then [] else [up_account o1])"
| "required_active (Account_create_op o1) =
     cr_registrar o1 # (case cr_buyback_options o1 of None \<Rightarrow> [] | Some b \<Rightarrow> [asset_to_buy_issuer b])"
| "required_active (Proposal_update_op o1) = active_approvals_to_add o1 @ active_approvals_to_remove o1"
| "required_active _ = []"

fun required_owner :: "chain_operation \<Rightarrow> nat list" where
  "required_owner (Ledger_op (Account_update_op o1)) = (if is_owner_update o1 then [up_account o1] else [])"
| "required_owner (Proposal_update_op o1) = owner_approvals_to_add o1 @ owner_approvals_to_remove o1"
| "required_owner _ = []"

definition keys_authority :: "nat list \<Rightarrow> authority" where
  "keys_authority ks =
     (let kas = fold (\<lambda>k. fm_update k 1) ks [] in
      \<lparr> weight_threshold = of_nat (length kas), account_auths = [], key_auths = kas, address_auths = [] \<rparr>)"

fun required_other :: "chain_operation \<Rightarrow> authority list" where
  "required_other (Ledger_op (Balance_claim_op o1)) =
     [\<lparr> weight_threshold = 1, account_auths = [], key_auths = [(bc_balance_owner_key o1, 1)], address_auths = [] \<rparr>]"
| "required_other (Proposal_update_op o1) = [keys_authority (key_approvals_to_add o1 @ key_approvals_to_remove o1)]"
| "required_other _ = []"

definition operation_auths :: "chain_operation op_auths" where
  "operation_auths = \<lparr> op_fee_payer = chain_operation_fee_payer, op_active = required_active, op_owner = required_owner, op_other = required_other \<rparr>"

end
