(* ===== verification/Ledger.thy ===== *)
theory Ledger
  imports Chain_Operations
begin

text \<open>
  The state of the whole chain, around the block state of \<^verbatim>\<open>db_witness_schedule.cpp\<close> and the object database: signed
  transactions, the flags that skip checks, what comes from cryptography, and the records a node keeps besides.
\<close>

section \<open>Transactions\<close>

record signed_transaction =
  ref_block_num :: nat
  ref_block_prefix :: nat
  tx_expiration :: nat
  operations :: "chain_operation list"
  signatures :: "nat list"

text \<open>The flags a caller may skip checks with.\<close>

definition skip_witness_signature :: "32 word" where "skip_witness_signature = push_bit 0 1"
definition skip_transaction_signatures :: "32 word" where "skip_transaction_signatures = push_bit 1 1"
definition skip_transaction_dupe_check :: "32 word" where "skip_transaction_dupe_check = push_bit 2 1"
definition skip_fork_db :: "32 word" where "skip_fork_db = push_bit 3 1"
definition skip_tapos_check :: "32 word" where "skip_tapos_check = push_bit 5 1"
definition skip_authority_check :: "32 word" where "skip_authority_check = push_bit 6 1"
definition skip_merkle_check :: "32 word" where "skip_merkle_check = push_bit 7 1"
definition skip_undo_history_check :: "32 word" where "skip_undo_history_check = push_bit 9 1"
definition skip_witness_schedule_check :: "32 word" where "skip_witness_schedule_check = push_bit 10 1"

definition skips :: "32 word \<Rightarrow> 32 word \<Rightarrow> bool" where
  "skips skip flag \<longleftrightarrow> skip AND flag \<noteq> 0"

text \<open>What the chain takes from outside the repository: the hashes of blocks and transactions, the key behind a signature
  of a transaction or a block, the pieces of the Merkle tree, the checksum of Ethereum addresses and the addresses of a key.\<close>

record crypto =
  cr_block_hash :: "signed_transaction signed_block \<Rightarrow> nat"
  cr_transaction_id :: "signed_transaction \<Rightarrow> nat"
  cr_recover :: "signed_transaction \<Rightarrow> nat \<Rightarrow> nat"
  cr_signee :: "signed_transaction signed_block \<Rightarrow> nat"
  cr_merkle_digest :: "signed_transaction \<Rightarrow> nat"
  cr_hash_pair :: "nat \<Rightarrow> nat \<Rightarrow> nat"
  cr_hash_one :: "nat \<Rightarrow> nat"
  cr_keccak :: "string \<Rightarrow> nat list"
  cr_addresses :: "nat \<Rightarrow> nat list"

section \<open>The state\<close>

text \<open>A proposal: its operations, when it expires and from when its approvals may no longer be added to, the approvals it
  needs and those it has.\<close>

record proposal_object =
  pr_expiration_time :: nat
  review_period_time :: "nat option"
  proposed_operations :: "chain_operation list"
  required_active_approvals :: "nat list"
  available_active_approvals :: "nat list"
  required_owner_approvals :: "nat list"
  available_owner_approvals :: "nat list"
  available_key_approvals :: "nat list"

text \<open>The parameters that never change, what a maintenance records of its budget, and the buffers in which it counts votes.
  The buffers are members of the database that are empty between blocks.\<close>

record immutable_chain_parameters =
  min_committee_member_count :: nat
  min_witness_count :: nat

record budget_record =
  br_time_since_last_budget :: nat
  br_from_initial_reserve :: share_type
  br_from_accumulated_fees :: share_type
  br_from_unused_witness_budget :: share_type
  br_requested_witness_budget :: share_type
  br_witness_pay_per_block :: share_type
  br_total_budget :: share_type
  br_witness_budget :: share_type
  br_worker_budget :: share_type
  br_leftover_worker_funds :: share_type
  br_supply_delta :: share_type

record vote_buffers =
  vote_tally_buffer :: "nat list"
  witness_count_histogram_buffer :: "nat list"
  committee_count_histogram_buffer :: "nat list"
  total_voting_stake :: nat

text \<open>The state of the chain that transactions and blocks change.\<close>

record ledger =
  bstate :: block_state
  immutable :: immutable_chain_parameters
  budgets :: "(nat \<times> budget_record) list"
  buffers :: vote_buffers
  proposals :: "(nat \<times> proposal_object) list"
  next_proposal :: nat
  trx_index :: "transaction_record list"
  block_summaries :: "block_id_type list"
  checkpoints :: "(nat \<times> block_id_type) list"

abbreviation ldb :: "ledger \<Rightarrow> chain_db" where
  "ldb l \<equiv> cdb (bstate l)"

abbreviation with_db :: "ledger \<Rightarrow> chain_db \<Rightarrow> ledger" where
  "with_db l d \<equiv> l\<lparr> bstate := (bstate l)\<lparr> cdb := d \<rparr> \<rparr>"

text \<open>What a ledger holds of an asset beyond its recorded supply: of the core asset also the fees set aside for buybacks
  and the budget of the witnesses.\<close>

definition ledger_net :: "ledger \<Rightarrow> nat \<Rightarrow> int" where
  "ledger_net l x = gross (ldb l) x - supply_of (ldb l) x +
     (if x = 0 then sum_list (map accumulated_fba_fees (fba_accumulators (ldb l))) + witness_budget (dgp (bstate l)) else 0)"

end
