(* ===== verification/Governance.thy ===== *)
theory Governance
  imports Ledger
begin

text \<open>
  The evaluators of witnesses, committee members, chain parameters and assertions (\<^verbatim>\<open>witness_evaluator.cpp\<close>,
  \<^verbatim>\<open>committee_member_evaluator.cpp\<close>, \<^verbatim>\<open>assert_evaluator.cpp\<close>) and the identifiers that votes name (\<^verbatim>\<open>protocol/vote.cpp\<close>), with
  the two halves of an evaluation between which a proposal may run.
\<close>

section \<open>What an evaluation is given\<close>

definition skip_assert_evaluation :: "32 word" where "skip_assert_evaluation = push_bit 8 1"

record exec_env =
  en_safe :: safe_ops
  en_crypto :: crypto
  en_fees :: "chain_parameters \<Rightarrow> chain_operation \<Rightarrow> share_type"
  en_skip :: "32 word"

definition context_of :: "exec_env \<Rightarrow> ledger \<Rightarrow> eval_context" where
  "context_of E l = \<lparr> ec_parameters = parameters (gpo (bstate l)), ec_keccak = cr_keccak (en_crypto E), ec_addresses = cr_addresses (en_crypto E),
     ec_skip_signatures = skips (en_skip E) (skip_authority_check OR skip_transaction_signatures) \<rparr>"

definition fresh_eval_state :: trx_eval_state where
  "fresh_eval_state = \<lparr> skip_fee = False, skip_fee_schedule_check = False \<rparr>"

definition required_fee :: "exec_env \<Rightarrow> chain_operation \<Rightarrow> ledger \<Rightarrow> share_type" where
  "required_fee E op l = en_fees E (parameters (gpo (bstate l))) op"

text \<open>The first half of an evaluation checks the operation, takes the fee apart and acts; the second half deducts the fee.\<close>

definition begin_with :: "exec_env \<Rightarrow> chain_operation \<Rightarrow> (ledger \<Rightarrow> unit result) \<Rightarrow> (ledger \<Rightarrow> ledger result) \<Rightarrow> ledger \<Rightarrow> ledger result" where
  "begin_with E op check act l =
     rbind (evaluate fresh_eval_state (required_fee E op l) (chain_operation_fee_payer op) (chain_operation_fee op) (\<lambda>_. check l) (ldb l)) (\<lambda>core.
     rbind (convert_fee (en_safe E) fresh_eval_state (chain_operation_fee op) core (ldb l)) (\<lambda>d1.
     rbind (pay_fee (en_safe E) fresh_eval_state (chain_operation_fee_payer op) core d1) (\<lambda>d2.
     act (with_db l d2))))"

definition deduct_fee :: "exec_env \<Rightarrow> chain_operation \<Rightarrow> ledger \<Rightarrow> ledger result" where
  "deduct_fee E op l =
     rbind (asset_neg (en_safe E) (chain_operation_fee op)) (\<lambda>n.
     rbind (adjust_balance (en_safe E) (chain_operation_fee_payer op) n (ldb l)) (\<lambda>d. Inr (with_db l d)))"

section \<open>Identifiers for votes\<close>

text \<open>The constructor of an identifier shifts the instance into the upper 24 bits without looking at what falls off.\<close>

definition vote_id :: "nat \<Rightarrow> nat \<Rightarrow> nat" where
  "vote_id t inst = (inst * 256) mod 2 ^ 32 + t"

definition get_next_vote_id :: "nat \<Rightarrow> global_property_object \<Rightarrow> nat \<times> global_property_object" where
  "get_next_vote_id t g = (vote_id t (next_available_vote_id g), g\<lparr> next_available_vote_id := (next_available_vote_id g + 1) mod 2 ^ 32 \<rparr>)"

section \<open>Witnesses\<close>

definition witness_create_do_evaluate :: "witness_create_operation \<Rightarrow> ledger \<Rightarrow> unit result" where
  "witness_create_do_evaluate op l = rbind (get_obj (accounts (ldb l)) (wr_witness_account op)) (\<lambda>a. ensure (is_lifetime_member a) (Inr ()))"

text \<open>The index of witnesses is unique in the account and in the identifier.\<close>

definition witness_create_do_apply :: "witness_create_operation \<Rightarrow> ledger \<Rightarrow> ledger result" where
  "witness_create_do_apply op l =
     (let s = bstate l; (v, g) = get_next_vote_id witness_vote (gpo s);
          w = \<lparr> witness_account = wr_witness_account op, last_aslot = 0, signing_key = wr_block_signing_key op, pay_vb = None,
            wit_vote_id = v, wit_total_votes = 0, wit_url = wr_url op, total_missed = 0, last_confirmed_block_num = 0 \<rparr>
      in ensure (list_all (\<lambda>u. witness_account u \<noteq> wr_witness_account op \<and> wit_vote_id u \<noteq> v) (witnesses s))
        (Inr (l\<lparr> bstate := s\<lparr> gpo := g, witnesses := witnesses s @ [w] \<rparr> \<rparr>)))"

definition witness_update_do_evaluate :: "witness_update_operation \<Rightarrow> ledger \<Rightarrow> unit result" where
  "witness_update_do_evaluate op l =
     rbind (get_obj (witnesses (bstate l)) (wt_witness op)) (\<lambda>w. ensure (witness_account w = wt_witness_account op) (Inr ()))"

definition witness_update_do_apply :: "witness_update_operation \<Rightarrow> ledger \<Rightarrow> ledger result" where
  "witness_update_do_apply op l =
     rbind (modify_obj (wt_witness op) (\<lambda>w.
       let w1 = (case wt_new_url op of None \<Rightarrow> w | Some u \<Rightarrow> w\<lparr> wit_url := u \<rparr>)
       in Inr (case wt_new_signing_key op of None \<Rightarrow> w1 | Some k \<Rightarrow> w1\<lparr> signing_key := k \<rparr>)) (witnesses (bstate l))) (\<lambda>ws.
     Inr (l\<lparr> bstate := (bstate l)\<lparr> witnesses := ws \<rparr> \<rparr>))"

section \<open>Committee members and chain parameters\<close>

definition committee_member_create_do_evaluate :: "committee_member_create_operation \<Rightarrow> ledger \<Rightarrow> unit result" where
  "committee_member_create_do_evaluate op l =
     ensure (head_block_time (ldb l) < HARDFORK_1_TIME) (
     rbind (get_obj (accounts (ldb l)) (mc_committee_member_account op)) (\<lambda>a. ensure (is_lifetime_member a) (Inr ())))"

definition committee_member_create_do_apply :: "committee_member_create_operation \<Rightarrow> ledger \<Rightarrow> ledger result" where
  "committee_member_create_do_apply op l =
     (let s = bstate l; (v, g) = get_next_vote_id committee_vote (gpo s);
          m = \<lparr> committee_member_account = mc_committee_member_account op, com_vote_id = v, com_total_votes = 0, com_url = mc_url op \<rparr>
      in ensure (list_all (\<lambda>u. committee_member_account u \<noteq> mc_committee_member_account op \<and> com_vote_id u \<noteq> v) (committee_members s))
        (Inr (l\<lparr> bstate := s\<lparr> gpo := g, committee_members := committee_members s @ [m] \<rparr> \<rparr>)))"

definition committee_member_update_do_evaluate :: "committee_member_update_operation \<Rightarrow> ledger \<Rightarrow> unit result" where
  "committee_member_update_do_evaluate op l =
     ensure (head_block_time (ldb l) < HARDFORK_1_TIME) (
     rbind (get_obj (committee_members (bstate l)) (mu_committee_member op)) (\<lambda>m.
     ensure (committee_member_account m = mu_committee_member_account op) (Inr ())))"

definition committee_member_update_do_apply :: "committee_member_update_operation \<Rightarrow> ledger \<Rightarrow> ledger result" where
  "committee_member_update_do_apply op l =
     rbind (modify_obj (mu_committee_member op) (\<lambda>m. Inr (case mu_new_url op of None \<Rightarrow> m | Some u \<Rightarrow> m\<lparr> com_url := u \<rparr>))
       (committee_members (bstate l))) (\<lambda>ms.
     Inr (l\<lparr> bstate := (bstate l)\<lparr> committee_members := ms \<rparr> \<rparr>))"

definition update_global_parameters_do_evaluate :: "bool \<Rightarrow> committee_member_update_global_parameters_operation \<Rightarrow> ledger \<Rightarrow> unit result" where
  "update_global_parameters_do_evaluate is_proposed_trx op l =
     ensure (head_block_time (ldb l) < HARDFORK_1_TIME) (ensure is_proposed_trx (Inr ()))"

definition update_global_parameters_do_apply :: "committee_member_update_global_parameters_operation \<Rightarrow> ledger \<Rightarrow> ledger result" where
  "update_global_parameters_do_apply op l =
     Inr (l\<lparr> bstate := (bstate l)\<lparr> gpo := (gpo (bstate l))\<lparr> pending_parameters := Some (mg_new_parameters op) \<rparr> \<rparr> \<rparr>)"

section \<open>Assertions\<close>

fun predicate_which :: "predicate \<Rightarrow> nat" where
  "predicate_which (Account_name_eq_lit _ _) = 0"
| "predicate_which (Asset_symbol_eq_lit _ _) = 1"
| "predicate_which (Block_id_predicate _) = 2"

fun predicate_evaluator :: "ledger \<Rightarrow> predicate \<Rightarrow> unit result" where
  "predicate_evaluator l (Account_name_eq_lit i n) = rbind (get_obj (accounts (ldb l)) i) (\<lambda>a. ensure (acc_name a = n) (Inr ()))"
| "predicate_evaluator l (Asset_symbol_eq_lit i s) = rbind (get_obj (assets (ldb l)) i) (\<lambda>a. ensure (symbol a = s) (Inr ()))"
| "predicate_evaluator l (Block_id_predicate i) =
     rbind (get_obj (block_summaries l) (unat (num_from_id i AND 0xffff))) (\<lambda>b. ensure (b = i) (Inr ()))"

definition assert_do_evaluate :: "32 word \<Rightarrow> assert_operation \<Rightarrow> ledger \<Rightarrow> unit result" where
  "assert_do_evaluate skip op l =
     (if skips skip skip_assert_evaluation then Inr ()
      else rfold (\<lambda>p _. ensure (predicate_which p < max_predicate_opcode (parameters (gpo (bstate l)))) (predicate_evaluator l p)) (at_predicates op) ())"

section \<open>Operations that are switched off\<close>

text \<open>The evaluators of the next two operations begin with a false assertion; the rest of them is modelled all the same.
  \<^verbatim>\<open>pay_fee\<close> of an order defers the fee, and half the fee of a new asset fills its pool.\<close>

definition apply_limit_order_create :: "safe_ops \<Rightarrow> trx_eval_state \<Rightarrow> share_type \<Rightarrow> limit_order_create_operation \<Rightarrow> chain_db \<Rightarrow> (nat \<times> chain_db) result" where
  "apply_limit_order_create S ts req op d =
     rbind (evaluate ts req (lo_seller op) (lo_fee op) (limit_order_create_do_evaluate op) d) (\<lambda>core_fee_paid.
     rbind (convert_fee S ts (lo_fee op) core_fee_paid d) (\<lambda>d1.
     rbind (limit_order_create_do_apply S op core_fee_paid d1) (\<lambda>(order_id, d2).
     rbind (asset_neg S (lo_fee op)) (\<lambda>n.
     rbind (adjust_balance S (lo_seller op) n d2) (\<lambda>d3. Inr (order_id, d3))))))"

definition apply_asset_create :: "safe_ops \<Rightarrow> trx_eval_state \<Rightarrow> chain_parameters \<Rightarrow> share_type \<Rightarrow> asset_create_operation \<Rightarrow> chain_db \<Rightarrow> (nat \<times> chain_db) result" where
  "apply_asset_create S ts cp req op d =
     rbind (prepare_fee (ac_issuer op) (ac_fee op) d) (\<lambda>paid.
     throw_unless Insufficient_fee_exception (skip_fee_schedule_check ts \<or> paid \<ge> req) (
     rbind (asset_create_do_evaluate S cp op paid d) (\<lambda>core_fee_paid.
     rbind (convert_fee S ts (ac_fee op) core_fee_paid d) (\<lambda>d1.
     rbind (pay_fee S ts (ac_issuer op) core_fee_paid d1) (\<lambda>d2.
     let (asset_id, d3) = asset_create_do_apply op core_fee_paid d2 in
     rbind (asset_neg S (ac_fee op)) (\<lambda>n.
     rbind (adjust_balance S (ac_issuer op) n d3) (\<lambda>d4. Inr (asset_id, d4))))))))"

end
