(* ===== verification/Proposals.thy ===== *)
theory Proposals
  imports Governance
begin

text \<open>
  Proposals (\<^verbatim>\<open>proposal_evaluator.cpp\<close>, \<^verbatim>\<open>proposal_object.cpp\<close>, \<^verbatim>\<open>database::push_proposal\<close>, \<^verbatim>\<open>clear_expired_proposals\<close>) and with
  them the application of a list of operations: the update that completes the approvals of a proposal runs its operations.
  Nothing in that code bounds the recursion, so \<open>run_operations\<close> is a partial function, whose value is \<open>None\<close> where the
  code does not return; it ends all the same, because no update of a proposal can be proposed, and that is proved here, with
  what operations keep of the ledger.\<close>

section \<open>The evaluators\<close>

definition account_active :: "chain_db \<Rightarrow> nat \<Rightarrow> authority option" where
  "account_active d i = (if i < length (accounts d) then Some (active (accounts d ! i)) else None)"

definition account_owner :: "chain_db \<Rightarrow> nat \<Rightarrow> authority option" where
  "account_owner d i = (if i < length (accounts d) then Some (owner (accounts d ! i)) else None)"

definition is_authorized_to_execute :: "exec_env \<Rightarrow> proposal_object \<Rightarrow> ledger \<Rightarrow> bool" where
  "is_authorized_to_execute E p l \<longleftrightarrow>
     verify_authority operation_auths (cr_addresses (en_crypto E)) (proposed_operations p) (available_key_approvals p)
       (account_active (ldb l)) (account_owner (ldb l)) (max_authority_depth (parameters (gpo (bstate l)))) True
       (available_active_approvals p) (available_owner_approvals p) = Inr ()"

text \<open>The check of a new proposal collects active and owner authorities in one set.\<close>

definition committee_review :: "chain_parameters \<Rightarrow> chain_operation proposal_create_operation \<Rightarrow> unit result" where
  "committee_review cp op =
     (let r = get_required_authorities operation_auths (pc_proposed_ops op) in
      ensure (length (req_other r) = 0) (
      if GRAPHENE_COMMITTEE_ACCOUNT \<in> set (req_active r) \<union> set (req_owner r) then
        (case pc_review_period_seconds op of None \<Rightarrow> Inl Assert_exception
         | Some t \<Rightarrow> ensure (t \<ge> committee_proposal_review_period cp) (Inr ()))
      else Inr ()))"

definition proposal_create_do_evaluate :: "chain_operation proposal_create_operation \<Rightarrow> ledger \<Rightarrow> unit result" where
  "proposal_create_do_evaluate op l =
     (let now = head_block_time (ldb l); cp = parameters (gpo (bstate l)) in
      ensure (now < HARDFORK_1_TIME) (
      ensure (pc_expiration_time op > now) (
      ensure (pc_expiration_time op \<le> (now + maximum_proposal_lifetime cp) mod 2 ^ 32) (
      ensure (case pc_review_period_seconds op of None \<Rightarrow> True | Some t \<Rightarrow> int t < int (pc_expiration_time op) - int now) (
      rbind (committee_review cp op) (\<lambda>_.
      transaction_validate chain_operation_validate (pc_proposed_ops op)))))))"

definition new_proposal :: "chain_operation proposal_create_operation \<Rightarrow> proposal_object" where
  "new_proposal op =
     (let r = get_required_authorities operation_auths (pc_proposed_ops op) in
      \<lparr> pr_expiration_time = pc_expiration_time op,
        review_period_time = map_option (\<lambda>t. nat ((int (pc_expiration_time op) - int t) mod 2 ^ 32)) (pc_review_period_seconds op),
        proposed_operations = pc_proposed_ops op,
        required_active_approvals = filter (\<lambda>a. a \<notin> set (req_owner r)) (req_active r), available_active_approvals = [],
        required_owner_approvals = req_owner r, available_owner_approvals = [], available_key_approvals = [] \<rparr>)"

definition proposal_create_do_apply :: "chain_operation proposal_create_operation \<Rightarrow> ledger \<Rightarrow> ledger result" where
  "proposal_create_do_apply op l =
     Inr (l\<lparr> proposals := proposals l @ [(next_proposal l, new_proposal op)], next_proposal := next_proposal l + 1 \<rparr>)"

definition proposal_update_do_evaluate :: "proposal_update_operation \<Rightarrow> ledger \<Rightarrow> unit result" where
  "proposal_update_do_evaluate op l =
     ensure (head_block_time (ldb l) < HARDFORK_1_TIME) (
     rbind (deref (map_of (proposals l) (pu_proposal op))) (\<lambda>p.
     ensure (case review_period_time p of None \<Rightarrow> True | Some t \<Rightarrow> head_block_time (ldb l) \<ge> t \<longrightarrow>
       active_approvals_to_add op = [] \<and> owner_approvals_to_add op = []) (
     ensure (list_all (\<lambda>a. a \<in> set (available_active_approvals p)) (active_approvals_to_remove op)) (
     ensure (list_all (\<lambda>a. a \<in> set (available_owner_approvals p)) (owner_approvals_to_remove op)) (Inr ())))))"

definition change_set :: "nat list \<Rightarrow> nat list \<Rightarrow> nat list \<Rightarrow> nat list" where
  "change_set add del xs = filter (\<lambda>a. a \<notin> set del) (fold insort_insert add xs)"

definition update_approvals :: "proposal_update_operation \<Rightarrow> proposal_object \<Rightarrow> proposal_object" where
  "update_approvals op p = p\<lparr>
     available_active_approvals := change_set (active_approvals_to_add op) (active_approvals_to_remove op) (available_active_approvals p),
     available_owner_approvals := change_set (owner_approvals_to_add op) (owner_approvals_to_remove op) (available_owner_approvals p),
     available_key_approvals := change_set (key_approvals_to_add op) (key_approvals_to_remove op) (available_key_approvals p) \<rparr>"

definition update_proposal :: "proposal_update_operation \<Rightarrow> ledger \<Rightarrow> ledger result" where
  "update_proposal op l =
     rbind (deref (map_of (proposals l) (pu_proposal op))) (\<lambda>p.
     Inr (l\<lparr> proposals := AList.update (pu_proposal op) (update_approvals op p) (proposals l) \<rparr>))"

definition proposal_delete_do_evaluate :: "proposal_delete_operation \<Rightarrow> ledger \<Rightarrow> unit result" where
  "proposal_delete_do_evaluate op l =
     ensure (head_block_time (ldb l) < HARDFORK_1_TIME) (
     rbind (deref (map_of (proposals l) (pd_proposal op))) (\<lambda>p.
     ensure (pd_fee_paying_account op \<in> set (if pd_using_owner_authority op then required_owner_approvals p else required_active_approvals p)) (Inr ())))"

definition remove_proposal :: "nat \<Rightarrow> ledger \<Rightarrow> ledger result" where
  "remove_proposal pid l =
     throw_unless Undefined_behaviour (pid \<in> fst ` set (proposals l)) (Inr (l\<lparr> proposals := filter (\<lambda>q. fst q \<noteq> pid) (proposals l) \<rparr>))"

section \<open>Running operations\<close>

fun begin_operation :: "exec_env \<Rightarrow> bool \<Rightarrow> chain_operation \<Rightarrow> ledger \<Rightarrow> ledger result" where
  "begin_operation E prop (Ledger_op o1) l =
     rbind (apply_operation (en_safe E) (context_of E l) fresh_eval_state (\<lambda>o2. required_fee E (Ledger_op o2) l) o1 (ldb l)) (\<lambda>d. Inr (with_db l d))"
| "begin_operation E prop (Limit_order_create_op o1) l =
     rbind (apply_limit_order_create (en_safe E) fresh_eval_state (required_fee E (Limit_order_create_op o1) l) o1 (ldb l)) (\<lambda>(_, d). Inr (with_db l d))"
| "begin_operation E prop (Asset_create_op o1) l =
     rbind (apply_asset_create (en_safe E) fresh_eval_state (parameters (gpo (bstate l))) (required_fee E (Asset_create_op o1) l) o1 (ldb l)) (\<lambda>(_, d). Inr (with_db l d))"
| "begin_operation E prop (Account_create_op o1) l =
     begin_with E (Account_create_op o1) (\<lambda>l. account_create_do_evaluate (parameters (gpo (bstate l))) o1 (ldb l))
       (\<lambda>l. rbind (account_create_do_apply o1 (bstate l)) (\<lambda>(_, s). Inr (l\<lparr> bstate := s \<rparr>))) l"
| "begin_operation E prop (Witness_create_op o1) l = begin_with E (Witness_create_op o1) (witness_create_do_evaluate o1) (witness_create_do_apply o1) l"
| "begin_operation E prop (Witness_update_op o1) l = begin_with E (Witness_update_op o1) (witness_update_do_evaluate o1) (witness_update_do_apply o1) l"
| "begin_operation E prop (Committee_member_create_op o1) l =
     begin_with E (Committee_member_create_op o1) (committee_member_create_do_evaluate o1) (committee_member_create_do_apply o1) l"
| "begin_operation E prop (Committee_member_update_op o1) l =
     begin_with E (Committee_member_update_op o1) (committee_member_update_do_evaluate o1) (committee_member_update_do_apply o1) l"
| "begin_operation E prop (Update_global_parameters_op o1) l =
     begin_with E (Update_global_parameters_op o1) (update_global_parameters_do_evaluate prop o1) (update_global_parameters_do_apply o1) l"
| "begin_operation E prop (Assert_op o1) l = begin_with E (Assert_op o1) (assert_do_evaluate (en_skip E) o1) Inr l"
| "begin_operation E prop (Proposal_create_op o1) l = begin_with E (Proposal_create_op o1) (proposal_create_do_evaluate o1) (proposal_create_do_apply o1) l"
| "begin_operation E prop (Proposal_update_op o1) l = begin_with E (Proposal_update_op o1) (proposal_update_do_evaluate o1) (update_proposal o1) l"
| "begin_operation E prop (Proposal_delete_op o1) l =
     begin_with E (Proposal_delete_op o1) (proposal_delete_do_evaluate o1) (remove_proposal (pd_proposal o1)) l"

fun pays_after :: "chain_operation \<Rightarrow> bool" where
  "pays_after (Ledger_op o1) = False"
| "pays_after (Limit_order_create_op o1) = False"
| "pays_after (Asset_create_op o1) = False"
| "pays_after _ = True"

definition finish_operation :: "exec_env \<Rightarrow> chain_operation \<Rightarrow> ledger \<Rightarrow> ledger result" where
  "finish_operation E op l = (if pays_after op then deduct_fee E op l else Inr l)"

text \<open>The proposal that an update has just completed; one with a review period runs only when it expires.\<close>

definition completed_proposal :: "exec_env \<Rightarrow> chain_operation \<Rightarrow> ledger \<Rightarrow> (nat \<times> proposal_object) option" where
  "completed_proposal E op l =
     (case op of Proposal_update_op o1 \<Rightarrow>
        (case map_of (proposals l) (pu_proposal o1) of None \<Rightarrow> None
         | Some p \<Rightarrow> if review_period_time p = None \<and> is_authorized_to_execute E p l then Some (pu_proposal o1, p) else None)
      | _ \<Rightarrow> None)"

text \<open>After the operations of a proposal it is removed; an exception leaves the state as it was before them.  A proposal that
  has removed itself is read after it was freed.\<close>

definition settle_proposal :: "nat \<Rightarrow> ledger result \<Rightarrow> ledger result" where
  "settle_proposal pid r = rbind r (remove_proposal pid)"

definition or_restore :: "ledger \<Rightarrow> ledger result \<Rightarrow> ledger result" where
  "or_restore l r = (case r of Inr l1 \<Rightarrow> Inr l1 | Inl e \<Rightarrow> if e = Undefined_behaviour then Inl e else Inr l)"

partial_function (option) run_operations :: "exec_env \<Rightarrow> bool \<Rightarrow> chain_operation list \<Rightarrow> ledger \<Rightarrow> ledger result option" where
  "run_operations E prop ops l =
     (case ops of [] \<Rightarrow> Some (Inr l)
      | op # rest \<Rightarrow>
         (case begin_operation E prop op l of Inl e \<Rightarrow> Some (Inl e)
          | Inr l1 \<Rightarrow>
             (case completed_proposal E op l1 of
                None \<Rightarrow> (case finish_operation E op l1 of Inl e \<Rightarrow> Some (Inl e) | Inr l2 \<Rightarrow> run_operations E prop rest l2)
              | Some (pid, p) \<Rightarrow>
                  Option.bind (run_operations E True (proposed_operations p) l1) (\<lambda>r.
                  (case rbind (or_restore l1 (settle_proposal pid r)) (finish_operation E op) of Inl e \<Rightarrow> Some (Inl e)
                   | Inr l2 \<Rightarrow> run_operations E prop rest l2)))))"

definition push_proposal :: "exec_env \<Rightarrow> nat \<Rightarrow> proposal_object \<Rightarrow> ledger \<Rightarrow> ledger result option" where
  "push_proposal E pid p l = map_option (settle_proposal pid) (run_operations E True (proposed_operations p) l)"

text \<open>When its time is over a proposal runs if it has been approved, and is removed in any case.\<close>

definition proposal_expires_before :: "nat \<times> proposal_object \<Rightarrow> nat \<times> proposal_object \<Rightarrow> bool" where
  "proposal_expires_before a b \<longleftrightarrow> pr_expiration_time (snd a) < pr_expiration_time (snd b)"

definition first_expiring_proposal :: "ledger \<Rightarrow> (nat \<times> proposal_object) option" where
  "first_expiring_proposal l = (case sort_by proposal_expires_before (proposals l) of [] \<Rightarrow> None | p # _ \<Rightarrow> Some p)"

definition expire_proposal :: "exec_env \<Rightarrow> nat \<Rightarrow> proposal_object \<Rightarrow> ledger \<Rightarrow> ledger result option" where
  "expire_proposal E pid p l =
     (if is_authorized_to_execute E p l
      then map_option (\<lambda>r. case r of Inr l1 \<Rightarrow> Inr l1 | Inl e \<Rightarrow> if e = Undefined_behaviour then Inl e else remove_proposal pid l) (push_proposal E pid p l)
      else Some (remove_proposal pid l))"

partial_function (option) clear_expired_proposals :: "exec_env \<Rightarrow> ledger \<Rightarrow> ledger result option" where
  "clear_expired_proposals E l =
     (case first_expiring_proposal l of None \<Rightarrow> Some (Inr l)
      | Some (pid, p) \<Rightarrow>
          if pr_expiration_time p \<le> head_block_time (ldb l) then
            (case expire_proposal E pid p l of None \<Rightarrow> None | Some (Inl e) \<Rightarrow> Some (Inl e)
             | Some (Inr l1) \<Rightarrow> clear_expired_proposals E l1)
          else Some (Inr l))"

section \<open>What running operations keeps\<close>

text \<open>A change of the ledger that may add accounts, and what no operation touches of the rest.\<close>

definition grows_by :: "(nat \<Rightarrow> int) \<Rightarrow> chain_db \<Rightarrow> chain_db \<Rightarrow> bool" where
  "grows_by g d d' \<longleftrightarrow> market_wf d' \<and> length (accounts d) \<le> length (accounts d') \<and> same_frame d d' \<and> (\<forall>x. net d' x = net d x + g x)"

definition same_chain :: "ledger \<Rightarrow> ledger \<Rightarrow> bool" where
  "same_chain l l' \<longleftrightarrow> immutable l' = immutable l \<and> budgets l' = budgets l \<and> buffers l' = buffers l \<and> trx_index l' = trx_index l \<and>
     block_summaries l' = block_summaries l \<and> checkpoints l' = checkpoints l \<and>
     current_shuffled_witnesses (bstate l') = current_shuffled_witnesses (bstate l) \<and>
     (\<exists>n. dgp (bstate l') = (dgp (bstate l))\<lparr> accounts_registered_this_interval := n \<rparr>)"

text \<open>Proposed operations are valid and need no further authority; an update of a proposal always does, so none is proposed.\<close>

definition proposable :: "chain_operation list \<Rightarrow> bool" where
  "proposable ops \<longleftrightarrow> list_all (\<lambda>op. chain_operation_validate op = Inr ()) ops \<and> list_all (\<lambda>op. required_other op = []) ops"

definition proposals_ok :: "ledger \<Rightarrow> bool" where
  "proposals_ok l \<longleftrightarrow> (\<forall>q\<in>set (proposals l). proposable (proposed_operations (snd q)))"

text \<open>The proposals whose time is over.\<close>

definition due_ids :: "ledger \<Rightarrow> nat set" where
  "due_ids l = fst ` {q \<in> set (proposals l). pr_expiration_time (snd q) \<le> head_block_time (ldb l)}"

definition runs_to :: "(nat \<Rightarrow> int) \<Rightarrow> ledger \<Rightarrow> ledger \<Rightarrow> bool" where
  "runs_to g l l' \<longleftrightarrow> grows_by g (ldb l) (ldb l') \<and> same_chain l l' \<and> proposals_ok l' \<and> due_ids l' \<subseteq> due_ids l"

lemma moves_grows: "moves g d d' \<Longrightarrow> grows_by g d d'"
  by (simp add: moves_def grows_by_def)

lemma conserves_grows: "conserves d d' \<Longrightarrow> grows_by (\<lambda>_. 0) d d'"
  by (simp add: conserves_moves moves_grows)

lemma same_chain_refl [simp]: "same_chain l l"
  by (auto simp: same_chain_def intro!: exI [of _ "accounts_registered_this_interval (dgp (bstate l))"])

lemma same_chain_trans: "same_chain l l1 \<Longrightarrow> same_chain l1 l2 \<Longrightarrow> same_chain l l2"
  by (auto simp: same_chain_def)

lemma grows_trans: "grows_by g d d1 \<Longrightarrow> grows_by h d1 d2 \<Longrightarrow> grows_by (\<lambda>x. g x + h x) d d2"
  by (simp add: grows_by_def same_frame_def)

lemma grows_cong: "grows_by g d d' \<Longrightarrow> (\<And>x. g x = h x) \<Longrightarrow> grows_by h d d'"
  by (simp add: grows_by_def)

lemma runs_trans: "runs_to g l l1 \<Longrightarrow> runs_to h l1 l2 \<Longrightarrow> runs_to (\<lambda>x. g x + h x) l l2"
  by (auto simp: runs_to_def intro: grows_trans same_chain_trans)

lemma runs_cong: "runs_to g l l' \<Longrightarrow> (\<And>x. g x = h x) \<Longrightarrow> runs_to h l l'"
  by (auto simp: runs_to_def intro: grows_cong)

lemma runs_refl: "market_wf (ldb l) \<Longrightarrow> proposals_ok l \<Longrightarrow> runs_to (\<lambda>_. 0) l l"
  by (simp add: runs_to_def grows_by_def same_frame_def)

lemma runs_wf: "runs_to g l l' \<Longrightarrow> market_wf (ldb l')" "runs_to g l l' \<Longrightarrow> proposals_ok l'"
  by (simp_all add: runs_to_def grows_by_def)

lemma runs_db:
  assumes "grows_by g (ldb l) d" "proposals_ok l"
  shows "runs_to g l (with_db l d)"
  using assms by (auto simp: runs_to_def proposals_ok_def same_chain_def due_ids_def grows_by_def same_frame_def intro!: exI [of _ "accounts_registered_this_interval (dgp (bstate l))"])

text \<open>A new account owns nothing.\<close>

lemma set_buyback_conserves:
  assumes w: "market_wf d" and i: "i < length (assets d)" and n: "n < length (accounts d)"
  shows "conserves d (d\<lparr> assets := (assets d)[i := (assets d ! i)\<lparr> buyback_account := Some n \<rparr>] \<rparr>)"
proof -
  let ?as = "(assets d)[i := (assets d ! i)\<lparr> buyback_account := Some n \<rparr>]"
  have f: "bitasset_data_id (?as ! x) = bitasset_data_id (assets d ! x)" "dynamic_asset_data_id (?as ! x) = dynamic_asset_data_id (assets d ! x)"
    "options (?as ! x) = options (assets d ! x)" for x using i by (cases "x = i"; simp)+
  have s: "settled_ok ?as (bitassets d) = settled_ok (assets d) (bitassets d)" by (simp add: settled_ok_def f)
  have b: "\<forall>b\<in>set ?as. \<forall>j. buyback_account b = Some j \<longrightarrow> j < length (accounts d)"
    using w n set_update_subset_insert [of "assets d" i "(assets d ! i)\<lparr> buyback_account := Some n \<rparr>"] unfolding market_wf_def by fastforce
  have "market_wf (d\<lparr> assets := ?as \<rparr>)" using w s b by (simp add: market_wf_def f)
  then show ?thesis
    by (rule moves_zero) (simp_all add: same_frame_def bal_def get_balance_def fun_eq_iff map_update list_update_same_conv i)
qed

lemma add_account_grows:
  assumes w: "market_wf d"
  shows "grows_by (\<lambda>_. 0) d (add_account op a d)"
proof -
  have o: "balances_owned (length (accounts d)) (balances d)" using w by (simp add: market_wf_def)
  have z: "bal d (length (accounts d)) x = 0" for x using o by (auto simp: bal_def get_balance_def balances_owned_def split: option.splits)
  have b: "bal (add_account op a d) = bal d" by (rule bal_cong) (simp add: add_account_def)
  have "gross (add_account op a d) x = gross d x" "supply_of (add_account op a d) x = supply_of d x" for x unfolding gross_def supply_of_def dyn_of_def b
    by (simp_all add: add_account_def new_statistics_def stat_worth_def z)
  moreover have "market_wf (add_account op a d)"
  proof -
    have "\<forall>p\<in>set (settlements d). fst p < next_settlement d \<and> fs_owner (snd p) < Suc (length (accounts d))"
      "\<forall>p\<in>set (withdraw_permissions d). wp_withdraw_from_account (snd p) < Suc (length (accounts d))"
      "\<forall>a\<in>set (assets d). \<forall>i. buyback_account a = Some i \<longrightarrow> i < Suc (length (accounts d))"
      using w unfolding market_wf_def by (blast intro: less_SucI)+
    then show ?thesis using w balances_owned_mono [OF o, of "Suc (length (accounts d))"] unfolding market_wf_def by (simp add: add_account_def)
  qed
  ultimately show ?thesis by (simp add: grows_by_def same_frame_def net_def add_account_def)
qed

lemma register_buyback_conserves:
  assumes "register_buyback n b d = Inr d'" "market_wf d" "n < length (accounts d)"
  shows "conserves d d'"
proof -
  from assms(1) have x: "asset_to_buy b < length (assets d)"
    and d': "d' = d\<lparr> assets := (assets d)[asset_to_buy b := (assets d ! asset_to_buy b)\<lparr> buyback_account := Some n \<rparr>] \<rparr>\<lparr> buybacks := buybacks d @ [asset_to_buy b] \<rparr>"
    by (auto simp: register_buyback_def modify_obj_def get_obj_def split: if_splits)
  note c = set_buyback_conserves [OF assms(2) x assms(3)]
  show ?thesis unfolding d' by (rule conserves_trans [OF c], rule moves_zero)
    (use c in \<open>simp_all add: conserves_def market_wf_def same_frame_def bal_def get_balance_def fun_eq_iff\<close>)
qed

lemma account_create_grows:
  assumes "account_create_do_apply op s = Inr (i, s')" "market_wf (cdb s)"
  shows "grows_by (\<lambda>_. 0) (cdb s) (cdb s')" "current_shuffled_witnesses s' = current_shuffled_witnesses s"
    "\<exists>n. dgp s' = (dgp s)\<lparr> accounts_registered_this_interval := n \<rparr>"
proof -
  from assms(1) obtain a d2 where b: "(case cr_buyback_options op of None \<Rightarrow> Inr (add_account op a (cdb s))
      | Some b \<Rightarrow> register_buyback (length (accounts (cdb s))) b (add_account op a (cdb s))) = Inr d2" and d': "cdb s' = d2"
    unfolding account_create_do_apply_def Let_def by auto
  have r: "current_shuffled_witnesses s' = current_shuffled_witnesses s" "\<exists>n. dgp s' = (dgp s)\<lparr> accounts_registered_this_interval := n \<rparr>"
    using assms(1) unfolding account_create_do_apply_def Let_def by auto
  show "current_shuffled_witnesses s' = current_shuffled_witnesses s" "\<exists>n. dgp s' = (dgp s)\<lparr> accounts_registered_this_interval := n \<rparr>" by (fact r)+
  note g = add_account_grows [OF assms(2), of op a]
  have w: "market_wf (add_account op a (cdb s))" "length (accounts (cdb s)) < length (accounts (add_account op a (cdb s)))"
    using g by (simp_all add: grows_by_def add_account_def)
  show "grows_by (\<lambda>_. 0) (cdb s) (cdb s')"
  proof (cases "cr_buyback_options op")
    case None
    with b g show ?thesis by (simp add: d')
  next
    case (Some o1)
    with b have "register_buyback (length (accounts (cdb s))) o1 (add_account op a (cdb s)) = Inr d2" by simp
    from grows_trans [OF g conserves_grows [OF register_buyback_conserves [OF this w]]] show ?thesis by (simp add: d')
  qed
qed

subsection \<open>One operation\<close>

lemma runs_same_db:
  assumes "market_wf (ldb l)" "ldb l' = ldb l" "same_chain l l'" "proposals_ok l'" "due_ids l' \<subseteq> due_ids l"
  shows "runs_to (\<lambda>_. 0) l l'"
  using assms by (simp add: runs_to_def grows_by_def same_frame_def)

lemma same_chainI:
  assumes "dgp (bstate l') = dgp (bstate l)" "current_shuffled_witnesses (bstate l') = current_shuffled_witnesses (bstate l)"
    "immutable l' = immutable l" "budgets l' = budgets l" "buffers l' = buffers l" "trx_index l' = trx_index l"
    "block_summaries l' = block_summaries l" "checkpoints l' = checkpoints l"
  shows "same_chain l l'"
  using assms by (auto simp: same_chain_def intro!: exI [of _ "accounts_registered_this_interval (dgp (bstate l))"])

definition due :: "chain_operation \<Rightarrow> nat \<Rightarrow> int" where
  "due op = (if pays_after op then amt_at (asset_id (chain_operation_fee op)) (amount (chain_operation_fee op)) else (\<lambda>_. 0))"

lemma begin_with_runs:
  assumes S: "fc_safe (en_safe E)" and r: "begin_with E op check act l = Inr l1" and w: "market_wf (ldb l)" "proposals_ok l"
    and act: "\<And>l2. market_wf (ldb l2) \<Longrightarrow> proposals_ok l2 \<Longrightarrow> check l = Inr () \<Longrightarrow> head_block_time (ldb l2) = head_block_time (ldb l) \<Longrightarrow>
      act l2 = Inr l1 \<Longrightarrow> runs_to (\<lambda>_. 0) l2 l1"
  shows "runs_to (amt_at (asset_id (chain_operation_fee op)) (amount (chain_operation_fee op))) l l1 \<and>
    chain_operation_fee_payer op < length (accounts (ldb l1))"
proof -
  from r obtain core d1 d2 where p: "prepare_fee (chain_operation_fee_payer op) (chain_operation_fee op) (ldb l) = Inr core" and ch: "check l = Inr ()"
    and c: "convert_fee (en_safe E) fresh_eval_state (chain_operation_fee op) core (ldb l) = Inr d1"
    and pf: "pay_fee (en_safe E) fresh_eval_state (chain_operation_fee_payer op) core d1 = Inr d2" and a: "act (with_db l d2) = Inr l1"
    by (auto simp: begin_with_def evaluate_def)
  note f = fc_safe.fee_path [OF S p c pf w(1)]
  have "\<not> skip_fee fresh_eval_state" by (simp add: fresh_eval_state_def)
  note f = f [OF this]
  have r2: "runs_to (amt_at (asset_id (chain_operation_fee op)) (amount (chain_operation_fee op))) l (with_db l d2)"
    by (rule runs_db [OF moves_grows [OF f(1)] w(2)])
  have "head_block_time d2 = head_block_time (ldb l)" using r2 by (simp add: runs_to_def grows_by_def same_frame_def)
  then have r1: "runs_to (\<lambda>_. 0) (with_db l d2) l1" by (intro act [OF runs_wf [OF r2] ch _ a]) simp
  have "length (accounts d2) \<le> length (accounts (ldb l1))" using r1 by (simp add: runs_to_def grows_by_def)
  with f(3) runs_cong [OF runs_trans [OF r2 r1]] show ?thesis by simp
qed

lemma list_all_proposals: "proposals_ok l \<Longrightarrow> q \<in> set (proposals l) \<Longrightarrow> list_all (\<lambda>op. chain_operation_validate op = Inr ()) (proposed_operations (snd q))"
  by (simp add: proposals_ok_def proposable_def)

lemma rfold_unit_all: "rfold (\<lambda>x _. f x) xs () = Inr () \<longleftrightarrow> list_all (\<lambda>x. f x = Inr ()) xs"
  by (induction xs) auto

lemma transaction_validate_all: "transaction_validate f ops = Inr () \<Longrightarrow> list_all (\<lambda>op. f op = Inr ()) ops"
  by (simp add: transaction_validate_def rfold_unit_all)

lemma governance_runs:
  assumes "market_wf (ldb l)" "proposals_ok l"
  shows "witness_create_do_apply o1 l = Inr l1 \<Longrightarrow> runs_to (\<lambda>_. 0) l l1"
    "witness_update_do_apply o2 l = Inr l1 \<Longrightarrow> runs_to (\<lambda>_. 0) l l1"
    "committee_member_create_do_apply o3 l = Inr l1 \<Longrightarrow> runs_to (\<lambda>_. 0) l l1"
    "committee_member_update_do_apply o4 l = Inr l1 \<Longrightarrow> runs_to (\<lambda>_. 0) l l1"
    "update_global_parameters_do_apply o5 l = Inr l1 \<Longrightarrow> runs_to (\<lambda>_. 0) l l1"
  using assms
  by (auto simp: witness_create_do_apply_def witness_update_do_apply_def committee_member_create_do_apply_def committee_member_update_do_apply_def
      update_global_parameters_do_apply_def get_next_vote_id_def Let_def proposals_ok_def due_ids_def intro!: runs_same_db same_chainI)

lemma get_required_other: "req_other (get_required_authorities v ops) = concat (map (op_other v) ops)"
proof -
  have "req_other (fold (operation_get_required_authorities v) ops r) = req_other r @ concat (map (op_other v) ops)" for r
    by (induction ops arbitrary: r) (auto simp: operation_get_required_authorities_def)
  then show ?thesis by (simp add: get_required_authorities_def)
qed

lemma proposal_create_checked:
  assumes "proposal_create_do_evaluate op l = Inr ()"
  shows "proposable (pc_proposed_ops op)" "head_block_time (ldb l) < pc_expiration_time op"
proof -
  from assms have "transaction_validate chain_operation_validate (pc_proposed_ops op) = Inr ()" "committee_review (parameters (gpo (bstate l))) op = Inr ()"
    by (auto simp: proposal_create_do_evaluate_def Let_def)
  then show "proposable (pc_proposed_ops op)"
    by (auto simp: proposable_def committee_review_def Let_def get_required_other operation_auths_def list_all_iff dest: transaction_validate_all)
  show "head_block_time (ldb l) < pc_expiration_time op" using assms by (auto simp: proposal_create_do_evaluate_def Let_def)
qed

lemma proposal_runs:
  assumes w: "market_wf (ldb l)" "proposals_ok l"
  shows "proposable (pc_proposed_ops o1) \<Longrightarrow> head_block_time (ldb l) < pc_expiration_time o1 \<Longrightarrow> proposal_create_do_apply o1 l = Inr l1 \<Longrightarrow> runs_to (\<lambda>_. 0) l l1"
    "update_proposal o2 l = Inr l1 \<Longrightarrow> runs_to (\<lambda>_. 0) l l1"
    "remove_proposal pid l = Inr l1 \<Longrightarrow> runs_to (\<lambda>_. 0) l l1"
proof -
  assume "proposable (pc_proposed_ops o1)" "head_block_time (ldb l) < pc_expiration_time o1" "proposal_create_do_apply o1 l = Inr l1"
  then show "runs_to (\<lambda>_. 0) l l1" using w
    by (auto simp: proposal_create_do_apply_def proposals_ok_def due_ids_def new_proposal_def Let_def intro!: runs_same_db same_chainI)
next
  assume u: "update_proposal o2 l = Inr l1"
  then obtain p where p: "map_of (proposals l) (pu_proposal o2) = Some p"
    and l1: "l1 = l\<lparr> proposals := AList.update (pu_proposal o2) (update_approvals o2 p) (proposals l) \<rparr>" by (auto simp: update_proposal_def)
  have "set (AList.update (pu_proposal o2) (update_approvals o2 p) xs) \<subseteq> insert (pu_proposal o2, update_approvals o2 p) (set xs)" for xs
    by (induction xs) auto
  then have s: "set (proposals l1) \<subseteq> insert (pu_proposal o2, update_approvals o2 p) (set (proposals l))" by (simp add: l1)
  then have "proposals_ok l1" using w(2) map_of_SomeD [OF p] by (fastforce simp: proposals_ok_def l1 update_approvals_def)
  moreover have "due_ids l1 \<subseteq> due_ids l" 
  proof
    fix i assume "i \<in> due_ids l1"
    then obtain q where q: "(i, q) \<in> set (proposals l1)" "pr_expiration_time q \<le> head_block_time (ldb l)" by (auto simp: due_ids_def l1)
    with s have "(i, q) \<in> set (proposals l) \<or> i = pu_proposal o2 \<and> pr_expiration_time q = pr_expiration_time p" by (auto simp: update_approvals_def)
    then show "i \<in> due_ids l" using q(2) map_of_SomeD [OF p] by (force simp: due_ids_def)
  qed
  ultimately show "runs_to (\<lambda>_. 0) l l1" using w(1) by (auto simp: l1 intro!: runs_same_db same_chainI)
next
  assume "remove_proposal pid l = Inr l1"
  then show "runs_to (\<lambda>_. 0) l l1" using w
    by (auto simp: remove_proposal_def proposals_ok_def due_ids_def intro!: runs_same_db same_chainI)
qed

lemma account_create_runs:
  assumes "rbind (account_create_do_apply o1 (bstate l)) (\<lambda>(_, s). Inr (l\<lparr> bstate := s \<rparr>)) = Inr l1" "market_wf (ldb l)" "proposals_ok l"
  shows "runs_to (\<lambda>_. 0) l l1"
proof -
  from assms(1) obtain i s where c: "account_create_do_apply o1 (bstate l) = Inr (i, s)" "l1 = l\<lparr> bstate := s \<rparr>" by auto
  note g = account_create_grows [OF c(1) assms(2)]
  have "head_block_time (cdb s) = head_block_time (ldb l)" using g(1) by (simp add: grows_by_def same_frame_def)
  then have "due_ids l1 = due_ids l" by (simp add: due_ids_def c(2))
  moreover have "same_chain l l1" using g(2,3) by (simp add: same_chain_def c(2))
  ultimately show ?thesis using g(1) assms(3) by (simp add: runs_to_def c(2) proposals_ok_def)
qed

lemma begin_operation_runs:
  assumes S: "fc_safe (en_safe E)" and r: "begin_operation E prop op l = Inr l1" and v: "chain_operation_validate op = Inr ()"
    and w: "market_wf (ldb l)" "proposals_ok l"
  shows "runs_to (due op) l l1 \<and> (pays_after op \<longrightarrow> chain_operation_fee_payer op < length (accounts (ldb l1)))"
proof (cases op)
  case (Ledger_op o1)
  with r obtain d where d: "apply_operation (en_safe E) (context_of E l) fresh_eval_state (\<lambda>o2. required_fee E (Ledger_op o2) l) o1 (ldb l) = Inr d" "l1 = with_db l d"
    by auto
  have "conserves (ldb l) d"
    by (rule ops.start_evaluate_conserves [OF S d(1) [unfolded apply_operation_def] w(1)]) (use v Ledger_op in \<open>simp_all add: fresh_eval_state_def\<close>)
  from runs_db [OF conserves_grows [OF this] w(2)] show ?thesis by (simp add: d(2) due_def Ledger_op)
next
  case (Limit_order_create_op o1)
  then show ?thesis using r by (auto simp: apply_limit_order_create_def evaluate_def limit_order_create_do_evaluate_def)
next
  case (Asset_create_op o1)
  then show ?thesis using r by (auto simp: apply_asset_create_def asset_create_do_evaluate_def)
next
  case (Account_create_op o1)
  note b = begin_with_runs [OF S r [unfolded Account_create_op begin_operation.simps] w account_create_runs]
  show ?thesis using b by (simp add: Account_create_op due_def)
next
  case (Witness_create_op o1)
  note b = begin_with_runs [OF S r [unfolded Witness_create_op begin_operation.simps] w governance_runs(1)]
  show ?thesis using b by (simp add: Witness_create_op due_def)
next
  case (Witness_update_op o1)
  note b = begin_with_runs [OF S r [unfolded Witness_update_op begin_operation.simps] w governance_runs(2)]
  show ?thesis using b by (simp add: Witness_update_op due_def)
next
  case (Committee_member_create_op o1)
  note b = begin_with_runs [OF S r [unfolded Committee_member_create_op begin_operation.simps] w governance_runs(3)]
  show ?thesis using b by (simp add: Committee_member_create_op due_def)
next
  case (Committee_member_update_op o1)
  note b = begin_with_runs [OF S r [unfolded Committee_member_update_op begin_operation.simps] w governance_runs(4)]
  show ?thesis using b by (simp add: Committee_member_update_op due_def)
next
  case (Update_global_parameters_op o1)
  note b = begin_with_runs [OF S r [unfolded Update_global_parameters_op begin_operation.simps] w governance_runs(5)]
  show ?thesis using b by (simp add: Update_global_parameters_op due_def)
next
  case (Assert_op o1)
  have "runs_to (\<lambda>_. 0) l2 l1" if "market_wf (ldb l2)" "proposals_ok l2" "Inr l2 = Inr l1" for l2 using that runs_refl by auto
  note b = begin_with_runs [OF S r [unfolded Assert_op begin_operation.simps] w this]
  show ?thesis using b by (simp add: Assert_op due_def)
next
  case (Proposal_create_op o1)
  have "runs_to (\<lambda>_. 0) l2 l1" if "market_wf (ldb l2)" "proposals_ok l2" "proposal_create_do_evaluate o1 l = Inr ()"
      "head_block_time (ldb l2) = head_block_time (ldb l)" "proposal_create_do_apply o1 l2 = Inr l1" for l2
    by (rule proposal_runs(1) [OF that(1,2) _ _ that(5)]) (use proposal_create_checked [OF that(3)] that(4) in simp_all)
  then have "runs_to (amt_at (asset_id (pc_fee o1)) (amount (pc_fee o1))) l l1 \<and> pc_fee_paying_account o1 < length (accounts (ldb l1))"
    using begin_with_runs [OF S r [unfolded Proposal_create_op begin_operation.simps] w] unfolding chain_operation_fee.simps chain_operation_fee_payer.simps by blast
  then show ?thesis unfolding Proposal_create_op due_def by simp
next
  case (Proposal_update_op o1)
  note b = begin_with_runs [OF S r [unfolded Proposal_update_op begin_operation.simps] w proposal_runs(2)]
  show ?thesis using b by (simp add: Proposal_update_op due_def)
next
  case (Proposal_delete_op o1)
  note b = begin_with_runs [OF S r [unfolded Proposal_delete_op begin_operation.simps] w proposal_runs(3)]
  show ?thesis using b by (simp add: Proposal_delete_op due_def)
qed

lemma finish_operation_runs:
  assumes S: "fc_safe (en_safe E)" and r: "finish_operation E op l = Inr l1" and w: "market_wf (ldb l)" "proposals_ok l"
    and p: "pays_after op \<longrightarrow> chain_operation_fee_payer op < length (accounts (ldb l))"
  shows "runs_to (\<lambda>x. - due op x) l l1"
proof (cases "pays_after op")
  case False
  with r w show ?thesis using runs_refl by (simp add: finish_operation_def due_def)
next
  case True
  with r obtain n d where n: "asset_neg (en_safe E) (chain_operation_fee op) = Inr n"
    and d: "adjust_balance (en_safe E) (chain_operation_fee_payer op) n (ldb l) = Inr d" "l1 = with_db l d" by (auto simp: finish_operation_def deduct_fee_def)
  from fc_safe.adjust_balance_moves [OF S d(1)] p True w(1) have "moves (amt_at (asset_id n) (amount n)) (ldb l) d" by simp
  from runs_db [OF moves_grows [OF this] w(2)] show ?thesis unfolding d(2)
    by (rule runs_cong) (use fc_safe.asset_neg_amounts [OF S n] True in \<open>simp add: due_def amt_at_def\<close>)
qed

subsection \<open>Lists of operations and proposals\<close>

lemma or_restore_cases: "or_restore l r = Inr l' \<Longrightarrow> r = Inr l' \<or> l' = l"
  by (auto simp: or_restore_def split: sum.splits if_splits)

lemma completed_proposal_valid:
  "completed_proposal E op l = Some (pid, p) \<Longrightarrow> proposals_ok l \<Longrightarrow> list_all (\<lambda>op. chain_operation_validate op = Inr ()) (proposed_operations p)"
  by (auto simp: completed_proposal_def split: chain_operation.splits option.splits if_splits dest!: map_of_SomeD dest: list_all_proposals)

lemma settle_runs:
  assumes "or_restore l (settle_proposal pid r) = Inr l2" "market_wf (ldb l)" "proposals_ok l"
    and "\<And>l1. r = Inr l1 \<Longrightarrow> runs_to (\<lambda>_. 0) l l1"
  shows "runs_to (\<lambda>_. 0) l l2"
  using or_restore_cases [OF assms(1)]
proof
  assume "settle_proposal pid r = Inr l2"
  then obtain l1 where l1: "r = Inr l1" "remove_proposal pid l1 = Inr l2" by (auto simp: settle_proposal_def)
  note k = assms(4) [OF l1(1)]
  from runs_trans [OF k proposal_runs(3) [OF runs_wf [OF k] l1(2)]] show ?thesis by simp
qed (use assms(2,3) in \<open>simp add: runs_refl\<close>)

lemma runs_accounts: "runs_to g l l' \<Longrightarrow> length (accounts (ldb l)) \<le> length (accounts (ldb l'))"
  by (simp add: runs_to_def grows_by_def)

lemma run_operations_runs:
  assumes S: "fc_safe (en_safe E)" and r: "run_operations E prop ops l = Some (Inr l')"
    and v: "list_all (\<lambda>op. chain_operation_validate op = Inr ()) ops" and w: "market_wf (ldb l)" "proposals_ok l"
  shows "runs_to (\<lambda>_. 0) l l'"
proof -
  define Q where "Q E (flag :: bool) ops l y \<longleftrightarrow> (\<forall>l'. fc_safe (en_safe E) \<longrightarrow> y = Inr l' \<longrightarrow> list_all (\<lambda>op. chain_operation_validate op = Inr ()) ops \<longrightarrow>
    market_wf (ldb l) \<longrightarrow> proposals_ok l \<longrightarrow> runs_to (\<lambda>_. 0) l l')" for E :: exec_env and flag ops l and y :: "ledger result"
  have "Q E prop ops l (Inr l')"
  proof (rule run_operations.raw_induct [of Q, OF _ r], unfold Q_def, intro allI impI, goal_cases)
    case (1 run E flag ops l y l')
    note body = 1(2) and S = 1(3) and y = 1(4) and v = 1(5) and w = 1(6,7)
    have IH: "runs_to (\<lambda>_. 0) m m'" if "run E flag ops m = Some (Inr m')" "list_all (\<lambda>op. chain_operation_validate op = Inr ()) ops" "market_wf (ldb m)" "proposals_ok m"
      for flag ops m m' using 1(1) [OF that(1)] S that(2-4) by blast
    show ?case
    proof (cases ops)
      case Nil
      then show ?thesis using body y w by (simp add: runs_refl)
    next
      case (Cons op rest)
      from body y Cons obtain l1 where b: "begin_operation E flag op l = Inr l1" by (auto split: sum.splits)
      have vo: "chain_operation_validate op = Inr ()" "list_all (\<lambda>op. chain_operation_validate op = Inr ()) rest" using v Cons by simp_all
      from begin_operation_runs [OF S b vo(1) w] have k1: "runs_to (due op) l l1" and p: "pays_after op \<longrightarrow> chain_operation_fee_payer op < length (accounts (ldb l1))" by simp_all
      show ?thesis
      proof (cases "completed_proposal E op l1")
        case None
        with body y Cons b obtain l2 where f: "finish_operation E op l1 = Inr l2" "run E flag rest l2 = Some (Inr l')" by (auto split: sum.splits)
        note k2 = runs_trans [OF k1 finish_operation_runs [OF S f(1) runs_wf [OF k1] p]]
        from runs_trans [OF k2 IH [OF f(2) vo(2) runs_wf [OF k2]]] show ?thesis by simp
      next
        case (Some q)
        obtain pid pr where q: "q = (pid, pr)" by (cases q)
        from body y Cons b Some q obtain r where n1: "run E True (proposed_operations pr) l1 = Some r"
          and n2: "(case rbind (or_restore l1 (settle_proposal pid r)) (finish_operation E op) of Inl e \<Rightarrow> Some (Inl e) | Inr l2 \<Rightarrow> run E flag rest l2) = Some (Inr l')"
          by (auto simp: Option.bind_eq_Some_conv)
        from n2 obtain l2 l3 where n: "or_restore l1 (settle_proposal pid r) = Inr l2" "finish_operation E op l2 = Inr l3" "run E flag rest l3 = Some (Inr l')"
          by (cases "rbind (or_restore l1 (settle_proposal pid r)) (finish_operation E op)") auto
        have "runs_to (\<lambda>_. 0) l1 m" if "r = Inr m" for m
          using IH [OF _ completed_proposal_valid [OF Some [unfolded q] runs_wf(2) [OF k1]] runs_wf [OF k1]] n1 that by blast
        note k2 = settle_runs [OF n(1) runs_wf [OF k1] this]
        have p2: "pays_after op \<longrightarrow> chain_operation_fee_payer op < length (accounts (ldb l2))" using p runs_accounts [OF k2] by linarith
        note k3 = runs_trans [OF runs_trans [OF k1 k2] finish_operation_runs [OF S n(2) runs_wf [OF k2] p2]]
        from runs_trans [OF k3 IH [OF n(3) vo(2) runs_wf [OF k3]]] show ?thesis by simp
      qed
    qed
  qed
  then show ?thesis using S v w by (simp add: Q_def)
qed

lemma expire_proposalE:
  assumes r: "expire_proposal E pid p l = Some (Inr l')"
  obtains "remove_proposal pid l = Inr l'" | m where "run_operations E True (proposed_operations p) l = Some (Inr m)" "remove_proposal pid m = Inr l'"
proof (cases "is_authorized_to_execute E p l")
  case True
  with r obtain z where "run_operations E True (proposed_operations p) l = Some z"
    "(case settle_proposal pid z of Inr l1 \<Rightarrow> Inr l1 | Inl e \<Rightarrow> if e = Undefined_behaviour then Inl e else remove_proposal pid l) = Inr l'"
    by (auto simp: expire_proposal_def push_proposal_def)
  with that show ?thesis by (cases "settle_proposal pid z") (auto simp: settle_proposal_def split: if_splits)
qed (use r that in \<open>simp add: expire_proposal_def\<close>)

lemma expire_proposal_runs:
  assumes S: "fc_safe (en_safe E)" and r: "expire_proposal E pid p l = Some (Inr l')" and q: "(pid, p) \<in> set (proposals l)" and w: "market_wf (ldb l)" "proposals_ok l"
  shows "runs_to (\<lambda>_. 0) l l'"
  using r
proof (cases rule: expire_proposalE)
  case 1
  then show ?thesis by (rule proposal_runs(3) [OF w])
next
  case 2
  have "list_all (\<lambda>op. chain_operation_validate op = Inr ()) (proposed_operations p)" using list_all_proposals [OF w(2) q] by simp
  note k = run_operations_runs [OF S 2(1) this w]
  from runs_trans [OF k proposal_runs(3) [OF runs_wf [OF k] 2(2)]] show ?thesis by simp
qed

lemma first_expiring_proposal_mem: "first_expiring_proposal l = Some q \<Longrightarrow> q \<in> set (proposals l)"
  using set_sort_by [of proposal_expires_before "proposals l"] by (auto simp: first_expiring_proposal_def split: list.splits)

lemma clear_expired_proposals_runs:
  assumes S: "fc_safe (en_safe E)" and r: "clear_expired_proposals E l = Some (Inr l')" and w: "market_wf (ldb l)" "proposals_ok l"
  shows "runs_to (\<lambda>_. 0) l l'"
proof -
  define Q where "Q E l y \<longleftrightarrow> (\<forall>l'. fc_safe (en_safe E) \<longrightarrow> y = Inr l' \<longrightarrow> market_wf (ldb l) \<longrightarrow> proposals_ok l \<longrightarrow> runs_to (\<lambda>_. 0) l l')"
    for E :: exec_env and l and y :: "ledger result"
  have "Q E l (Inr l')"
  proof (rule clear_expired_proposals.raw_induct [of Q, OF _ r], unfold Q_def, intro allI impI, goal_cases)
    case (1 run E l y l')
    note body = 1(2) and S = 1(3) and y = 1(4) and w = 1(5,6)
    have IH: "runs_to (\<lambda>_. 0) m l'" if "run E m = Some (Inr l')" "market_wf (ldb m)" "proposals_ok m" for m using 1(1) [OF that(1)] S that(2,3) by blast
    show ?case
    proof (cases "first_expiring_proposal l")
      case None
      then show ?thesis using body y w by (simp add: runs_refl)
    next
      case (Some q)
      obtain pid p where q: "q = (pid, p)" by (cases q)
      note m = first_expiring_proposal_mem [OF Some, unfolded q]
      show ?thesis
      proof (cases "pr_expiration_time p \<le> head_block_time (ldb l)")
        case True
        with body y Some q obtain l1 where e: "expire_proposal E pid p l = Some (Inr l1)" "run E l1 = Some (Inr l')"
          by (auto split: option.splits sum.splits)
        note k = expire_proposal_runs [OF S e(1) m w]
        from runs_trans [OF k IH [OF e(2) runs_wf [OF k]]] show ?thesis by simp
      next
        case False
        then show ?thesis using body y Some q w by (simp add: runs_refl)
      qed
    qed
  qed
  then show ?thesis using S w by (simp add: Q_def)
qed

section \<open>Running operations ends\<close>

text \<open>An update of a proposal asks for the authority of keys and so cannot be proposed; no operation of a proposal completes another one.\<close>

lemma proposable_completes_none: "required_other op = [] \<Longrightarrow> completed_proposal E op l = None"
  by (cases op) (auto simp: completed_proposal_def)

lemma run_proposed_ends:
  "list_all (\<lambda>op. required_other op = []) ops \<Longrightarrow> \<exists>r. run_operations E flag ops l = Some r"
proof (induction ops arbitrary: l)
  case (Cons op ops)
  then have c: "completed_proposal E op l1 = None" for l1 using proposable_completes_none by simp
  show ?case using Cons by (subst run_operations.simps) (auto simp: c split: sum.splits)
qed (simp add: run_operations.simps)

lemma run_operations_ends:
  assumes S: "fc_safe (en_safe E)" and v: "list_all (\<lambda>op. chain_operation_validate op = Inr ()) ops" and w: "market_wf (ldb l)" "proposals_ok l"
  shows "\<exists>r. run_operations E flag ops l = Some r"
  using v w
proof (induction ops arbitrary: l)
  case (Cons op ops)
  show ?case
  proof (cases "begin_operation E flag op l")
    case (Inr l1)
    from begin_operation_runs [OF S Inr _ Cons.prems(2,3)] Cons.prems(1) have k1: "runs_to (due op) l l1"
      and p: "pays_after op \<longrightarrow> chain_operation_fee_payer op < length (accounts (ldb l1))" by simp_all
    have ops: "list_all (\<lambda>op. chain_operation_validate op = Inr ()) ops" using Cons.prems(1) by simp
    show ?thesis
    proof (cases "completed_proposal E op l1")
      case None
      have "\<exists>r. run_operations E flag ops l2 = Some r" if "finish_operation E op l1 = Inr l2" for l2
        using runs_wf [OF finish_operation_runs [OF S that runs_wf [OF k1] p]] by (intro Cons.IH [OF ops])
      then show ?thesis by (subst run_operations.simps) (auto simp: Inr None split: sum.splits)
    next
      case (Some q)
      obtain pid pr where q: "q = (pid, pr)" by (cases q)
      from Some q have m: "(pid, pr) \<in> set (proposals l1)"
        by (auto simp: completed_proposal_def split: chain_operation.splits option.splits if_splits dest!: map_of_SomeD)
      then have pp: "proposable (proposed_operations pr)" using runs_wf(2) [OF k1] by (force simp: proposals_ok_def)
      then obtain r where r: "run_operations E True (proposed_operations pr) l1 = Some r" using run_proposed_ends [of _ E True l1] by (auto simp: proposable_def)
      have "\<exists>r. run_operations E flag ops l3 = Some r" if "rbind (or_restore l1 (settle_proposal pid r)) (finish_operation E op) = Inr l3" for l3
      proof -
        from that obtain l2 where l2: "or_restore l1 (settle_proposal pid r) = Inr l2" "finish_operation E op l2 = Inr l3" by auto
        have "runs_to (\<lambda>_. 0) l1 x" if "r = Inr x" for x
          using run_operations_runs [OF S _ _ runs_wf [OF k1]] r pp that by (auto simp: proposable_def)
        note k2 = settle_runs [OF l2(1) runs_wf [OF k1] this]
        have "pays_after op \<longrightarrow> chain_operation_fee_payer op < length (accounts (ldb l2))" using p runs_accounts [OF k2] by linarith
        from runs_wf [OF finish_operation_runs [OF S l2(2) runs_wf [OF k2] this]] show ?thesis by (intro Cons.IH [OF ops])
      qed
      then show ?thesis by (subst run_operations.simps) (auto simp: Inr Some q r split: sum.splits)
    qed
  qed (subst run_operations.simps, simp)
qed (simp add: run_operations.simps)

lemma removed_not_due: "remove_proposal pid l = Inr l' \<Longrightarrow> pid \<notin> due_ids l'"
  by (auto simp: remove_proposal_def due_ids_def split: if_splits)

lemma expire_proposal_removes: "expire_proposal E pid p l = Some (Inr l') \<Longrightarrow> pid \<notin> due_ids l'"
  by (erule expire_proposalE) (rule removed_not_due, assumption)+

lemma clear_expired_proposals_ends:
  assumes S: "fc_safe (en_safe E)"
  shows "market_wf (ldb l) \<Longrightarrow> proposals_ok l \<Longrightarrow> \<exists>r. clear_expired_proposals E l = Some r"
proof (induction "card (due_ids l)" arbitrary: l rule: less_induct)
  case less
  show ?case
  proof (cases "\<exists>pid p. first_expiring_proposal l = Some (pid, p) \<and> pr_expiration_time p \<le> head_block_time (ldb l)")
    case False
    then show ?thesis by (subst clear_expired_proposals.simps) (auto split: option.splits)
  next
    case True
    then obtain pid p where f: "first_expiring_proposal l = Some (pid, p)" "pr_expiration_time p \<le> head_block_time (ldb l)" by blast
    note m = first_expiring_proposal_mem [OF f(1)]
    have "list_all (\<lambda>op. required_other op = []) (proposed_operations p)" using less.prems(2) m by (force simp: proposals_ok_def proposable_def)
    from run_proposed_ends [OF this] obtain r where e: "expire_proposal E pid p l = Some r" by (fastforce simp: expire_proposal_def push_proposal_def)
    have "\<exists>r. clear_expired_proposals E l1 = Some r" if r: "r = Inr l1" for l1
    proof -
      note k = expire_proposal_runs [OF S e [unfolded r] m less.prems]
      have "pid \<in> due_ids l" using m f(2) by (force simp: due_ids_def)
      with k expire_proposal_removes [OF e [unfolded r]] have "due_ids l1 \<subset> due_ids l" by (auto simp: runs_to_def)
      then have "card (due_ids l1) < card (due_ids l)" by (rule psubset_card_mono [rotated]) (simp add: due_ids_def)
      from less.hyps [OF this runs_wf [OF k]] show ?thesis .
    qed
    then show ?thesis using f e by (subst clear_expired_proposals.simps) (auto split: sum.splits)
  qed
qed

lemma first_expiring_proposal_none: "first_expiring_proposal l = None \<Longrightarrow> proposals l = []"
proof -
  assume "first_expiring_proposal l = None"
  then have "sort_by proposal_expires_before (proposals l) = []" by (auto simp: first_expiring_proposal_def split: list.splits)
  with set_sort_by [of proposal_expires_before "proposals l"] show ?thesis by simp
qed

lemma first_expiring_proposal_min:
  assumes "first_expiring_proposal l = Some q" "x \<in> set (proposals l)"
  shows "pr_expiration_time (snd q) \<le> pr_expiration_time (snd x)"
proof -
  have "sorted (map (\<lambda>q. pr_expiration_time (snd q)) (sort_by proposal_expires_before (proposals l)))"
    by (rule sorted_sort_by) (simp add: proposal_expires_before_def)
  moreover obtain qs where qs: "sort_by proposal_expires_before (proposals l) = q # qs"
    using assms(1) by (auto simp: first_expiring_proposal_def split: list.splits)
  moreover have "x \<in> insert q (set qs)" using assms(2) set_sort_by [of proposal_expires_before "proposals l"] by (simp add: qs)
  ultimately show ?thesis by auto
qed

lemma clear_expired_proposals_none_due:
  assumes r: "clear_expired_proposals E l = Some (Inr l')"
  shows "due_ids l' = {}"
proof -
  define Q where "Q (E :: exec_env) (l :: ledger) y \<longleftrightarrow> (\<forall>l'. y = Inr l' \<longrightarrow> due_ids l' = {})" for E l and y :: "ledger result"
  have "Q E l (Inr l')"
  proof (rule clear_expired_proposals.raw_induct [of Q, OF _ r], unfold Q_def, intro allI impI, goal_cases)
    case (1 run E l y l')
    show ?case
    proof (cases "first_expiring_proposal l")
      case None
      then show ?thesis using 1(2,3) first_expiring_proposal_none by (auto simp: due_ids_def)
    next
      case (Some q)
      obtain pid p where q: "q = (pid, p)" by (cases q)
      show ?thesis
      proof (cases "pr_expiration_time p \<le> head_block_time (ldb l)")
        case True
        with 1(2,3) Some q obtain l1 where "run E l1 = Some (Inr l')" by (auto split: option.splits sum.splits)
        then show ?thesis using 1(1) by blast
      next
        case False
        then have "l' = l" using 1(2,3) Some q by simp
        with False show ?thesis using first_expiring_proposal_min [OF Some] by (fastforce simp: due_ids_def q)
      qed
    qed
  qed
  then show ?thesis by (simp add: Q_def)
qed

end
