(* ===== verification/Transactions.thy ===== *)
theory Transactions
  imports Proposals
begin

text \<open>
  A signed transaction and its application to the ledger: \<^verbatim>\<open>database::_apply_transaction\<close> of \<^verbatim>\<open>db_block.cpp\<close>, with the
  records against replays, the check of the referenced block and of the signatures.  Hashes, signature recovery and the
  fee schedule's answer are arguments.  Like the operations it runs, a transaction may not return.
\<close>

section \<open>Application\<close>

text \<open>The second 32-bit word of a block identifier.\<close>

definition id_prefix :: "block_id_type \<Rightarrow> nat" where
  "id_prefix i = snd i mod 2 ^ 32"

definition is_known_transaction :: "nat \<Rightarrow> ledger \<Rightarrow> bool" where
  "is_known_transaction i l \<longleftrightarrow> i \<in> fst ` set (trx_index l)"

definition check_signatures :: "crypto \<Rightarrow> 32 word \<Rightarrow> signed_transaction \<Rightarrow> ledger \<Rightarrow> unit result" where
  "check_signatures k skip trx l =
     (if \<not> skips skip (skip_transaction_signatures OR skip_authority_check)
      then signed_transaction_verify_authority operation_auths (cr_addresses k) (cr_recover k trx) (operations trx) (signatures trx)
             (account_active (ldb l)) (account_owner (ldb l)) (max_authority_depth (parameters (gpo (bstate l))))
      else Inr ())"

definition check_tapos :: "32 word \<Rightarrow> signed_transaction \<Rightarrow> ledger \<Rightarrow> unit result" where
  "check_tapos skip trx l =
     (if head_block_number (dgp (bstate l)) > 0 then
        rbind (if \<not> skips skip skip_tapos_check
               then rbind (get_obj (block_summaries l) (ref_block_num trx)) (\<lambda>i. ensure (ref_block_prefix trx = id_prefix i) (Inr ()))
               else Inr ()) (\<lambda>_.
        ensure (tx_expiration trx \<le> (head_block_time (ldb l) + maximum_time_until_expiration (parameters (gpo (bstate l)))) mod 2 ^ 32)
        (ensure (head_block_time (ldb l) \<le> tx_expiration trx) (Inr ())))
      else Inr ())"

definition record_transaction :: "crypto \<Rightarrow> 32 word \<Rightarrow> signed_transaction \<Rightarrow> ledger \<Rightarrow> ledger" where
  "record_transaction k skip trx l =
     (if skips skip skip_transaction_dupe_check then l
      else l\<lparr> trx_index := trx_index l @ [(cr_transaction_id k trx, tx_expiration trx)] \<rparr>)"

definition temp_account_empty :: "chain_db \<Rightarrow> bool" where
  "temp_account_empty d \<longleftrightarrow> list_all (\<lambda>a. balances d (GRAPHENE_TEMP_ACCOUNT, a) \<in> {None, Some 0}) [0..<length (assets d)]"

text \<open>The checks before the first operation runs.\<close>

definition admit_transaction :: "exec_env \<Rightarrow> signed_transaction \<Rightarrow> ledger \<Rightarrow> ledger result" where
  "admit_transaction E trx l =
     rbind (transaction_validate chain_operation_validate (operations trx)) (\<lambda>_.
     ensure (skips (en_skip E) skip_transaction_dupe_check \<or> \<not> is_known_transaction (cr_transaction_id (en_crypto E) trx) l) (
     rbind (check_signatures (en_crypto E) (en_skip E) trx l) (\<lambda>_.
     rbind (check_tapos (en_skip E) trx l) (\<lambda>_.
     Inr (record_transaction (en_crypto E) (en_skip E) trx l)))))"

definition apply_transaction :: "exec_env \<Rightarrow> signed_transaction \<Rightarrow> ledger \<Rightarrow> ledger result option" where
  "apply_transaction E trx l =
     (case admit_transaction E trx l of Inl e \<Rightarrow> Some (Inl e)
      | Inr l1 \<Rightarrow> map_option (\<lambda>r. rbind r (\<lambda>l2. ensure (temp_account_empty (ldb l2)) (Inr l2))) (run_operations E False (operations trx) l1))"

section \<open>Lemmas\<close>

lemma record_transaction_simps [simp]: "bstate (record_transaction k skip trx l) = bstate l"
  "block_summaries (record_transaction k skip trx l) = block_summaries l" "checkpoints (record_transaction k skip trx l) = checkpoints l"
  by (simp_all add: record_transaction_def)

lemma record_transaction_ok [simp]: "proposals (record_transaction k skip trx l) = proposals l" "proposals_ok (record_transaction k skip trx l) = proposals_ok l"
  by (simp_all add: record_transaction_def proposals_ok_def)

lemma apply_transactionE:
  assumes "apply_transaction E trx l = Some (Inr l')"
  obtains "list_all (\<lambda>op. chain_operation_validate op = Inr ()) (operations trx)"
    "skips (en_skip E) skip_transaction_dupe_check \<or> \<not> is_known_transaction (cr_transaction_id (en_crypto E) trx) l"
    "check_signatures (en_crypto E) (en_skip E) trx l = Inr ()" "check_tapos (en_skip E) trx l = Inr ()" "temp_account_empty (ldb l')"
    "run_operations E False (operations trx) (record_transaction (en_crypto E) (en_skip E) trx l) = Some (Inr l')"
proof -
  from assms obtain l1 where l1: "admit_transaction E trx l = Inr l1" by (auto simp: apply_transaction_def split: sum.splits)
  with assms obtain r where r: "run_operations E False (operations trx) l1 = Some r" "rbind r (\<lambda>l2. ensure (temp_account_empty (ldb l2)) (Inr l2)) = Inr l'"
    by (auto simp: apply_transaction_def)
  from r(2) have "r = Inr l'" "temp_account_empty (ldb l')" by auto
  moreover have "list_all (\<lambda>op. chain_operation_validate op = Inr ()) (operations trx)"
    using l1 by (auto simp: admit_transaction_def intro: transaction_validate_all)
  ultimately show ?thesis using that l1 r(1) by (auto simp: admit_transaction_def)
qed

text \<open>A transaction adds to the records, creates no value and leaves the rest of the chain alone.\<close>

lemma apply_transaction_runs:
  assumes S: "fc_safe (en_safe E)" and r: "apply_transaction E trx l = Some (Inr l')" and w: "market_wf (ldb l)" "proposals_ok l"
  shows "runs_to (\<lambda>_. 0) (record_transaction (en_crypto E) (en_skip E) trx l) l'"
  using r by (rule apply_transactionE) (rule run_operations_runs [OF S], use w in simp_all)

lemma apply_transaction_ends:
  assumes S: "fc_safe (en_safe E)" and w: "market_wf (ldb l)" "proposals_ok l"
  shows "\<exists>r. apply_transaction E trx l = Some r"
proof (cases "admit_transaction E trx l")
  case (Inr l1)
  then have v: "list_all (\<lambda>op. chain_operation_validate op = Inr ()) (operations trx)" "l1 = record_transaction (en_crypto E) (en_skip E) trx l"
    by (auto simp: admit_transaction_def intro: transaction_validate_all)
  have "\<exists>r. run_operations E False (operations trx) l1 = Some r"
    by (rule run_operations_ends [OF S v(1)]) (use w v(2) in simp_all)
  then show ?thesis by (auto simp: apply_transaction_def Inr)
qed (simp add: apply_transaction_def)

lemma fold_insort_insert_set: "set (fold insort_insert xs ys) = set xs \<union> set ys"
  by (induction xs arbitrary: ys) (auto simp: set_insort_insert)

lemma required_active_payers:
  assumes "op \<in> set ops"
  shows "op_fee_payer v op \<in> set (req_active (get_required_authorities v ops)) \<and> set (op_active v op) \<subseteq> set (req_active (get_required_authorities v ops)) \<and>
    set (op_owner v op) \<subseteq> set (req_owner (get_required_authorities v ops)) \<and> set (op_other v op) \<subseteq> set (req_other (get_required_authorities v ops))"
proof -
  let ?f = "fold (operation_get_required_authorities v)"
  have keep: "set (req_active r) \<subseteq> set (req_active (?f ops r)) \<and> set (req_owner r) \<subseteq> set (req_owner (?f ops r)) \<and> set (req_other r) \<subseteq> set (req_other (?f ops r))" for ops r
  proof (induction ops arbitrary: r)
    case (Cons o1 ops)
    show ?case using Cons.IH [of "operation_get_required_authorities v o1 r"]
      by (auto simp: operation_get_required_authorities_def fold_insort_insert_set set_insort_insert)
  qed simp
  have "op_fee_payer v op \<in> set (req_active (?f ops r)) \<and> set (op_active v op) \<subseteq> set (req_active (?f ops r)) \<and>
    set (op_owner v op) \<subseteq> set (req_owner (?f ops r)) \<and> set (op_other v op) \<subseteq> set (req_other (?f ops r))" for r
    using assms
  proof (induction ops arbitrary: r)
    case (Cons o1 ops)
    show ?case
    proof (cases "op = o1")
      case True
      let ?r = "operation_get_required_authorities v o1 r"
      have "op_fee_payer v op \<in> set (req_active ?r)" "set (op_active v op) \<subseteq> set (req_active ?r)" "set (op_owner v op) \<subseteq> set (req_owner ?r)"
        "set (op_other v op) \<subseteq> set (req_other ?r)"
        unfolding True by (auto simp: operation_get_required_authorities_def fold_insort_insert_set set_insort_insert)
      then show ?thesis using keep [of ?r ops] unfolding fold.simps comp_apply by blast
    qed (use Cons in simp)
  qed simp
  then show ?thesis by (simp add: get_required_authorities_def)
qed

text \<open>The accounts that approve a transaction: those whose authority the recovered keys satisfy.\<close>

definition tx_env :: "crypto \<Rightarrow> ledger \<Rightarrow> sign_env" where
  "tx_env k l = \<lparr> get_active = account_active (ldb l), available_keys = [], key_addresses = cr_addresses k \<rparr>"

definition account_signed :: "crypto \<Rightarrow> signed_transaction \<Rightarrow> ledger \<Rightarrow> nat \<Rightarrow> bool" where
  "account_signed k trx l i \<longleftrightarrow> i = GRAPHENE_TEMP_ACCOUNT \<or>
     (\<exists>au. (account_active (ldb l) i = Some au \<or> account_owner (ldb l) i = Some au) \<and>
       authorized (tx_env k l) (cr_recover k trx ` set (signatures trx)) {GRAPHENE_TEMP_ACCOUNT} au)"

lemma get_signature_keys_set: "get_signature_keys recover sigs = Inr ks \<Longrightarrow> set ks = recover ` set sigs"
proof -
  have "rfold (\<lambda>sig r. throw_unless Tx_duplicate_sig (recover sig \<notin> set r) (Inr (insort_insert (recover sig) r))) sigs r = Inr ks \<Longrightarrow> set ks = recover ` set sigs \<union> set r" for r
    by (induction sigs arbitrary: r) (auto simp: set_insort_insert)
  then show "get_signature_keys recover sigs = Inr ks \<Longrightarrow> set ks = recover ` set sigs" by (auto simp: get_signature_keys_def)
qed

lemma signatures_authorise:
  assumes "check_signatures k skip trx l = Inr ()" "\<not> skips skip (skip_transaction_signatures OR skip_authority_check)" "op \<in> set (operations trx)"
  shows "account_signed k trx l (chain_operation_fee_payer op) \<and> chain_operation_fee_payer op \<noteq> GRAPHENE_COMMITTEE_ACCOUNT \<and>
    (\<forall>i\<in>set (required_active op). account_signed k trx l i) \<and>
    (\<forall>i\<in>set (required_owner op). \<exists>au. account_owner (ldb l) i = Some au \<and>
       authorized (tx_env k l) (cr_recover k trx ` set (signatures trx)) {GRAPHENE_TEMP_ACCOUNT} au) \<and>
    (\<forall>au\<in>set (required_other op). authorized (tx_env k l) (cr_recover k trx ` set (signatures trx)) {GRAPHENE_TEMP_ACCOUNT} au)"
proof -
  let ?r = "get_required_authorities operation_auths (operations trx)"
  from assms(1,2) obtain ks where ks: "set ks = cr_recover k trx ` set (signatures trx)"
    and v: "verify_authority operation_auths (cr_addresses k) (operations trx) ks (account_active (ldb l)) (account_owner (ldb l))
      (max_authority_depth (parameters (gpo (bstate l)))) False [] [] = Inr ()"
    by (auto simp: check_signatures_def signed_transaction_verify_authority_def dest: get_signature_keys_set)
  note sound = verify_authority_accepts [OF v refl refl refl, folded tx_env_def, unfolded ks, simplified]
  have "chain_operation_fee_payer op \<in> set (req_active ?r)" "set (required_active op) \<subseteq> set (req_active ?r)" "set (required_owner op) \<subseteq> set (req_owner ?r)" "set (required_other op) \<subseteq> set (req_other ?r)"
    using required_active_payers [OF assms(3), of operation_auths] by (simp_all add: operation_auths_def)
  with sound show ?thesis unfolding account_signed_def by (intro conjI) (blast, metis, blast, blast, blast)
qed

section \<open>A small transaction, for the examples\<close>

definition demo_signed_db :: chain_db where
  "demo_signed_db = demo_funded\<lparr> accounts := map (\<lambda>i. (demo_account i)\<lparr> active := demo_authority 1 [] [(42, 1)] \<rparr>) [0, 1, 2, 3, 4, 5, 6, 7, 8] \<rparr>"

definition demo_ledger :: ledger where
  "demo_ledger = \<lparr> bstate = demo_block_state\<lparr> cdb := demo_signed_db \<rparr>,
     immutable = \<lparr> min_committee_member_count = 1, min_witness_count = 1 \<rparr>, budgets = [], buffers = \<lparr> vote_tally_buffer = [], witness_count_histogram_buffer = [],
       committee_count_histogram_buffer = [], total_voting_stake = 0 \<rparr>, proposals = [], next_proposal = 0, trx_index = [(5, 1100)], block_summaries = [(0, 17), (1, 18)], checkpoints = [] \<rparr>"

definition demo_trx :: signed_transaction where
  "demo_trx = \<lparr> ref_block_num = 1, ref_block_prefix = 18, tx_expiration = 1050, operations = [Ledger_op (Transfer_op demo_transfer)], signatures = [42] \<rparr>"

definition demo_crypto :: crypto where
  "demo_crypto = \<lparr> cr_block_hash = (\<lambda>b. timestamp b), cr_transaction_id = (\<lambda>t. tx_expiration t), cr_recover = (\<lambda>t s. s), cr_signee = (\<lambda>b. witness_signature b),
     cr_merkle_digest = (\<lambda>t. tx_expiration t), cr_hash_pair = (+), cr_hash_one = (\<lambda>x. x), cr_keccak = (\<lambda>_. []), cr_addresses = (\<lambda>_. []) \<rparr>"

definition demo_exec :: exec_env where
  "demo_exec = \<lparr> en_safe = checked_ops, en_crypto = demo_crypto, en_fees = (\<lambda>_ _. 1), en_skip = 0 \<rparr>"

lemmas demo_trx_simps = demo_trx_def demo_crypto_def demo_ledger_def demo_signed_db_def demo_block_state_def demo_parameters_def demo_eval_simps

lemma demo_trx_signed: "check_signatures demo_crypto 0 demo_trx demo_ledger = Inr ()"
proof -
  have a: "account_active (ldb demo_ledger) 7 = Some (demo_authority 1 [] [(42, 1)])"
    by (simp add: account_active_def demo_ledger_def demo_block_state_def demo_signed_db_def)
  show ?thesis unfolding check_signatures_def
    by (simp add: demo_trx_def demo_crypto_def demo_transfer_def skips_def signed_transaction_verify_authority_def get_signature_keys_def check_simps operation_auths_def a demo_authority_def)
      (simp add: demo_ledger_def demo_block_state_def demo_parameters_def numeral_2_eq_2 check_simps)
qed

lemma demo_trx_admitted: "admit_transaction demo_exec demo_trx demo_ledger = Inr (record_transaction demo_crypto 0 demo_trx demo_ledger)"
proof -
  have v: "transaction_validate chain_operation_validate (operations demo_trx) = Inr ()"
    by (simp add: transaction_validate_def demo_trx_def transfer_validate_def demo_transfer_def)
  have n: "\<not> is_known_transaction (cr_transaction_id demo_crypto demo_trx) demo_ledger"
    by (simp add: is_known_transaction_def demo_ledger_def demo_crypto_def demo_trx_def)
  have t: "check_tapos 0 demo_trx demo_ledger = Inr ()" by (simp add: check_tapos_def demo_trx_simps skips_def get_obj_def id_prefix_def)
  show ?thesis using v n t demo_trx_signed by (simp add: admit_transaction_def demo_exec_def)
qed

lemma demo_trx_begins:
  "\<exists>d. begin_operation demo_exec False (Ledger_op (Transfer_op demo_transfer)) (record_transaction demo_crypto 0 demo_trx demo_ledger) =
     Inr (with_db (record_transaction demo_crypto 0 demo_trx demo_ledger) d) \<and> temp_account_empty d"
proof -
  have l: "ldb demo_ledger = demo_signed_db" by (simp add: demo_ledger_def)
  have "\<exists>d. apply_operation checked_ops c fresh_eval_state (\<lambda>_. 1) (Transfer_op demo_transfer) demo_signed_db = Inr d \<and> temp_account_empty d" for c
    by (simp add: demo_trx_simps apply_operation_def fresh_eval_state_def temp_account_empty_def GRAPHENE_TEMP_ACCOUNT_def)
  then obtain d where "apply_operation checked_ops (context_of demo_exec (record_transaction demo_crypto 0 demo_trx demo_ledger)) fresh_eval_state (\<lambda>_. 1)
      (Transfer_op demo_transfer) demo_signed_db = Inr d" "temp_account_empty d" by blast
  moreover have "en_safe demo_exec = checked_ops" "required_fee demo_exec op l = 1" for op l by (simp_all add: demo_exec_def required_fee_def)
  ultimately show ?thesis by (intro exI [of _ d]) (simp add: l)
qed

lemma demo_trx_applies: "\<exists>l'. apply_transaction demo_exec demo_trx demo_ledger = Some (Inr l')"
proof -
  from demo_trx_begins obtain d where d: "begin_operation demo_exec False (Ledger_op (Transfer_op demo_transfer)) (record_transaction demo_crypto 0 demo_trx demo_ledger) =
     Inr (with_db (record_transaction demo_crypto 0 demo_trx demo_ledger) d)" "temp_account_empty d" by blast
  have o: "operations demo_trx = [Ledger_op (Transfer_op demo_transfer)]" by (simp add: demo_trx_def)
  have "run_operations demo_exec False (operations demo_trx) (record_transaction demo_crypto 0 demo_trx demo_ledger) =
    Some (Inr (with_db (record_transaction demo_crypto 0 demo_trx demo_ledger) d))"
    unfolding o by (subst run_operations.simps, simp only: list.case d(1) sum.case) (simp add: completed_proposal_def finish_operation_def run_operations.simps)
  with d(2) demo_trx_admitted show ?thesis by (simp add: apply_transaction_def)
qed

lemma demo_signed_wf: "market_wf demo_signed_db"
  by (auto simp: market_wf_def settled_ok_def demo_signed_db_def demo_funded_def demo_market_simps int64_def GRAPHENE_MAX_SHARE_SUPPLY_def
    GRAPHENE_100_PERCENT_def less_Suc_eq numeral_2_eq_2 nth_Cons')

section \<open>Properties\<close>

text \<open>C6: A transaction that the chain accepts with all checks on was not known and is known afterwards; on every chain
  but an empty one it has not expired and does not expire too late; whoever pays for an operation has signed, by its active
  or owner authority, and is not the committee; so have those whose approval an operation needs, who must sign with the owner
  authority has done so, and the keys that claimed balances and approvals name have signed; running the operations, and those
  of the proposals they complete, created or destroyed no value, and the temporary account is empty.\<close>

theorem accepted_transaction_authorised:
  assumes S: "fc_safe (en_safe E)" and no: "en_skip E = 0" and run: "apply_transaction E trx l = Some (Inr l')"
    and w: "market_wf (ldb l)" "proposals_ok l"
  shows "\<not> is_known_transaction (cr_transaction_id (en_crypto E) trx) l \<and> is_known_transaction (cr_transaction_id (en_crypto E) trx) l' \<and>
    (head_block_number (dgp (bstate l)) > 0 \<longrightarrow> head_block_time (ldb l) \<le> tx_expiration trx \<and>
       tx_expiration trx \<le> (head_block_time (ldb l) + maximum_time_until_expiration (parameters (gpo (bstate l)))) mod 2 ^ 32) \<and>
    (\<forall>op\<in>set (operations trx). account_signed (en_crypto E) trx l (chain_operation_fee_payer op) \<and> chain_operation_fee_payer op \<noteq> GRAPHENE_COMMITTEE_ACCOUNT \<and>
      (\<forall>i\<in>set (required_active op). account_signed (en_crypto E) trx l i) \<and>
      (\<forall>i\<in>set (required_owner op). \<exists>au. account_owner (ldb l) i = Some au \<and>
         authorized (tx_env (en_crypto E) l) (cr_recover (en_crypto E) trx ` set (signatures trx)) {GRAPHENE_TEMP_ACCOUNT} au) \<and>
      (\<forall>au\<in>set (required_other op). authorized (tx_env (en_crypto E) l) (cr_recover (en_crypto E) trx ` set (signatures trx)) {GRAPHENE_TEMP_ACCOUNT} au)) \<and>
    grows_by (\<lambda>_. 0) (ldb l) (ldb l') \<and> temp_account_empty (ldb l')"
proof -
  have z: "\<not> skips 0 f" for f by (simp add: skips_def)
  from run no have u: "\<not> is_known_transaction (cr_transaction_id (en_crypto E) trx) l" and c: "check_signatures (en_crypto E) 0 trx l = Inr ()"
    and t: "check_tapos 0 trx l = Inr ()" and e: "temp_account_empty (ldb l')"
    by (auto elim!: apply_transactionE simp: z)
  from apply_transaction_runs [OF S run w] no have g: "grows_by (\<lambda>_. 0) (ldb l) (ldb l')" and i: "trx_index l' = trx_index (record_transaction (en_crypto E) 0 trx l)"
    by (simp_all add: runs_to_def same_chain_def)
  from i have "is_known_transaction (cr_transaction_id (en_crypto E) trx) l'" by (simp add: is_known_transaction_def record_transaction_def z)
  moreover have "head_block_number (dgp (bstate l)) > 0 \<longrightarrow> head_block_time (ldb l) \<le> tx_expiration trx \<and>
       tx_expiration trx \<le> (head_block_time (ldb l) + maximum_time_until_expiration (parameters (gpo (bstate l)))) mod 2 ^ 32"
    using t by (auto simp: check_tapos_def)
  ultimately show ?thesis using u e g signatures_authorise [OF c z] by blast
qed

theorem accepted_transaction_authorised_witness:
  "\<exists>l'. apply_transaction demo_exec demo_trx demo_ledger = Some (Inr l') \<and> is_known_transaction 1050 l' \<and> account_signed demo_crypto demo_trx demo_ledger 7"
proof -
  from demo_trx_applies obtain l' where r: "apply_transaction demo_exec demo_trx demo_ledger = Some (Inr l')" by blast
  have "market_wf (ldb demo_ledger)" "proposals_ok demo_ledger" "fc_safe (en_safe demo_exec)" "en_skip demo_exec = 0"
    using demo_signed_wf by (simp_all add: demo_ledger_def proposals_ok_def demo_exec_def)
  from accepted_transaction_authorised [OF this(3,4) r this(1,2)] r show ?thesis by (auto simp: demo_trx_def demo_crypto_def demo_transfer_def demo_exec_def)
qed

text \<open>The accounts that a custom operation lists as required are never asked: only its payer has to sign,
  whatever the list.\<close>

theorem custom_required_auths_ignored:
  "get_required_authorities operation_auths [Ledger_op (Custom_op op)] = \<lparr> req_active = [cs_payer op], req_owner = [], req_other = [] \<rparr>"
  by (simp add: get_required_authorities_def operation_get_required_authorities_def operation_auths_def insort_insert_key_def)

end
