(* ===== verification/Proposal_Properties.thy ===== *)
theory Proposal_Properties
  imports Transactions
begin

text \<open>
  Properties of proposals and of governance: the operations of a transaction and expired proposals always end, a proposal
  that deletes itself, parameters that shut the committee out, and the identifiers for votes.
\<close>

section \<open>Transactions and proposals end\<close>

text \<open>C5: The operations of a transaction end, whatever proposals they complete, and so does the treatment of expired
  proposals, after which no proposal is left whose time is over; an operation that updates a proposal needs the authority
  of keys, which no proposal may ask for.\<close>

theorem proposals_end:
  assumes S: "fc_safe (en_safe E)" and w: "market_wf (ldb l)" "proposals_ok l"
  shows "(\<exists>r. apply_transaction E trx l = Some r) \<and>
    (\<exists>r. clear_expired_proposals E l = Some r \<and>
      (\<forall>l'. r = Inr l' \<longrightarrow> grows_by (\<lambda>_. 0) (ldb l) (ldb l') \<and> proposals_ok l' \<and>
        (\<forall>q\<in>set (proposals l'). head_block_time (ldb l) < pr_expiration_time (snd q)))) \<and>
    (\<forall>op u. proposal_create_do_evaluate op l = Inr () \<longrightarrow> Proposal_update_op u \<notin> set (pc_proposed_ops op))"
proof (intro conjI allI impI)
  from clear_expired_proposals_ends [OF S w] obtain r where r: "clear_expired_proposals E l = Some r" by blast
  have "grows_by (\<lambda>_. 0) (ldb l) (ldb l') \<and> proposals_ok l' \<and> (\<forall>q\<in>set (proposals l'). head_block_time (ldb l) < pr_expiration_time (snd q))" if "r = Inr l'" for l'
    using clear_expired_proposals_runs [OF S r [unfolded that] w] clear_expired_proposals_none_due [OF r [unfolded that]]
    by (force simp: runs_to_def grows_by_def same_frame_def due_ids_def)
  with r show "\<exists>r. clear_expired_proposals E l = Some r \<and>
      (\<forall>l'. r = Inr l' \<longrightarrow> grows_by (\<lambda>_. 0) (ldb l) (ldb l') \<and> proposals_ok l' \<and>
        (\<forall>q\<in>set (proposals l'). head_block_time (ldb l) < pr_expiration_time (snd q)))" by blast
next
  fix op u assume "proposal_create_do_evaluate op l = Inr ()"
  from proposal_create_checked(1) [OF this] show "Proposal_update_op u \<notin> set (pc_proposed_ops op)" by (auto simp: proposable_def list_all_iff)
qed (rule apply_transaction_ends [OF S w])

definition demo_delete :: proposal_delete_operation where
  "demo_delete = \<lparr> pd_fee_paying_account = 7, pd_using_owner_authority = False, pd_fee = \<lparr> amount = 1, asset_id = 0 \<rparr>, pd_proposal = 0 \<rparr>"

definition demo_proposal :: proposal_object where
  "demo_proposal = \<lparr> pr_expiration_time = 500, review_period_time = None, proposed_operations = [Proposal_delete_op demo_delete],
     required_active_approvals = [7], available_active_approvals = [7], required_owner_approvals = [], available_owner_approvals = [], available_key_approvals = [] \<rparr>"

definition proposal_ledger :: ledger where
  "proposal_ledger = demo_ledger\<lparr> proposals := [(0, demo_proposal)], next_proposal := 1 \<rparr>"

lemma proposal_ledger_ok: "market_wf (ldb proposal_ledger)" "proposals_ok proposal_ledger" "fc_safe (en_safe demo_exec)"
  using demo_signed_wf by (simp_all add: proposal_ledger_def demo_ledger_def proposals_ok_def proposable_def demo_proposal_def demo_delete_def
    proposal_delete_validate_def demo_exec_def)

theorem proposals_end_witness:
  "(\<exists>r. apply_transaction demo_exec demo_trx proposal_ledger = Some r) \<and> (\<exists>r. clear_expired_proposals demo_exec proposal_ledger = Some r)"
  using proposals_end [OF proposal_ledger_ok(3,1,2), of demo_trx] by blast

section \<open>A proposal that deletes itself\<close>

text \<open>C27: A proposal whose last operation deletes that proposal never runs: its operation fails, or the proposal is read and
  removed after it has been freed.\<close>

theorem self_deleting_proposal:
  assumes "proposed_operations p = [Proposal_delete_op d]"
  shows "\<exists>e. push_proposal E (pd_proposal d) p l = Some (Inl e) \<and>
    ((\<exists>l1. run_operations E True (proposed_operations p) l = Some (Inr l1)) \<longrightarrow> e = Undefined_behaviour)"
proof -
  have gone: "remove_proposal (pd_proposal d) l1 = Inl Undefined_behaviour" if r: "run_operations E True [Proposal_delete_op d] l = Some (Inr l1)" for l1
  proof -
    have c: "completed_proposal E (Proposal_delete_op d) l2 = None" for l2 by (simp add: completed_proposal_def)
    from r obtain l2 where l2: "begin_operation E True (Proposal_delete_op d) l = Inr l2" "finish_operation E (Proposal_delete_op d) l2 = Inr l1"
      by (subst (asm) run_operations.simps) (auto simp: c run_operations.simps split: sum.splits)
    from l2(1) have "pd_proposal d \<notin> fst ` set (proposals l2)" by (auto simp: begin_with_def remove_proposal_def split: if_splits)
    moreover have "proposals l1 = proposals l2" using l2(2) by (auto simp: finish_operation_def deduct_fee_def)
    ultimately show ?thesis by (simp add: remove_proposal_def)
  qed
  from run_proposed_ends [of "[Proposal_delete_op d]" E True l] obtain r where r: "run_operations E True [Proposal_delete_op d] l = Some r" by auto
  show ?thesis
  proof (cases r)
    case (Inr l1)
    then show ?thesis using r gone [of l1] assms by (simp add: push_proposal_def settle_proposal_def)
  qed (use r assms in \<open>auto simp: push_proposal_def settle_proposal_def\<close>)
qed

theorem self_deleting_proposal_witness: "\<exists>e. push_proposal demo_exec 0 demo_proposal proposal_ledger = Some (Inl e)"
proof -
  have "proposed_operations demo_proposal = [Proposal_delete_op demo_delete]" "pd_proposal demo_delete = 0" by (simp_all add: demo_proposal_def demo_delete_def)
  from self_deleting_proposal [OF this(1), of demo_exec proposal_ledger] this(2) show ?thesis by auto
qed

section \<open>The committee and the identifiers for votes\<close>

text \<open>C28: The chain accepts parameters under which the committee can never propose anything again: the check that the
  lifetime of a proposal exceeds the review of the committee subtracts unsigned numbers, and passes when it is shorter.\<close>

theorem committee_locked_out:
  assumes "chain_parameters_validate p = Inr ()" "maximum_proposal_lifetime p < r" "r < 2 ^ 32"
    "r + block_interval_of p < 2 ^ 32 + maximum_proposal_lifetime p"
  shows "chain_parameters_validate (p\<lparr> committee_proposal_review_period := r \<rparr>) = Inr () \<and>
    (\<forall>l op. parameters (gpo (bstate l)) = p\<lparr> committee_proposal_review_period := r \<rparr> \<and>
       (let a = get_required_authorities operation_auths (pc_proposed_ops op) in GRAPHENE_COMMITTEE_ACCOUNT \<in> set (req_active a) \<union> set (req_owner a)) \<longrightarrow>
       proposal_create_do_evaluate op l \<noteq> Inr ())"
proof -
  have m: "(int (maximum_proposal_lifetime p) - int r) mod 2 ^ 32 = int (maximum_proposal_lifetime p) - int r + 2 ^ 32"
    using mod_pos_pos_trivial [of "int (maximum_proposal_lifetime p) - int r + 2 ^ 32" "2 ^ 32"] assms(2-4) by simp
  have "chain_parameters_validate (p\<lparr> committee_proposal_review_period := r \<rparr>) = Inr ()"
    using assms(1,4) m by (auto simp: chain_parameters_validate_def)
  moreover have False
    if l: "parameters (gpo (bstate l)) = p\<lparr> committee_proposal_review_period := r \<rparr>"
      and c: "let a = get_required_authorities operation_auths (pc_proposed_ops op) in GRAPHENE_COMMITTEE_ACCOUNT \<in> set (req_active a) \<union> set (req_owner a)"
      and e: "proposal_create_do_evaluate op l = Inr ()" for l op
  proof -
    from e c l obtain t where t: "pc_review_period_seconds op = Some t" "t \<ge> r" "int t < int (pc_expiration_time op) - int (head_block_time (ldb l))"
      by (auto simp: proposal_create_do_evaluate_def committee_review_def Let_def split: option.splits if_splits)
    from e l have "pc_expiration_time op \<le> (head_block_time (ldb l) + maximum_proposal_lifetime p) mod 2 ^ 32"
      by (auto simp: proposal_create_do_evaluate_def Let_def)
    also have "\<dots> \<le> head_block_time (ldb l) + maximum_proposal_lifetime p" by (rule mod_less_eq_dividend)
    finally show False using t assms(2) by linarith
  qed
  ultimately show ?thesis by blast
qed

theorem committee_locked_out_witness:
  "chain_parameters_validate (demo_parameters\<lparr> committee_proposal_review_period := 3000000 \<rparr>) = Inr ()"
proof -
  have "chain_parameters_validate demo_parameters = Inr ()" "maximum_proposal_lifetime demo_parameters < 3000000" "(3000000 :: nat) < 2 ^ 32"
    "3000000 + block_interval_of demo_parameters < 2 ^ 32 + maximum_proposal_lifetime demo_parameters"
    by (simp_all add: chain_parameters_validate_def demo_parameters_def GRAPHENE_100_PERCENT_def GRAPHENE_MIN_BLOCK_INTERVAL_def GRAPHENE_MAX_BLOCK_INTERVAL_def
      GRAPHENE_MIN_BLOCK_SIZE_LIMIT_def GRAPHENE_MIN_TRANSACTION_SIZE_LIMIT_def)
  from committee_locked_out [OF this] show ?thesis by blast
qed

text \<open>The identifiers for votes of two candidates are the same exactly when they are of one kind and their numbers agree
  in the lower 24 bits, so that they repeat after 2 ^ 24 numbers.\<close>

theorem vote_ids_repeat:
  assumes "t < 256" "u < 256"
  shows "vote_id t i = vote_id u j \<longleftrightarrow> t = u \<and> i mod 2 ^ 24 = j mod 2 ^ 24"
proof -
  have v: "vote_id t i = 256 * (i mod 2 ^ 24) + t" for t i
    using mult_mod_right [of 256 i "2 ^ 24"] by (simp add: vote_id_def mult.commute [of i 256])
  have "256 * a + t = 256 * b + u \<longleftrightarrow> t = u \<and> a = b" for a b :: nat
  proof
    assume e: "256 * a + t = 256 * b + u"
    from arg_cong [OF e, of "\<lambda>x. x mod 256"] assms have "t = u" by simp
    with e show "t = u \<and> a = b" by simp
  qed simp
  then show ?thesis by (simp only: v)
qed

theorem vote_ids_repeat_witness: "vote_id 1 (2 ^ 24) = vote_id 1 0 \<and> vote_id 1 5 \<noteq> vote_id 0 5"
  using vote_ids_repeat [of 1 1 "2 ^ 24" 0] vote_ids_repeat [of 1 0 5 5] by simp

end
