(* ===== verification/Maintenance.thy ===== *)
theory Maintenance
  imports Governance
begin

text \<open>
  The maintenance interval, \<^verbatim>\<open>db_maint.cpp\<close>: the fees set aside for buybacks, the counting of votes, the authorities and
  the witnesses and committee members that follow from it, the next maintenance time and the budget.
\<close>

section \<open>Fees set aside for buybacks\<close>

definition split_part :: "share_type \<Rightarrow> int \<Rightarrow> share_type result" where
  "split_part fees pct = rbind (to_uint64 (u128 (u128 fees * pct) div GRAPHENE_100_PERCENT)) (\<lambda>r. Inr (to_int64 r))"

definition burn_core :: "safe_ops \<Rightarrow> share_type \<Rightarrow> chain_db \<Rightarrow> chain_db result" where
  "burn_core S amt d = modify_dyn 0 (\<lambda>y. rbind (safe_sub S (current_supply y) amt) (\<lambda>s. Inr (y\<lparr> current_supply := s \<rparr>))) d"

definition reset_fba :: "nat \<Rightarrow> chain_db \<Rightarrow> chain_db result" where
  "reset_fba i d = rbind (modify_obj i (\<lambda>f. Inr (f\<lparr> accumulated_fba_fees := 0 \<rparr>)) (fba_accumulators d)) (\<lambda>fs. Inr (d\<lparr> fba_accumulators := fs \<rparr>))"

definition fba_payment :: "safe_ops \<Rightarrow> nat \<Rightarrow> nat \<Rightarrow> share_type \<Rightarrow> chain_db \<Rightarrow> chain_db result" where
  "fba_payment S i acc amt d =
     (if amt = 0 then Inr d
      else rbind (adjust_balance S acc (mk_asset amt 0) d) (\<lambda>d1. Inr (push_applied_operation (Fba_distribute_operation acc i amt) d1)))"

definition split_fba_balance :: "safe_ops \<Rightarrow> nat \<Rightarrow> nat \<Rightarrow> nat \<Rightarrow> nat \<Rightarrow> chain_db \<Rightarrow> chain_db result" where
  "split_fba_balance S i network_pct buyback_pct issuer_pct d =
     ensure (int network_pct + int buyback_pct + int issuer_pct = GRAPHENE_100_PERCENT) (
     rbind (get_obj (fba_accumulators d) i) (\<lambda>fba.
     let fees = accumulated_fba_fees fba in
     if fees = 0 then Inr d
     else rbind (fba_is_configured fba d) (\<lambda>c.
       if \<not> c then rbind (burn_core S fees d) (reset_fba i)
       else
         rbind (split_part fees (int buyback_pct)) (\<lambda>buyback_amount.
         rbind (split_part fees (int issuer_pct)) (\<lambda>issuer_amount.
         rbind (safe_add S buyback_amount issuer_amount) (\<lambda>given.
         ensure (given \<le> fees) (
         rbind (safe_sub S fees given) (\<lambda>network_amount.
         rbind (deref (designated_asset fba)) (\<lambda>das.
         rbind (get_obj (assets d) das) (\<lambda>designated.
         rbind (if network_amount \<noteq> 0 then burn_core S network_amount d else Inr d) (\<lambda>d1.
         rbind (deref (buyback_account designated)) (\<lambda>bb.
         rbind (fba_payment S i bb buyback_amount d1) (\<lambda>d2.
         rbind (fba_payment S i (issuer designated) issuer_amount d2) (reset_fba i))))))))))))))"

definition distribute_fba_balances :: "safe_ops \<Rightarrow> chain_db \<Rightarrow> chain_db result" where
  "distribute_fba_balances S d = rfold (\<lambda>i. split_fba_balance S i 2000 6000 2000) [0, 1, 2] d"

text \<open>The order a buyback account places, with the fee schedule not checked.\<close>

definition buyback_state :: trx_eval_state where
  "buyback_state = \<lparr> skip_fee = False, skip_fee_schedule_check = True \<rparr>"

definition buyback_order :: "nat \<Rightarrow> nat \<Rightarrow> share_type \<Rightarrow> nat \<Rightarrow> limit_order_create_operation" where
  "buyback_order acc sell amt buy = \<lparr> lo_fee = mk_asset 0 0, lo_seller = acc, lo_amount_to_sell = mk_asset amt sell,
     lo_min_to_receive = mk_asset 1 buy, lo_expiration = 2 ^ 32 - 1, lo_fill_or_kill = False \<rparr>"

definition sell_for_buyback :: "safe_ops \<Rightarrow> eval_context \<Rightarrow> nat \<Rightarrow> nat \<Rightarrow> share_type \<Rightarrow> nat \<Rightarrow> chain_db \<Rightarrow> chain_db result" where
  "sell_for_buyback S c acc sell amt buy d =
     rbind (apply_limit_order_create S buyback_state 0 (buyback_order acc sell amt buy) d) (\<lambda>(order_id, d1).
     if map_of (limit_orders d1) order_id \<noteq> None
     then apply_operation S c buyback_state (\<lambda>_. 0)
       (Limit_order_cancel_op \<lparr> lc_fee = mk_asset 0 0, lc_order = order_id, lc_fee_paying_account = acc \<rparr>) d1
     else Inr d1)"

text \<open>The exception handler goes on with the next holding.  An order is always refused before it has changed anything
  (\<open>buyback_order_refused\<close> below), so what the handler finds is the ledger as it was.\<close>

definition buyback_holding :: "safe_ops \<Rightarrow> eval_context \<Rightarrow> nat \<Rightarrow> nat list \<Rightarrow> nat \<Rightarrow> nat \<Rightarrow> chain_db \<Rightarrow> chain_db result" where
  "buyback_holding S c acc allowed buy sell d =
     (case balances d (acc, sell) of None \<Rightarrow> Inr d
      | Some amt \<Rightarrow>
          if sell = buy \<or> amt = 0 \<or> sell \<notin> set allowed then Inr d
          else (case sell_for_buyback S c acc sell amt buy d of Inl _ \<Rightarrow> Inr d | Inr d1 \<Rightarrow> Inr d1))"

definition create_buyback_orders :: "safe_ops \<Rightarrow> eval_context \<Rightarrow> chain_db \<Rightarrow> chain_db result" where
  "create_buyback_orders S c d =
     rfold (\<lambda>buy d.
       rbind (get_obj (assets d) buy) (\<lambda>a.
       rbind (deref (buyback_account a)) (\<lambda>acc.
       rbind (get_obj (accounts d) acc) (\<lambda>account.
       case allowed_assets account of None \<Rightarrow> Inr d
       | Some allowed \<Rightarrow> rfold (buyback_holding S c acc allowed buy) [0..<length (assets d)] d)))) (buybacks d) d"

section \<open>Counting votes\<close>

definition GRAPHENE_PROXY_TO_SELF_ACCOUNT :: nat where "GRAPHENE_PROXY_TO_SELF_ACCOUNT = 5"

text \<open>\<^verbatim>\<open>resize\<close> keeps what is in the buffer.\<close>

definition resize :: "nat \<Rightarrow> nat list \<Rightarrow> nat list" where
  "resize n xs = take n xs @ replicate (n - length xs) 0"

definition start_buffers :: "global_property_object \<Rightarrow> vote_buffers \<Rightarrow> vote_buffers" where
  "start_buffers g b = \<lparr> vote_tally_buffer = resize (next_available_vote_id g) (vote_tally_buffer b),
     witness_count_histogram_buffer = resize (maximum_witness_count (parameters g) div 2 + 1) (witness_count_histogram_buffer b),
     committee_count_histogram_buffer = resize (maximum_committee_count (parameters g) div 2 + 1) (committee_count_histogram_buffer b),
     total_voting_stake = 0 \<rparr>"

definition mod64 :: "nat \<Rightarrow> nat" where
  "mod64 n = n mod 2 ^ 64"

definition add_at :: "nat \<Rightarrow> nat \<Rightarrow> nat list \<Rightarrow> nat list" where
  "add_at i v xs = xs[i := mod64 (xs ! i + v)]"

definition voting_stake :: "chain_db \<Rightarrow> nat \<Rightarrow> account_object \<Rightarrow> nat result" where
  "voting_stake d i a =
     rbind (account_statistics d i) (\<lambda>s.
     rbind (case cashback_vb a of None \<Rightarrow> Inr 0 | Some v \<Rightarrow> rbind (get_obj (vesting_balances d) v) (\<lambda>b. Inr (amount (vb_balance b)))) (\<lambda>cashback.
     let stake = total_core_in_orders s + cashback + amount (get_balance d i 0) in
     throw_unless Undefined_behaviour (int64 (total_core_in_orders s + cashback) \<and> int64 stake) (Inr (nat (stake mod 2 ^ 64)))))"

definition tally_votes :: "nat list \<Rightarrow> nat \<Rightarrow> nat list \<Rightarrow> nat list" where
  "tally_votes ids stake tally = fold (\<lambda>v t. if vote_instance v < length t then add_at (vote_instance v) stake t else t) ids tally"

definition tally_count :: "nat \<Rightarrow> nat \<Rightarrow> nat \<Rightarrow> nat list \<Rightarrow> nat list" where
  "tally_count num maximum stake hist = (if num \<le> maximum then add_at (min (num div 2) (length hist - 1)) stake hist else hist)"

definition tally_account :: "global_property_object \<Rightarrow> nat \<Rightarrow> chain_db \<Rightarrow> vote_buffers \<Rightarrow> vote_buffers result" where
  "tally_account g i d b =
     rbind (get_obj (accounts d) i) (\<lambda>a.
     if count_non_member_votes (parameters g) \<or> is_member a (head_block_time d) then
       rbind (if voting_account (acc_options a) = GRAPHENE_PROXY_TO_SELF_ACCOUNT then Inr a
              else get_obj (accounts d) (voting_account (acc_options a))) (\<lambda>opinion.
       rbind (voting_stake d i a) (\<lambda>stake.
       Inr \<lparr> vote_tally_buffer = tally_votes (votes (acc_options opinion)) stake (vote_tally_buffer b),
         witness_count_histogram_buffer = tally_count (num_witness (acc_options opinion)) (maximum_witness_count (parameters g)) stake (witness_count_histogram_buffer b),
         committee_count_histogram_buffer = tally_count (num_committee (acc_options opinion)) (maximum_committee_count (parameters g)) stake (committee_count_histogram_buffer b),
         total_voting_stake = mod64 (total_voting_stake b + stake) \<rparr>))
     else Inr b)"

text \<open>The accounts in the order of their names; each is counted and then its fees are distributed.\<close>

fun string_less :: "string \<Rightarrow> string \<Rightarrow> bool" where
  "string_less _ [] = False"
| "string_less [] (_ # _) = True"
| "string_less (x # xs) (y # ys) = ((of_char x :: nat) < of_char y \<or> x = y \<and> string_less xs ys)"

definition accounts_by_name :: "chain_db \<Rightarrow> nat list" where
  "accounts_by_name d = sort_by (\<lambda>i j. string_less (acc_name (accounts d ! i)) (acc_name (accounts d ! j))) [0..<length (accounts d)]"

definition maintain_account :: "safe_ops \<Rightarrow> global_property_object \<Rightarrow> nat \<Rightarrow> vote_buffers \<times> chain_db \<Rightarrow> (vote_buffers \<times> chain_db) result" where
  "maintain_account S g i = (\<lambda>(b, d). rbind (tally_account g i d b) (\<lambda>b1. rbind (process_fees S i d) (\<lambda>d1. Inr (b1, d1))))"

definition perform_account_maintenance :: "safe_ops \<Rightarrow> global_property_object \<Rightarrow> vote_buffers \<times> chain_db \<Rightarrow> (vote_buffers \<times> chain_db) result" where
  "perform_account_maintenance S g bd = rfold (maintain_account S g) (accounts_by_name (snd bd)) bd"

section \<open>Authorities from votes\<close>

fun find_msb :: "nat \<Rightarrow> nat" where
  "find_msb n = (if n < 2 then 0 else Suc (find_msb (n div 2)))"

declare find_msb.simps [simp del]

record vote_counter =
  last_votes :: nat
  total_votes :: nat
  bitshift :: int
  vc_auth :: authority

definition new_vote_counter :: vote_counter where
  "new_vote_counter = \<lparr> last_votes = 2 ^ 64 - 1, total_votes = 0, bitshift = - 1,
     vc_auth = \<lparr> weight_threshold = 0, account_auths = [], key_auths = [], address_auths = [] \<rparr> \<rparr>"

definition vc_add :: "nat \<times> nat \<Rightarrow> vote_counter \<Rightarrow> vote_counter" where
  "vc_add = (\<lambda>(who, votes) vc.
     if votes = 0 then vc
     else
       let shift = (if bitshift vc = - 1 then max (int (find_msb votes) - 15) 0 else bitshift vc);
           scaled = max (votes div 2 ^ nat shift) 1
       in vc\<lparr> last_votes := votes, bitshift := shift, total_votes := total_votes vc + scaled,
             vc_auth := add_account_authority who (of_nat scaled) (vc_auth vc) \<rparr>)"

definition vc_finish :: "vote_counter \<Rightarrow> authority \<Rightarrow> authority" where
  "vc_finish vc out = (if total_votes vc = 0 then out else (vc_auth vc)\<lparr> weight_threshold := of_nat (total_votes vc div 2 + 1) \<rparr>)"

definition count_authority :: "(nat \<times> nat) list \<Rightarrow> authority \<Rightarrow> authority" where
  "count_authority vs out = vc_finish (fold vc_add vs new_vote_counter) out"

definition set_active :: "nat \<Rightarrow> (authority \<Rightarrow> authority) \<Rightarrow> chain_db \<Rightarrow> chain_db result" where
  "set_active i f d = rbind (modify_obj i (\<lambda>a. Inr (a\<lparr> active := f (active a) \<rparr>)) (accounts d)) (\<lambda>as. Inr (d\<lparr> accounts := as \<rparr>))"

text \<open>The holders of an asset, the largest first; equal balances in the order of the accounts.\<close>

definition holders :: "chain_db \<Rightarrow> nat \<Rightarrow> (nat \<times> nat) list" where
  "holders d ast = sort_by (\<lambda>p q. snd q < snd p \<or> snd p = snd q \<and> fst p < fst q)
     (map (\<lambda>c. (c, nat (the (balances d (c, ast))))) (filter (\<lambda>c. balances d (c, ast) \<noteq> None) [0..<length (accounts d)]))"

definition top_n_authority :: "bool \<Rightarrow> nat \<Rightarrow> special_authority \<Rightarrow> chain_db \<Rightarrow> chain_db result" where
  "top_n_authority is_owner acct sa d =
     (case sa of No_special_authority \<Rightarrow> Inr d
      | Top_holders_special_authority ast n \<Rightarrow>
          if n = 0 then Inr d
          else
            let vc = fold vc_add (take n (filter (\<lambda>p. fst p \<noteq> acct) (holders d ast))) new_vote_counter in
            rbind (modify_obj acct (\<lambda>a.
              let a1 = (if is_owner then a\<lparr> owner := vc_finish vc (owner a) \<rparr> else a\<lparr> active := vc_finish vc (active a) \<rparr>)
              in Inr (if total_votes vc \<noteq> 0 then a1\<lparr> top_n_control_flags := top_n_control_flags a1 OR (if is_owner then 1 else 2) \<rparr> else a1)) (accounts d))
            (\<lambda>as. Inr (d\<lparr> accounts := as \<rparr>)))"

definition update_top_n_authorities :: "chain_db \<Rightarrow> chain_db result" where
  "update_top_n_authorities d =
     rfold (\<lambda>i d. rbind (get_obj (accounts d) i) (\<lambda>a. rbind (top_n_authority True i (owner_special_authority a) d)
       (top_n_authority False i (active_special_authority a)))) (special_authorities d) d"

section \<open>Witnesses and committee members\<close>

text \<open>The smallest number, if one is reached, for which those who want at most that many hold more than the target.\<close>

fun stake_count :: "(share_type \<Rightarrow> nat \<Rightarrow> share_type result) \<Rightarrow> share_type \<Rightarrow> share_type \<Rightarrow> nat \<Rightarrow> nat list \<Rightarrow> nat result" where
  "stake_count add target tally k [] = Inr k"
| "stake_count add target tally k (h # hs) =
     (if tally \<le> target then rbind (add tally h) (\<lambda>t. stake_count add target t (Suc k) hs) else Inr k)"

definition stake_target :: "vote_buffers \<Rightarrow> share_type result" where
  "stake_target b = (case witness_count_histogram_buffer b of [] \<Rightarrow> Inl Undefined_behaviour
     | h # _ \<Rightarrow> Inr (int ((total_voting_stake b + 2 ^ 64 - h) mod 2 ^ 64 div 2)))"

text \<open>The pairs are objects and their vote identifiers.\<close>

definition votes_before :: "nat list \<Rightarrow> nat \<times> nat \<Rightarrow> nat \<times> nat \<Rightarrow> bool" where
  "votes_before tally p q \<longleftrightarrow>
     (let a = to_int64 (int (tally ! vote_instance (snd p))); b = to_int64 (int (tally ! vote_instance (snd q)))
      in if a \<noteq> b then a > b else snd p < snd q)"

definition sort_votable_objects :: "nat list \<Rightarrow> nat \<Rightarrow> (nat \<times> nat) list \<Rightarrow> nat list result" where
  "sort_votable_objects tally cnt objs =
     throw_unless Undefined_behaviour (objs \<noteq> [] \<and> list_all (\<lambda>p. vote_instance (snd p) < length tally) objs)
       (Inr (take (min cnt (length objs)) (map fst (sort_by (votes_before tally) objs))))"

definition update_active_witnesses :: "safe_ops \<Rightarrow> ledger \<Rightarrow> ledger result" where
  "update_active_witnesses S l =
     (let s = bstate l; tally = vote_tally_buffer (buffers l) in
      rbind (stake_target (buffers l)) (\<lambda>target.
      rbind (if target > 0
             then stake_count (\<lambda>t h. safe_add S t (to_int64 (int h))) target 0 0 (tl (witness_count_histogram_buffer (buffers l)))
             else Inr 0) (\<lambda>witness_count.
      rbind (sort_votable_objects tally (max (witness_count * 2 + 1) (min_witness_count (immutable l)))
               (zip [0..<length (witnesses s)] (map wit_vote_id (witnesses s)))) (\<lambda>wits.
      let ws = map (\<lambda>w. w\<lparr> wit_total_votes := tally ! vote_instance (wit_vote_id w) \<rparr>) (witnesses s) in
      rbind (set_active GRAPHENE_WITNESS_ACCOUNT
               (count_authority (map (\<lambda>w. (witness_account (ws ! w), tally ! vote_instance (wit_vote_id (ws ! w)))) wits)) (cdb s)) (\<lambda>d.
      Inr (l\<lparr> bstate := s\<lparr> witnesses := ws, cdb := d, gpo := (gpo s)\<lparr> active_witnesses := sort wits \<rparr> \<rparr> \<rparr>))))))"

text \<open>The target is again taken from the histogram of the witnesses, and only the members that are chosen get their
  number of votes written.\<close>

definition update_active_committee_members :: "ledger \<Rightarrow> ledger result" where
  "update_active_committee_members l =
     (let s = bstate l; tally = vote_tally_buffer (buffers l) in
      throw_unless Undefined_behaviour (committee_count_histogram_buffer (buffers l) \<noteq> []) (
      rbind (stake_target (buffers l)) (\<lambda>target.
      rbind (if target > 0
             then stake_count (\<lambda>t h. Inr (to_int64 ((t + int h) mod 2 ^ 64))) target 0 0 (tl (committee_count_histogram_buffer (buffers l)))
             else Inr 0) (\<lambda>committee_member_count.
      rbind (sort_votable_objects tally (max (committee_member_count * 2 + 1) (min_committee_member_count (immutable l)))
               (zip [0..<length (committee_members s)] (map com_vote_id (committee_members s)))) (\<lambda>members.
      let cs = fold (\<lambda>m cs. cs[m := (cs ! m)\<lparr> com_total_votes := tally ! vote_instance (com_vote_id (cs ! m)) \<rparr>]) members (committee_members s) in
      rbind (set_active GRAPHENE_COMMITTEE_ACCOUNT
               (count_authority (map (\<lambda>m. (committee_member_account (cs ! m), tally ! vote_instance (com_vote_id (cs ! m)))) members)) (cdb s)) (\<lambda>d1.
      rbind (get_obj (accounts d1) GRAPHENE_COMMITTEE_ACCOUNT) (\<lambda>committee.
      rbind (set_active GRAPHENE_RELAXED_COMMITTEE_ACCOUNT (\<lambda>_. active committee) d1) (\<lambda>d.
      Inr (l\<lparr> bstate := s\<lparr> committee_members := cs, cdb := d, gpo := (gpo s)\<lparr> active_committee_members := members \<rparr> \<rparr> \<rparr>)))))))))"

section \<open>The budget\<close>

definition HARDFORK_3_TIME :: nat where "HARDFORK_3_TIME = 1509454800"
definition GRAPHENE_CORE_ASSET_CYCLE_RATE :: int where "GRAPHENE_CORE_ASSET_CYCLE_RATE = 1775"

definition empty_budget_record :: budget_record where
  "empty_budget_record = \<lparr> br_time_since_last_budget = 0, br_from_initial_reserve = 0, br_from_accumulated_fees = 0, br_from_unused_witness_budget = 0,
     br_requested_witness_budget = 0, br_witness_pay_per_block = 0, br_total_budget = 0, br_witness_budget = 0, br_worker_budget = 0,
     br_leftover_worker_funds = 0, br_supply_delta = 0 \<rparr>"

text \<open>What the reserve releases in \<open>dt\<close> seconds, rounded up.\<close>

definition released :: "share_type \<Rightarrow> nat \<Rightarrow> int" where
  "released reserve dt = u128 (u128 (u128 (u128 (max reserve 0) * int dt) * GRAPHENE_CORE_ASSET_CYCLE_RATE) + (2 ^ 32 - 1)) div 2 ^ 32"

definition limit_budget :: "share_type \<Rightarrow> nat \<Rightarrow> share_type result" where
  "limit_budget reserve dt =
     (if reserve < 0 \<or> released reserve dt < reserve then rbind (to_uint64 (released reserve dt)) (\<lambda>b. Inr (to_int64 b)) else Inr reserve)"

definition initialize_budget_record :: "safe_ops \<Rightarrow> block_state \<Rightarrow> budget_record result" where
  "initialize_budget_record S s =
     (let d = cdb s; now = head_block_time d; last = last_budget_time (dgp s) in
      rbind (get_obj (assets d) 0) (\<lambda>core.
      rbind (get_obj (dyn_data d) (dynamic_asset_data_id core)) (\<lambda>core_dd.
      rbind (safe_sub S (max_supply (options core)) (current_supply core_dd)) (\<lambda>reserved.
      let rec1 = empty_budget_record\<lparr> br_from_initial_reserve := (if now \<ge> HARDFORK_3_TIME then 0 else reserved),
                  br_from_accumulated_fees := accumulated_fees core_dd, br_from_unused_witness_budget := witness_budget (dgp s) \<rparr> in
      if last = 0 \<or> now \<le> last then Inr rec1
      else
        rbind (safe_add S (br_from_initial_reserve rec1) (accumulated_fees core_dd)) (\<lambda>r1.
        rbind (safe_add S r1 (witness_budget (dgp s))) (\<lambda>reserve.
        rbind (limit_budget reserve (now - last)) (\<lambda>total_budget.
        Inr (rec1\<lparr> br_time_since_last_budget := now - last, br_total_budget := total_budget \<rparr>))))))))"

text \<open>The two assertions of the source hold on time and block interval; without them the division is undefined.\<close>

definition process_budget :: "safe_ops \<Rightarrow> ledger \<Rightarrow> ledger result" where
  "process_budget S l =
     (let s = bstate l; now = now_of s; time_to_maint = int (next_maintenance_time (dgp s)) - int now in
      throw_unless Undefined_behaviour (time_to_maint > 0 \<and> block_interval s > 0) (
      let blocks_to_maint = (nat time_to_maint + block_interval s - 1) div block_interval s in
      rbind (initialize_budget_record S s) (\<lambda>rec0.
      let available = br_total_budget rec0 in
      rbind (safe_div S available (int blocks_to_maint)) (\<lambda>pay_per_block.
      rbind (safe_sub S available available) (\<lambda>_.
      let rec1 = rec0\<lparr> br_requested_witness_budget := to_int64 (cp_witness_pay_per_block (parameters (gpo s)) * int blocks_to_maint),
                  br_witness_budget := available, br_witness_pay_per_block := pay_per_block \<rparr> in
      rbind (safe_add S (br_witness_budget rec1) (br_worker_budget rec1)) (\<lambda>x1.
      rbind (safe_sub S x1 (br_leftover_worker_funds rec1)) (\<lambda>x2.
      rbind (safe_sub S x2 (br_from_accumulated_fees rec1)) (\<lambda>x3.
      rbind (safe_sub S x3 (br_from_unused_witness_budget rec1)) (\<lambda>supply_delta.
      rbind (modify_dyn 0 (\<lambda>y. rbind (safe_add S (current_supply y) supply_delta) (\<lambda>c. Inr (y\<lparr> current_supply := c, accumulated_fees := 0 \<rparr>))) (cdb s)) (\<lambda>d.
      Inr (l\<lparr> bstate := s\<lparr> cdb := d, dgp := (dgp s)\<lparr> witness_budget := available, witness_pay_per_block := pay_per_block, last_budget_time := now \<rparr> \<rparr>,
        budgets := budgets l @ [(now, rec1\<lparr> br_supply_delta := supply_delta \<rparr>)] \<rparr>)))))))))))"

section \<open>The maintenance\<close>

text \<open>The scaling of the registration fee is taken back, then pending parameters replace the current ones.\<close>

definition with_cashback :: "chain_parameters \<Rightarrow> chain_db \<Rightarrow> chain_db" where
  "with_cashback p d = d\<lparr> cashback_vesting_period_seconds := cp_cashback_vesting_period_seconds p,
     cashback_vesting_threshold := cp_cashback_vesting_threshold p \<rparr>"

definition renew_parameters :: "block_state \<Rightarrow> block_state result" where
  "renew_parameters s =
     (let p = parameters (gpo s) in
      throw_unless Undefined_behaviour (accounts_per_fee_scale p \<noteq> 0) (
      let shift = account_fee_scale_bitshifts p * (accounts_registered_this_interval (dgp s) div accounts_per_fee_scale p) in
      throw_unless Undefined_behaviour (shift < 64) (
      let p1 = p\<lparr> account_create_basic_fee := account_create_basic_fee p div 2 ^ shift \<rparr> in
      Inr (case pending_parameters (gpo s) of None \<Rightarrow> s\<lparr> gpo := (gpo s)\<lparr> parameters := p1 \<rparr> \<rparr>
           | Some q \<Rightarrow> s\<lparr> gpo := (gpo s)\<lparr> parameters := q, pending_parameters := None \<rparr>, cdb := with_cashback q (cdb s) \<rparr>))))"

definition advance_maintenance_time :: "nat \<Rightarrow> nat \<Rightarrow> nat \<Rightarrow> nat \<Rightarrow> nat \<Rightarrow> nat result" where
  "advance_maintenance_time next now interval block_time num =
     (if next \<le> block_time then
        throw_unless Undefined_behaviour (interval \<noteq> 0)
          (Inr (if num = 1 then (block_time div interval + 1) * interval mod 2 ^ 32
                else (next + nat (((int now - int next) sdiv int interval + 1) * int interval mod 2 ^ 32)) mod 2 ^ 32))
      else Inr next)"

definition reset_settled_volumes :: "chain_db \<Rightarrow> chain_db" where
  "reset_settled_volumes d = d\<lparr> bitassets := map (\<lambda>b. b\<lparr> force_settled_volume := 0 \<rparr>) (bitassets d) \<rparr>"

definition clear_buffers :: "vote_buffers \<Rightarrow> vote_buffers" where
  "clear_buffers b = b\<lparr> vote_tally_buffer := [], witness_count_histogram_buffer := [], committee_count_histogram_buffer := [] \<rparr>"

definition perform_chain_maintenance :: "safe_ops \<Rightarrow> eval_context \<Rightarrow> 'tx signed_block \<Rightarrow> ledger \<Rightarrow> ledger result" where
  "perform_chain_maintenance S c b l =
     rbind (distribute_fba_balances S (ldb l)) (\<lambda>d1.
     rbind (create_buyback_orders S c d1) (\<lambda>d2.
     rbind (perform_account_maintenance S (gpo (bstate l)) (start_buffers (gpo (bstate l)) (buffers l), d2)) (\<lambda>(bufs, d3).
     rbind (update_top_n_authorities d3) (\<lambda>d4.
     rbind (update_active_witnesses S ((with_db l d4)\<lparr> buffers := bufs \<rparr>)) (\<lambda>l1.
     rbind (update_active_committee_members l1) (\<lambda>l2.
     rbind (renew_parameters (bstate l2)) (\<lambda>s1.
     rbind (advance_maintenance_time (next_maintenance_time (dgp s1)) (now_of s1) (maintenance_interval (parameters (gpo s1))) (timestamp b) (unat (block_num b))) (\<lambda>next.
     let s2 = s1\<lparr> dgp := (dgp s1)\<lparr> next_maintenance_time := next, accounts_registered_this_interval := 0 \<rparr>, cdb := reset_settled_volumes (cdb s1) \<rparr> in
     rbind (process_budget S (l2\<lparr> bstate := s2 \<rparr>)) (\<lambda>l3.
     Inr (l3\<lparr> buffers := clear_buffers (buffers l3) \<rparr>))))))))))"

section \<open>Lemmas\<close>

lemma mset_fm_update: "k \<notin> fst ` set xs \<Longrightarrow> mset (fm_update k v xs) = add_mset (k, v) (mset xs)"
  by (induction k v xs rule: fm_update.induct) auto

subsection \<open>No value is created\<close>

definition fba_total :: "chain_db \<Rightarrow> int" where
  "fba_total d = sum_list (map accumulated_fba_fees (fba_accumulators d))"

text \<open>\<open>keeps g d d'\<close>: what is held beyond the supply, buyback fees included, grows by \<open>g\<close> in the core asset.\<close>

definition held :: "chain_db \<Rightarrow> nat \<Rightarrow> int" where
  "held d x = net d x + amt_at 0 (fba_total d) x"

definition keeps :: "int \<Rightarrow> chain_db \<Rightarrow> chain_db \<Rightarrow> bool" where
  "keeps g d d' \<longleftrightarrow> market_wf d' \<and> length (accounts d') = length (accounts d) \<and> head_block_time d' = head_block_time d \<and>
     (\<forall>x. held d' x = held d x + amt_at 0 g x)"

lemma keeps_refl: "market_wf d \<Longrightarrow> keeps 0 d d"
  by (simp add: keeps_def)

lemma keeps_trans: "keeps g d d1 \<Longrightarrow> keeps h d1 d2 \<Longrightarrow> keeps (g + h) d d2"
  by (simp add: keeps_def amt_at_def)

lemma keeps_trans0: "keeps 0 d d1 \<Longrightarrow> keeps 0 d1 d2 \<Longrightarrow> keeps 0 d d2"
  using keeps_trans [of 0 d d1 0 d2] by simp

lemma keeps_wf: "keeps g d d' \<Longrightarrow> market_wf d'"
  by (simp add: keeps_def)

lemma moves_keeps: "moves (amt_at 0 g) d d' \<Longrightarrow> keeps g d d'"
  by (simp add: moves_def keeps_def same_frame_def fba_total_def held_def)

lemma conserves_keeps: "conserves d d' \<Longrightarrow> keeps 0 d d'"
  unfolding conserves_moves by (rule moves_keeps) simp

lemma reset_fba_keeps:
  assumes "reset_fba i d = Inr d'" "market_wf d"
  shows "keeps (- accumulated_fba_fees (fba_accumulators d ! i)) d d'"
proof -
  from assms(1) have i: "i < length (fba_accumulators d)" and d': "d' = d\<lparr> fba_accumulators := (fba_accumulators d)[i := (fba_accumulators d ! i)\<lparr> accumulated_fba_fees := 0 \<rparr>] \<rparr>"
    by (auto simp: reset_fba_def)
  have "bal d' = bal d" unfolding d' by (rule bal_cong) simp
  then have "net d' x = net d x" for x by (simp add: net_def gross_def supply_of_def dyn_of_def d')
  moreover have "market_wf d'" using assms(2) by (simp add: market_wf_def d')
  ultimately show ?thesis by (simp add: keeps_def held_def amt_at_def fba_total_def d' sum_list_update_int [OF i])
qed

context fc_safe
begin

lemma burn_core_moves:
  assumes "burn_core S amt d = Inr d'" "market_wf d"
  shows "moves (amt_at 0 amt) d d'"
proof -
  have "effect (\<lambda>y. amt_at 0 0 y + amt_at 0 0 y) (amt_at 0 (- amt)) d d' \<and> same_orders d d'"
    by (rule modify_dyn_effect [OF assms(1) [unfolded burn_core_def] assms(2)]) (auto simp: sub_iff)
  from effect_moves [OF conjunct1 [OF this]] show ?thesis by (rule moves_cong) (simp add: amt_at_def)
qed

lemma fba_payment_moves:
  assumes "fba_payment S i acc amt d = Inr d'" "market_wf d" "acc < length (accounts d)"
  shows "moves (amt_at 0 amt) d d'"
proof (cases "amt = 0")
  case True
  then show ?thesis using assms conserves_refl [OF assms(2)] by (simp add: fba_payment_def conserves_moves)
next
  case False
  with assms(1) obtain d1 where a: "adjust_balance S acc (mk_asset amt 0) d = Inr d1"
    and d': "d' = push_applied_operation (Fba_distribute_operation acc i amt) d1" by (auto simp: fba_payment_def)
  note m = adjust_balance_moves [OF a assms(3,2)]
  have "effect (\<lambda>_. 0) (\<lambda>_. 0) d1 d' \<and> same_orders d1 d'" unfolding d' by (rule push_applied_effect [OF moves_wf(1) [OF m]])
  from moves_trans [OF m effect_moves [OF conjunct1 [OF this]]] show ?thesis by (rule moves_cong) simp
qed

end

lemma rfold_keeps:
  assumes "\<And>x d d'. f x d = Inr d' \<Longrightarrow> market_wf d \<Longrightarrow> keeps 0 d d'"
  shows "rfold f xs d = Inr d' \<Longrightarrow> market_wf d \<Longrightarrow> keeps 0 d d'"
proof (induction xs arbitrary: d)
  case (Cons x xs)
  then obtain d1 where d1: "f x d = Inr d1" "rfold f xs d1 = Inr d'" by auto
  note k = assms [OF d1(1) Cons.prems(2)]
  then show ?case using Cons.IH [OF d1(2) keeps_wf [OF k]] keeps_trans0 by blast
qed (simp add: keeps_refl)

lemma buyback_account_exists:
  assumes "market_wf d" "x < length (assets d)" "buyback_account (assets d ! x) = Some i"
  shows "i < length (accounts d)"
proof -
  have "\<forall>a\<in>set (assets d). \<forall>i. buyback_account a = Some i \<longrightarrow> i < length (accounts d)" using assms(1) unfolding market_wf_def by (elim conjE)
  with nth_mem [OF assms(2)] assms(3) show ?thesis by blast
qed

lemma fba_configured_accounts:
  assumes "fba_is_configured fba d = Inr True"
  obtains das where "designated_asset fba = Some das" "das < length (assets d)" "issuer (assets d ! das) < length (accounts d)"
  using assms by (auto simp: fba_is_configured_def Let_def split: option.splits if_splits)

context fc_safe
begin

lemma fba_configured_split:
  assumes "split_fba_balance S i np bp ip d = Inr d'" "accumulated_fba_fees (fba_accumulators d ! i) \<noteq> 0" "fba_is_configured (fba_accumulators d ! i) d = Inr True"
  obtains das bb b1 b2 n d1 d2 d3 where "designated_asset (fba_accumulators d ! i) = Some das" "das < length (assets d)" "buyback_account (assets d ! das) = Some bb"
    "n + b1 + b2 = accumulated_fba_fees (fba_accumulators d ! i)" "burn_core S n d = Inr d1 \<or> n = 0 \<and> d1 = d" "fba_payment S i bb b1 d1 = Inr d2"
    "fba_payment S i (issuer (assets d ! das)) b2 d2 = Inr d3" "reset_fba i d3 = Inr d'"
proof -
  let ?fees = "accumulated_fba_fees (fba_accumulators d ! i)"
  from assms(1) have i: "i < length (fba_accumulators d)" by (auto simp: split_fba_balance_def)
  from assms obtain b1 b2 given n where b: "split_part ?fees (int bp) = Inr b1" "split_part ?fees (int ip) = Inr b2"
    and g: "safe_add S b1 b2 = Inr given" "given \<le> ?fees" and n: "safe_sub S ?fees given = Inr n"
    and rest: "rbind (deref (designated_asset (fba_accumulators d ! i))) (\<lambda>das.
         rbind (get_obj (assets d) das) (\<lambda>designated.
         rbind (if n \<noteq> 0 then burn_core S n d else Inr d) (\<lambda>d1.
         rbind (deref (buyback_account designated)) (\<lambda>bb.
         rbind (fba_payment S i bb b1 d1) (\<lambda>d2.
         rbind (fba_payment S i (issuer designated) b2 d2) (reset_fba i)))))) = Inr d'"
    using i by (auto simp: split_fba_balance_def Let_def simp del: rbind_eq_Inr elim!: rbindE)
  from rest obtain das bb d1 d2 d3 where "designated_asset (fba_accumulators d ! i) = Some das" "das < length (assets d)" "buyback_account (assets d ! das) = Some bb"
    "(if n \<noteq> 0 then burn_core S n d else Inr d) = Inr d1" "fba_payment S i bb b1 d1 = Inr d2"
    "fba_payment S i (issuer (assets d ! das)) b2 d2 = Inr d3" "reset_fba i d3 = Inr d'" by auto
  moreover have "n + b1 + b2 = ?fees" using g n by (simp add: add_iff sub_iff)
  ultimately show thesis using that by (metis (full_types) sum.inject(2))
qed

lemma split_fba_keeps:
  assumes "split_fba_balance S i np bp ip d = Inr d'" "market_wf d"
  shows "keeps 0 d d'"
proof -
  let ?fba = "fba_accumulators d ! i" and ?fees = "accumulated_fba_fees (fba_accumulators d ! i)"
  from assms(1) obtain c where q: "?fees = 0 \<and> d' = d \<or> ?fees \<noteq> 0 \<and> fba_is_configured ?fba d = Inr c"
    by (auto simp: split_fba_balance_def Let_def split: if_splits)
  have fin: "keeps 0 d d'" if "moves (amt_at 0 ?fees) d d3" "reset_fba i d3 = Inr d'" for d3
  proof -
    have "fba_accumulators d3 = fba_accumulators d" using that(1) by (simp add: moves_def same_frame_def)
    then have "keeps (- ?fees) d3 d'" using reset_fba_keeps [OF that(2) moves_wf(1) [OF that(1)]] by simp
    from keeps_trans [OF moves_keeps [OF that(1)] this] show ?thesis by simp
  qed
  consider "d' = d" | "?fees \<noteq> 0" "fba_is_configured ?fba d = Inr False" | "?fees \<noteq> 0" "fba_is_configured ?fba d = Inr True" using q by (cases c) auto
  then show ?thesis
  proof cases
    case 1
    then show ?thesis using keeps_refl [OF assms(2)] by simp
  next
    case 2
    with assms(1) obtain d1 where b: "burn_core S ?fees d = Inr d1" "reset_fba i d1 = Inr d'" by (auto simp: split_fba_balance_def Let_def)
    show ?thesis by (rule fin [OF burn_core_moves [OF b(1) assms(2)] b(2)])
  next
    case 3
    obtain das bb b1 b2 n d1 d2 d3 where das: "designated_asset ?fba = Some das" "das < length (assets d)" "buyback_account (assets d ! das) = Some bb"
      and t: "n + b1 + b2 = ?fees" and k1: "burn_core S n d = Inr d1 \<or> n = 0 \<and> d1 = d" and k2: "fba_payment S i bb b1 d1 = Inr d2"
      and k3: "fba_payment S i (issuer (assets d ! das)) b2 d2 = Inr d3" and r: "reset_fba i d3 = Inr d'"
      by (rule fba_configured_split [OF assms(1) 3])
    have bb: "bb < length (accounts d)" by (rule buyback_account_exists [OF assms(2) das(2,3)])
    have iss: "issuer (assets d ! das) < length (accounts d)" using 3(2) das(1) by (auto elim: fba_configured_accounts)
    have m1: "moves (amt_at 0 n) d d1" using k1 burn_core_moves [OF _ assms(2)] conserves_refl [OF assms(2)] by (auto simp: conserves_moves)
    have m2: "moves (amt_at 0 b1) d1 d2" by (rule fba_payment_moves [OF k2 moves_wf(1) [OF m1]]) (use moves_wf(2) [OF m1] bb in simp)
    have m3: "moves (amt_at 0 b2) d2 d3" by (rule fba_payment_moves [OF k3 moves_wf(1) [OF m2]]) (use moves_wf(2) [OF m1] moves_wf(2) [OF m2] iss in simp)
    have "moves (amt_at 0 ?fees) d d3" by (rule moves_cong [OF moves_trans [OF moves_trans [OF m1 m2] m3]]) (use t in \<open>simp add: amt_at_def\<close>)
    then show ?thesis by (rule fin [OF _ r])
  qed
qed

lemma distribute_fba_keeps: "distribute_fba_balances S d = Inr d' \<Longrightarrow> market_wf d \<Longrightarrow> keeps 0 d d'"
  unfolding distribute_fba_balances_def by (rule rfold_keeps [OF split_fba_keeps])

end

text \<open>A limit order is refused by the very first check of its evaluator, so buyback accounts sell nothing.\<close>

lemma buyback_order_refused: "apply_limit_order_create S ts req op d \<noteq> Inr r"
  by (auto simp: apply_limit_order_create_def evaluate_def limit_order_create_do_evaluate_def)

lemma buyback_holding_same: "buyback_holding S c acc allowed buy sell d = Inr d' \<Longrightarrow> d' = d"
  using buyback_order_refused by (auto simp: buyback_holding_def sell_for_buyback_def split: option.splits sum.splits if_splits)

lemma rfold_same: "(\<And>x d d'. f x d = Inr d' \<Longrightarrow> d' = d) \<Longrightarrow> rfold f xs d = Inr d' \<Longrightarrow> d' = d"
  by (induction xs arbitrary: d) auto

lemma buyback_holdings_same: "rfold (buyback_holding S c acc xs buy) is d = Inr d' \<Longrightarrow> d' = d"
  by (erule rfold_same [rotated]) (rule buyback_holding_same)

lemma create_buyback_orders_same: "create_buyback_orders S c d = Inr d' \<Longrightarrow> d' = d"
  unfolding create_buyback_orders_def
proof (erule rfold_same [rotated])
  fix buy d d' assume "rbind (get_obj (assets d) buy) (\<lambda>a. rbind (deref (buyback_account a)) (\<lambda>acc. rbind (get_obj (accounts d) acc) (\<lambda>account.
       case allowed_assets account of None \<Rightarrow> Inr d
       | Some allowed \<Rightarrow> rfold (buyback_holding S c acc allowed buy) [0..<length (assets d)] d))) = Inr d'"
  then obtain acc xs where "d' = d \<or> rfold (buyback_holding S c acc xs buy) [0..<length (assets d)] d = Inr d'" by (auto split: option.splits)
  then show "d' = d" using buyback_holdings_same by blast
qed

lemma set_active_conserves: "set_active i f d = Inr d' \<Longrightarrow> market_wf d \<Longrightarrow> conserves d d'"
  by (auto simp: set_active_def intro!: fc_safe.accounts_hold_nothing [OF fc_safe_checked_ops])

lemma top_n_conserves: "top_n_authority b acct sa d = Inr d' \<Longrightarrow> market_wf d \<Longrightarrow> conserves d d'"
  by (auto simp: top_n_authority_def Let_def conserves_refl split: special_authority.splits if_splits intro!: fc_safe.accounts_hold_nothing [OF fc_safe_checked_ops])

lemma update_top_n_keeps:
  assumes "update_top_n_authorities d = Inr d'" "market_wf d"
  shows "keeps 0 d d'"
proof -
  have "keeps 0 d d'" if "rbind (get_obj (accounts d) i) (\<lambda>a. rbind (top_n_authority True i (owner_special_authority a) d)
       (top_n_authority False i (active_special_authority a))) = Inr d'" "market_wf d" for i d d'
  proof -
    from that(1) obtain sa sb d1 where d1: "top_n_authority True i sa d = Inr d1" "top_n_authority False i sb d1 = Inr d'" by auto
    note k = conserves_keeps [OF top_n_conserves [OF d1(1) that(2)]]
    show ?thesis by (rule keeps_trans0 [OF k conserves_keeps [OF top_n_conserves [OF d1(2) keeps_wf [OF k]]]])
  qed
  then show ?thesis using assms unfolding update_top_n_authorities_def by (rule rfold_keeps)
qed

lemma reset_settled_conserves:
  assumes "market_wf d"
  shows "conserves d (reset_settled_volumes d)"
proof -
  let ?d = "reset_settled_volumes d"
  have "bal ?d = bal d" by (rule bal_cong) (simp add: reset_settled_volumes_def)
  moreover have "map (fund_worth x) (bitassets ?d) = map (fund_worth x) (bitassets d)" for x
    by (auto simp: fund_worth_def reset_settled_volumes_def)
  moreover have "limit_orders ?d = limit_orders d" "call_orders ?d = call_orders d" "settlements ?d = settlements d" "acc_stats ?d = acc_stats d"
    "dyn_data ?d = dyn_data d" "vesting_balances ?d = vesting_balances d" "claim_balances ?d = claim_balances d" "assets ?d = assets d" "accounts ?d = accounts d"
    by (simp_all add: reset_settled_volumes_def)
  ultimately have "gross ?d x = gross d x" "supply_of ?d x = supply_of d x" for x
    by (simp_all add: gross_def supply_of_def dyn_of_def)
  moreover have "market_wf ?d" unfolding reset_settled_volumes_def
    by (rule market_wf_bitassets [OF assms]) (use assms in \<open>auto simp: market_wf_def settled_ok_def has_settlement_def\<close>)
  ultimately show ?thesis by (simp add: conserves_def same_frame_def reset_settled_volumes_def)
qed

context fc_safe
begin

lemma account_maintenance_keeps:
  assumes "perform_account_maintenance S g (b, d) = Inr (b', d')" "market_wf d"
  shows "keeps 0 d d'"
proof -
  have "rfold (maintain_account S g) is (b, d) = Inr (b', d') \<Longrightarrow> market_wf d \<Longrightarrow> keeps 0 d d'" for "is" b d
  proof (induction "is" arbitrary: b d)
    case (Cons i "is")
    then obtain b1 d1 where d1: "maintain_account S g i (b, d) = Inr (b1, d1)" "rfold (maintain_account S g) is (b1, d1) = Inr (b', d')" by auto
    then have "process_fees S i d = Inr d1" by (auto simp: maintain_account_def)
    note k = conserves_keeps [OF process_fees_moves [OF this Cons.prems(2)]]
    show ?case using keeps_trans0 [OF k Cons.IH [OF d1(2) keeps_wf [OF k]]] .
  qed (simp add: keeps_refl)
  with assms show ?thesis by (simp add: perform_account_maintenance_def)
qed

lemma update_witnesses_frame:
  assumes "update_active_witnesses S l = Inr l'" "market_wf (ldb l)"
  shows "keeps 0 (ldb l) (ldb l')" "dgp (bstate l') = dgp (bstate l)"
  using assms by (auto simp: update_active_witnesses_def Let_def intro!: conserves_keeps set_active_conserves)

lemma initialize_budget_record_fields:
  assumes "initialize_budget_record S s = Inr r"
  shows "br_from_accumulated_fees r = accumulated_fees (dyn_of (cdb s) 0)" "br_from_unused_witness_budget r = witness_budget (dgp s)"
    "br_worker_budget r = 0" "br_leftover_worker_funds r = 0"
  using assms by (auto simp: initialize_budget_record_def Let_def empty_budget_record_def dyn_of_def split: if_splits)

lemma process_budget_keeps:
  assumes "process_budget S l = Inr l'" "market_wf (ldb l)"
  shows "market_wf (ldb l') \<and> length (accounts (ldb l')) = length (accounts (ldb l)) \<and> now_of (bstate l') = now_of (bstate l) \<and> (\<forall>x. ledger_net l' x = ledger_net l x)"
proof -
  from assms(1) obtain r x1 x2 x3 delta d where r: "initialize_budget_record S (bstate l) = Inr r"
    and x: "safe_add S (br_total_budget r) (br_worker_budget r) = Inr x1" "safe_sub S x1 (br_leftover_worker_funds r) = Inr x2"
      "safe_sub S x2 (br_from_accumulated_fees r) = Inr x3" "safe_sub S x3 (br_from_unused_witness_budget r) = Inr delta"
    and m: "modify_dyn 0 (\<lambda>y. rbind (safe_add S (current_supply y) delta) (\<lambda>c. Inr (y\<lparr> current_supply := c, accumulated_fees := 0 \<rparr>))) (ldb l) = Inr d"
    and l': "ldb l' = d" "witness_budget (dgp (bstate l')) = br_total_budget r"
    by (auto simp: process_budget_def Let_def)
  note f = initialize_budget_record_fields [OF r]
  have delta: "delta = br_total_budget r - accumulated_fees (dyn_of (ldb l) 0) - witness_budget (dgp (bstate l))"
    using x f by (simp add: add_iff sub_iff)
  have "effect (\<lambda>y. amt_at 0 (- accumulated_fees (dyn_of (ldb l) 0)) y + amt_at 0 0 y) (amt_at 0 delta) (ldb l) d \<and> same_orders (ldb l) d"
    by (rule modify_dyn_effect [OF m assms(2)]) (auto simp: add_iff)
  then have e: "effect (\<lambda>y. amt_at 0 (- accumulated_fees (dyn_of (ldb l) 0)) y + amt_at 0 0 y) (amt_at 0 delta) (ldb l) d" ..
  have "ledger_net l' x = ledger_net l x" for x
    using e delta unfolding effect_def same_frame_def ledger_net_def l' by (simp add: amt_at_def)
  then show ?thesis using e by (simp add: effect_def same_frame_def l')
qed

end

lemma update_committee_frame:
  assumes "update_active_committee_members l = Inr l'" "market_wf (ldb l)"
  shows "keeps 0 (ldb l) (ldb l')" "dgp (bstate l') = dgp (bstate l)"
proof -
  from assms(1) obtain f g i j d1 d where d: "set_active i f (ldb l) = Inr d1" "set_active j g d1 = Inr d" and l': "ldb l' = d" "dgp (bstate l') = dgp (bstate l)"
    unfolding update_active_committee_members_def Let_def by auto
  note k = conserves_keeps [OF set_active_conserves [OF d(1) assms(2)]]
  show "keeps 0 (ldb l) (ldb l')" unfolding l' by (rule keeps_trans0 [OF k conserves_keeps [OF set_active_conserves [OF d(2) keeps_wf [OF k]]]])
  show "dgp (bstate l') = dgp (bstate l)" by (rule l')
qed

lemma with_cashback_conserves: "market_wf d \<Longrightarrow> conserves d (with_cashback p d)"
  by (rule moves_zero; simp add: market_wf_def same_frame_def bal_def get_balance_def fun_eq_iff with_cashback_def)

lemma renew_parameters_frame:
  assumes "renew_parameters s = Inr s'" "market_wf (cdb s)"
  shows "keeps 0 (cdb s) (cdb s')" "dgp s' = dgp s" "witnesses s' = witnesses s"
  using assms by (auto simp: renew_parameters_def Let_def intro!: conserves_keeps with_cashback_conserves conserves_refl split: option.splits)

lemma ledger_net_held: "ledger_net l x = held (ldb l) x + amt_at 0 (witness_budget (dgp (bstate l))) x"
  by (simp add: ledger_net_def held_def net_def fba_total_def amt_at_def)

lemma ledger_net_cong: "bstate l' = bstate l \<Longrightarrow> ledger_net l' = ledger_net l"
  by (simp add: ledger_net_def fun_eq_iff)

context fc_safe
begin

lemma maintenance_keeps:
  assumes "perform_chain_maintenance S c b l = Inr l'" "market_wf (ldb l)"
  shows "market_wf (ldb l') \<and> length (accounts (ldb l')) = length (accounts (ldb l)) \<and> now_of (bstate l') = now_of (bstate l) \<and> (\<forall>x. ledger_net l' x = ledger_net l x)"
proof -
  from assms(1) obtain d1 d2 bufs d3 d4 l1 l2 s1 nmt l3 where f: "distribute_fba_balances S (ldb l) = Inr d1" and bb: "create_buyback_orders S c d1 = Inr d2"
    and am0: "perform_account_maintenance S (gpo (bstate l)) (start_buffers (gpo (bstate l)) (buffers l), d2) = Inr (bufs, d3)"
    and tn: "update_top_n_authorities d3 = Inr d4" and w: "update_active_witnesses S ((with_db l d4)\<lparr> buffers := bufs \<rparr>) = Inr l1"
    and cm: "update_active_committee_members l1 = Inr l2" and rp: "renew_parameters (bstate l2) = Inr s1"
    and pb: "process_budget S (l2\<lparr> bstate := s1\<lparr> dgp := (dgp s1)\<lparr> next_maintenance_time := nmt, accounts_registered_this_interval := 0 \<rparr>,
      cdb := reset_settled_volumes (cdb s1) \<rparr> \<rparr>) = Inr l3" and l': "l' = l3\<lparr> buffers := clear_buffers (buffers l3) \<rparr>"
    by (auto simp: perform_chain_maintenance_def Let_def)
  note am = am0 [unfolded create_buyback_orders_same [OF bb]]
  note k1 = distribute_fba_keeps [OF f assms(2)]
  note k2 = keeps_trans0 [OF k1 account_maintenance_keeps [OF am keeps_wf [OF k1]]]
  note k3 = keeps_trans0 [OF k2 update_top_n_keeps [OF tn keeps_wf [OF k2]]]
  have w4: "market_wf (ldb ((with_db l d4)\<lparr> buffers := bufs \<rparr>))" using keeps_wf [OF k3] by simp
  note k4 = update_witnesses_frame [OF w w4]
  have k4': "keeps 0 (ldb l) (ldb l1)" using keeps_trans0 [OF k3] k4(1) by simp
  note k5 = update_committee_frame [OF cm keeps_wf [OF k4']]
  note k6 = keeps_trans0 [OF k4' k5(1)]
  note k6' = keeps_trans0 [OF k6 renew_parameters_frame(1) [OF rp keeps_wf [OF k6]]]
  have s1: "dgp s1 = dgp (bstate l)" using renew_parameters_frame(2) [OF rp keeps_wf [OF k6]] k5(2) k4(2) by simp
  note k7 = keeps_trans0 [OF k6' conserves_keeps [OF reset_settled_conserves [OF keeps_wf [OF k6']]]]
  have w7: "market_wf (ldb (l2\<lparr> bstate := s1\<lparr> dgp := (dgp s1)\<lparr> next_maintenance_time := nmt, accounts_registered_this_interval := 0 \<rparr>,
      cdb := reset_settled_volumes (cdb s1) \<rparr> \<rparr>))" using keeps_wf [OF k7] s1 by simp
  have "ledger_net l3 x = ledger_net l x" for x
  proof -
    have "held (reset_settled_volumes (cdb s1)) x = held (ldb l) x" using k7 by (simp add: keeps_def)
    then show ?thesis using process_budget_keeps [OF pb w7] s1 by (simp add: ledger_net_held)
  qed
  moreover have "ledger_net l' = ledger_net l3" by (rule ledger_net_cong) (simp add: l')
  moreover have "market_wf (ldb l3) \<and> length (accounts (ldb l3)) = length (accounts (ldb l)) \<and> now_of (bstate l3) = now_of (bstate l)"
    using process_budget_keeps [OF pb w7] k7 s1 by (simp add: keeps_def)
  ultimately show ?thesis by (simp add: l')
qed

end

subsection \<open>The count of votes\<close>

text \<open>The ballots that the count goes through: for each account that may vote, the options of the account that speaks for
  it and its own stake at that moment, which includes what earlier accounts have been paid.\<close>

definition opinion_and_stake :: "chain_db \<Rightarrow> nat \<Rightarrow> (account_options \<times> nat) result" where
  "opinion_and_stake d i =
     rbind (get_obj (accounts d) i) (\<lambda>a.
     rbind (if voting_account (acc_options a) = GRAPHENE_PROXY_TO_SELF_ACCOUNT then Inr a else get_obj (accounts d) (voting_account (acc_options a))) (\<lambda>opinion.
     rbind (voting_stake d i a) (\<lambda>stake. Inr (acc_options opinion, stake))))"

definition ballot :: "global_property_object \<Rightarrow> nat \<Rightarrow> chain_db \<Rightarrow> (account_options \<times> nat) list" where
  "ballot g i d =
     (if count_non_member_votes (parameters g) \<or> is_member (accounts d ! i) (head_block_time d)
      then (case opinion_and_stake d i of Inl _ \<Rightarrow> [] | Inr x \<Rightarrow> [x]) else [])"

fun ballots :: "safe_ops \<Rightarrow> global_property_object \<Rightarrow> nat list \<Rightarrow> chain_db \<Rightarrow> (account_options \<times> nat) list" where
  "ballots S g [] d = []"
| "ballots S g (i # is) d = ballot g i d @ (case process_fees S i d of Inl _ \<Rightarrow> [] | Inr d1 \<Rightarrow> ballots S g is d1)"

definition votes_for :: "nat \<Rightarrow> (account_options \<times> nat) list \<Rightarrow> nat" where
  "votes_for v bs = sum_list (map (\<lambda>(x, stake). stake * count_list (map vote_instance (votes x)) v) bs)"

definition stake_for :: "(account_options \<Rightarrow> nat) \<Rightarrow> nat \<Rightarrow> nat \<Rightarrow> (account_options \<times> nat) list \<Rightarrow> nat" where
  "stake_for num maximum k bs = sum_list (map (\<lambda>(x, stake). if num x \<le> maximum \<and> num x div 2 = k then stake else 0) bs)"

definition cast_ballot :: "chain_parameters \<Rightarrow> account_options \<times> nat \<Rightarrow> vote_buffers \<Rightarrow> vote_buffers" where
  "cast_ballot p = (\<lambda>(x, stake) b. \<lparr> vote_tally_buffer = tally_votes (votes x) stake (vote_tally_buffer b),
     witness_count_histogram_buffer = tally_count (num_witness x) (maximum_witness_count p) stake (witness_count_histogram_buffer b),
     committee_count_histogram_buffer = tally_count (num_committee x) (maximum_committee_count p) stake (committee_count_histogram_buffer b),
     total_voting_stake = mod64 (total_voting_stake b + stake) \<rparr>)"

lemma tally_account_ballot:
  assumes "tally_account g i d b = Inr b'"
  shows "b' = fold (cast_ballot (parameters g)) (ballot g i d) b"
proof (cases "count_non_member_votes (parameters g) \<or> is_member (accounts d ! i) (head_block_time d)")
  case True
  with assms obtain x st where "opinion_and_stake d i = Inr (x, st)" "b' = cast_ballot (parameters g) (x, st) b"
    by (auto simp: tally_account_def opinion_and_stake_def cast_ballot_def split: if_splits)
  with True show ?thesis by (simp add: ballot_def)
next
  case False
  with assms show ?thesis by (auto simp: tally_account_def ballot_def)
qed

lemma maintain_accounts_ballots:
  "rfold (maintain_account S g) is (b, d) = Inr (b', d') \<Longrightarrow> b' = fold (cast_ballot (parameters g)) (ballots S g is d) b"
proof (induction "is" arbitrary: b d)
  case (Cons i "is")
  then obtain b1 d1 where t: "tally_account g i d b = Inr b1" and p: "process_fees S i d = Inr d1" and r: "rfold (maintain_account S g) is (b1, d1) = Inr (b', d')"
    by (auto simp: maintain_account_def [of S g i])
  show ?case using Cons.IH [OF r] tally_account_ballot [OF t] p by simp
qed simp

lemma length_add_at [simp]: "length (add_at i v xs) = length xs"
  by (simp add: add_at_def)

lemma length_tally_votes [simp]: "length (tally_votes vs stake t) = length t"
proof -
  have "length (fold (\<lambda>v t. if vote_instance v < length t then add_at (vote_instance v) stake t else t) vs t) = length t"
    by (induction vs arbitrary: t) auto
  then show ?thesis by (simp add: tally_votes_def)
qed

lemma length_tally_count [simp]: "length (tally_count n m stake h) = length h"
  by (simp add: tally_count_def)

lemma mod64_add: "mod64 a = mod64 (c + s) \<Longrightarrow> mod64 (a + t) = mod64 (c + (s + t))"
  unfolding mod64_def by (metis mod_add_left_eq add.assoc)

lemma mod64_mod64 [simp]: "mod64 (mod64 a) = mod64 a"
  by (simp add: mod64_def)

lemma add_at_nth: "k < length xs \<Longrightarrow> mod64 (add_at i v xs ! k) = mod64 (xs ! k + (if k = i then v else 0))"
  by (auto simp: add_at_def nth_list_update)

lemma tally_votes_nth:
  "k < length t \<Longrightarrow> mod64 (tally_votes vs stake t ! k) = mod64 (t ! k + stake * count_list (map vote_instance vs) k)"
  unfolding tally_votes_def
proof (induction vs arbitrary: t)
  case (Cons v vs)
  let ?t = "if vote_instance v < length t then add_at (vote_instance v) stake t else t"
  have "mod64 (?t ! k) = mod64 (t ! k + (if k = vote_instance v then stake else 0))"
    using Cons.prems add_at_nth [of k t "vote_instance v" stake] by auto
  note mod64_add [OF this, of "stake * count_list (map vote_instance vs) k"]
  then show ?case using Cons.IH [of ?t] Cons.prems by simp
qed simp

lemma tally_count_nth:
  "k < length h \<Longrightarrow> m div 2 < length h \<Longrightarrow> mod64 (tally_count n m stake h ! k) = mod64 (h ! k + (if n \<le> m \<and> n div 2 = k then stake else 0))"
proof -
  assume k: "k < length h" "m div 2 < length h"
  have "n \<le> m \<Longrightarrow> min (n div 2) (length h - 1) = n div 2" using k div_le_mono [of n m 2] by simp
  then show ?thesis using add_at_nth [OF k(1)] by (auto simp: tally_count_def)
qed

lemma cast_ballots:
  assumes "m = length (vote_tally_buffer b)" "n = length (witness_count_histogram_buffer b)" "n' = length (committee_count_histogram_buffer b)"
    "maximum_witness_count p div 2 < n" "maximum_committee_count p div 2 < n'"
  shows "(\<forall>v<m. mod64 (vote_tally_buffer (fold (cast_ballot p) bs b) ! v) = mod64 (vote_tally_buffer b ! v + votes_for v bs)) \<and>
    (\<forall>k<n. mod64 (witness_count_histogram_buffer (fold (cast_ballot p) bs b) ! k) =
       mod64 (witness_count_histogram_buffer b ! k + stake_for num_witness (maximum_witness_count p) k bs)) \<and>
    (\<forall>k<n'. mod64 (committee_count_histogram_buffer (fold (cast_ballot p) bs b) ! k) =
       mod64 (committee_count_histogram_buffer b ! k + stake_for num_committee (maximum_committee_count p) k bs)) \<and>
    mod64 (total_voting_stake (fold (cast_ballot p) bs b)) = mod64 (total_voting_stake b + sum_list (map snd bs))"
  using assms
proof (induction bs arbitrary: b)
  case Nil
  then show ?case by (simp add: votes_for_def stake_for_def)
next
  case (Cons x bs)
  obtain o1 st where x: "x = (o1, st)" by (cases x)
  let ?b = "cast_ballot p x b"
  have l: "length (vote_tally_buffer ?b) = length (vote_tally_buffer b)" "length (witness_count_histogram_buffer ?b) = length (witness_count_histogram_buffer b)"
    "length (committee_count_histogram_buffer ?b) = length (committee_count_histogram_buffer b)" by (simp_all add: cast_ballot_def x)
  have one: "v < m \<Longrightarrow> mod64 (vote_tally_buffer ?b ! v) = mod64 (vote_tally_buffer b ! v + st * count_list (map vote_instance (votes o1)) v)"
    "k < n \<Longrightarrow> mod64 (witness_count_histogram_buffer ?b ! k) =
      mod64 (witness_count_histogram_buffer b ! k + (if num_witness o1 \<le> maximum_witness_count p \<and> num_witness o1 div 2 = k then st else 0))"
    "k < n' \<Longrightarrow> mod64 (committee_count_histogram_buffer ?b ! k) =
      mod64 (committee_count_histogram_buffer b ! k + (if num_committee o1 \<le> maximum_committee_count p \<and> num_committee o1 div 2 = k then st else 0))"
    "mod64 (total_voting_stake ?b) = mod64 (total_voting_stake b + st)" for v k
    using Cons.prems by (simp_all add: cast_ballot_def x tally_votes_nth tally_count_nth del: add_0_right)
  have ih: "(\<forall>v<m. mod64 (vote_tally_buffer (fold (cast_ballot p) bs ?b) ! v) = mod64 (vote_tally_buffer ?b ! v + votes_for v bs)) \<and>
    (\<forall>k<n. mod64 (witness_count_histogram_buffer (fold (cast_ballot p) bs ?b) ! k) =
       mod64 (witness_count_histogram_buffer ?b ! k + stake_for num_witness (maximum_witness_count p) k bs)) \<and>
    (\<forall>k<n'. mod64 (committee_count_histogram_buffer (fold (cast_ballot p) bs ?b) ! k) =
       mod64 (committee_count_histogram_buffer ?b ! k + stake_for num_committee (maximum_committee_count p) k bs)) \<and>
    mod64 (total_voting_stake (fold (cast_ballot p) bs ?b)) = mod64 (total_voting_stake ?b + sum_list (map snd bs))"
    by (rule Cons.IH) (use Cons.prems l in simp_all)
  show ?case using ih mod64_add [OF one(1)] mod64_add [OF one(2)] mod64_add [OF one(3)] mod64_add [OF one(4)]
    by (simp add: votes_for_def stake_for_def x)
qed

section \<open>A small election, for the examples\<close>

definition demo_voter :: "nat \<Rightarrow> account_object" where
  "demo_voter i = (demo_account i)\<lparr> acc_options := \<lparr> memo_key = 0, voting_account = 5, num_witness = (if i = 3 then 3 else 0), num_committee = 0,
     votes = (if i = 3 then [257, 512] else []) \<rparr> \<rparr>"

definition demo_election_db :: chain_db where
  "demo_election_db = demo_db\<lparr> head_block_time := 5000, accounts := map demo_voter [0, 1, 2, 3], acc_stats := replicate 4 (demo_stats\<lparr> pending_fees := 0 \<rparr>),
     fba_accumulators := replicate 3 \<lparr> accumulated_fba_fees = 0, designated_asset = None \<rparr>, balances := [(3, 0) \<mapsto> 100] \<rparr>"

definition demo_election_state :: block_state where
  "demo_election_state = demo_block_state\<lparr> cdb := demo_election_db,
     gpo := (gpo demo_block_state)\<lparr> next_available_vote_id := 3, parameters := demo_parameters\<lparr> maximum_witness_count := 11, maximum_committee_count := 11 \<rparr> \<rparr>,
     witnesses := [(demo_witness 5)\<lparr> wit_vote_id := 1, witness_account := 2 \<rparr>, (demo_witness 6)\<lparr> wit_vote_id := 257, witness_account := 3 \<rparr>],
     committee_members := [\<lparr> committee_member_account = 3, com_vote_id = 512, com_total_votes = 0, com_url = [] \<rparr>] \<rparr>"

definition demo_election :: ledger where
  "demo_election = \<lparr> bstate = demo_election_state, immutable = \<lparr> min_committee_member_count = 1, min_witness_count = 1 \<rparr>, budgets = [],
     buffers = \<lparr> vote_tally_buffer = [], witness_count_histogram_buffer = [], committee_count_histogram_buffer = [], total_voting_stake = 0 \<rparr>,
     proposals = [], next_proposal = 0, trx_index = [], block_summaries = [], checkpoints = [] \<rparr>"

definition demo_maintenance_block :: "nat signed_block" where
  "demo_maintenance_block = \<lparr> previous = (6, 0), timestamp = 5000, blk_witness = 0, transaction_merkle_root = 0, witness_signature = 0, transactions = [] \<rparr>"

lemmas demo_election_simps = demo_election_def demo_election_state_def demo_block_state_def demo_election_db_def demo_voter_def demo_account_def demo_db_def demo_stats_def
  demo_parameters_def

lemma demo_election_wf: "market_wf demo_election_db"
  by (auto simp: market_wf_def settled_ok_def demo_election_db_def demo_voter_def demo_market_simps int64_def GRAPHENE_MAX_SHARE_SUPPLY_def
    GRAPHENE_100_PERCENT_def less_Suc_eq numeral_2_eq_2 numeral_3_eq_3 nth_Cons')

definition demo_buffers :: vote_buffers where
  "demo_buffers = \<lparr> vote_tally_buffer = [0, 100, 100], witness_count_histogram_buffer = [0, 100, 0, 0, 0, 0],
     committee_count_histogram_buffer = [100, 0, 0, 0, 0, 0], total_voting_stake = 100 \<rparr>"

lemma demo_count:
  "perform_account_maintenance checked_ops (gpo demo_election_state) (start_buffers (gpo demo_election_state) (buffers demo_election), demo_election_db) = Inr (demo_buffers, demo_election_db)"
  by (simp add: perform_account_maintenance_def accounts_by_name_def sort_by_def maintain_account_def tally_account_def demo_election_simps start_buffers_def resize_def
    voting_stake_def account_statistics_def tally_votes_def tally_count_def add_at_def mod64_def vote_instance_def process_fees_def get_obj_def get_balance_def int64_def
    is_member_def is_basic_account_def GRAPHENE_PROXY_TO_SELF_ACCOUNT_def Let_def upt_rec demo_buffers_def)
    (simp add: numeral_eq_Suc)

lemma find_msb_100: "find_msb 100 = 6"
  by (simp add: find_msb.simps)

lemmas election_eval = Let_def demo_buffers_def stake_target_def demo_election_simps sort_votable_objects_def votes_before_def vote_instance_def
    sort_by_def to_int64_id checked_ops_def checked64_def int64_def set_active_def GRAPHENE_WITNESS_ACCOUNT_def count_authority_def
    GRAPHENE_COMMITTEE_ACCOUNT_def GRAPHENE_RELAXED_COMMITTEE_ACCOUNT_def

lemma demo_witness_election:
  "\<exists>l'. update_active_witnesses checked_ops (demo_election\<lparr> buffers := demo_buffers \<rparr>) = Inr l' \<and> active_witnesses (gpo (bstate l')) = [0, 1]"
  by (simp add: update_active_witnesses_def election_eval)

lemma demo_maintenance_runs: "\<exists>l'. perform_chain_maintenance checked_ops demo_context demo_maintenance_block demo_election = Inr l'"
proof -
  have d: "ldb demo_election = demo_election_db" "gpo (bstate demo_election) = gpo demo_election_state" by (simp_all add: demo_election_def demo_election_state_def)
  have f: "distribute_fba_balances checked_ops demo_election_db = Inr demo_election_db"
    by (simp add: distribute_fba_balances_def split_fba_balance_def demo_election_db_def get_obj_def GRAPHENE_100_PERCENT_def)
  have b: "create_buyback_orders checked_ops demo_context demo_election_db = Inr demo_election_db"
    by (simp add: create_buyback_orders_def demo_election_db_def demo_db_def)
  have t: "update_top_n_authorities demo_election_db = Inr demo_election_db" by (simp add: update_top_n_authorities_def demo_election_db_def demo_db_def)
  show ?thesis unfolding perform_chain_maintenance_def d f b rbind_Inr demo_count prod.case t
    by (simp add: update_active_witnesses_def update_active_committee_members_def election_eval renew_parameters_def advance_maintenance_time_def
      demo_maintenance_block_def block_num_def num_from_id_def process_budget_def initialize_budget_record_def demo_asset_def demo_dyn_def demo_options_def get_obj_def
      GRAPHENE_MAX_SHARE_SUPPLY_def empty_budget_record_def modify_dyn_def modify_obj_def reset_settled_volumes_def signed_divide_int_def)
qed

section \<open>Properties\<close>

text \<open>C7: A maintenance creates and destroys no value: for every asset, and counting as held the fees set aside for
  buybacks and the budget of the witnesses, holdings and recorded supply keep their difference.  The new budget is what the
  supply grows by, less the accumulated fees and the unspent budget that it replaces; clock and accounts stay.\<close>

theorem maintenance_conserves:
  assumes S: "fc_safe S" and run: "perform_chain_maintenance S c b l = Inr l'" and w: "market_wf (ldb l)"
  shows "market_wf (ldb l') \<and> length (accounts (ldb l')) = length (accounts (ldb l)) \<and> now_of (bstate l') = now_of (bstate l) \<and> (\<forall>x. ledger_net l' x = ledger_net l x)"
  using S run w by (rule fc_safe.maintenance_keeps)

theorem maintenance_conserves_witness:
  "\<exists>l'. perform_chain_maintenance checked_ops demo_context demo_maintenance_block demo_election = Inr l' \<and> ledger_net l' 0 = ledger_net demo_election 0"
proof -
  from demo_maintenance_runs obtain l' where r: "perform_chain_maintenance checked_ops demo_context demo_maintenance_block demo_election = Inr l'" by blast
  have "market_wf (ldb demo_election)" using demo_election_wf by (simp add: demo_election_def demo_election_state_def)
  from maintenance_conserves [OF fc_safe_checked_ops r this] r show ?thesis by blast
qed

text \<open>C21: The count is exact, in 64 bits: every object's tally grows by the stakes of the ballots that name it, each
  entry of the two histograms by the stakes of those that ask for that number (twice the index, or one more) and for no more than the
  maximum, and the total by all stakes.  What a buffer held before the count stays in it, and a number above the maximum
  is not counted as the maximum but not at all.\<close>

theorem vote_tally_exact:
  assumes run: "perform_account_maintenance S g (start_buffers g b0, d) = Inr (b, d')"
  shows "(\<forall>v<next_available_vote_id g. mod64 (vote_tally_buffer b ! v) =
      mod64 (resize (next_available_vote_id g) (vote_tally_buffer b0) ! v + votes_for v (ballots S g (accounts_by_name d) d))) \<and>
    (\<forall>k\<le>maximum_witness_count (parameters g) div 2. mod64 (witness_count_histogram_buffer b ! k) =
      mod64 (resize (maximum_witness_count (parameters g) div 2 + 1) (witness_count_histogram_buffer b0) ! k +
        stake_for num_witness (maximum_witness_count (parameters g)) k (ballots S g (accounts_by_name d) d))) \<and>
    (\<forall>k\<le>maximum_committee_count (parameters g) div 2. mod64 (committee_count_histogram_buffer b ! k) =
      mod64 (resize (maximum_committee_count (parameters g) div 2 + 1) (committee_count_histogram_buffer b0) ! k +
        stake_for num_committee (maximum_committee_count (parameters g)) k (ballots S g (accounts_by_name d) d))) \<and>
    mod64 (total_voting_stake b) = mod64 (sum_list (map snd (ballots S g (accounts_by_name d) d)))"
proof -
  let ?b = "start_buffers g b0"
  have b: "b = fold (cast_ballot (parameters g)) (ballots S g (accounts_by_name d) d) ?b"
    using run maintain_accounts_ballots by (simp add: perform_account_maintenance_def)
  have l: "next_available_vote_id g = length (vote_tally_buffer ?b)" "Suc (maximum_witness_count (parameters g) div 2) = length (witness_count_histogram_buffer ?b)"
    "Suc (maximum_committee_count (parameters g) div 2) = length (committee_count_histogram_buffer ?b)" by (auto simp: start_buffers_def resize_def)
  show ?thesis using cast_ballots [OF l, of "parameters g" "ballots S g (accounts_by_name d) d", folded b]
    by (simp add: start_buffers_def less_Suc_eq_le)
qed

theorem vote_tally_exact_witness:
  "mod64 (vote_tally_buffer demo_buffers ! 1) = mod64 (0 + votes_for 1 (ballots checked_ops (gpo demo_election_state) (accounts_by_name demo_election_db) demo_election_db))"
  using vote_tally_exact [OF demo_count] by (simp add: start_buffers_def demo_election_simps resize_def)



subsection \<open>The budget\<close>

lemma to_uint64_eq: "to_uint64 b = Inr r \<Longrightarrow> r = b"
  by (auto simp: to_uint64_def split: if_splits)

lemma limit_budget_bound:
  assumes "limit_budget reserve dt = Inr t" "int64 reserve"
  shows "0 \<le> t" "t \<le> max 0 reserve"
proof -
  have r: "0 \<le> released reserve dt" "reserve < 0 \<Longrightarrow> released reserve dt = 0" by (simp_all add: released_def u128_def)
  have "t = reserve \<and> 0 \<le> reserve \<or> t = released reserve dt \<and> t \<le> max 0 reserve"
  proof (cases "reserve < 0 \<or> released reserve dt < reserve")
    case True
    then have "int64 (released reserve dt)" "released reserve dt \<le> max 0 reserve" using r assms(2) by (auto simp: int64_def)
    moreover have "t = to_int64 (released reserve dt)" using assms(1) True by (auto simp: limit_budget_def dest: to_uint64_eq)
    ultimately show ?thesis by simp
  next
    case False
    then show ?thesis using assms(1) by (simp add: limit_budget_def)
  qed
  with r show "0 \<le> t" "t \<le> max 0 reserve" by auto
qed

context fc_safe
begin

lemma total_budget_bound:
  assumes "initialize_budget_record S s = Inr r" "0 \<le> accumulated_fees (dyn_of (cdb s) 0)" "0 \<le> witness_budget (dgp s)"
  shows "0 \<le> br_total_budget r" "br_total_budget r \<le> max 0 (br_from_initial_reserve r) + accumulated_fees (dyn_of (cdb s) 0) + witness_budget (dgp s)"
    "HARDFORK_3_TIME \<le> head_block_time (cdb s) \<Longrightarrow> br_from_initial_reserve r = 0"
proof -
  let ?b = "br_total_budget r" and ?a = "accumulated_fees (dyn_of (cdb s) 0)" and ?w = "witness_budget (dgp s)"
  have "?b = 0 \<or> (\<exists>dt. limit_budget (br_from_initial_reserve r + ?a + ?w) dt = Inr ?b \<and> int64 (br_from_initial_reserve r + ?a + ?w))"
    using assms(1) by (auto simp: initialize_budget_record_def Let_def empty_budget_record_def dyn_of_def add_iff split: if_splits)
  then have "0 \<le> ?b \<and> (?b = 0 \<or> ?b \<le> max 0 (br_from_initial_reserve r + ?a + ?w))"
    using limit_budget_bound [of "br_from_initial_reserve r + ?a + ?w" _ ?b] by auto
  then show "0 \<le> ?b" "?b \<le> max 0 (br_from_initial_reserve r) + ?a + ?w" using assms(2,3) by linarith+
  show "HARDFORK_3_TIME \<le> head_block_time (cdb s) \<Longrightarrow> br_from_initial_reserve r = 0"
    using assms(1) by (auto simp: initialize_budget_record_def Let_def empty_budget_record_def split: if_splits)
qed


end






subsection \<open>The election\<close>

text \<open>The number of witnesses is the least for which those who want no more hold over half of the stake that has an opinion.\<close>

lemma stake_count_median:
  assumes "stake_count (\<lambda>t h. safe_add S t (to_int64 (int h))) target t k hs = Inr n" "fc_safe S" "\<forall>h\<in>set hs. h < 2 ^ 63"
  shows "k \<le> n \<and> n \<le> k + length hs \<and> (\<forall>j<n - k. t + int (sum_list (take j hs)) \<le> target) \<and> (n < k + length hs \<longrightarrow> target < t + int (sum_list (take (n - k) hs)))"
  using assms(1,3)
proof (induction hs arbitrary: t k)
  case (Cons h hs)
  show ?case
  proof (cases "t \<le> target")
    case True
    have "int64 (int h)" using Cons.prems(2) by (simp add: int64_def)
    with Cons.prems(1) True have r: "stake_count (\<lambda>t h. safe_add S t (to_int64 (int h))) target (t + int h) (Suc k) hs = Inr n"
      by (auto simp: fc_safe.add_iff [OF assms(2)])
    have ih: "Suc k \<le> n \<and> n \<le> Suc k + length hs \<and> (\<forall>j<n - Suc k. t + int h + int (sum_list (take j hs)) \<le> target) \<and>
      (n < Suc k + length hs \<longrightarrow> target < t + int h + int (sum_list (take (n - Suc k) hs)))" by (rule Cons.IH [OF r]) (use Cons.prems(2) in simp)
    have "t + int (sum_list (take j (h # hs))) \<le> target" if "j < n - k" for j
      using that ih True by (cases j) (auto simp: add.assoc)
    moreover have "take (n - k) (h # hs) = h # take (n - Suc k) hs"
    proof -
      have "n - k = Suc (n - Suc k)" using conjunct1 [OF ih] by linarith
      then show ?thesis by simp
    qed
    ultimately show ?thesis using ih by (auto simp: add.assoc)
  next
    case False
    with Cons.prems(1) show ?thesis by simp
  qed
qed simp

lemma votes_before_order: "votes_before t p q \<Longrightarrow> votes_before t q r \<Longrightarrow> votes_before t p r" "\<not> votes_before t p p"
  by (auto simp: votes_before_def Let_def split: if_splits)

lemma sort_votable_top:
  assumes "sort_votable_objects tally cnt objs = Inr xs" "distinct (map fst objs)"
  shows "length xs = min cnt (length objs)" "distinct xs" "set xs \<subseteq> fst ` set objs"
    "p \<in> set objs \<Longrightarrow> q \<in> set objs \<Longrightarrow> fst p \<notin> set xs \<Longrightarrow> fst q \<in> set xs \<Longrightarrow> \<not> votes_before tally p q"
proof -
  let ?s = "sort_by (votes_before tally) objs" and ?n = "min cnt (length objs)"
  have xs: "xs = map fst (take ?n ?s)" using assms(1) by (auto simp: sort_votable_objects_def take_map)
  have d: "distinct (map fst ?s)" by (rule distinct_sort_by [OF assms(2)])
  show "length xs = ?n" by (simp add: xs)
  show "distinct xs" unfolding xs using d by (metis distinct_take take_map)
  show "set xs \<subseteq> fst ` set objs" unfolding xs using set_take_subset [of ?n ?s] by (auto simp: set_sort_by)
  assume p: "p \<in> set objs" "fst p \<notin> set xs" and q: "q \<in> set objs" "fst q \<in> set xs"
  have ps: "p \<in> set ?s" and qs: "q \<in> set ?s" using p q by (simp_all add: set_sort_by)
  obtain q' where q': "q' \<in> set (take ?n ?s)" "fst q' = fst q" using q(2) by (auto simp: xs)
  have "q' \<in> set ?s" using q'(1) set_take_subset by fastforce
  then have "q' = q" using d qs q'(2) by (metis eq_key_imp_eq_value prod.collapse)
  then have qt: "q \<in> set (take ?n ?s)" using q'(1) by simp
  have "p \<notin> set (take ?n ?s)" using p(2) by (auto simp: xs)
  moreover have "?s = take ?n ?s @ drop ?n ?s" by simp
  ultimately have pd: "p \<in> set (drop ?n ?s)" using ps by (metis Un_iff set_append)
  have "sorted_wrt (\<lambda>a b. \<not> votes_before tally b a) (take ?n ?s @ drop ?n ?s)"
    using sort_by_wrt [of "votes_before tally" objs, OF votes_before_order(1) votes_before_order(2)] by simp
  then show "\<not> votes_before tally p q" using qt pd by (simp only: sorted_wrt_append) blast
qed

text \<open>C24: The witnesses that are elected are as many as the median stake with an opinion asks for (twice that number of
  pairs and one, no fewer than the fixed minimum, no more than there are), and nobody outside has more votes than one of
  them.  They become the active witnesses in the order of their identifiers, and everybody's votes are written down.\<close>

theorem elected_witnesses_outvote:
  assumes S: "fc_safe S" and run: "update_active_witnesses S l = Inr l'"
    and small: "\<forall>v\<in>set (vote_tally_buffer (buffers l)). v < 2 ^ 63" "\<forall>v\<in>set (witness_count_histogram_buffer (buffers l)). v < 2 ^ 63"
    and stake: "hd (witness_count_histogram_buffer (buffers l)) \<le> total_voting_stake (buffers l)" "total_voting_stake (buffers l) < 2 ^ 64"
  defines "tally \<equiv> \<lambda>w. vote_tally_buffer (buffers l) ! vote_instance (wit_vote_id (witnesses (bstate l) ! w))"
    and "wanted \<equiv> tl (witness_count_histogram_buffer (buffers l))"
    and "target \<equiv> (total_voting_stake (buffers l) - hd (witness_count_histogram_buffer (buffers l))) div 2"
  shows "(\<exists>n\<le>length wanted. length (active_witnesses (gpo (bstate l'))) = min (max (2 * n + 1) (min_witness_count (immutable l))) (length (witnesses (bstate l))) \<and>
      (\<forall>j<n. sum_list (take j wanted) \<le> target) \<and> (0 < target \<longrightarrow> n < length wanted \<longrightarrow> target < sum_list (take n wanted)) \<and> (target = 0 \<longrightarrow> n = 0)) \<and>
    sorted (active_witnesses (gpo (bstate l'))) \<and> distinct (active_witnesses (gpo (bstate l'))) \<and>
    (\<forall>w\<in>set (active_witnesses (gpo (bstate l'))). \<forall>u<length (witnesses (bstate l)).
       w < length (witnesses (bstate l)) \<and> (u \<in> set (active_witnesses (gpo (bstate l'))) \<or> tally u \<le> tally w)) \<and>
    map wit_total_votes (witnesses (bstate l')) = map tally [0..<length (witnesses (bstate l))]"
proof -
  let ?objs = "zip [0..<length (witnesses (bstate l))] (map wit_vote_id (witnesses (bstate l)))"
  from run obtain tg n ws where tg: "stake_target (buffers l) = Inr tg"
    and n: "(if tg > 0 then stake_count (\<lambda>t h. safe_add S t (to_int64 (int h))) tg 0 0 wanted else Inr 0) = Inr n"
    and ws: "sort_votable_objects (vote_tally_buffer (buffers l)) (max (n * 2 + 1) (min_witness_count (immutable l))) ?objs = Inr ws"
    and l': "active_witnesses (gpo (bstate l')) = sort ws" "witnesses (bstate l') = map (\<lambda>w. w\<lparr> wit_total_votes := vote_tally_buffer (buffers l) ! vote_instance (wit_vote_id w) \<rparr>) (witnesses (bstate l))"
    unfolding update_active_witnesses_def Let_def wanted_def by (auto simp del: throw_unless_def split del: if_split)
  have "(total_voting_stake (buffers l) + 2 ^ 64 - h) mod 2 ^ 64 = total_voting_stake (buffers l) - h" if "h \<le> total_voting_stake (buffers l)" for h
  proof -
    have "total_voting_stake (buffers l) + 2 ^ 64 - h = (total_voting_stake (buffers l) - h) + 2 ^ 64" using that by simp
    then show ?thesis using stake(2) by (simp only: mod_add_self2) simp
  qed
  then have tgv: "tg = int target" using tg stake by (cases "witness_count_histogram_buffer (buffers l)") (auto simp: stake_target_def target_def)
  have w63: "\<forall>h\<in>set wanted. h < 2 ^ 63" using small(2) by (cases "witness_count_histogram_buffer (buffers l)") (auto simp: wanted_def)
  have cnt: "n \<le> length wanted \<and> (\<forall>j<n. sum_list (take j wanted) \<le> target) \<and> (0 < target \<longrightarrow> n < length wanted \<longrightarrow> target < sum_list (take n wanted)) \<and> (target = 0 \<longrightarrow> n = 0)"
    using n stake_count_median [OF _ S w63, of tg 0 0 n] by (auto simp: tgv split: if_splits)
  note top = sort_votable_top [OF ws] 
  have dobj: "distinct (map fst ?objs)" by simp
  have sw: "set ws \<subseteq> {..<length (witnesses (bstate l))}" using top(3) [OF dobj] by (auto dest!: set_zip_leftD)
  have le: "u \<in> set ws \<or> tally u \<le> tally w" if "w \<in> set ws" "u < length (witnesses (bstate l))" for u w
  proof (rule disjCI)
    assume u: "\<not> tally u \<le> tally w"
    have w: "w < length (witnesses (bstate l))" using that(1) sw by auto
    have mem: "(x, wit_vote_id (witnesses (bstate l) ! x)) \<in> set ?objs" if "x < length (witnesses (bstate l))" for x
      using that by (force simp: in_set_zip)
    have r: "tally x < 2 ^ 63" if "x < length (witnesses (bstate l))" for x
    proof -
      have "vote_instance (wit_vote_id (witnesses (bstate l) ! x)) < length (vote_tally_buffer (buffers l))"
        using ws mem [OF that] by (auto simp: sort_votable_objects_def list_all_iff split: if_splits)
      then show ?thesis using small(1) by (simp add: tally_def)
    qed
    have "votes_before (vote_tally_buffer (buffers l)) (u, wit_vote_id (witnesses (bstate l) ! u)) (w, wit_vote_id (witnesses (bstate l) ! w))"
      using u r [OF that(2)] r [OF w] by (simp add: votes_before_def tally_def to_int64_id int64_def)
    with top(4) [OF dobj mem [OF that(2)] mem [OF w]] that(1) show "u \<in> set ws" by auto
  qed
  have "length (sort ws) = min (max (2 * n + 1) (min_witness_count (immutable l))) (length (witnesses (bstate l)))"
    using top(1) [OF dobj] by (simp add: mult.commute)
  moreover have "map wit_total_votes (witnesses (bstate l')) = map tally [0..<length (witnesses (bstate l))]"
    unfolding l'(2) by (rule nth_equalityI) (simp_all add: tally_def)
  ultimately show ?thesis using cnt sw le top(2) [OF dobj] unfolding l'(1) by (auto simp: subset_iff)
qed

theorem elected_witnesses_outvote_witness:
  "\<exists>l'. update_active_witnesses checked_ops (demo_election\<lparr> buffers := demo_buffers \<rparr>) = Inr l' \<and> distinct (active_witnesses (gpo (bstate l')))"
proof -
  from demo_witness_election obtain l' where r: "update_active_witnesses checked_ops (demo_election\<lparr> buffers := demo_buffers \<rparr>) = Inr l'" by blast
  from elected_witnesses_outvote [OF fc_safe_checked_ops r] r show ?thesis by (simp add: demo_buffers_def)
qed

subsection \<open>The authority that follows from votes\<close>

definition scaled_weight :: "nat \<Rightarrow> nat \<Rightarrow> nat" where
  "scaled_weight shift v = max (v div 2 ^ shift) 1"

lemma find_msb_bound: "n < 2 ^ Suc (find_msb n)"
proof (induction n rule: find_msb.induct)
  case (1 n)
  show ?case
  proof (cases "n < 2")
    case True
    then show ?thesis by (subst find_msb.simps) simp
  next
    case False
    then have "n div 2 < 2 ^ Suc (find_msb (n div 2))" using 1 by simp
    then have "n < 2 ^ Suc (Suc (find_msb (n div 2)))" by simp
    then show ?thesis using False by (subst find_msb.simps) simp
  qed
qed

text \<open>Once the first vote has fixed the scale, each further one adds its scaled weight.\<close>

lemma vc_adds:
  assumes "bitshift vc = int sh" "\<forall>p\<in>set vs. snd p \<noteq> 0" "distinct (map fst vs)" "fst ` set (account_auths (vc_auth vc)) \<inter> fst ` set vs = {}"
  shows "total_votes (fold vc_add vs vc) = total_votes vc + sum_list (map (\<lambda>p. scaled_weight sh (snd p)) vs) \<and>
    mset (account_auths (vc_auth (fold vc_add vs vc))) = mset (account_auths (vc_auth vc)) + mset (map (\<lambda>p. (fst p, of_nat (scaled_weight sh (snd p)))) vs) \<and>
    key_auths (vc_auth (fold vc_add vs vc)) = key_auths (vc_auth vc) \<and> address_auths (vc_auth (fold vc_add vs vc)) = address_auths (vc_auth vc)"
  using assms
proof (induction vs arbitrary: vc)
  case (Cons p vs)
  obtain who v where p: "p = (who, v)" by (cases p)
  let ?vc = "vc_add p vc"
  have v: "v \<noteq> 0" using Cons.prems(2) p by simp
  have b: "bitshift ?vc = int sh" "total_votes ?vc = total_votes vc + scaled_weight sh v"
    "vc_auth ?vc = add_account_authority who (of_nat (scaled_weight sh v)) (vc_auth vc)"
    using v Cons.prems(1) by (auto simp: p vc_add_def Let_def scaled_weight_def)
  have n: "who \<notin> fst ` set (account_auths (vc_auth vc))" using Cons.prems(4) p by auto
  have "mset (account_auths (vc_auth ?vc)) = add_mset (who, of_nat (scaled_weight sh v)) (mset (account_auths (vc_auth vc)))"
    unfolding b(3) by (simp add: add_account_authority_def mset_fm_update [OF n])
  moreover have "fst ` set (account_auths (vc_auth ?vc)) \<inter> fst ` set vs = {}"
    unfolding b(3) using Cons.prems(3,4) p by (auto simp: add_account_authority_def)
  ultimately show ?case using Cons.IH [of ?vc] Cons.prems(2,3) b p by (simp add: add_account_authority_def)
qed simp

lemma vc_add_zero: "fold vc_add (filter (\<lambda>p. snd p \<noteq> 0) vs) vc = fold vc_add vs vc"
  by (induction vs arbitrary: vc) (auto simp: vc_add_def)

lemma vc_first:
  assumes "v \<noteq> 0" "sh = find_msb v - 15"
  shows "vc_add (who, v) new_vote_counter = vc_add (who, v) (new_vote_counter\<lparr> bitshift := int sh \<rparr>)"
proof -
  have "max (int (find_msb v) - 15) 0 = int sh" using assms(2) by simp
  then show ?thesis using assms(1) by (simp add: vc_add_def new_vote_counter_def Let_def)
qed

lemma scaled_weight_fits:
  assumes "v \<le> v0" "sh = find_msb v0 - 15"
  shows "scaled_weight sh v < 2 ^ 16"
proof -
  have "v0 < 2 ^ Suc (find_msb v0)" by (rule find_msb_bound)
  also have "\<dots> \<le> (2 :: nat) ^ (16 + sh)" by (rule power_increasing) (use assms(2) in simp_all)
  finally have "v < 2 ^ 16 * 2 ^ sh" using assms(1) by (simp add: power_add)
  then have "v div 2 ^ sh < 2 ^ 16" by (simp add: div_less_iff_less_mult)
  then show ?thesis by (simp add: scaled_weight_def)
qed

text \<open>C25: The authority that votes give to a list of accounts in the order of their votes is a majority of it: each account
  with votes has a weight from 1 to \<open>65535\<close>, its votes shifted by the same number of bits, and the threshold is met by all
  together but not by two disjoint groups; no keys are in it.\<close>

theorem vote_authority_majority:
  fixes vs :: "(nat \<times> nat) list" and out :: authority
  assumes sorted: "sorted_wrt (\<lambda>p q. snd q \<le> snd p) vs" and dist: "distinct (map fst vs)" and some: "\<exists>p\<in>set vs. snd p \<noteq> 0" and len: "length vs < 2 ^ 15"
  defines "au \<equiv> count_authority vs out"
  shows "(\<exists>sh. mset (account_auths au) = mset (map (\<lambda>p. (fst p, of_nat (scaled_weight sh (snd p)))) (filter (\<lambda>p. snd p \<noteq> 0) vs)) \<and>
      (\<forall>p\<in>set vs. 1 \<le> scaled_weight sh (snd p) \<and> scaled_weight sh (snd p) < 2 ^ 16)) \<and>
    key_auths au = [] \<and> address_auths au = [] \<and>
    unat (weight_threshold au) \<le> sum_list (map (\<lambda>p. unat (snd p)) (account_auths au)) \<and>
    sum_list (map (\<lambda>p. unat (snd p)) (account_auths au)) < 2 * unat (weight_threshold au)"
proof -
  define ws where "ws = filter (\<lambda>p. snd p \<noteq> 0) vs"
  have "ws \<noteq> []" using some by (auto simp: ws_def filter_empty_conv)
  then obtain p0 ps where ws: "ws = p0 # ps" by (cases ws) auto
  have nz: "snd p \<noteq> 0" if "p \<in> set ws" for p using that by (simp add: ws_def)
  obtain who v where p0: "p0 = (who, v)" by (cases p0)
  define sh where "sh = find_msb v - 15"
  have v: "v \<noteq> 0" using nz [of p0] by (simp add: ws p0)
  let ?vc = "new_vote_counter\<lparr> bitshift := int sh \<rparr>"
  have f: "fold vc_add vs new_vote_counter = fold vc_add ws ?vc"
    unfolding vc_add_zero [of vs new_vote_counter, symmetric] ws_def [symmetric] by (simp add: ws p0 vc_first [OF v sh_def])
  have "sorted_wrt (\<lambda>p q. snd q \<le> snd p) ws" unfolding ws_def by (rule sorted_wrt_filter [OF sorted])
  then have top: "snd p \<le> v" if "p \<in> set ws" for p using that unfolding ws p0 by auto
  have fits: "scaled_weight sh (snd p) < 2 ^ 16" if "p \<in> set vs" for p
    using top [of p] that scaled_weight_fits [OF _ sh_def, of "snd p"] by (cases "snd p = 0") (auto simp: ws_def)
  have dw: "distinct (map fst ws)" unfolding ws_def using dist by (rule distinct_map_filter)
  have sub: "set ws \<subseteq> set vs" by (auto simp: ws_def)
  have adds: "total_votes (fold vc_add ws ?vc) = sum_list (map (\<lambda>p. scaled_weight sh (snd p)) ws) \<and>
    mset (account_auths (vc_auth (fold vc_add ws ?vc))) = mset (map (\<lambda>p. (fst p, of_nat (scaled_weight sh (snd p)))) ws) \<and>
    key_auths (vc_auth (fold vc_add ws ?vc)) = [] \<and> address_auths (vc_auth (fold vc_add ws ?vc)) = []"
    using vc_adds [of ?vc sh ws] dw nz by (simp add: new_vote_counter_def)
  define t where "t = sum_list (map (\<lambda>p. scaled_weight sh (snd p)) ws)"
  have t1: "1 \<le> t" unfolding t_def ws by (simp add: scaled_weight_def)
  then have au: "au = (vc_auth (fold vc_add ws ?vc))\<lparr> weight_threshold := of_nat (t div 2 + 1) \<rparr>"
    using adds by (simp add: au_def count_authority_def vc_finish_def f t_def [symmetric])
  have "t \<le> length ws * 2 ^ 16" unfolding t_def using sum_list_mono [of ws "\<lambda>p. scaled_weight sh (snd p)" "\<lambda>_. 2 ^ 16"] fits sub by (fastforce simp: sum_list_triv less_imp_le)
  also have "length ws \<le> 2 ^ 15" using len length_filter_le [of "\<lambda>p. snd p \<noteq> 0" vs] unfolding ws_def by linarith
  finally have "t div 2 + 1 < 2 ^ 32" by simp
  then have "unat (of_nat (t div 2 + 1) :: 32 word) = t div 2 + 1" unfolding unat_of_nat by simp
  then have th: "unat (weight_threshold au) = t div 2 + 1" by (simp add: au)
  have "sum_list (map (\<lambda>p. unat (snd p)) (account_auths au)) = sum_mset (image_mset (\<lambda>p. unat (snd p)) (mset (account_auths au)))"
    by (metis mset_map sum_mset_sum_list)
  also have "\<dots> = sum_list (map (\<lambda>p. unat (of_nat (scaled_weight sh (snd p)) :: 16 word)) ws)"
    using adds by (simp add: au sum_mset_sum_list comp_def flip: mset_map)
  also have "\<dots> = t" unfolding t_def
  proof (intro arg_cong [where f = sum_list] map_cong refl)
    fix p assume "p \<in> set ws"
    then have "p \<in> set vs" using sub by blast
    then show "unat (of_nat (scaled_weight sh (snd p)) :: 16 word) = scaled_weight sh (snd p)" using fits [of p] by (simp add: unat_of_nat)
  qed
  finally have sum: "sum_list (map (\<lambda>p. unat (snd p)) (account_auths au)) = t" .
  have "\<forall>p\<in>set vs. 1 \<le> scaled_weight sh (snd p) \<and> scaled_weight sh (snd p) < 2 ^ 16" using fits by (simp add: scaled_weight_def)
  moreover have "mset (account_auths au) = mset (map (\<lambda>p. (fst p, of_nat (scaled_weight sh (snd p)))) ws)"
    "key_auths au = []" "address_auths au = []" using adds by (simp_all add: au)
  moreover have "unat (weight_threshold au) \<le> t" "t < 2 * unat (weight_threshold au)" using th t1 by linarith+
  ultimately show ?thesis unfolding ws_def [symmetric] sum by blast
qed

theorem vote_authority_majority_witness:
  "unat (weight_threshold (count_authority [(7, 300000), (8, 200000), (9, 0)] null_authority)) \<le>
     sum_list (map (\<lambda>p. unat (snd p)) (account_auths (count_authority [(7, 300000), (8, 200000), (9, 0)] null_authority)))"
  using vote_authority_majority [of "[(7, 300000), (8, 200000), (9, 0)]" null_authority] by simp

end
