(* ===== verification/Block_Application.thy ===== *)
theory Block_Application
  imports Transactions Maintenance
begin

text \<open>
  The application of a block: \<^verbatim>\<open>database::apply_block\<close>, \<^verbatim>\<open>_apply_block\<close>, \<^verbatim>\<open>validate_block_header\<close>, \<^verbatim>\<open>create_block_summary\<close>
  and \<^verbatim>\<open>add_checkpoints\<close> of \<^verbatim>\<open>db_block.cpp\<close>, which put together transactions, maintenance, expiry and the schedule of
  witnesses.  Observers and debug updates are left out.
\<close>

section \<open>The header\<close>

type_synonym chain_block = "signed_transaction signed_block"

definition validate_block_header :: "exec_env \<Rightarrow> chain_block \<Rightarrow> ledger \<Rightarrow> nat result" where
  "validate_block_header E b l =
     (let s = bstate l; skip = en_skip E in
      ensure (head_block_id (dgp s) = previous b) (
      ensure (head_block_time (ldb l) < timestamp b) (
      rbind (get_obj (witnesses s) (blk_witness b)) (\<lambda>w.
      ensure (skips skip skip_witness_signature \<or> cr_signee (en_crypto E) b = signing_key w) (
      if \<not> skips skip skip_witness_schedule_check then
        rbind (get_slot_at_time (timestamp b) s) (\<lambda>slot_num.
        ensure (slot_num > 0) (
        rbind (get_scheduled_witness slot_num s) (\<lambda>scheduled_witness.
        ensure (blk_witness b = scheduled_witness) (Inr (blk_witness b)))))
      else Inr (blk_witness b))))))"

definition check_merkle_root :: "exec_env \<Rightarrow> chain_block \<Rightarrow> unit result" where
  "check_merkle_root E b =
     ensure (skips (en_skip E) skip_merkle_check \<or>
       transaction_merkle_root b = calculate_merkle_root (cr_hash_pair (en_crypto E)) (cr_hash_one (en_crypto E)) 0 (cr_merkle_digest (en_crypto E)) b) (Inr ())"

definition create_block_summary :: "crypto \<Rightarrow> chain_block \<Rightarrow> ledger \<Rightarrow> ledger result" where
  "create_block_summary k b l =
     rbind (modify_obj (unat (block_num b AND 0xffff)) (\<lambda>_. Inr (block_id (cr_block_hash k) b)) (block_summaries l)) (\<lambda>bs.
     Inr (l\<lparr> block_summaries := bs \<rparr>))"

section \<open>The block\<close>

text \<open>A step that may not return or may throw, and what follows it.\<close>

fun obind :: "'a result option \<Rightarrow> ('a \<Rightarrow> 'b result option) \<Rightarrow> 'b result option" where
  "obind None f = None"
| "obind (Some (Inl e)) f = Some (Inl e)"
| "obind (Some (Inr x)) f = f x"

fun apply_transactions :: "exec_env \<Rightarrow> signed_transaction list \<Rightarrow> ledger \<Rightarrow> ledger result option" where
  "apply_transactions E [] l = Some (Inr l)"
| "apply_transactions E (t # ts) l = obind (apply_transaction E t l) (apply_transactions E ts)"

text \<open>From the new head to the summary of the block.\<close>

definition advance_head :: "exec_env \<Rightarrow> nat \<Rightarrow> chain_block \<Rightarrow> block_state \<Rightarrow> block_state result" where
  "advance_head E w b s =
     rbind (update_global_dynamic_data (cr_block_hash (en_crypto E)) (skips (en_skip E) skip_undo_history_check) b s) (\<lambda>s1.
     rbind (update_signing_witness (en_safe E) w b s1) (\<lambda>s2.
     update_last_irreversible_block s2))"

definition maintain_if_due :: "exec_env \<Rightarrow> bool \<Rightarrow> chain_block \<Rightarrow> ledger \<Rightarrow> ledger result" where
  "maintain_if_due E maint_needed b l =
     (if maint_needed then perform_chain_maintenance (en_safe E) (context_of E l) b l else Inr l)"

definition clear_expired_transactions :: "ledger \<Rightarrow> ledger" where
  "clear_expired_transactions l = l\<lparr> trx_index := clear_transactions (head_block_time (ldb l)) (trx_index l) \<rparr>"

definition advance_chain :: "exec_env \<Rightarrow> nat \<Rightarrow> bool \<Rightarrow> chain_block \<Rightarrow> ledger \<Rightarrow> ledger result" where
  "advance_chain E w maint_needed b l =
     rbind (advance_head E w b (bstate l)) (\<lambda>s.
     rbind (maintain_if_due E maint_needed b (l\<lparr> bstate := s \<rparr>)) (\<lambda>l1.
     rbind (create_block_summary (en_crypto E) b l1) (\<lambda>l2. Inr (clear_expired_transactions l2))))"

text \<open>The fee of a cancellation does not depend on the order that is cancelled.\<close>

definition clear_orders :: "exec_env \<Rightarrow> ledger \<Rightarrow> ledger result option" where
  "clear_orders E l =
     (let fee = required_fee E (Ledger_op (Limit_order_cancel_op \<lparr> lc_fee = mk_asset 0 0, lc_order = 0, lc_fee_paying_account = 0 \<rparr>)) l in
      obind (clear_expired_orders (en_safe E) (context_of (E\<lparr> en_skip := en_skip E OR skip_authority_check \<rparr>) l) (mk_asset fee 0) (ldb l))
        (\<lambda>d. Some (Inr (with_db l d))))"

definition conclude_block :: "exec_env \<Rightarrow> bool \<Rightarrow> ledger \<Rightarrow> ledger result" where
  "conclude_block E maint_needed l =
     rbind (update_expired_feeds (en_safe E) (ldb l)) (\<lambda>d.
     rbind (update_witness_schedule (update_maintenance_flag maint_needed ((bstate l)\<lparr> cdb := update_withdraw_permissions d \<rparr>))) (\<lambda>s.
     Inr (l\<lparr> bstate := s \<rparr>)))"

definition apply_block_body :: "exec_env \<Rightarrow> chain_block \<Rightarrow> ledger \<Rightarrow> ledger result option" where
  "apply_block_body E b l =
     obind (Some (rbind (check_merkle_root E b) (\<lambda>_. validate_block_header E b l))) (\<lambda>signing_witness.
     let maint_needed = next_maintenance_time (dgp (bstate l)) \<le> timestamp b in
     obind (apply_transactions E (transactions b) l) (\<lambda>l1.
     obind (Some (advance_chain E signing_witness maint_needed b l1)) (\<lambda>l2.
     obind (clear_expired_proposals E l2) (\<lambda>l3.
     obind (clear_orders E l3) (\<lambda>l4.
     Some (conclude_block E maint_needed l4))))))"

section \<open>Checkpoints\<close>

text \<open>The checkpoints are a map, kept as an association list sorted by block number.  Up to the last one a block is not checked,
  unless the last one names no block.\<close>

definition no_block :: block_id_type where "no_block = (0, 0)"

definition add_checkpoints :: "(nat \<times> block_id_type) list \<Rightarrow> ledger \<Rightarrow> ledger" where
  "add_checkpoints cs l =
     (let cps = fold (\<lambda>(n, i). fm_update n i) cs (checkpoints l)
      in l\<lparr> checkpoints := cps, bstate := (bstate l)\<lparr> last_checkpoint := (if cps = [] then None else Some (fst (last cps))) \<rparr> \<rparr>)"

definition before_last_checkpoint :: "ledger \<Rightarrow> bool" where
  "before_last_checkpoint l \<longleftrightarrow> checkpoints l \<noteq> [] \<and> head_block_number (dgp (bstate l)) \<le> fst (last (checkpoints l))"

definition apply_block :: "exec_env \<Rightarrow> chain_block \<Rightarrow> ledger \<Rightarrow> ledger result option" where
  "apply_block E b l =
     (let n = unat (block_num b); cps = checkpoints l in
      if cps \<noteq> [] \<and> snd (last cps) \<noteq> no_block then
        obind (Some (case map_of cps n of None \<Rightarrow> Inr () | Some i \<Rightarrow> ensure (block_id (cr_block_hash (en_crypto E)) b = i) (Inr ())))
          (\<lambda>_. apply_block_body (if n \<le> fst (last cps) then E\<lparr> en_skip := NOT 0 \<rparr> else E) b l)
      else apply_block_body E b l)"

fun apply_blocks :: "exec_env \<Rightarrow> chain_block list \<Rightarrow> ledger \<Rightarrow> ledger result option" where
  "apply_blocks E [] l = Some (Inr l)"
| "apply_blocks E (b # bs) l = obind (apply_block E b l) (apply_blocks E bs)"

section \<open>Lemmas\<close>

lemma obind_Inr: "obind r f = Some (Inr y) \<longleftrightarrow> (\<exists>x. r = Some (Inr x) \<and> f x = Some (Inr y))"
  by (cases "(r, f)" rule: obind.cases) auto

lemma obind_ends: "\<exists>v. r = Some v \<Longrightarrow> (\<And>x. r = Some (Inr x) \<Longrightarrow> \<exists>v. f x = Some v) \<Longrightarrow> \<exists>v. obind r f = Some v"
  by (cases "(r, f)" rule: obind.cases) auto

subsection \<open>No value is created\<close>

definition ledger_ok :: "ledger \<Rightarrow> bool" where
  "ledger_ok l \<longleftrightarrow> market_wf (ldb l) \<and> proposals_ok l"

definition steady :: "ledger \<Rightarrow> ledger \<Rightarrow> bool" where
  "steady l l' \<longleftrightarrow> ledger_ok l' \<and> length (accounts (ldb l)) \<le> length (accounts (ldb l')) \<and> (\<forall>x. ledger_net l' x = ledger_net l x) \<and> checkpoints l' = checkpoints l"

lemma steady_refl: "ledger_ok l \<Longrightarrow> steady l l"
  by (simp add: steady_def)

lemma steady_trans: "steady l l1 \<Longrightarrow> steady l1 l2 \<Longrightarrow> steady l l2"
  by (simp add: steady_def)

lemma steady_ok: "steady l l' \<Longrightarrow> ledger_ok l'"
  by (simp add: steady_def)

lemma same_chainD:
  assumes "same_chain l l'"
  shows "witness_budget (dgp (bstate l')) = witness_budget (dgp (bstate l))" "checkpoints l' = checkpoints l" "trx_index l' = trx_index l"
    "head_block_number (dgp (bstate l')) = head_block_number (dgp (bstate l))" "head_block_id (dgp (bstate l')) = head_block_id (dgp (bstate l))"
proof -
  from assms obtain n where n: "dgp (bstate l') = (dgp (bstate l))\<lparr> accounts_registered_this_interval := n \<rparr>" unfolding same_chain_def by (elim conjE exE)
  show "checkpoints l' = checkpoints l" "trx_index l' = trx_index l" using assms by (simp_all only: same_chain_def)
  show "witness_budget (dgp (bstate l')) = witness_budget (dgp (bstate l))" "head_block_number (dgp (bstate l')) = head_block_number (dgp (bstate l))"
    "head_block_id (dgp (bstate l')) = head_block_id (dgp (bstate l))" by (simp_all add: n)
qed

lemma runs_steady: "runs_to (\<lambda>_. 0) l l' \<Longrightarrow> steady l l'"
proof -
  assume r: "runs_to (\<lambda>_. 0) l l'"
  then have g: "grows_by (\<lambda>_. 0) (ldb l) (ldb l')" and c: "same_chain l l'" and ok: "proposals_ok l'" by (simp_all add: runs_to_def)
  note d = same_chainD [OF c]
  have "ledger_net l' x = ledger_net l x" for x using g d(1) by (simp add: grows_by_def same_frame_def ledger_net_def net_def)
  then show ?thesis using g ok d(2) by (simp add: steady_def ledger_ok_def grows_by_def)
qed

lemma conserves_steady:
  assumes "conserves (ldb l) (cdb s)" "proposals_ok l" "dgp s = dgp (bstate l)"
  shows "steady l (l\<lparr> bstate := s \<rparr>)"
proof -
  have g: "grows_by (\<lambda>_. 0) (ldb l) (cdb s)" by (rule conserves_grows [OF assms(1)])
  then have "ledger_net (l\<lparr> bstate := s \<rparr>) x = ledger_net l x" for x using assms(3) by (simp add: grows_by_def same_frame_def ledger_net_def net_def)
  then show ?thesis using g assms(2) by (simp add: steady_def ledger_ok_def proposals_ok_def grows_by_def)
qed

lemma steady_same: "ledger_ok l \<Longrightarrow> bstate l' = bstate l \<Longrightarrow> proposals l' = proposals l \<Longrightarrow> checkpoints l' = checkpoints l \<Longrightarrow> steady l l'"
  using ledger_net_cong [of l' l] by (simp add: steady_def ledger_ok_def proposals_ok_def)

lemma record_steady: "ledger_ok l \<Longrightarrow> steady l (record_transaction k skip trx l)"
  by (rule steady_same) simp_all

lemma apply_transaction_steady:
  assumes "fc_safe (en_safe E)" "apply_transaction E trx l = Some (Inr l')" "ledger_ok l"
  shows "steady l l'"
  using steady_trans [OF record_steady [OF assms(3)] runs_steady [OF apply_transaction_runs [OF assms(1,2)]]] assms(3) by (simp add: ledger_ok_def)

lemma apply_transactions_steady:
  "fc_safe (en_safe E) \<Longrightarrow> apply_transactions E ts l = Some (Inr l') \<Longrightarrow> ledger_ok l \<Longrightarrow> steady l l'"
proof (induction ts arbitrary: l)
  case (Cons t ts)
  from Cons.prems(2) obtain l1 where l1: "apply_transaction E t l = Some (Inr l1)" "apply_transactions E ts l1 = Some (Inr l')" by (auto simp: obind_Inr)
  note k = apply_transaction_steady [OF Cons.prems(1) l1(1) Cons.prems(3)]
  from steady_trans [OF k Cons.IH [OF Cons.prems(1) l1(2) steady_ok [OF k]]] show ?case .
qed (simp add: steady_refl)

lemma missed_by_frame: "missed_by p i s = Inr s' \<Longrightarrow> \<exists>ws. s' = s\<lparr> witnesses := ws \<rparr>"
proof -
  have "\<exists>ws. s = s\<lparr> witnesses := ws \<rparr>" by (rule exI [of _ "witnesses s"]) simp
  then show "missed_by p i s = Inr s' \<Longrightarrow> \<exists>ws. s' = s\<lparr> witnesses := ws \<rparr>" by (auto simp: missed_by_def split: if_splits)
qed

lemma missed_frame: "rfold (missed_by p) is s = Inr s' \<Longrightarrow> dgp s' = dgp s \<and> gpo s' = gpo s \<and> cdb s' = cdb s"
proof (induction "is" arbitrary: s)
  case (Cons i "is")
  from Cons.prems obtain s1 where s1: "missed_by p i s = Inr s1" "rfold (missed_by p) is s1 = Inr s'" by auto
  from missed_by_frame [OF s1(1)] Cons.IH [OF s1(2)] show ?case by auto
qed simp

lemma update_global_frame:
  assumes "update_global_dynamic_data h u b s = Inr s'"
  shows "cdb s' = (cdb s)\<lparr> head_block_time := timestamp b \<rparr>" "witness_budget (dgp s') = witness_budget (dgp s)"
    "head_block_number (dgp s') = unat (block_num b)" "head_block_id (dgp s') = block_id h b"
proof -
  from assms obtain slot s1 where m: "rfold (missed_by (blk_witness b)) [0..<slot - 1] s = Inr s1"
    and "cdb s' = (cdb s1)\<lparr> head_block_time := timestamp b \<rparr>" "witness_budget (dgp s') = witness_budget (dgp s1)"
    and "head_block_number (dgp s') = unat (block_num b)" "head_block_id (dgp s') = block_id h b"
    unfolding update_global_dynamic_data_def Let_def by auto
  with missed_frame [OF m] show "cdb s' = (cdb s)\<lparr> head_block_time := timestamp b \<rparr>" "witness_budget (dgp s') = witness_budget (dgp s)"
    "head_block_number (dgp s') = unat (block_num b)" "head_block_id (dgp s') = block_id h b" by simp_all
qed

lemma head_time_steady:
  assumes "ledger_ok l" "cdb s = (ldb l)\<lparr> head_block_time := t \<rparr>" "witness_budget (dgp s) = witness_budget (dgp (bstate l))"
  shows "steady l (l\<lparr> bstate := s \<rparr>)"
proof -
  have "market_wf (cdb s)" using assms(1) by (simp add: ledger_ok_def market_wf_def assms(2))
  moreover have "gross (cdb s) x = gross (ldb l) x" "supply_of (cdb s) x = supply_of (ldb l) x" for x
    unfolding gross_def supply_of_def dyn_of_def bal_def get_balance_def by (simp_all add: assms(2))
  ultimately show ?thesis using assms by (simp add: steady_def ledger_ok_def proposals_ok_def ledger_net_def)
qed

lemma irreversible_frame:
  assumes "update_last_irreversible_block s = Inr s'"
  shows "cdb s' = cdb s \<and> gpo s' = gpo s \<and> witness_budget (dgp s') = witness_budget (dgp s) \<and> head_block_number (dgp s') = head_block_number (dgp s) \<and>
    head_block_id (dgp s') = head_block_id (dgp s)"
  using assms by (auto simp: update_last_irreversible_block_def Let_def)

lemma deposit_witness_pay_moves:
  assumes "fc_safe S" "deposit_witness_pay S w amt s = Inr s'" "market_wf (cdb s)"
  shows "moves (amt_at 0 amt) (cdb s) (cdb s')" "dgp s' = dgp s"
proof -
  from assms(2) have "dgp s' = dgp s \<and> (amt = 0 \<and> s' = s \<or> (\<exists>o1 t o2 v. deposit_lazy_vesting S o1 amt t o2 True (cdb s) = Inr (v, cdb s')))"
    by (force simp: deposit_witness_pay_def Let_def split: if_splits option.splits)
  then show "dgp s' = dgp s" "moves (amt_at 0 amt) (cdb s) (cdb s')"
    using fc_safe.deposit_lazy_vesting_moves [OF assms(1) _ assms(3)] moves_refl [OF assms(3)] by auto
qed

lemma signing_witness_steady:
  assumes S: "fc_safe S" and r: "update_signing_witness S w b s = Inr s'" and w: "ledger_ok (l\<lparr> bstate := s \<rparr>)"
  shows "steady (l\<lparr> bstate := s \<rparr>) (l\<lparr> bstate := s' \<rparr>)" "head_block_number (dgp s') = head_block_number (dgp s)" "head_block_id (dgp s') = head_block_id (dgp s)"
    "head_block_time (cdb s') = head_block_time (cdb s)"
proof -
  from r obtain pay budget s1 where p: "safe_sub S (witness_budget (dgp s)) pay = Inr budget"
    and d: "deposit_witness_pay S w pay (s\<lparr> dgp := (dgp s)\<lparr> witness_budget := budget \<rparr> \<rparr>) = Inr s1" and s': "cdb s' = cdb s1" "dgp s' = dgp s1"
    by (auto simp: update_signing_witness_def Let_def)
  have w': "market_wf (cdb (s\<lparr> dgp := (dgp s)\<lparr> witness_budget := budget \<rparr> \<rparr>))" using w by (simp add: ledger_ok_def)
  have b: "budget = witness_budget (dgp s) - pay" using fc_safe.sub_iff [OF S] p by simp
  note m = deposit_witness_pay_moves [OF S d w']
  have "moves (amt_at 0 pay) (cdb s) (cdb s')" using m(1) by (simp add: s')
  then show "steady (l\<lparr> bstate := s \<rparr>) (l\<lparr> bstate := s' \<rparr>)" "head_block_time (cdb s') = head_block_time (cdb s)" using w m(2)
    by (auto simp: moves_def steady_def ledger_ok_def proposals_ok_def same_frame_def ledger_net_def net_def s' b amt_at_def)
  show "head_block_number (dgp s') = head_block_number (dgp s)" "head_block_id (dgp s') = head_block_id (dgp s)" using m(2) by (simp_all add: s')
qed

text \<open>A maintenance leaves the records of the ledger, the proposals and the head alone.\<close>

definition same_records :: "ledger \<Rightarrow> ledger \<Rightarrow> bool" where
  "same_records l l' \<longleftrightarrow> proposals l' = proposals l \<and> checkpoints l' = checkpoints l \<and> trx_index l' = trx_index l \<and>
     head_block_number (dgp (bstate l')) = head_block_number (dgp (bstate l)) \<and> head_block_id (dgp (bstate l')) = head_block_id (dgp (bstate l))"

lemma same_records_refl: "same_records l l"
  by (simp add: same_records_def)

lemma same_records_trans: "same_records l l1 \<Longrightarrow> same_records l1 l2 \<Longrightarrow> same_records l l2"
  by (simp add: same_records_def)

lemma process_budget_records:
  assumes "process_budget S l = Inr l'"
  shows "same_records l l'"
proof -
  from assms obtain d a p t bs where "l' = l\<lparr> bstate := (bstate l)\<lparr> cdb := d, dgp := (dgp (bstate l))\<lparr> witness_budget := a, witness_pay_per_block := p, last_budget_time := t \<rparr> \<rparr>,
      budgets := bs \<rparr>"
    unfolding process_budget_def Let_def by auto
  then show ?thesis by (simp add: same_records_def)
qed

lemma election_records:
  "update_active_witnesses S l = Inr l' \<Longrightarrow> same_records l l'"
  "update_active_committee_members l = Inr l' \<Longrightarrow> same_records l l'"
  "renew_parameters (bstate l) = Inr s \<Longrightarrow> same_records l (l\<lparr> bstate := s \<rparr>)"
  by (auto simp: update_active_witnesses_def update_active_committee_members_def renew_parameters_def Let_def same_records_def split: option.splits)

lemma maintenance_records:
  assumes "perform_chain_maintenance S c b l = Inr l'"
  shows "same_records l l'"
proof -
  from assms obtain d4 bufs l1 l2 s1 nmt l3 where w: "update_active_witnesses S ((with_db l d4)\<lparr> buffers := bufs \<rparr>) = Inr l1"
    and cm: "update_active_committee_members l1 = Inr l2" and rp: "renew_parameters (bstate l2) = Inr s1"
    and pb: "process_budget S (l2\<lparr> bstate := s1\<lparr> dgp := (dgp s1)\<lparr> next_maintenance_time := nmt, accounts_registered_this_interval := 0 \<rparr>,
      cdb := reset_settled_volumes (cdb s1) \<rparr> \<rparr>) = Inr l3" and l': "l' = l3\<lparr> buffers := clear_buffers (buffers l3) \<rparr>"
    by (auto simp: perform_chain_maintenance_def Let_def)
  have "same_records l l1" using election_records(1) [OF w] by (simp add: same_records_def)
  from same_records_trans [OF same_records_trans [OF this election_records(2) [OF cm]] election_records(3) [OF rp]] process_budget_records [OF pb]
  show ?thesis by (simp add: same_records_def l')
qed

lemma maintain_steady:
  assumes "fc_safe (en_safe E)" "maintain_if_due E m b l = Inr l'" "ledger_ok l"
  shows "steady l l'" "same_records l l'" "head_block_time (ldb l') = head_block_time (ldb l)"
proof -
  have "steady l l' \<and> same_records l l' \<and> head_block_time (ldb l') = head_block_time (ldb l)"
  proof (cases m)
    case True
    with assms(2) have m: "perform_chain_maintenance (en_safe E) (context_of E l) b l = Inr l'" by (simp add: maintain_if_due_def)
    from fc_safe.maintenance_keeps [OF assms(1) m] maintenance_records [OF m] assms(3) show ?thesis
      by (simp add: steady_def ledger_ok_def proposals_ok_def same_records_def)
  qed (use assms(2,3) in \<open>simp add: maintain_if_due_def steady_refl same_records_refl\<close>)
  then show "steady l l'" "same_records l l'" "head_block_time (ldb l') = head_block_time (ldb l)" by simp_all
qed

lemma advance_head_steady:
  assumes S: "fc_safe (en_safe E)" and r: "advance_head E w b (bstate l) = Inr s" and ok: "ledger_ok l"
  shows "steady l (l\<lparr> bstate := s \<rparr>)" "head_block_time (cdb s) = timestamp b" "head_block_number (dgp s) = unat (block_num b)"
    "head_block_id (dgp s) = block_id (cr_block_hash (en_crypto E)) b"
proof -
  from r obtain s1 s2 where s1: "update_global_dynamic_data (cr_block_hash (en_crypto E)) (skips (en_skip E) skip_undo_history_check) b (bstate l) = Inr s1"
    and s2: "update_signing_witness (en_safe E) w b s1 = Inr s2" and s3: "update_last_irreversible_block s2 = Inr s"
    by (auto simp: advance_head_def)
  note f1 = update_global_frame [OF s1] and f3 = irreversible_frame [OF s3]
  note k1 = head_time_steady [OF ok f1(1,2)]
  note f2 = signing_witness_steady [OF S s2 steady_ok [OF k1]]
  have "steady (l\<lparr> bstate := s2 \<rparr>) (l\<lparr> bstate := s \<rparr>)" using steady_ok [OF f2(1)] f3
    by (simp add: steady_def ledger_ok_def proposals_ok_def ledger_net_def)
  then show "steady l (l\<lparr> bstate := s \<rparr>)" using k1 f2(1) by (blast intro: steady_trans)
  show "head_block_time (cdb s) = timestamp b" "head_block_number (dgp s) = unat (block_num b)"
    "head_block_id (dgp s) = block_id (cr_block_hash (en_crypto E)) b" using f1 f2 f3 by simp_all
qed

lemma advance_chain_steady:
  assumes S: "fc_safe (en_safe E)" and r: "advance_chain E w m b l = Inr l'" and ok: "ledger_ok l"
  shows "steady l l'" "head_block_time (ldb l') = timestamp b" "head_block_number (dgp (bstate l')) = unat (block_num b)"
    "head_block_id (dgp (bstate l')) = block_id (cr_block_hash (en_crypto E)) b" "trx_index l' = clear_transactions (timestamp b) (trx_index l)"
proof -
  from r obtain s l1 l2 where s: "advance_head E w b (bstate l) = Inr s" and l1: "maintain_if_due E m b (l\<lparr> bstate := s \<rparr>) = Inr l1"
    and l2: "create_block_summary (en_crypto E) b l1 = Inr l2" and l': "l' = clear_expired_transactions l2" by (auto simp: advance_chain_def)
  note h = advance_head_steady [OF S s ok] note m = maintain_steady [OF S l1 steady_ok [OF h(1)]]
  from l2 have f: "bstate l2 = bstate l1" "proposals l2 = proposals l1" "checkpoints l2 = checkpoints l1" "trx_index l2 = trx_index l1"
    by (auto simp: create_block_summary_def)
  have "steady l1 l'" by (rule steady_same [OF steady_ok [OF m(1)]]) (simp_all add: l' clear_expired_transactions_def f)
  then show "steady l l'" using h(1) m(1) by (blast intro: steady_trans)
  show "head_block_time (ldb l') = timestamp b" "head_block_number (dgp (bstate l')) = unat (block_num b)"
    "head_block_id (dgp (bstate l')) = block_id (cr_block_hash (en_crypto E)) b" "trx_index l' = clear_transactions (timestamp b) (trx_index l)"
    using h m by (simp_all add: l' clear_expired_transactions_def f same_records_def)
qed

text \<open>The rest of a block leaves records and head alone.\<close>

definition fees_ok :: "exec_env \<Rightarrow> bool" where
  "fees_ok E \<longleftrightarrow> (\<forall>p op. 0 \<le> en_fees E p op)"

lemma clear_orders_steady:
  assumes S: "fc_safe (en_safe E)" and F: "fees_ok E" and ok: "ledger_ok l"
  shows "\<exists>r. clear_orders E l = Some r \<and> (\<forall>l'. r = Inr l' \<longrightarrow> steady l l' \<and> same_records l l' \<and> head_block_time (ldb l') = head_block_time (ldb l))"
proof -
  let ?fee = "mk_asset (required_fee E (Ledger_op (Limit_order_cancel_op \<lparr> lc_fee = mk_asset 0 0, lc_order = 0, lc_fee_paying_account = 0 \<rparr>)) l) 0"
  have w: "market_wf (ldb l)" and p: "proposals_ok l" using ok by (simp_all add: ledger_ok_def)
  have f: "0 \<le> amount ?fee" using F by (simp add: fees_ok_def required_fee_def)
  from fc_safe.clear_expired_orders_total [OF S w f, where c = "context_of (E\<lparr> en_skip := en_skip E OR skip_authority_check \<rparr>) l"] obtain r
    where r: "clear_expired_orders (en_safe E) (context_of (E\<lparr> en_skip := en_skip E OR skip_authority_check \<rparr>) l) ?fee (ldb l) = Some r"
      and c: "\<forall>d. r = Inr d \<longrightarrow> conserves (ldb l) d" by blast
  show ?thesis
  proof (cases r)
    case (Inr d)
    have "steady l (with_db l d)" by (rule conserves_steady) (use c p Inr in simp_all)
    moreover have "head_block_time d = head_block_time (ldb l)" using c Inr by (simp add: conserves_def same_frame_def)
    ultimately show ?thesis using r Inr by (simp add: clear_orders_def Let_def same_records_def)
  qed (use r in \<open>simp add: clear_orders_def Let_def\<close>)
qed

lemma clear_permits_subset: "set (clear_permits now ps) \<subseteq> set ps"
proof (induction "length ps" arbitrary: ps rule: less_induct)
  case less
  show ?case
  proof (subst clear_permits.simps, cases "sort_by permit_before ps")
    case (Cons p qs)
    have p: "p \<in> set ps" using set_sort_by [of permit_before ps] Cons by auto
    have "set (clear_permits now (remove_order (fst p) ps)) \<subseteq> set (remove_order (fst p) ps)" by (rule less) (rule remove_order_shorter [OF p])
    moreover have "set (remove_order (fst p) ps) \<subseteq> set ps" by (auto simp: remove_order_def)
    ultimately show "set (case sort_by permit_before ps of [] \<Rightarrow> ps | p # x \<Rightarrow> if wp_expiration (snd p) \<le> now then clear_permits now (remove_order (fst p) ps) else ps) \<subseteq> set ps"
      using Cons by auto
  qed simp
qed

lemma withdraw_permissions_conserve: "market_wf d \<Longrightarrow> conserves d (update_withdraw_permissions d)"
proof (rule moves_zero)
  assume w: "market_wf d"
  then have "\<forall>p\<in>set (clear_permits (head_block_time d) (withdraw_permissions d)). wp_withdraw_from_account (snd p) < length (accounts d)"
    using clear_permits_subset unfolding market_wf_def by blast
  with w show "market_wf (update_withdraw_permissions d)" by (simp add: update_withdraw_permissions_def market_wf_def)
qed (simp_all add: update_withdraw_permissions_def same_frame_def bal_def get_balance_def fun_eq_iff)

lemma conclude_steady:
  assumes S: "fc_safe (en_safe E)" and r: "conclude_block E m l = Inr l'" and ok: "ledger_ok l"
  shows "steady l l'" "same_records l l'" "head_block_time (ldb l') = head_block_time (ldb l)"
proof -
  from r obtain d s where d: "update_expired_feeds (en_safe E) (ldb l) = Inr d" and l': "l' = l\<lparr> bstate := s \<rparr>"
    and s: "cdb s = update_withdraw_permissions d" "witness_budget (dgp s) = witness_budget (dgp (bstate l))"
      "head_block_number (dgp s) = head_block_number (dgp (bstate l))" "head_block_id (dgp s) = head_block_id (dgp (bstate l))"
    by (auto simp: conclude_block_def update_witness_schedule_def update_maintenance_flag_def split: if_splits)
  have c: "conserves (ldb l) d" using fc_safe.update_expired_feeds_conserves [OF S d] ok by (simp add: ledger_ok_def)
  have g: "grows_by (\<lambda>_. 0) (ldb l) (cdb s)" using conserves_grows [OF conserves_trans [OF c withdraw_permissions_conserve [OF conserves_wf [OF c]]]] s by simp
  then have "ledger_net l' x = ledger_net l x" for x using s by (simp add: grows_by_def same_frame_def ledger_net_def net_def l')
  then show "steady l l'" using g ok by (simp add: steady_def ledger_ok_def proposals_ok_def grows_by_def l')
  show "same_records l l'" "head_block_time (ldb l') = head_block_time (ldb l)" using g s by (simp_all add: same_records_def l' grows_by_def same_frame_def)
qed

lemma runs_records: "runs_to (\<lambda>_. 0) l l' \<Longrightarrow> trx_index l' = trx_index l \<and> head_block_number (dgp (bstate l')) = head_block_number (dgp (bstate l)) \<and>
    head_block_id (dgp (bstate l')) = head_block_id (dgp (bstate l)) \<and> head_block_time (ldb l') = head_block_time (ldb l)"
  using same_chainD [of l l'] by (simp add: runs_to_def grows_by_def same_frame_def)

subsection \<open>A whole block\<close>

lemma apply_transactions_end: "fc_safe (en_safe E) \<Longrightarrow> ledger_ok l \<Longrightarrow> \<exists>r. apply_transactions E ts l = Some r"
proof (induction ts arbitrary: l)
  case (Cons t ts)
  from Cons.prems(2) have w: "market_wf (ldb l)" "proposals_ok l" by (simp_all add: ledger_ok_def)
  show ?case unfolding apply_transactions.simps
    using apply_transaction_ends [OF Cons.prems(1) w] Cons.IH [OF Cons.prems(1) steady_ok [OF apply_transaction_steady [OF Cons.prems(1) _ Cons.prems(2)]]]
    by (rule obind_ends)
qed simp

lemma apply_block_body_steps:
  assumes "apply_block_body E b l = Some (Inr l')"
  obtains u w l1 l2 l3 l4 where "check_merkle_root E b = Inr u" "validate_block_header E b l = Inr w" "apply_transactions E (transactions b) l = Some (Inr l1)"
    "advance_chain E w (next_maintenance_time (dgp (bstate l)) \<le> timestamp b) b l1 = Inr l2" "clear_expired_proposals E l2 = Some (Inr l3)"
    "clear_orders E l3 = Some (Inr l4)" "conclude_block E (next_maintenance_time (dgp (bstate l)) \<le> timestamp b) l4 = Inr l'"
  using assms unfolding apply_block_body_def Let_def obind_Inr option.inject rbind_eq_Inr by blast

lemma apply_block_body_steady:
  assumes S: "fc_safe (en_safe E)" and F: "fees_ok E" and ok: "ledger_ok l" and r: "apply_block_body E b l = Some (Inr l')"
  shows "steady l l'" "head_block_time (ldb l') = timestamp b" "head_block_number (dgp (bstate l')) = unat (block_num b)"
    "head_block_id (dgp (bstate l')) = block_id (cr_block_hash (en_crypto E)) b"
    "\<exists>l1. apply_transactions E (transactions b) l = Some (Inr l1) \<and> trx_index l' = clear_transactions (timestamp b) (trx_index l1)"
proof -
  from r obtain w l1 l2 l3 l4 where l1: "apply_transactions E (transactions b) l = Some (Inr l1)"
    and l2: "advance_chain E w (next_maintenance_time (dgp (bstate l)) \<le> timestamp b) b l1 = Inr l2" and l3: "clear_expired_proposals E l2 = Some (Inr l3)"
    and l4: "clear_orders E l3 = Some (Inr l4)" and l5: "conclude_block E (next_maintenance_time (dgp (bstate l)) \<le> timestamp b) l4 = Inr l'"
    by (rule apply_block_body_steps)
  note k1 = apply_transactions_steady [OF S l1 ok]
  note k2 = advance_chain_steady [OF S l2 steady_ok [OF k1]]
  have "runs_to (\<lambda>_. 0) l2 l3" by (rule clear_expired_proposals_runs [OF S l3]) (use steady_ok [OF k2(1)] in \<open>simp_all add: ledger_ok_def\<close>)
  note k3 = runs_steady [OF this] runs_records [OF this]
  from clear_orders_steady [OF S F steady_ok [OF k3(1)]] l4 have k4: "steady l3 l4" "same_records l3 l4" "head_block_time (ldb l4) = head_block_time (ldb l3)" by auto
  note k5 = conclude_steady [OF S l5 steady_ok [OF k4(1)]]
  show "steady l l'" using k1 k2(1) k3(1) k4(1) k5(1) by (blast intro: steady_trans)
  show "head_block_time (ldb l') = timestamp b" "head_block_number (dgp (bstate l')) = unat (block_num b)"
    "head_block_id (dgp (bstate l')) = block_id (cr_block_hash (en_crypto E)) b"
    "\<exists>l1. apply_transactions E (transactions b) l = Some (Inr l1) \<and> trx_index l' = clear_transactions (timestamp b) (trx_index l1)"
    using k2(2-5) k3(2) k4(2,3) k5(2,3) l1 by (simp_all add: same_records_def)
qed

lemma apply_block_body_ends:
  assumes S: "fc_safe (en_safe E)" and F: "fees_ok E" and ok: "ledger_ok l"
  shows "\<exists>r. apply_block_body E b l = Some r"
proof -
  have p: "\<exists>r. clear_expired_proposals E l2 = Some r" if "ledger_ok l2" for l2
    using clear_expired_proposals_ends [OF S] that by (simp add: ledger_ok_def)
  have r: "\<exists>r. obind (clear_expired_proposals E l2) (\<lambda>l3. obind (clear_orders E l3) (\<lambda>l4. Some (conclude_block E m l4))) = Some r" if ok2: "ledger_ok l2" for m l2
  proof (rule obind_ends [OF p [OF ok2]])
    fix l3 assume "clear_expired_proposals E l2 = Some (Inr l3)"
    from clear_expired_proposals_runs [OF S this] ok2 have "runs_to (\<lambda>_. 0) l2 l3" by (simp add: ledger_ok_def)
    from clear_orders_steady [OF S F steady_ok [OF runs_steady [OF this]]]
    show "\<exists>r. obind (clear_orders E l3) (\<lambda>l4. Some (conclude_block E m l4)) = Some r" by (intro obind_ends) auto
  qed
  have c: "\<exists>r. obind (apply_transactions E (transactions b) l) (\<lambda>l1. obind (Some (advance_chain E w m b l1)) (\<lambda>l2.
      obind (clear_expired_proposals E l2) (\<lambda>l3. obind (clear_orders E l3) (\<lambda>l4. Some (conclude_block E m l4))))) = Some r" for w m
  proof (rule obind_ends [OF apply_transactions_end [OF S ok]], rule obind_ends)
    fix l1 l2 assume t: "apply_transactions E (transactions b) l = Some (Inr l1)" and a: "Some (advance_chain E w m b l1) = Some (Inr l2)"
    from a have a: "advance_chain E w m b l1 = Inr l2" by simp
    show "\<exists>r. obind (clear_expired_proposals E l2) (\<lambda>l3. obind (clear_orders E l3) (\<lambda>l4. Some (conclude_block E m l4))) = Some r"
      by (rule r) (rule steady_ok [OF advance_chain_steady(1) [OF S a steady_ok [OF apply_transactions_steady [OF S t ok]]]])
  qed simp
  show ?thesis unfolding apply_block_body_def Let_def by (rule obind_ends) (simp, rule c)
qed

text \<open>The checkpoints decide with which checks a block is applied.\<close>

lemma apply_block_cases:
  obtains (refused) e where "apply_block E b l = Some (Inl e)" | (checked) skip where "apply_block E b l = apply_block_body (E\<lparr> en_skip := skip \<rparr>) b l"
    "checkpoints l = [] \<Longrightarrow> skip = en_skip E"
proof -
  have e: "E = E\<lparr> en_skip := en_skip E \<rparr>" by simp
  show thesis
  proof (cases "checkpoints l \<noteq> [] \<and> snd (last (checkpoints l)) \<noteq> no_block")
    case True
    let ?c = "case map_of (checkpoints l) (unat (block_num b)) of None \<Rightarrow> Inr () | Some i \<Rightarrow> ensure (block_id (cr_block_hash (en_crypto E)) b = i) (Inr ())"
    show thesis
    proof (cases ?c)
      case (Inl x)
      then show thesis using True refused [of x] by (simp add: apply_block_def Let_def)
    next
      case (Inr u)
      then have "apply_block E b l = apply_block_body (if unat (block_num b) \<le> fst (last (checkpoints l)) then E\<lparr> en_skip := NOT 0 \<rparr> else E) b l"
        using True by (simp add: apply_block_def Let_def)
      then show thesis using True checked [of "NOT 0"] checked [of "en_skip E"] e by (auto split: if_splits)
    qed
  next
    case False
    then have "apply_block E b l = apply_block_body E b l" by (auto simp: apply_block_def Let_def)
    then show thesis using checked [of "en_skip E"] by simp
  qed
qed

lemma apply_block_steady:
  assumes S: "fc_safe (en_safe E)" and F: "fees_ok E" and ok: "ledger_ok l" and r: "apply_block E b l = Some (Inr l')"
  shows "steady l l'" "head_block_time (ldb l') = timestamp b" "head_block_number (dgp (bstate l')) = unat (block_num b)"
    "head_block_id (dgp (bstate l')) = block_id (cr_block_hash (en_crypto E)) b"
proof -
  obtain skip where "apply_block_body (E\<lparr> en_skip := skip \<rparr>) b l = Some (Inr l')" using r by (cases rule: apply_block_cases [of E b l]) auto
  from apply_block_body_steady(1-4) [OF _ _ ok this] S F
  show "steady l l'" "head_block_time (ldb l') = timestamp b" "head_block_number (dgp (bstate l')) = unat (block_num b)"
    "head_block_id (dgp (bstate l')) = block_id (cr_block_hash (en_crypto E)) b" by (simp_all add: fees_ok_def)
qed

lemma apply_block_ends:
  assumes S: "fc_safe (en_safe E)" and F: "fees_ok E" and ok: "ledger_ok l"
  shows "\<exists>r. apply_block E b l = Some r"
proof (cases rule: apply_block_cases [of E b l])
  case (checked skip)
  have "\<exists>r. apply_block_body (E\<lparr> en_skip := skip \<rparr>) b l = Some r" by (rule apply_block_body_ends [OF _ _ ok]) (use S F in \<open>simp_all add: fees_ok_def\<close>)
  then show ?thesis by (simp add: checked(1))
qed simp

lemma apply_blocks_end:
  "fc_safe (en_safe E) \<Longrightarrow> fees_ok E \<Longrightarrow> ledger_ok l \<Longrightarrow> \<exists>r. apply_blocks E bs l = Some r \<and> (\<forall>l'. r = Inr l' \<longrightarrow> steady l l')"
proof (induction bs arbitrary: l)
  case (Cons b bs)
  from apply_block_ends [OF Cons.prems] obtain r where r: "apply_block E b l = Some r" by blast
  show ?case
  proof (cases r)
    case (Inr l1)
    note k = apply_block_steady(1) [OF Cons.prems r [unfolded Inr]]
    from Cons.IH [OF Cons.prems(1,2) steady_ok [OF k]] r Inr show ?thesis using steady_trans [OF k] by auto
  qed (use r in simp)
qed (simp add: steady_refl)

subsection \<open>Replays\<close>

abbreviation known_ids :: "ledger \<Rightarrow> nat set" where
  "known_ids l \<equiv> fst ` set (trx_index l)"

lemma apply_transactions_records:
  assumes "fc_safe (en_safe E)" "en_skip E = 0"
  shows "apply_transactions E ts l = Some (Inr l') \<Longrightarrow> ledger_ok l \<Longrightarrow>
    trx_index l' = trx_index l @ map (\<lambda>t. (cr_transaction_id (en_crypto E) t, tx_expiration t)) ts \<and>
    distinct (map (cr_transaction_id (en_crypto E)) ts) \<and> cr_transaction_id (en_crypto E) ` set ts \<inter> known_ids l = {} \<and>
    (head_block_number (dgp (bstate l)) > 0 \<longrightarrow> (\<forall>t\<in>set ts. head_block_time (ldb l) \<le> tx_expiration t))"
proof (induction ts arbitrary: l)
  case (Cons t ts)
  have z: "\<not> skips 0 f" for f by (simp add: skips_def)
  let ?l = "record_transaction (en_crypto E) (en_skip E) t l"
  from Cons.prems(1) obtain l1 where l1: "apply_transaction E t l = Some (Inr l1)" "apply_transactions E ts l1 = Some (Inr l')" by (auto simp: obind_Inr)
  have w: "market_wf (ldb l)" "proposals_ok l" using Cons.prems(2) by (simp_all add: ledger_ok_def)
  have n: "\<not> is_known_transaction (cr_transaction_id (en_crypto E) t) l" and tp: "check_tapos 0 t l = Inr ()"
    using l1(1) assms(2) by (auto elim!: apply_transactionE simp: z)
  note k = runs_records [OF apply_transaction_runs [OF assms(1) l1(1) w]]
  have i: "trx_index ?l = trx_index l @ [(cr_transaction_id (en_crypto E) t, tx_expiration t)]" by (simp add: record_transaction_def assms(2) z)
  note IH = Cons.IH [OF l1(2) steady_ok [OF apply_transaction_steady [OF assms(1) l1(1) Cons.prems(2)]]]
  have "head_block_number (dgp (bstate l)) > 0 \<longrightarrow> head_block_time (ldb l) \<le> tx_expiration t" using tp by (auto simp: check_tapos_def)
  then show ?case using IH k n by (auto simp: i is_known_transaction_def)
qed simp

text \<open>What the records are for: each transaction \<open>t\<close> of the chain so far is recorded or has expired.\<close>

definition remembers :: "crypto \<Rightarrow> signed_transaction list \<Rightarrow> ledger \<Rightarrow> bool" where
  "remembers k seen l \<longleftrightarrow> distinct (map fst (trx_index l)) \<and> distinct (map (cr_transaction_id k) seen) \<and>
     (\<forall>t\<in>set seen. (cr_transaction_id k t, tx_expiration t) \<in> set (trx_index l) \<or> tx_expiration t < head_block_time (ldb l)) \<and>
     (head_block_number (dgp (bstate l)) = 0 \<longrightarrow> seen = []) \<and> head_block_number (dgp (bstate l)) = unat (fst (head_block_id (dgp (bstate l))))"

text \<open>The identifier of a transaction is a hash of all of it, so it determines when the transaction expires.\<close>

definition ids_determine_expiration :: "crypto \<Rightarrow> bool" where
  "ids_determine_expiration k \<longleftrightarrow> (\<forall>t u. cr_transaction_id k t = cr_transaction_id k u \<longrightarrow> tx_expiration t = tx_expiration u)"

lemma block_header_facts:
  assumes "validate_block_header E b l = Inr w"
  shows "previous b = head_block_id (dgp (bstate l))" "head_block_time (ldb l) < timestamp b" "w = blk_witness b" "w < length (witnesses (bstate l))"
    "skips (en_skip E) skip_witness_signature \<or> cr_signee (en_crypto E) b = signing_key (witnesses (bstate l) ! w)"
    "\<not> skips (en_skip E) skip_witness_schedule_check \<Longrightarrow> \<exists>slot. get_slot_at_time (timestamp b) (bstate l) = Inr slot \<and> 0 < slot \<and> get_scheduled_witness slot (bstate l) = Inr w"
  using assms by (auto simp: validate_block_header_def Let_def get_obj_def split: if_splits)

lemma block_num_next:
  assumes "previous b = head_block_id g" "head_block_number g = unat (fst (head_block_id g))" "head_block_number g + 1 < 2 ^ 32"
  shows "unat (block_num b) = head_block_number g + 1"
proof -
  have "unat (fst (head_block_id g) + 1) = (unat (fst (head_block_id g)) + 1) mod 2 ^ 32" by (simp add: unat_word_ariths)
  then show ?thesis using assms by (simp add: block_num_def num_from_id_def)
qed

lemma remembers_step:
  assumes S: "fc_safe (en_safe E)" and F: "fees_ok E" and no: "en_skip E = 0" and ok: "ledger_ok l" and K: "ids_determine_expiration (en_crypto E)"
    and r: "apply_block_body E b l = Some (Inr l')" and m: "remembers (en_crypto E) seen l" and n: "head_block_number (dgp (bstate l)) + 1 < 2 ^ 32"
  shows "remembers (en_crypto E) (seen @ transactions b) l'" "head_block_number (dgp (bstate l')) = head_block_number (dgp (bstate l)) + 1"
proof -
  let ?id = "cr_transaction_id (en_crypto E)" and ?g = "dgp (bstate l)"
  from r obtain w where "validate_block_header E b l = Inr w" by (rule apply_block_body_steps)
  note h = block_header_facts [OF this]
  note k = apply_block_body_steady [OF S F ok r]
  from k(5) obtain l1 where l1: "apply_transactions E (transactions b) l = Some (Inr l1)" "trx_index l' = clear_transactions (timestamp b) (trx_index l1)" by blast
  have nb: "unat (block_num b) = head_block_number ?g + 1" by (rule block_num_next [OF h(1) _ n]) (use m in \<open>simp add: remembers_def\<close>)
  then show "head_block_number (dgp (bstate l')) = head_block_number ?g + 1" using k(3) by simp
  note t = apply_transactions_records [OF S no l1(1) ok]
  let ?new = "map (\<lambda>t. (?id t, tx_expiration t)) (transactions b)"
  have i1: "trx_index l1 = trx_index l @ ?new" using t by blast
  have d: "distinct (map fst (trx_index l1))" using t m by (auto simp: remembers_def comp_def)
  have c: "trx_index l' = (if \<exists>x\<in>set (trx_index l1). timestamp b \<le> snd x then trx_index l1 else [])"
    unfolding l1(2) by (rule clear_transactions_all_or_nothing [OF d])
  have new: "?id ` set (transactions b) \<inter> known_ids l = {}" using t by blast
  have fresh: "?id t \<noteq> ?id u" if "t \<in> set (transactions b)" "u \<in> set seen" for t u
  proof
    assume e: "?id t = ?id u"
    then have x: "tx_expiration t = tx_expiration u" using K unfolding ids_determine_expiration_def by blast
    have "0 < head_block_number ?g" using m that(2) by (cases seen) (auto simp: remembers_def)
    with t that(1) have "head_block_time (ldb l) \<le> tx_expiration t" by blast
    moreover have "?id u \<notin> known_ids l" using new that(1) unfolding e [symmetric] by blast
    moreover have "(?id u, tx_expiration u) \<in> set (trx_index l) \<or> tx_expiration u < head_block_time (ldb l)" using m that(2) by (simp add: remembers_def)
    ultimately show False using x by (auto intro: rev_image_eqI)
  qed
  have kept: "(?id t, tx_expiration t) \<in> set (trx_index l1) \<or> tx_expiration t < timestamp b" if "t \<in> set (seen @ transactions b)" for t
    using that m h(2) by (auto simp: remembers_def i1)
  have "(?id t, tx_expiration t) \<in> set (trx_index l') \<or> tx_expiration t < timestamp b" if "t \<in> set (seen @ transactions b)" for t
    using kept [OF that] by (force simp: c)
  moreover have "distinct (map fst (trx_index l'))" using d by (simp add: c)
  moreover have "?id ` set seen \<inter> ?id ` set (transactions b) = {}"
  proof (rule equals0I)
    fix i assume "i \<in> ?id ` set seen \<inter> ?id ` set (transactions b)"
    then obtain t u where "u \<in> set seen" "t \<in> set (transactions b)" "i = ?id u" "i = ?id t" by (elim IntE imageE)
    with fresh [of t u] show False by simp
  qed
  then have "distinct (map ?id (seen @ transactions b))" using t m by (simp add: remembers_def)
  moreover have "head_block_number (dgp (bstate l')) = unat (fst (head_block_id (dgp (bstate l'))))" using k(3,4) by (simp add: block_id_def)
  ultimately show "remembers (en_crypto E) (seen @ transactions b) l'" using k(2,3) nb by (simp add: remembers_def)
qed

lemma remembers_chain:
  assumes S: "fc_safe (en_safe E)" and F: "fees_ok E" and no: "en_skip E = 0" and K: "ids_determine_expiration (en_crypto E)"
  shows "apply_blocks E bs l = Some (Inr l') \<Longrightarrow> ledger_ok l \<Longrightarrow> checkpoints l = [] \<Longrightarrow> remembers (en_crypto E) seen l \<Longrightarrow>
    head_block_number (dgp (bstate l)) + length bs < 2 ^ 32 \<Longrightarrow> remembers (en_crypto E) (seen @ concat (map transactions bs)) l'"
proof (induction bs arbitrary: l seen)
  case (Cons b bs)
  from Cons.prems(1) obtain l1 where l1: "apply_block E b l = Some (Inr l1)" "apply_blocks E bs l1 = Some (Inr l')" by (auto simp: obind_Inr)
  have b: "apply_block_body E b l = Some (Inr l1)" using l1(1) Cons.prems(3) by (simp add: apply_block_def)
  note k = apply_block_body_steady(1) [OF S F Cons.prems(2) b]
  have n: "head_block_number (dgp (bstate l)) + 1 < 2 ^ 32" using Cons.prems(5) by simp
  note m = remembers_step [OF S F no Cons.prems(2) K b Cons.prems(4) n]
  have c: "checkpoints l1 = []" using k Cons.prems(3) by (simp add: steady_def)
  have n1: "head_block_number (dgp (bstate l1)) + length bs < 2 ^ 32" using m(2) Cons.prems(5) by simp
  from Cons.IH [OF l1(2) steady_ok [OF k] c m(1) n1] show ?case by simp
qed simp

section \<open>A small chain, for the examples\<close>

definition genesis_ledger :: ledger where
  "genesis_ledger = demo_ledger\<lparr> trx_index := [], block_summaries := [(0, 0), (0, 0)], bstate := (bstate demo_ledger)\<lparr>
     dgp := (dgp (bstate demo_ledger))\<lparr> head_block_number := 0, head_block_id := (0, 0), witness_budget := 0, current_aslot := 0, last_irreversible_block_num := 0 \<rparr> \<rparr> \<rparr>"

definition first_block :: chain_block where
  "first_block = \<lparr> previous = (0, 0), timestamp = 1005, blk_witness = 1, transaction_merkle_root = 1050, witness_signature = 0, transactions = [demo_trx] \<rparr>"

definition idle :: "chain_db \<Rightarrow> bool" where
  "idle d \<longleftrightarrow> head_block_time d = 1000 \<and> limit_orders d = [] \<and> settlements d = [] \<and> withdraw_permissions d = [] \<and> assets d = assets demo_signed_db"

lemma genesis_transaction:
  "\<exists>d. apply_transactions demo_exec [demo_trx] genesis_ledger = Some (Inr (with_db (record_transaction demo_crypto 0 demo_trx genesis_ledger) d)) \<and> idle d"
proof -
  let ?l = "record_transaction demo_crypto 0 demo_trx genesis_ledger"
  have l: "ldb genesis_ledger = demo_signed_db" "parameters (gpo (bstate genesis_ledger)) = parameters (gpo (bstate demo_ledger))"
    "ldb demo_ledger = demo_signed_db" "trx_index genesis_ledger = []" "head_block_number (dgp (bstate genesis_ledger)) = 0"
    by (simp_all add: genesis_ledger_def demo_ledger_def)
  have "\<exists>d. apply_operation checked_ops c fresh_eval_state (\<lambda>_. 1) (Transfer_op demo_transfer) demo_signed_db = Inr d \<and> temp_account_empty d \<and> idle d" for c
    by (simp add: demo_trx_simps apply_operation_def fresh_eval_state_def temp_account_empty_def GRAPHENE_TEMP_ACCOUNT_def idle_def)
  then obtain d where d: "apply_operation checked_ops (context_of demo_exec ?l) fresh_eval_state (\<lambda>_. 1) (Transfer_op demo_transfer) demo_signed_db = Inr d"
    "temp_account_empty d" "idle d" by blast
  have e: "en_safe demo_exec = checked_ops" "en_crypto demo_exec = demo_crypto" "en_skip demo_exec = 0" "required_fee demo_exec op l = 1" for op l
    by (simp_all add: demo_exec_def required_fee_def)
  have b: "begin_operation demo_exec False (Ledger_op (Transfer_op demo_transfer)) ?l = Inr (with_db ?l d)" using d(1) by (simp add: e l)
  have o: "operations demo_trx = [Ledger_op (Transfer_op demo_transfer)]" by (simp add: demo_trx_def)
  have "run_operations demo_exec False (operations demo_trx) ?l = Some (Inr (with_db ?l d))"
    unfolding o by (subst run_operations.simps, simp only: list.case b sum.case) (simp add: completed_proposal_def finish_operation_def run_operations.simps)
  moreover have "admit_transaction demo_exec demo_trx genesis_ledger = Inr ?l"
  proof -
    have v: "transaction_validate chain_operation_validate (operations demo_trx) = Inr ()"
      by (simp add: transaction_validate_def demo_trx_def transfer_validate_def demo_transfer_def)
    have s: "check_signatures demo_crypto 0 demo_trx genesis_ledger = Inr ()"
      using demo_trx_signed unfolding check_signatures_def l .
    show ?thesis using v s by (simp add: admit_transaction_def e is_known_transaction_def check_tapos_def l)
  qed
  ultimately show ?thesis using d(2,3) by (auto simp: apply_transaction_def)
qed

lemma first_block_applies: "\<exists>l'. apply_blocks demo_exec [first_block] genesis_ledger = Some (Inr l')"
proof -
  from genesis_transaction obtain d where t: "apply_transactions demo_exec [demo_trx] genesis_ledger = Some (Inr (with_db (record_transaction demo_crypto 0 demo_trx genesis_ledger) d))"
    and d: "idle d" by blast
  let ?l1 = "with_db (record_transaction demo_crypto 0 demo_trx genesis_ledger) d"
  have z: "\<not> skips 0 f" for f by (simp add: skips_def)
  have e: "en_safe demo_exec = checked_ops" "en_crypto demo_exec = demo_crypto" "en_skip demo_exec = 0" by (simp_all add: demo_exec_def)
  have b: "block_num first_block = 1" by (simp add: block_num_def num_from_id_def first_block_def)
  have m: "check_merkle_root demo_exec first_block = Inr ()"
    by (simp add: check_merkle_root_def e z calculate_merkle_root_def first_block_def merkle_loop.simps demo_crypto_def demo_trx_def)
  have v: "validate_block_header demo_exec first_block genesis_ledger = Inr 1"
    by (simp add: validate_block_header_def first_block_def e z genesis_ledger_def demo_ledger_def demo_block_state_def demo_parameters_def demo_witness_def
      get_obj_def get_slot_at_time_def get_slot_time_def get_scheduled_witness_def demo_crypto_def demo_signed_db_def demo_funded_def demo_db_def Let_def)
  have n: "next_maintenance_time (dgp (bstate genesis_ledger)) = 5000" "timestamp first_block = 1005" "transactions first_block = [demo_trx]"
    by (simp_all add: genesis_ledger_def demo_ledger_def demo_block_state_def first_block_def)
  define l1 where "l1 = ?l1"
  define s0 where "s0 = bstate l1"
  have s: "cdb s0 = d" "gpo s0 = gpo demo_block_state" "witnesses s0 = map demo_witness [5, 4, 6]" "dynamic_flags (dgp s0) = 0"
    "head_block_number (dgp s0) = 0" "last_irreversible_block_num (dgp s0) = 0" "witness_budget (dgp s0) = 0" "witness_pay_per_block (dgp s0) = 10"
    by (simp_all add: s0_def l1_def genesis_ledger_def demo_ledger_def demo_block_state_def)
  have l: "proposals l1 = []" "block_summaries l1 = [(0, 0), (0, 0)]" "bstate l1 = s0"
    by (simp_all add: l1_def s0_def genesis_ledger_def demo_ledger_def)
  have p: "block_interval s = 5" "active_witnesses (gpo s) = [0, 1, 2]" if "gpo s = gpo demo_block_state" for s
    using that by (simp_all add: demo_block_state_def demo_parameters_def)
  have h: "head_block_time d = 1000" using d by (simp add: idle_def)
  have "get_slot_at_time 1005 s0 = Inr 1" by (simp add: get_slot_at_time_def get_slot_time_def s p h)
  then obtain s1 where s1: "update_global_dynamic_data (cr_block_hash demo_crypto) False first_block s0 = Inr s1" "cdb s1 = d\<lparr> head_block_time := 1005 \<rparr>"
      "gpo s1 = gpo demo_block_state" "witnesses s1 = map demo_witness [5, 4, 6]" "witness_budget (dgp s1) = 0" "witness_pay_per_block (dgp s1) = 10"
      "head_block_number (dgp s1) = 1" "last_irreversible_block_num (dgp s1) = 0" "dynamic_flags (dgp s1) = 0"
    by (simp add: update_global_dynamic_data_def n b s Let_def GRAPHENE_MAX_UNDO_HISTORY_def)
  have "get_slot_at_time 1005 s1 = Inr 0" by (simp add: get_slot_at_time_def get_slot_time_def s1 p maintenance_flag_def)
  then obtain s2 where s2: "update_signing_witness checked_ops 1 first_block s1 = Inr s2" "cdb s2 = d\<lparr> head_block_time := 1005 \<rparr>" "gpo s2 = gpo demo_block_state"
      "length (witnesses s2) = 3" "head_block_number (dgp s2) = 1" "dynamic_flags (dgp s2) = 0"
    by (simp add: update_signing_witness_def n s1 deposit_witness_pay_def modify_obj_def get_obj_def Let_def checked_ops_def checked64_def int64_def)
  have "\<exists>s3. update_last_irreversible_block s2 = Inr s3"
    by (simp add: update_last_irreversible_block_def s2 p get_obj_def irreversible_offset_def GRAPHENE_IRREVERSIBLE_THRESHOLD_def Let_def)
  then obtain s3 where u3: "update_last_irreversible_block s2 = Inr s3" by blast
  note s3 = u3 irreversible_frame [OF u3, unfolded s2(2,3,5)]
  have a: "advance_head demo_exec 1 first_block s0 = Inr s3" by (simp add: advance_head_def e z s1(1) s2(1) u3 del: One_nat_def)
  obtain l2 where l2: "advance_chain demo_exec 1 False first_block l1 = Inr l2" "proposals l2 = []" "bstate l2 = s3"
    by (simp add: advance_chain_def a l maintain_if_due_def create_block_summary_def b modify_obj_def get_obj_def clear_expired_transactions_def del: One_nat_def)
  have l3: "clear_expired_proposals demo_exec l2 = Some (Inr l2)" by (simp add: clear_expired_proposals.simps first_expiring_proposal_def l2 sort_by_def)
  have l4: "clear_orders demo_exec l2 = Some (Inr l2)" using d
    by (simp add: clear_orders_def Let_def l2 s3 clear_expired_orders_def clear_limit_orders.simps first_expiring_def first_settlement_def idle_def sort_by_def)
  have "filter (\<lambda>i. is_market_issued (assets d ! i)) [0..<length (assets d)] = []"
    using d by (simp add: idle_def) (simp add: demo_trx_simps is_market_issued_def)
  then have "\<exists>l5. conclude_block demo_exec False l2 = Inr l5"
    by (simp add: conclude_block_def l2 s3 update_expired_feeds_def update_witness_schedule_def update_maintenance_flag_def p)
  then obtain l5 where l5: "conclude_block demo_exec False l2 = Inr l5" by blast
  have "apply_block_body demo_exec first_block genesis_ledger = Some (Inr l5)"
    unfolding apply_block_body_def Let_def n m v rbind_Inr obind.simps t [folded l1_def] by (simp add: l2(1) l3 l4 l5 del: One_nat_def)
  moreover have "checkpoints genesis_ledger = []" by (simp add: genesis_ledger_def demo_ledger_def)
  ultimately show ?thesis by (simp add: apply_block_def)
qed

lemma genesis_ok: "fc_safe (en_safe demo_exec)" "fees_ok demo_exec" "en_skip demo_exec = 0" "ids_determine_expiration (en_crypto demo_exec)"
  "ledger_ok genesis_ledger" "checkpoints genesis_ledger = []" "trx_index genesis_ledger = []" "head_block_number (dgp (bstate genesis_ledger)) = 0"
  "fst (head_block_id (dgp (bstate genesis_ledger))) = 0"
  using demo_signed_wf
  by (simp_all add: demo_exec_def fees_ok_def ids_determine_expiration_def demo_crypto_def ledger_ok_def genesis_ledger_def demo_ledger_def proposals_ok_def)

section \<open>Properties\<close>

text \<open>C1: No transaction is in a chain twice: if blocks are applied one after another to a chain that begins, with all checks on
  and fewer than 2 ^ 32 of them, all their transactions have different identifiers.  The records against replays may be cleared
  on the way, since what is no longer recorded has expired.\<close>

theorem no_transaction_twice:
  assumes S: "fc_safe (en_safe E)" and F: "fees_ok E" and no: "en_skip E = 0" and K: "ids_determine_expiration (en_crypto E)"
    and l: "ledger_ok l" "checkpoints l = []" "trx_index l = []" "head_block_number (dgp (bstate l)) = 0" "fst (head_block_id (dgp (bstate l))) = 0"
    and r: "apply_blocks E bs l = Some (Inr l')" and n: "length bs < 2 ^ 32"
  shows "distinct (map (cr_transaction_id (en_crypto E)) (concat (map transactions bs)))"
proof -
  have "remembers (en_crypto E) [] l" using l by (simp add: remembers_def)
  from remembers_chain [OF S F no K r l(1,2) this] n l(4) show ?thesis by (simp add: remembers_def)
qed

theorem no_transaction_twice_witness:
  "\<exists>l'. apply_blocks demo_exec [first_block] genesis_ledger = Some (Inr l') \<and> distinct (map (cr_transaction_id demo_crypto) [demo_trx])"
proof -
  from first_block_applies obtain l' where r: "apply_blocks demo_exec [first_block] genesis_ledger = Some (Inr l')" by blast
  from no_transaction_twice [OF genesis_ok r] r show ?thesis by (simp add: first_block_def)
qed

text \<open>C2: Applying blocks always ends, with checkpoints or without, and creates and destroys no value: for every asset, holdings and
  recorded supply keep their difference, where the fees set aside for buybacks and the budget of the witnesses count as held.\<close>

theorem blocks_end_and_conserve:
  assumes "fc_safe (en_safe E)" "fees_ok E" "market_wf (ldb l)" "proposals_ok l"
  shows "\<exists>r. apply_blocks E bs l = Some r \<and>
    (\<forall>l'. r = Inr l' \<longrightarrow> market_wf (ldb l') \<and> proposals_ok l' \<and> (\<forall>x. ledger_net l' x = ledger_net l x))"
proof -
  have ok: "ledger_ok l" using assms by (simp add: ledger_ok_def)
  from apply_blocks_end [OF assms(1,2) ok, of bs] obtain r where r: "apply_blocks E bs l = Some r" "\<forall>l'. r = Inr l' \<longrightarrow> steady l l'" by blast
  with r show ?thesis by (auto simp: steady_def ledger_ok_def)
qed

theorem blocks_end_and_conserve_witness:
  "\<exists>l'. apply_blocks demo_exec [first_block] genesis_ledger = Some (Inr l') \<and> ledger_net l' 0 = ledger_net genesis_ledger 0"
proof -
  from first_block_applies obtain l' where r: "apply_blocks demo_exec [first_block] genesis_ledger = Some (Inr l')" by blast
  have "market_wf (ldb genesis_ledger)" "proposals_ok genesis_ledger" using genesis_ok(5) by (simp_all add: ledger_ok_def)
  from blocks_end_and_conserve [OF genesis_ok(1,2) this, of "[first_block]"] r show ?thesis by simp
qed

text \<open>C3: A block that is applied with all checks on follows the head of the chain and is later than it; it comes from the witness whose turn the slot of
  its time is, with that witness's key, and its Merkle root is that of its transactions; then it is the head.\<close>

theorem block_from_scheduled_witness:
  assumes S: "fc_safe (en_safe E)" and F: "fees_ok E" and no: "en_skip E = 0" and ok: "ledger_ok l" "checkpoints l = []"
    and r: "apply_block E b l = Some (Inr l')"
  shows "previous b = head_block_id (dgp (bstate l)) \<and> head_block_time (ldb l) < timestamp b \<and>
    (\<exists>slot. get_slot_at_time (timestamp b) (bstate l) = Inr slot \<and> 0 < slot \<and> get_scheduled_witness slot (bstate l) = Inr (blk_witness b)) \<and>
    blk_witness b < length (witnesses (bstate l)) \<and> cr_signee (en_crypto E) b = signing_key (witnesses (bstate l) ! blk_witness b) \<and>
    transaction_merkle_root b = calculate_merkle_root (cr_hash_pair (en_crypto E)) (cr_hash_one (en_crypto E)) 0 (cr_merkle_digest (en_crypto E)) b \<and>
    head_block_id (dgp (bstate l')) = block_id (cr_block_hash (en_crypto E)) b \<and> head_block_time (ldb l') = timestamp b \<and>
    head_block_number (dgp (bstate l')) = unat (block_num b)"
proof -
  have z: "\<not> skips 0 f" for f by (simp add: skips_def)
  from r ok(2) have b: "apply_block_body E b l = Some (Inr l')" by (simp add: apply_block_def)
  then obtain u w where m: "check_merkle_root E b = Inr u" and v: "validate_block_header E b l = Inr w" by (rule apply_block_body_steps)
  note h = block_header_facts [OF v]
  show ?thesis using h apply_block_steady(2-4) [OF S F ok(1) r] m z by (auto simp: no check_merkle_root_def)
qed

theorem block_from_scheduled_witness_witness:
  "\<exists>l'. apply_block demo_exec first_block genesis_ledger = Some (Inr l') \<and> get_scheduled_witness 1 (bstate genesis_ledger) = Inr 1 \<and> head_block_id (dgp (bstate l')) = (1, 1005)"
proof -
  from first_block_applies obtain l' where r: "apply_block demo_exec first_block genesis_ledger = Some (Inr l')" by (auto simp: obind_Inr)
  note f = block_from_scheduled_witness [OF genesis_ok(1,2,3,5,6) r]
  have "get_scheduled_witness 1 (bstate genesis_ledger) = Inr 1"
    by (simp add: get_scheduled_witness_def genesis_ledger_def demo_ledger_def demo_block_state_def)
  with f r show ?thesis by (simp add: block_id_def block_num_def num_from_id_def first_block_def demo_exec_def demo_crypto_def)
qed



end
