(* ===== verification/Spec2Isabelle.thy ===== *)
theory Spec2Isabelle
  imports Object_Id Undo_Database Fork_Database Market_Properties Proposal_Properties Block_Application
begin

text \<open>
  \<^bold>\<open>The program.\<close>  The repository is a graphene blockchain node.  Its core is the chain library
  (\<^verbatim>\<open>src/libraries/chain\<close>) over an in-memory object database (\<^verbatim>\<open>src/libraries/db\<close>): a block is pushed into the fork
  database, its transactions are checked against the authorities of the accounts they name, each operation of a
  transaction is run by its evaluator on the ledger, and the undo database takes the changes back when a block or a
  transaction fails or a longer fork appears.  Between blocks the witness schedule says who may produce the next one.

  \<^bold>\<open>The theories\<close>, in the order in which they build on each other:

  \<^item> \<open>Prelude\<close>: results (\<open>error + value\<close>) and their combinators, checked 64-bit arithmetic (\<^verbatim>\<open>fc::safe\<close>) as the locale
    \<open>fc_safe\<close> with its interpretation, 128-bit wrap-around, the stable sort that stands for ordered indexes.
  \<^item> \<open>Object_Id\<close> (\<^verbatim>\<open>db/object_id.hpp\<close>): the 64-bit identifier; layout round trip.
  \<^item> \<open>Undo_Database\<close> (\<^verbatim>\<open>db/undo_database.cpp\<close>, \<^verbatim>\<open>object_database.cpp\<close>, \<^verbatim>\<open>generic_index.hpp\<close>): sessions, undo, merge, commit,
    pop.  Undo and pop restore the state at the start of the session, merge composes undo states, and a session that
    reuses a unique key cannot be undone.
  \<^item> \<open>Asset\<close> (\<^verbatim>\<open>protocol/asset.cpp\<close>): amounts, prices and feeds; the price order is the order of ratios, conversions are
    exact floors and gain nothing on a round trip, the call price exists.
  \<^item> \<open>Block\<close> (\<^verbatim>\<open>protocol/block.cpp\<close>): the merkle root computed in place is the root of the tree, and binds the transactions.
  \<^item> \<open>Fork_Database\<close> (\<^verbatim>\<open>fork_database.cpp\<close>): the index of recent blocks with its shared pointers as addresses; the head is
    the highest block, links are consistent, \<^verbatim>\<open>fetch_branch_from\<close> ends and meets at the common ancestor.
  \<^item> \<open>Authority\<close> (\<^verbatim>\<open>protocol/transaction.cpp\<close>, \<^verbatim>\<open>authority.hpp\<close>): \<^verbatim>\<open>verify_authority\<close> accepts only what the signatures
    support, complete up to the recursion depth; minimised signature sets still verify.
  \<^item> \<open>Vesting\<close> (\<^verbatim>\<open>vesting_balance_object.cpp\<close>): both policies keep their invariant and allow exactly what has vested.
  \<^item> \<open>Chain_State\<close> (\<^verbatim>\<open>db_balance.cpp\<close>, \<^verbatim>\<open>account_object.cpp\<close> and the object headers): the ledger as the record
    \<open>chain_db\<close>, balances, deposits that vest, and the distribution of fees.
  \<^item> \<open>Evaluator\<close> (\<^verbatim>\<open>evaluator.{hpp,cpp}\<close>, \<^verbatim>\<open>transfer_evaluator.cpp\<close>, \<^verbatim>\<open>vesting_balance_evaluator.cpp\<close>): the fee path around
    each operation; transfers move exactly what they say.
  \<^item> \<open>Market\<close>, \<open>Market_Conservation\<close>, \<open>Market_Matching\<close>, \<open>Market_Properties\<close> (\<^verbatim>\<open>db_market.cpp\<close>,
    \<^verbatim>\<open>market_evaluator.cpp\<close>, \<^verbatim>\<open>check_for_blackswan\<close>): orders, matching, margin calls, black swans, settlement.  The measure
    \<open>gross\<close> adds up every holding of an asset, \<open>supply_of\<close> is its recorded supply, and every routine of the market keeps
    their difference.
  \<^item> \<open>Witness_Schedule\<close> (\<^verbatim>\<open>db_witness_schedule.cpp\<close>, the first half of \<^verbatim>\<open>db_update.cpp\<close>): slots, the shuffle, missed
    blocks, pay and irreversibility, on the record \<open>block_state\<close> around the ledger.
  \<^item> \<open>Asset_Object\<close>, \<open>Asset_Evaluator\<close> (\<^verbatim>\<open>asset_object.cpp\<close>, \<^verbatim>\<open>asset_evaluator.cpp\<close>, \<^verbatim>\<open>protocol/asset_ops.cpp\<close>): median
    feeds, amount strings, every asset operation.
  \<^item> \<open>Withdraw_Permission\<close> (\<^verbatim>\<open>withdraw_permission_evaluator.cpp\<close>): claims of a period stay within its limit.
  \<^item> \<open>Account_Evaluator\<close> (\<^verbatim>\<open>account_evaluator.cpp\<close>, \<^verbatim>\<open>protocol/account.cpp\<close>, \<^verbatim>\<open>balance_evaluator.cpp\<close>): names, account
    operations, the migration of balances to Ethereum addresses, claims of genesis balances.
  \<^item> \<open>Operation_Effects\<close>, \<open>Operations\<close> (\<^verbatim>\<open>protocol/operations.hpp\<close>, \<^verbatim>\<open>database::apply_operation\<close>): the contract of an
    evaluator as the locale \<open>op_evaluator\<close>, met by every operation of the variant, so that no list of operations creates
    or destroys value.
  \<^item> \<open>Expiration\<close> (\<^verbatim>\<open>clear_expired_transactions\<close>, \<^verbatim>\<open>clear_expired_orders\<close>, \<^verbatim>\<open>update_expired_feeds\<close> of \<^verbatim>\<open>db_update.cpp\<close>): the
    nested loops over settlements always return and conserve value.
  \<^item> \<open>Chain_Operations\<close>, \<open>Ledger\<close> (\<^verbatim>\<open>protocol/{witness,committee_member,assert,proposal}.cpp\<close>, \<^verbatim>\<open>database.hpp\<close>): the variant of all
    operations, who must sign them, and the record \<open>ledger\<close> of all that a block changes.
  \<^item> \<open>Governance\<close> (\<^verbatim>\<open>witness_evaluator.cpp\<close>, \<^verbatim>\<open>committee_member_evaluator.cpp\<close>, \<^verbatim>\<open>assert_evaluator.cpp\<close>): the evaluators that
    concern the block state, in two halves between which a proposal may run.
  \<^item> \<open>Proposals\<close> (\<^verbatim>\<open>proposal_evaluator.cpp\<close>, \<^verbatim>\<open>push_proposal\<close>, \<^verbatim>\<open>clear_expired_proposals\<close>): lists of operations and the proposals
    they complete, as the partial function \<open>run_operations\<close>; the relation \<open>runs_to\<close> says what it keeps of the ledger, and it ends.
  \<^item> \<open>Transactions\<close>, \<open>Proposal_Properties\<close> (\<^verbatim>\<open>_apply_transaction\<close>): what an accepted transaction has been checked for; proposals
    end; the parameters that shut the committee out.
  \<^item> \<open>Maintenance\<close> (\<^verbatim>\<open>db_maint.cpp\<close>, \<^verbatim>\<open>vote_count.hpp\<close>): votes are counted exactly, the elected have the most votes, the
    authority built from votes is a majority, the budget stays within the reserve, and value is conserved.
  \<^item> \<open>Block_Application\<close> (\<^verbatim>\<open>apply_block\<close>, \<^verbatim>\<open>_apply_block\<close>, \<^verbatim>\<open>validate_block_header\<close>): all of it put together; applying blocks ends
    and conserves value, comes from the scheduled witness, and no transaction is in a chain twice.

  \<^bold>\<open>Conventions.\<close>  A throw, a failed assertion or a read that C++ leaves undefined is a value of \<open>fc_exception\<close> on the left
  of a result.  Objects of an index are a list, their position or key the identifier.  Amounts are integers with the 64-bit
  check of \<^verbatim>\<open>fc::safe\<close> written out; its arithmetic is the parameter \<open>S\<close>, of which the theorems only use the laws of
  \<open>fc_safe\<close>.  Hashes, key recovery and the fee schedule are parameters too.

  \<^bold>\<open>Bounds and loops.\<close>  Loops over indexes are structural or have a termination proof by a measure (the number of orders
  left, the height of a block, the number of permissions left).  The loops of \<^verbatim>\<open>call_price\<close> and of the fork walk, and the
  recursion through proposals, return in all states the theorems admit; they are not cut off by fuel.

  \<^bold>\<open>Not modelled.\<close>  The network, the application and its APIs, the wallet, plugins and programs (sockets, threads, timers,
  interactive code); file I/O of the databases; serialisation, hashing and keys; confidential transfers, which rest on a
  library outside the repository; genesis; the fee schedule, whose answer is a parameter.  Of the chain management, the
  queue of pending transactions and the production of blocks, which only combine the fork database, the undo sessions and the
  application of blocks.
\<close>

end
